(* ===== verification/Prelude.thy ===== *)
theory Prelude
  imports Main "HOL-Library.Sublist"
begin

text \<open>
  Shared vocabulary of the development: the errors a JavaScript engine raises on the
  modelled paths, the result type of an operation that can raise, the collections of
  rewrite rules the component theories extend, and the list lemmas more than one
  component uses.
\<close>

section \<open>Errors as values\<close>

text \<open>
  \<open>TypeError\<close> is raised when a property of \<open>null\<close> or \<open>undefined\<close> is read or a
  value that is not a function is called; \<open>Thrown\<close> carries a value the source throws
  itself.
\<close>

datatype js_error = TypeError | RangeError | Thrown string

type_synonym 'a js = "js_error + 'a"

abbreviation ok :: "'a \<Rightarrow> 'a js" where
  "ok \<equiv> Inr"

abbreviation raise :: "js_error \<Rightarrow> 'a js" where
  "raise \<equiv> Inl"

definition js_bind :: "'a js \<Rightarrow> ('a \<Rightarrow> 'b js) \<Rightarrow> 'b js" where
  "js_bind m f = (case m of Inl e \<Rightarrow> Inl e | Inr a \<Rightarrow> f a)"

lemma js_bind_simps [simp]:
  "js_bind (Inl e) f = Inl e"
  "js_bind (Inr a) f = f a"
  by (simp_all add: js_bind_def)

lemma js_bind_eq_Inr: "js_bind m f = Inr b \<longleftrightarrow> (\<exists>a. m = Inr a \<and> f a = Inr b)"
  by (cases m) simp_all

lemma js_bind_eq_Inl: "js_bind m f = Inl e \<longleftrightarrow> m = Inl e \<or> (\<exists>a. m = Inr a \<and> f a = Inl e)"
  by (cases m) auto

text \<open>An array read: \<open>a[i]\<close> is \<open>undefined\<close> outside the array, here \<open>None\<close>.\<close>

definition aref :: "'a list \<Rightarrow> nat \<Rightarrow> 'a option" where
  "aref xs i = (if i < length xs then Some (xs ! i) else None)"

lemma aref_in [simp]: "i < length xs \<Longrightarrow> aref xs i = Some (xs ! i)"
  by (simp add: aref_def)

lemma aref_out [simp]: "length xs \<le> i \<Longrightarrow> aref xs i = None"
  by (simp add: aref_def)

lemma aref_Some_iff: "aref xs i = Some x \<longleftrightarrow> i < length xs \<and> xs ! i = x"
  by (auto simp: aref_def)

lemma aref_None_iff: "aref xs i = None \<longleftrightarrow> length xs \<le> i"
  by (auto simp: aref_def)

section \<open>Collections of rules\<close>

named_theorems js_string_simps \<open>rewriting of the string primitives\<close>
named_theorems inv_intros \<open>preservation of the component invariants\<close>

section \<open>Lists\<close>

lemma sum_list_take_Suc:
  "i < length xs \<Longrightarrow> sum_list (take (Suc i) xs) = sum_list (take i xs) + (xs ! i :: nat)"
  by (simp add: take_Suc_conv_app_nth)

lemma concat_take_Suc: "i < length xs \<Longrightarrow> concat (take (Suc i) xs) = concat (take i xs) @ xs ! i"
  by (simp add: take_Suc_conv_app_nth)

lemma take_prefix_append: "prefix p s \<Longrightarrow> take (length p) s = p"
  by (auto simp: prefix_def)

lemma filter_id_conv_all: "(\<forall>x \<in> set xs. P x) \<Longrightarrow> filter P xs = xs"
  by (simp add: filter_id_conv)

lemma length_filter_update:
  "i < length xs \<Longrightarrow> P (xs ! i) \<Longrightarrow> \<not> P y \<Longrightarrow> length (filter P xs) = Suc (length (filter P (xs[i := y])))"
proof (induction xs arbitrary: i)
  case (Cons x xs)
  then show ?case by (cases i) auto
qed simp

lemma takeWhile_dropWhile_all:
  "(\<forall>x \<in> set a. P x) \<Longrightarrow> dropWhile P (a @ b) = dropWhile P b"
  by (simp add: dropWhile_append)

end
