(* ===== verification/Deferred.thy ===== *)
theory Deferred
  imports Prelude
begin

text \<open>
  Deferred objects of \<open>jquery.js\<close>: the callback list \<open>_Deferred\<close>, the two lists of a
  \<open>Deferred\<close>, and \<open>when\<close>.  A callback is a name and the list of what it does with the
  deferred object while it runs: it may add callbacks, resolve, reject, or throw.
\<close>

section \<open>Callbacks and callback lists\<close>

datatype side = DoneSide | FailSide

datatype val = Undefined | Text string | PromiseObject | ArrayOf "val list"

text \<open>An argument of \<open>done\<close> is a function, an array of arguments, or something that is ignored.\<close>

datatype callback = Callback nat "action list"
and action = AddTo side "argument list" | Settle side "val list" | Throw
and argument = Fn callback | Args "argument list" | OtherValue

text \<open>The entries of a list: callbacks of clients, and the \<open>cancel\<close> of the list of a side.\<close>

datatype entry = Call callback | Cancel side

record deferred_list =
  callbacks :: "entry list"
  fired :: "val list option"
  firing :: bool
  cancelled :: bool

text \<open>A deferred object: its two lists, and the calls of client callbacks with their arguments.\<close>

record deferred =
  done_list :: deferred_list
  fail_list :: deferred_list
  calls :: "(side \<times> nat \<times> val list) list"

definition new_list :: deferred_list where
  "new_list = \<lparr>callbacks = [], fired = None, firing = False, cancelled = False\<rparr>"

fun get_list :: "side \<Rightarrow> deferred \<Rightarrow> deferred_list" where
  "get_list DoneSide d = done_list d"
| "get_list FailSide d = fail_list d"

fun put_list :: "side \<Rightarrow> deferred_list \<Rightarrow> deferred \<Rightarrow> deferred" where
  "put_list DoneSide l d = d\<lparr>done_list := l\<rparr>"
| "put_list FailSide l d = d\<lparr>fail_list := l\<rparr>"

definition update_list :: "side \<Rightarrow> (deferred_list \<Rightarrow> deferred_list) \<Rightarrow> deferred \<Rightarrow> deferred" where
  "update_list s f d = put_list s (f (get_list s d)) d"

definition cancel_list :: "deferred_list \<Rightarrow> deferred_list" where
  "cancel_list l = l\<lparr>cancelled := True, callbacks := []\<rparr>"

definition isResolved :: "deferred_list \<Rightarrow> bool" where
  "isResolved l \<longleftrightarrow> firing l \<or> fired l \<noteq> None"

text \<open>
  \<open>resolveWith\<close> and \<open>done\<close>, over the loop that fires a list; the boolean of a result tells whether
  an exception is on its way.  The flags are set after the loop even then (\<open>finally\<close>).
\<close>

type_synonym firing_loop = "side \<Rightarrow> val list \<Rightarrow> deferred \<Rightarrow> (bool \<times> deferred) option"

definition resolveWith :: "firing_loop \<Rightarrow> side \<Rightarrow> val list \<Rightarrow> deferred \<Rightarrow> (bool \<times> deferred) option" where
  "resolveWith loop s args d =
     (let l = get_list s d
      in if \<not> cancelled l \<and> fired l = None \<and> \<not> firing l
         then map_option (\<lambda>(thrown, d'). (thrown, update_list s (\<lambda>l. l\<lparr>fired := Some args, firing := False\<rparr>) d'))
                (loop s args (update_list s (\<lambda>l. l\<lparr>firing := True\<rparr>) d))
         else Some (False, d))"

text \<open>The loop of \<open>done\<close> over its arguments; an array is passed to \<open>done\<close> again.\<close>

fun push :: "argument \<Rightarrow> entry list \<Rightarrow> entry list" where
  "push (Fn c) es = es @ [Call c]"
| "push (Args xs) es = fold push xs es"
| "push OtherValue es = es"

definition add_callbacks :: "firing_loop \<Rightarrow> side \<Rightarrow> argument list \<Rightarrow> deferred \<Rightarrow> (bool \<times> deferred) option" where
  "add_callbacks loop s cbs d =
     (let l = get_list s d
      in if cancelled l then Some (False, d)
         else (let d' = update_list s (\<lambda>l. l\<lparr>fired := None, callbacks := fold push cbs (callbacks l)\<rparr>) d
               in case fired l of None \<Rightarrow> Some (False, d') | Some args \<Rightarrow> resolveWith loop s args d'))"

text \<open>What a user callback does, up to an exception.\<close>

fun run_actions :: "firing_loop \<Rightarrow> action list \<Rightarrow> deferred \<Rightarrow> (bool \<times> deferred) option" where
  "run_actions loop [] d = Some (False, d)"
| "run_actions loop (a # as) d =
     Option.bind
       (case a of AddTo s cbs \<Rightarrow> add_callbacks loop s cbs d
        | Settle s args \<Rightarrow> resolveWith loop s args d
        | Throw \<Rightarrow> Some (True, d))
       (\<lambda>(thrown, d'). if thrown then Some (True, d') else run_actions loop as d')"

text \<open>
  The \<open>while\<close> loop of \<open>resolveWith\<close>, with fuel for the callbacks still to be called (a callback may
  fire the other list from within); \<open>None\<close> would mean that the fuel did not suffice.
\<close>

fun fire :: "nat \<Rightarrow> firing_loop" where
  "fire 0 s args d = None"
| "fire (Suc n) s args d =
     (case callbacks (get_list s d) of
        [] \<Rightarrow> Some (False, d)
      | cb # rest \<Rightarrow>
          (let d' = update_list s (\<lambda>l. l\<lparr>callbacks := rest\<rparr>) d
           in case cb of
                Cancel s' \<Rightarrow> fire n s args (update_list s' cancel_list d')
              | Call (Callback i as) \<Rightarrow>
                  Option.bind (run_actions (fire n) as (d'\<lparr>calls := calls d' @ [(s, i, args)]\<rparr>))
                    (\<lambda>(thrown, d''). if thrown then Some (True, d'') else fire n s args d'')))"

text \<open>The callbacks in a callback, itself included.\<close>

primrec cb_weight :: "callback \<Rightarrow> nat" and act_weight :: "action \<Rightarrow> nat" and arg_weight :: "argument \<Rightarrow> nat" where
  "cb_weight (Callback i as) = Suc (sum_list (map act_weight as))"
| "act_weight (AddTo s cbs) = sum_list (map arg_weight cbs)"
| "act_weight (Settle s args) = 0"
| "act_weight Throw = 0"
| "arg_weight (Fn c) = cb_weight c"
| "arg_weight (Args xs) = sum_list (map arg_weight xs)"
| "arg_weight OtherValue = 0"

fun entry_weight :: "entry \<Rightarrow> nat" where
  "entry_weight (Call c) = cb_weight c"
| "entry_weight (Cancel s) = 1"

definition weight :: "deferred \<Rightarrow> nat" where
  "weight d = sum_list (map entry_weight (callbacks (done_list d))) + sum_list (map entry_weight (callbacks (fail_list d)))"

text \<open>\<open>Deferred\<close>: each list starts with a callback that cancels the other.\<close>

definition Deferred_new :: deferred where
  "Deferred_new = \<lparr>done_list = new_list\<lparr>callbacks := [Cancel FailSide]\<rparr>,
     fail_list = new_list\<lparr>callbacks := [Cancel DoneSide]\<rparr>, calls = []\<rparr>"

text \<open>The calls of a client, each with fuel enough; an exception of a callback ends the call.\<close>

datatype operation = Add side "argument list" | Finish side "val list"

fun perform :: "operation \<Rightarrow> deferred \<Rightarrow> deferred option" where
  "perform (Add s cbs) d = map_option snd (add_callbacks (fire (Suc (weight d + sum_list (map arg_weight cbs)))) s cbs d)"
| "perform (Finish s args) d = map_option snd (resolveWith (fire (Suc (weight d))) s args d)"

fun perform_all :: "operation list \<Rightarrow> deferred \<Rightarrow> deferred option" where
  "perform_all [] d = Some d"
| "perform_all (op # ops) d = Option.bind (perform op d) (perform_all ops)"

section \<open>The lists of a deferred object\<close>

lemma list_get_put [simp]: "get_list s (put_list s' l d) = (if s = s' then l else get_list s d)"
  by (cases s; cases s') simp_all

lemma list_get_update [simp]: "get_list s (update_list s' f d) = (if s = s' then f (get_list s d) else get_list s d)"
  by (simp add: update_list_def)

lemma calls_put [simp]: "calls (put_list s l d) = calls d"
  by (cases s) simp_all

lemma calls_update [simp]: "calls (update_list s f d) = calls d"
  by (simp add: update_list_def)

lemma get_calls [simp]: "get_list s (d\<lparr>calls := c\<rparr>) = get_list s d"
  by (cases s) simp_all

fun other :: "side \<Rightarrow> side" where
  "other DoneSide = FailSide"
| "other FailSide = DoneSide"

lemma other_neq [simp]: "other s \<noteq> s" "s \<noteq> other s" "other (other s) = s"
  by (cases s; simp)+

lemma neq_other: "s' \<noteq> s \<longleftrightarrow> s' = other s"
  by (cases s; cases s') simp_all

lemma weight_sides: "weight d = sum_list (map entry_weight (callbacks (get_list s d))) + sum_list (map entry_weight (callbacks (get_list (other s) d)))"
  by (cases s) (simp_all add: weight_def)

lemma push_weight: "sum_list (map entry_weight (push x es)) = sum_list (map entry_weight es) + arg_weight x"
proof (induction x es rule: push.induct)
  case (2 xs es)
  have "sum_list (map entry_weight (fold push ys es)) = sum_list (map entry_weight es) + sum_list (map arg_weight ys)"
    if "set ys \<subseteq> set xs" for ys
    using that 2 by (induction ys arbitrary: es) auto
  then show ?case by simp
qed simp_all

lemma fold_push_weight [simp]:
  "sum_list (map entry_weight (fold push xs es)) = sum_list (map entry_weight es) + sum_list (map arg_weight xs)"
  using push_weight [of "Args xs" es] by simp

lemma weight_calls [simp]: "weight (d\<lparr>calls := c\<rparr>) = weight d"
  by (simp add: weight_def)

section \<open>The fuel is enough\<close>

definition enough :: "nat \<Rightarrow> (bool \<times> deferred) option \<Rightarrow> bool" where
  "enough b r \<longleftrightarrow> (\<exists>thrown d'. r = Some (thrown, d') \<and> weight d' \<le> b)"

lemma enough_Some [simp]: "enough b (Some (thrown, d)) \<longleftrightarrow> weight d \<le> b"
  by (simp add: enough_def)

lemma enoughE:
  assumes "enough b r" obtains thrown d' where "r = Some (thrown, d')" "weight d' \<le> b"
  using assms by (auto simp: enough_def)

lemma enough_mono: "enough b r \<Longrightarrow> b \<le> b' \<Longrightarrow> enough b' r"
  by (fastforce simp: enough_def)

text \<open>A loop that ends on deferred objects of weight up to \<open>w\<close> without adding to them.\<close>

definition loop_ends :: "nat \<Rightarrow> firing_loop \<Rightarrow> bool" where
  "loop_ends w loop \<longleftrightarrow> (\<forall>s args d. weight d \<le> w \<longrightarrow> enough (weight d) (loop s args d))"

lemma weight_update_same: "(\<And>l. callbacks (f l) = callbacks l) \<Longrightarrow> weight (update_list s f d) = weight d"
  by (simp add: weight_sides [of _ s])

lemma resolveWith_enough:
  assumes "loop_ends w loop" "weight d \<le> w"
  shows "enough (weight d) (resolveWith loop s args d)"
proof (cases "\<not> cancelled (get_list s d) \<and> fired (get_list s d) = None \<and> \<not> firing (get_list s d)")
  case True
  let ?d = "update_list s (\<lambda>l. l\<lparr>firing := True\<rparr>) d"
  have w: "weight ?d = weight d" by (simp add: weight_update_same)
  with assms have "enough (weight d) (loop s args ?d)" unfolding loop_ends_def by metis
  then obtain t d' where "loop s args ?d = Some (t, d')" "weight d' \<le> weight d" by (rule enoughE)
  then show ?thesis using True by (simp add: resolveWith_def Let_def weight_update_same)
next
  case False
  then show ?thesis by (auto simp: resolveWith_def Let_def)
qed

lemma add_callbacks_enough:
  assumes "loop_ends w loop" "weight d + sum_list (map arg_weight cbs) \<le> w"
  shows "enough (weight d + sum_list (map arg_weight cbs)) (add_callbacks loop s cbs d)"
proof -
  let ?d = "update_list s (\<lambda>l. l\<lparr>fired := None, callbacks := fold push cbs (callbacks l)\<rparr>) d"
  have w: "weight ?d = weight d + sum_list (map arg_weight cbs)" by (simp add: weight_sides [of _ s])
  show ?thesis
  proof (cases "fired (get_list s d)")
    case None
    then show ?thesis using w by (auto simp: add_callbacks_def Let_def)
  next
    case (Some args)
    from resolveWith_enough [OF assms(1), of ?d s args] show ?thesis
      using Some assms(2) w by (auto simp: add_callbacks_def Let_def)
  qed
qed

lemma run_actions_enough:
  assumes "loop_ends w loop" "weight d + sum_list (map act_weight as) \<le> w"
  shows "enough (weight d + sum_list (map act_weight as)) (run_actions loop as d)"
  using assms(2)
proof (induction as arbitrary: d)
  case Nil
  then show ?case by simp
next
  case (Cons a as)
  let ?step = "case a of AddTo s cbs \<Rightarrow> add_callbacks loop s cbs d | Settle s args \<Rightarrow> resolveWith loop s args d
      | Throw \<Rightarrow> Some (True, d)"
  have "enough (weight d + act_weight a) ?step"
  proof (cases a)
    case (AddTo s cbs)
    then show ?thesis using add_callbacks_enough [OF assms(1), of d cbs s] Cons.prems by simp
  next
    case (Settle s args)
    then show ?thesis using resolveWith_enough [OF assms(1), of d s args] Cons.prems by simp
  qed simp
  then obtain t d' where st: "?step = Some (t, d')" "weight d' \<le> weight d + act_weight a" by (rule enoughE)
  show ?case
  proof (cases t)
    case True
    then show ?thesis using st by simp
  next
    case False
    have "weight d' + sum_list (map act_weight as) \<le> w" using st(2) Cons.prems by simp
    from Cons.IH [OF this] obtain t' d'' where "run_actions loop as d' = Some (t', d'')"
      "weight d'' \<le> weight d' + sum_list (map act_weight as)" by (rule enoughE)
    then show ?thesis using st False by simp
  qed
qed

lemma cancel_weight: "weight (update_list s cancel_list d) \<le> weight d"
  by (simp add: weight_sides [of _ s] cancel_list_def)

lemma fire_enough: "weight d < n \<Longrightarrow> enough (weight d) (fire n s args d)"
proof (induction n arbitrary: s args d)
  case (Suc n)
  have ends: "loop_ends w (fire n)" if "w < n" for w
    using Suc.IH that by (auto simp: loop_ends_def)
  show ?case
  proof (cases "callbacks (get_list s d)")
    case Nil
    then show ?thesis by simp
  next
    case (Cons cb rest)
    let ?d = "update_list s (\<lambda>l. l\<lparr>callbacks := rest\<rparr>) d"
    have w: "weight ?d + entry_weight cb = weight d" using Cons by (simp add: weight_sides [of _ s])
    show ?thesis
    proof (cases cb)
      case (Cancel s')
      let ?d' = "update_list s' cancel_list ?d"
      have "weight ?d' \<le> weight ?d" by (rule cancel_weight)
      moreover have "weight ?d < n" "weight ?d \<le> weight d" using w Suc.prems Cancel by simp_all
      ultimately have "weight ?d' < n" "weight ?d' \<le> weight d" by linarith+
      with Suc.IH [of ?d' s args] show ?thesis using Cons Cancel by (auto elim: enough_mono simp: Let_def)
    next
      case (Call c)
      obtain i as where c: "c = Callback i as" by (cases c)
      note User = Call this
      let ?d' = "?d\<lparr>calls := calls ?d @ [(s, i, args)]\<rparr>"
      let ?w = "weight ?d + sum_list (map act_weight as)"
      have lt: "?w < n" "?w \<le> weight d" using w Suc.prems User by simp_all
      have "enough ?w (run_actions (fire n) as ?d')"
        using run_actions_enough [OF ends [OF lt(1)], of ?d' as] by simp
      then obtain t d'' where r: "run_actions (fire n) as ?d' = Some (t, d'')" "weight d'' \<le> ?w"
        by (auto elim: enoughE)
      show ?thesis
      proof (cases t)
        case True
        then show ?thesis using Cons User r lt(2) by (simp add: Let_def)
      next
        case False
        have "weight d'' < n" using r(2) lt(1) by simp
        from Suc.IH [OF this, of s args] show ?thesis
          using Cons User r lt(2) False by (auto elim: enough_mono simp: Let_def)
      qed
    qed
  qed
qed simp

lemma fire_loop_ends: "w < n \<Longrightarrow> loop_ends w (fire n)"
  using fire_enough by (auto simp: loop_ends_def)

lemma perform_ends: "\<exists>d'. perform op d = Some d'"
proof (cases op)
  case (Add s cbs)
  have "enough (weight d + sum_list (map arg_weight cbs)) (add_callbacks (fire (Suc (weight d + sum_list (map arg_weight cbs)))) s cbs d)"
    by (rule add_callbacks_enough [OF fire_loop_ends [OF lessI] order_refl])
  then show ?thesis using Add by (auto elim: enoughE)
next
  case (Finish s args)
  have "enough (weight d) (resolveWith (fire (Suc (weight d))) s args d)"
    by (rule resolveWith_enough [OF fire_loop_ends [OF lessI] order_refl])
  then show ?thesis using Finish by (auto elim: enoughE)
qed

lemma perform_all_ends: "\<exists>d'. perform_all ops d = Some d'"
proof (induction ops arbitrary: d)
  case (Cons op ops)
  obtain d' where "perform op d = Some d'" using perform_ends by blast
  with Cons [of d'] show ?case by simp
qed simp

section \<open>One side and one list of arguments\<close>

fun functions_of :: "argument \<Rightarrow> callback list" where
  "functions_of (Fn c) = [c]"
| "functions_of (Args xs) = concat (map functions_of xs)"
| "functions_of OtherValue = []"

lemma push_functions: "push x es = es @ map Call (functions_of x)"
proof (induction x es rule: push.induct)
  case (2 xs es)
  have "fold push ys es = es @ map Call (concat (map functions_of ys))" if "set ys \<subseteq> set xs" for ys
    using that 2 by (induction ys arbitrary: es) auto
  then show ?case by simp
qed simp_all

lemma fold_push: "fold push xs es = es @ map Call (concat (map functions_of xs))"
  using push_functions [of "Args xs" es] by simp

text \<open>
  Before it is settled, each list of a deferred object starts with the cancellation of the other
  and nothing has been called; afterwards one list is dead and all calls have the same arguments.
\<close>

definition pending :: "deferred \<Rightarrow> bool" where
  "pending d \<longleftrightarrow> calls d = [] \<and>
     (\<forall>s. \<exists>cs. get_list s d = new_list\<lparr>callbacks := Cancel (other s) # map Call cs\<rparr>)"

definition settling :: "side \<Rightarrow> val list \<Rightarrow> deferred \<Rightarrow> bool" where
  "settling s args d \<longleftrightarrow> cancelled (get_list (other s) d) \<and> \<not> cancelled (get_list s d) \<and>
     (\<exists>cs. callbacks (get_list s d) = map Call cs) \<and> (\<forall>c \<in> set (calls d). fst c = s \<and> snd (snd c) = args)"

definition firing_now :: "side \<Rightarrow> val list \<Rightarrow> deferred \<Rightarrow> bool" where
  "firing_now s args d \<longleftrightarrow> settling s args d \<and> firing (get_list s d) \<and> fired (get_list s d) = None"

definition settled :: "side \<Rightarrow> val list \<Rightarrow> deferred \<Rightarrow> bool" where
  "settled s args d \<longleftrightarrow> settling s args d \<and> \<not> firing (get_list s d) \<and> fired (get_list s d) = Some args"

lemmas settling_defs = firing_now_def settled_def settling_def

lemma side_cases: "s' = s \<or> s' = other s"
  by (cases s; cases s') simp_all

lemma resolveWith_firing:
  assumes "firing_now s args d"
  shows "resolveWith loop s' args' d = Some (False, d)"
  using assms side_cases [of s' s] by (auto simp: resolveWith_def Let_def settling_defs)

lemma add_callbacks_firing:
  assumes "firing_now s args d"
  shows "\<exists>d'. add_callbacks loop s' xs d = Some (False, d') \<and> firing_now s args d'"
proof (cases "s' = s")
  case True
  obtain cs where "callbacks (get_list s d) = map Call cs" using assms by (auto simp: settling_defs)
  then have "\<exists>cs'. fold push xs (callbacks (get_list s d)) = map Call cs'"
    by (auto simp: fold_push simp flip: map_append)
  then show ?thesis using assms True by (auto simp: add_callbacks_def Let_def settling_defs)
next
  case False
  then show ?thesis using assms side_cases [of s' s] by (auto simp: add_callbacks_def Let_def settling_defs)
qed

lemma run_actions_firing:
  "firing_now s args d \<Longrightarrow> \<exists>t d'. run_actions loop as d = Some (t, d') \<and> firing_now s args d'"
proof (induction as arbitrary: d)
  case (Cons a as)
  show ?case
  proof (cases a)
    case (AddTo s' xs)
    obtain d' where "add_callbacks loop s' xs d = Some (False, d')" "firing_now s args d'"
      using add_callbacks_firing [OF Cons.prems] by blast
    then show ?thesis using Cons.IH [of d'] AddTo by simp
  next
    case (Settle s' args')
    then show ?thesis using Cons.IH [OF Cons.prems] resolveWith_firing [OF Cons.prems] by simp
  next
    case Throw
    then have "run_actions loop (a # as) d = Some (True, d)" by simp
    then show ?thesis using Cons.prems by blast
  qed
next
  case Nil
  then show ?case using run_actions.simps(1) by blast
qed

lemma fire_firing: "fire n s args d = Some (t, d') \<Longrightarrow> firing_now s args d \<Longrightarrow> firing_now s args d'"
proof (induction n arbitrary: d)
  case (Suc n)
  show ?case
  proof (cases "callbacks (get_list s d)")
    case Nil
    then show ?thesis using Suc.prems by simp
  next
    case (Cons e rest)
    then obtain i as cs where e: "e = Call (Callback i as)" "rest = map Call cs"
      using Suc.prems(2) by (auto simp: settling_defs map_eq_Cons_conv neq_Nil_conv) (metis callback.exhaust)
    let ?d = "update_list s (\<lambda>l. l\<lparr>callbacks := rest\<rparr>) d"
    let ?d' = "?d\<lparr>calls := calls ?d @ [(s, i, args)]\<rparr>"
    have "firing_now s args ?d'" using Suc.prems(2) e by (auto simp: settling_defs)
    from run_actions_firing [OF this, of "fire n" as] obtain t' d''
      where r: "run_actions (fire n) as ?d' = Some (t', d'')" "firing_now s args d''" by blast
    show ?thesis
    proof (cases t')
      case True
      then show ?thesis using Suc.prems Cons e r by (simp add: Let_def)
    next
      case False
      then show ?thesis using Suc.prems Cons e r Suc.IH [of d''] by (simp add: Let_def)
    qed
  qed
qed simp

lemma fire_pending:
  assumes "fire n s args (update_list s (\<lambda>l. l\<lparr>firing := True\<rparr>) d) = Some (t, d')" "pending d"
  shows "firing_now s args d'"
proof (cases n)
  case (Suc m)
  obtain cs where cs: "get_list s d = new_list\<lparr>callbacks := Cancel (other s) # map Call cs\<rparr>"
    using assms(2) unfolding pending_def by blast
  let ?d = "update_list (other s) cancel_list (update_list s (\<lambda>l. l\<lparr>callbacks := map Call cs\<rparr>)
    (update_list s (\<lambda>l. l\<lparr>firing := True\<rparr>) d))"
  have "firing_now s args ?d" using assms(2) cs by (auto simp: settling_defs pending_def new_list_def cancel_list_def)
  moreover have "fire m s args ?d = Some (t, d')" using assms(1) Suc cs by (simp add: new_list_def Let_def)
  ultimately show ?thesis by (rule fire_firing [rotated])
qed (use assms in simp)
lemma settling_update:
  "settling s args d \<Longrightarrow> settling s args (update_list s (\<lambda>l. l\<lparr>fired := f, firing := b\<rparr>) d)"
  by (simp add: settling_def)

lemma resolveWith_settled: "settled s args d \<Longrightarrow> resolveWith loop s' args' d = Some (False, d)"
  using side_cases [of s' s] by (auto simp: resolveWith_def Let_def settling_defs)

lemma resolveWith_pending:
  assumes "resolveWith (fire n) s args d = Some (t, d')" "pending d"
  shows "settled s args d'"
proof -
  have "\<not> cancelled (get_list s d) \<and> fired (get_list s d) = None \<and> \<not> firing (get_list s d)"
    using assms(2) unfolding pending_def new_list_def by (metis deferred_list.select_convs(2,3,4) deferred_list.update_convs(1))
  then obtain d'' where "fire n s args (update_list s (\<lambda>l. l\<lparr>firing := True\<rparr>) d) = Some (t, d'')"
    "d' = update_list s (\<lambda>l. l\<lparr>fired := Some args, firing := False\<rparr>) d''"
    using assms(1) by (auto simp: resolveWith_def Let_def)
  with fire_pending [OF this(1) assms(2)] show ?thesis by (simp add: settling_defs)
qed

lemma add_callbacks_settled:
  assumes "add_callbacks (fire n) s' xs d = Some (t, d')" "settled s args d"
  shows "settled s args d'"
proof (cases "s' = s")
  case True
  let ?d = "update_list s (\<lambda>l. l\<lparr>fired := None, callbacks := fold push xs (callbacks l)\<rparr>) d"
  let ?d' = "update_list s (\<lambda>l. l\<lparr>firing := True\<rparr>) ?d"
  have f: "firing_now s args ?d'"
    using assms(2) by (auto simp: settling_defs fold_push simp flip: map_append)
  have "resolveWith (fire n) s args ?d = Some (t, d')"
    using assms True by (auto simp: add_callbacks_def Let_def settling_defs)
  then obtain d'' where "fire n s args ?d' = Some (t, d'')"
    "d' = update_list s (\<lambda>l. l\<lparr>fired := Some args, firing := False\<rparr>) d''"
    using assms(2) by (auto simp: resolveWith_def Let_def settling_defs)
  with fire_firing [OF this(1) f] show ?thesis by (simp add: settling_defs)
next
  case False
  then show ?thesis using assms side_cases [of s' s] by (auto simp: add_callbacks_def Let_def settling_defs)
qed

lemma add_callbacks_pending:
  assumes "pending d"
  shows "\<exists>d'. add_callbacks loop s xs d = Some (False, d') \<and> pending d'
    \<and> callbacks (get_list s d') = callbacks (get_list s d) @ map Call (concat (map functions_of xs))
    \<and> get_list (other s) d' = get_list (other s) d"
proof -
  obtain cs cs' where cs: "get_list s d = new_list\<lparr>callbacks := Cancel (other s) # map Call cs\<rparr>"
    "get_list (other s) d = new_list\<lparr>callbacks := Cancel s # map Call cs'\<rparr>"
    using assms unfolding pending_def by (metis other_neq(3))
  let ?d = "update_list s (\<lambda>l. l\<lparr>fired := None, callbacks := fold push xs (callbacks l)\<rparr>) d"
  have "add_callbacks loop s xs d = Some (False, ?d)" using cs by (simp add: add_callbacks_def Let_def new_list_def)
  moreover have "\<exists>cs. get_list s'' ?d = new_list\<lparr>callbacks := Cancel (other s'') # map Call cs\<rparr>" for s''
    using side_cases [of s'' s] cs by (auto simp: fold_push new_list_def simp flip: map_append)
  ultimately show ?thesis using assms cs by (simp add: pending_def fold_push)
qed

lemma perform_settled: "perform op d = Some d' \<Longrightarrow> settled s args d \<Longrightarrow> settled s args d'"
  by (cases op) (auto dest: add_callbacks_settled simp: resolveWith_settled)

lemma perform_all_settled:
  "perform_all ops d = Some d' \<Longrightarrow> settled s args d \<Longrightarrow> settled s args d'"
proof (induction ops arbitrary: d)
  case (Cons op ops)
  then show ?case by (cases "perform op d") (auto dest: perform_settled)
qed simp

text \<open>The first call of \<open>resolve\<close> or \<open>reject\<close> in a run.\<close>

fun first_finish :: "operation list \<Rightarrow> (side \<times> val list) option" where
  "first_finish [] = None"
| "first_finish (Finish s args # ops) = Some (s, args)"
| "first_finish (Add s xs # ops) = first_finish ops"

lemma perform_all_pending:
  "perform_all ops d = Some d' \<Longrightarrow> pending d \<Longrightarrow>
   (case first_finish ops of None \<Rightarrow> pending d' | Some (s, args) \<Rightarrow> settled s args d')"
proof (induction ops arbitrary: d)
  case (Cons op ops)
  then obtain d1 where d1: "perform op d = Some d1" "perform_all ops d1 = Some d'" by (cases "perform op d") auto
  show ?case
  proof (cases op)
    case (Add s xs)
    have "pending d1" using d1(1) Add
        add_callbacks_pending [OF Cons.prems(2), of "fire (Suc (weight d + sum_list (map arg_weight xs)))" s xs] by auto
    from Cons.IH [OF d1(2) this] show ?thesis using Add by simp
  next
    case (Finish s args)
    have "settled s args d1" using d1(1) Finish Cons.prems(2) by (auto dest: resolveWith_pending)
    then show ?thesis using Finish perform_all_settled [OF d1(2)] by simp
  qed
qed simp

lemma pending_new: "pending Deferred_new"
proof -
  have "get_list s Deferred_new = new_list\<lparr>callbacks := Cancel (other s) # map Call []\<rparr>" for s
    by (cases s) (simp_all add: Deferred_new_def)
  then show ?thesis unfolding pending_def by (metis Deferred_new_def deferred.select_convs(3))
qed

text \<open>
  C5: A deferred object is settled at most once: in every run of its operations, whatever the
  callbacks do while they run (add callbacks, settle it again on either side, throw), the operations
  return, no callback is called before the first \<open>resolve\<close> or \<open>reject\<close>, and all callbacks that
  are ever called are of the list this call is about and get its arguments.
\<close>

theorem deferred_settles_once:
  "\<exists>d. perform_all ops Deferred_new = Some d \<and>
     set (calls d) \<subseteq> (case first_finish ops of None \<Rightarrow> {} | Some (s, args) \<Rightarrow> {s} \<times> UNIV \<times> {args})"
proof -
  obtain d where d: "perform_all ops Deferred_new = Some d" using perform_all_ends by blast
  have "set (calls d) \<subseteq> (case first_finish ops of None \<Rightarrow> {} | Some (s, args) \<Rightarrow> {s} \<times> UNIV \<times> {args})"
  proof (cases "first_finish ops")
    case None
    then show ?thesis using perform_all_pending [OF d pending_new] by (simp add: pending_def)
  next
    case (Some f)
    then show ?thesis using perform_all_pending [OF d pending_new]
      by (cases f) (auto simp: settling_defs)
  qed
  with d show ?thesis by blast
qed

section \<open>Callbacks that only observe\<close>

fun name_of :: "callback \<Rightarrow> nat" where
  "name_of (Callback i as) = i"

fun observes :: "callback \<Rightarrow> bool" where
  "observes (Callback i as) \<longleftrightarrow> as = []"

fun op_observes :: "operation \<Rightarrow> bool" where
  "op_observes (Add s xs) = list_all observes (concat (map functions_of xs))"
| "op_observes (Finish s args) = True"

text \<open>The callbacks a run adds to a side, and the calls one expects.\<close>

fun added :: "side \<Rightarrow> operation list \<Rightarrow> nat list" where
  "added s [] = []"
| "added s (Finish s' args # ops) = added s ops"
| "added s (Add s' xs # ops) =
     (if s' = s then map name_of (concat (map functions_of xs)) else []) @ added s ops"

definition expected_calls :: "operation list \<Rightarrow> (side \<times> nat \<times> val list) list" where
  "expected_calls ops =
     (case first_finish ops of None \<Rightarrow> [] | Some (s, args) \<Rightarrow> map (\<lambda>i. (s, i, args)) (added s ops))"

lemma fire_observing:
  "fire n s args d = Some (t, d') \<Longrightarrow> callbacks (get_list s d) = map Call cs \<Longrightarrow> list_all observes cs \<Longrightarrow>
   calls d' = calls d @ map (\<lambda>c. (s, name_of c, args)) cs \<and> callbacks (get_list s d') = []"
proof (induction n arbitrary: d cs)
  case (Suc n)
  show ?case
  proof (cases cs)
    case Nil
    then show ?thesis using Suc.prems by simp
  next
    case (Cons c cs')
    obtain i where c: "c = Callback i []" using Suc.prems(3) Cons by (cases c) simp
    let ?d = "(update_list s (\<lambda>l. l\<lparr>callbacks := map Call cs'\<rparr>) d)\<lparr>calls := calls d @ [(s, i, args)]\<rparr>"
    have "fire n s args ?d = Some (t, d')" using Suc.prems Cons c by (simp add: Let_def)
    from Suc.IH [OF this, of cs'] show ?thesis using Suc.prems(3) Cons c by simp
  qed
qed simp

lemma resolveWith_observing:
  assumes "resolveWith (fire n) s args d = Some (t, d')" "pending d"
    "callbacks (get_list s d) = Cancel (other s) # map Call cs" "list_all observes cs"
  shows "calls d' = map (\<lambda>c. (s, name_of c, args)) cs \<and> callbacks (get_list s d') = []"
proof -
  have l: "get_list s d = new_list\<lparr>callbacks := Cancel (other s) # map Call cs\<rparr>"
    using assms(2,3) unfolding pending_def new_list_def by (metis deferred_list.select_convs(1) deferred_list.update_convs(1))
  let ?d = "update_list s (\<lambda>l. l\<lparr>firing := True\<rparr>) d"
  obtain d'' where f: "fire n s args ?d = Some (t, d'')"
    "d' = update_list s (\<lambda>l. l\<lparr>fired := Some args, firing := False\<rparr>) d''"
    using assms(1) l by (auto simp: resolveWith_def Let_def new_list_def)
  obtain m where n: "n = Suc m" using f(1) by (cases n) simp_all
  let ?d1 = "update_list (other s) cancel_list (update_list s (\<lambda>l. l\<lparr>callbacks := map Call cs\<rparr>) ?d)"
  have "fire m s args ?d1 = Some (t, d'')" using f(1) n l by (simp add: new_list_def Let_def)
  from fire_observing [OF this _ assms(4)] show ?thesis using f(2) assms(2) by (simp add: pending_def)
qed

lemma add_callbacks_observing:
  assumes "add_callbacks (fire n) s' xs d = Some (t, d')" "settled s args d" "callbacks (get_list s d) = []"
    "op_observes (Add s' xs)"
  shows "calls d' = calls d @ map (\<lambda>i. (s, i, args)) (added s [Add s' xs]) \<and> callbacks (get_list s d') = []"
proof (cases "s' = s")
  case True
  let ?cs = "concat (map functions_of xs)"
  let ?d = "update_list s (\<lambda>l. l\<lparr>fired := None, callbacks := fold push xs (callbacks l)\<rparr>) d"
  let ?d' = "update_list s (\<lambda>l. l\<lparr>firing := True\<rparr>) ?d"
  have "resolveWith (fire n) s args ?d = Some (t, d')"
    using assms True by (auto simp: add_callbacks_def Let_def settling_defs)
  then obtain d'' where d'': "fire n s args ?d' = Some (t, d'')"
    "d' = update_list s (\<lambda>l. l\<lparr>fired := Some args, firing := False\<rparr>) d''"
    using assms(2) by (auto simp: resolveWith_def Let_def settling_defs)
  from fire_observing [OF this(1), of ?cs] show ?thesis using d''(2) assms(3,4) True by (simp add: fold_push)
next
  case False
  then show ?thesis using assms side_cases [of s' s] by (auto simp: add_callbacks_def Let_def settling_defs)
qed

lemma perform_all_observing_settled:
  "perform_all ops d = Some d' \<Longrightarrow> settled s args d \<Longrightarrow> callbacks (get_list s d) = [] \<Longrightarrow> list_all op_observes ops \<Longrightarrow>
   calls d' = calls d @ map (\<lambda>i. (s, i, args)) (added s ops)"
proof (induction ops arbitrary: d)
  case (Cons op ops)
  then obtain d1 where d1: "perform op d = Some d1" "perform_all ops d1 = Some d'" by (cases "perform op d") auto
  have st: "settled s args d1" by (rule perform_settled [OF d1(1) Cons.prems(2)])
  show ?case
  proof (cases op)
    case (Add s' xs)
    have "calls d1 = calls d @ map (\<lambda>i. (s, i, args)) (added s [Add s' xs]) \<and> callbacks (get_list s d1) = []"
      using d1(1) Add Cons.prems add_callbacks_observing by fastforce
    then show ?thesis using Cons.IH [OF d1(2) st] Cons.prems(4) Add by simp
  next
    case (Finish s' args')
    then have "d1 = d" using d1(1) Cons.prems(2) by (simp add: resolveWith_settled)
    then show ?thesis using Cons.IH [OF d1(2) st] Cons.prems Finish by simp
  qed
qed simp

lemma perform_all_observing:
  "perform_all ops d = Some d' \<Longrightarrow> pending d \<Longrightarrow> (\<And>s. callbacks (get_list s d) = Cancel (other s) # map Call (cs s)) \<Longrightarrow>
   (\<And>s. list_all observes (cs s)) \<Longrightarrow> list_all op_observes ops \<Longrightarrow>
   calls d' = (case first_finish ops of None \<Rightarrow> []
     | Some (s, args) \<Rightarrow> map (\<lambda>i. (s, i, args)) (map name_of (cs s) @ added s ops))"
proof (induction ops arbitrary: d cs)
  case Nil
  then show ?case by (simp add: pending_def)
next
  case (Cons op ops)
  obtain d1 where d1: "perform op d = Some d1" "perform_all ops d1 = Some d'"
    using Cons.prems(1) by (cases "perform op d") auto
  show ?case
  proof (cases op)
    case (Add s xs)
    let ?new = "concat (map functions_of xs)"
    let ?cs = "cs(s := cs s @ ?new)"
    have "add_callbacks (fire (Suc (weight d + sum_list (map arg_weight xs)))) s xs d = Some (False, d1) \<and> pending d1
      \<and> callbacks (get_list s d1) = callbacks (get_list s d) @ map Call ?new \<and> get_list (other s) d1 = get_list (other s) d"
      using d1(1) Add add_callbacks_pending [OF Cons.prems(2), of "fire (Suc (weight d + sum_list (map arg_weight xs)))" s xs]
      by auto
    then have p: "pending d1" and a: "callbacks (get_list s d1) = Cancel (other s) # map Call (cs s) @ map Call ?new"
      "get_list (other s) d1 = get_list (other s) d" using Cons.prems(3) [of s] by simp_all
    have "callbacks (get_list s' d1) = Cancel (other s') # map Call (?cs s')" for s'
      using side_cases [of s' s] a Cons.prems(3) [of "other s"] by auto
    moreover have "list_all observes (?cs s')" for s' using Cons.prems(4) [of s'] Cons.prems(4) [of s] Cons.prems(5) Add by simp
    ultimately show ?thesis using Cons.IH [OF d1(2) p, of ?cs] Cons.prems(5) Add by (auto split: option.split)
  next
    case (Finish s args)
    have r: "resolveWith (fire (Suc (weight d))) s args d = Some (False, d1) \<or> resolveWith (fire (Suc (weight d))) s args d = Some (True, d1)"
      using d1(1) Finish by auto
    then have st: "settled s args d1" using Cons.prems(2) by (auto dest: resolveWith_pending)
    have "calls d1 = map (\<lambda>c. (s, name_of c, args)) (cs s) \<and> callbacks (get_list s d1) = []"
      using r resolveWith_observing [OF _ Cons.prems(2,3,4)] by blast
    then show ?thesis using perform_all_observing_settled [OF d1(2) st] Cons.prems(5) Finish by simp
  qed
qed

lemma observing_run:
  assumes "list_all op_observes ops"
  shows "map_option calls (perform_all ops Deferred_new) = Some (expected_calls ops)"
proof -
  obtain d where d: "perform_all ops Deferred_new = Some d" using perform_all_ends by blast
  have "callbacks (get_list s Deferred_new) = Cancel (other s) # map Call ((\<lambda>_. []) s)" for s
    by (cases s) (simp_all add: Deferred_new_def)
  from perform_all_observing [OF d pending_new this _ assms] show ?thesis
    using d by (auto simp: expected_calls_def split: option.split)
qed

text \<open>
  C6: A deferred object refines its contract: with callbacks that only observe, a run calls exactly
  the callbacks added to the side that is settled first, each once, in the order in which they were
  added, with the arguments of that call, whether they were added before it or after; arrays of
  callbacks count as their elements.
\<close>

theorem deferred_refines_contract:
  assumes "list_all op_observes ops"
  shows "map_option calls (perform_all ops Deferred_new) = Some (expected_calls ops)"
  by (rule observing_run [OF assms])

definition contract_run :: "operation list" where
  "contract_run = [Add DoneSide [Fn (Callback 1 [])], Add FailSide [Fn (Callback 2 [])], Finish DoneSide [Text ''ok''],
     Add DoneSide [Args [Fn (Callback 3 []), OtherValue]], Finish FailSide []]"

theorem deferred_refines_contract_witness:
  "list_all op_observes contract_run \<and>
   map_option calls (perform_all contract_run Deferred_new) =
     Some [(DoneSide, 1, [Text ''ok'']), (DoneSide, 3, [Text ''ok''])]"
proof -
  have c: "list_all op_observes contract_run" by (simp add: contract_run_def)
  from deferred_refines_contract [OF this] show ?thesis
    using c by (simp add: expected_calls_def) (simp add: contract_run_def)
qed
section \<open>Joining promises\<close>

text \<open>
  The arguments of \<open>when\<close>: plain values, and promises with what they are already settled with; a
  promise that is pending may be settled later, which is an event with its index.
\<close>

datatype subject = Plain val | Promise "(side \<times> val list) option"

record when_state =
  array :: "val list"
  count :: int
  master :: deferred

definition callback_value :: "val list \<Rightarrow> val" where
  "callback_value args = (if length args > 1 then ArrayOf args else (case args of [] \<Rightarrow> Undefined | v # _ \<Rightarrow> v))"

definition on_master :: "operation \<Rightarrow> when_state \<Rightarrow> when_state option" where
  "on_master op st = map_option (\<lambda>d. st\<lparr>master := d\<rparr>) (perform op (master st))"

text \<open>What \<open>iCallback (i)\<close> and \<open>deferred.reject\<close> do when the argument at \<open>i\<close> is settled.\<close>

fun on_settle :: "nat \<times> side \<times> val list \<Rightarrow> when_state \<Rightarrow> when_state option" where
  "on_settle (i, DoneSide, args) st =
     (let st' = st\<lparr>array := (array st)[i := callback_value args], count := count st - 1\<rparr>
      in if count st' = 0 then on_master (Finish DoneSide (array st')) st' else Some st')"
| "on_settle (i, FailSide, args) st = on_master (Finish FailSide args) st"

text \<open>The loop over the arguments, from the last to the first.\<close>

fun when_loop :: "subject list \<Rightarrow> nat \<Rightarrow> when_state \<Rightarrow> when_state option" where
  "when_loop subjects 0 st = Some st"
| "when_loop subjects (Suc k) st =
     (case subjects ! k of
        Plain v \<Rightarrow> when_loop subjects k (st\<lparr>count := count st - 1\<rparr>)
      | Promise None \<Rightarrow> when_loop subjects k st
      | Promise (Some (s, args)) \<Rightarrow> Option.bind (on_settle (k, s, args) st) (when_loop subjects k))"

fun subject_value :: "subject \<Rightarrow> val" where
  "subject_value (Plain v) = v"
| "subject_value (Promise p) = PromiseObject"

definition when_many :: "subject list \<Rightarrow> when_state option" where
  "when_many subjects =
     Option.bind (when_loop subjects (length subjects)
         \<lparr>array = map subject_value subjects, count = int (length subjects), master = Deferred_new\<rparr>)
       (\<lambda>st. if count st = 0 then on_master (Finish DoneSide (array st)) st else Some st)"

text \<open>With at most one argument a promise is handed on, and another value resolves a new deferred.\<close>

datatype when_result = Same "(side \<times> val list) option" | Joined when_state

definition when_call :: "subject list \<Rightarrow> when_result option" where
  "when_call subjects =
     (if length subjects > 1 then map_option Joined (when_many subjects)
      else (case subjects of
              Promise p # _ \<Rightarrow> Some (Same p)
            | _ \<Rightarrow> map_option (\<lambda>d. Joined \<lparr>array = [], count = 0, master = d\<rparr>)
                    (perform (Finish DoneSide [case subjects of Plain v # _ \<Rightarrow> v | _ \<Rightarrow> Undefined]) Deferred_new)))"

text \<open>After the call: arguments are settled, and callbacks are added to the promise.\<close>

datatype when_event = Subject nat side "val list" | Attach side "argument list"

fun when_step :: "when_event \<Rightarrow> when_state \<Rightarrow> when_state option" where
  "when_step (Subject i s args) st = on_settle (i, s, args) st"
| "when_step (Attach s xs) st = on_master (Add s xs) st"

fun when_steps :: "when_event list \<Rightarrow> when_state \<Rightarrow> when_state option" where
  "when_steps [] st = Some st"
| "when_steps (e # es) st = Option.bind (when_step e st) (when_steps es)"

definition when_run :: "subject list \<Rightarrow> when_event list \<Rightarrow> when_state option" where
  "when_run subjects events = Option.bind (when_many subjects) (when_steps events)"

text \<open>
  The contract: the values known so far and the outcome.  The first rejection decides, and so does
  the last value.
\<close>

type_synonym join = "val option list \<times> (side \<times> val list) option"

fun join_settle :: "nat \<times> side \<times> val list \<Rightarrow> join \<Rightarrow> join" where
  "join_settle (i, DoneSide, args) (vals, out) =
     (let vals' = vals[i := Some (callback_value args)]
      in (vals', if out = None \<and> None \<notin> set vals' then Some (DoneSide, map the vals') else out))"
| "join_settle (i, FailSide, args) (vals, out) = (vals, if out = None then Some (FailSide, args) else out)"

fun settled_already :: "nat \<Rightarrow> subject \<Rightarrow> (nat \<times> side \<times> val list) list" where
  "settled_already i (Plain v) = [(i, DoneSide, [v])]"
| "settled_already i (Promise None) = []"
| "settled_already i (Promise (Some (s, args))) = [(i, s, args)]"

fun settle_events :: "when_event list \<Rightarrow> (nat \<times> side \<times> val list) list" where
  "settle_events [] = []"
| "settle_events (Subject i s args # es) = (i, s, args) # settle_events es"
| "settle_events (Attach s xs # es) = settle_events es"

fun attached :: "when_event list \<Rightarrow> operation list" where
  "attached [] = []"
| "attached (Subject i s args # es) = attached es"
| "attached (Attach s xs # es) = Add s xs # attached es"

definition join_start :: "subject list \<Rightarrow> join" where
  "join_start subjects = fold join_settle (concat (map (\<lambda>i. settled_already i (subjects ! i)) (rev [0..<length subjects])))
     (replicate (length subjects) None, None)"

definition join_run :: "subject list \<Rightarrow> when_event list \<Rightarrow> join" where
  "join_run subjects events = fold join_settle (settle_events events) (join_start subjects)"
section \<open>The counting loop implements the contract\<close>

lemma perform_all_append: "perform_all (ops @ ops') d = Option.bind (perform_all ops d) (perform_all ops')"
  by (induction ops arbitrary: d) (simp_all split: bind_split)

lemma first_finish_append:
  "first_finish (ops @ ops') = (case first_finish ops of None \<Rightarrow> first_finish ops' | Some x \<Rightarrow> Some x)"
  by (induction ops rule: first_finish.induct) simp_all

lemma added_append: "added s (ops @ ops') = added s ops @ added s ops'"
  by (induction ops rule: added.induct) auto

definition waiting :: "val option list \<Rightarrow> nat" where
  "waiting vals = length (filter (\<lambda>v. v = None) vals)"

lemma waiting_update: "i < length vals \<Longrightarrow> vals ! i = None \<Longrightarrow> waiting vals = Suc (waiting (vals[i := Some v]))"
  unfolding waiting_def by (rule length_filter_update) simp_all

lemma waiting_0 [simp]: "waiting vals = 0 \<longleftrightarrow> None \<notin> set vals"
  unfolding waiting_def length_0_conv filter_empty_conv by metis

definition joins :: "(side \<Rightarrow> nat list) \<Rightarrow> (side \<times> val list) option \<Rightarrow> when_state \<Rightarrow> val option list \<Rightarrow> bool" where
  "joins A f st vals \<longleftrightarrow>
     (\<exists>ops. perform_all ops Deferred_new = Some (master st) \<and> list_all op_observes ops \<and>
        first_finish ops = f \<and> (\<forall>s. added s ops = A s)) \<and>
     count st = int (waiting vals) \<and> length (array st) = length vals \<and>
     (\<forall>i < length vals. \<forall>v. vals ! i = Some v \<longrightarrow> array st ! i = v)"

lemma joins_array: "joins A f st vals \<Longrightarrow> None \<notin> set vals \<Longrightarrow> array st = map the vals"
  by (rule nth_equalityI) (fastforce simp: joins_def in_set_conv_nth)+

lemma on_master_joins:
  assumes "joins A f st vals" "op_observes op"
  shows "\<exists>st'. on_master op st = Some st' \<and> array st' = array st \<and>
    joins (\<lambda>s. A s @ added s [op]) (case f of None \<Rightarrow> first_finish [op] | Some x \<Rightarrow> Some x) st' vals"
proof -
  obtain ops where ops: "perform_all ops Deferred_new = Some (master st)" "list_all op_observes ops"
    "first_finish ops = f" "\<forall>s. added s ops = A s" using assms(1) unfolding joins_def by blast
  obtain d where d: "perform op (master st) = Some d" using perform_ends by blast
  have "perform_all (ops @ [op]) Deferred_new = Some d" "list_all op_observes (ops @ [op])"
    "first_finish (ops @ [op]) = (case f of None \<Rightarrow> first_finish [op] | Some x \<Rightarrow> Some x)"
    "\<forall>s. added s (ops @ [op]) = A s @ added s [op]"
    using ops d assms(2) by (simp_all add: perform_all_append first_finish_append added_append)
  then have "\<exists>ops'. perform_all ops' Deferred_new = Some (master (st\<lparr>master := d\<rparr>)) \<and> list_all op_observes ops' \<and>
      first_finish ops' = (case f of None \<Rightarrow> first_finish [op] | Some x \<Rightarrow> Some x) \<and> (\<forall>s. added s ops' = A s @ added s [op])"
    by (intro exI [of _ "ops @ [op]"]) simp
  then have "joins (\<lambda>s. A s @ added s [op]) (case f of None \<Rightarrow> first_finish [op] | Some x \<Rightarrow> Some x) (st\<lparr>master := d\<rparr>) vals"
    using assms(1) unfolding joins_def by simp
  then show ?thesis using d by (simp add: on_master_def)
qed

lemma on_master_finish:
  assumes "joins A f st vals"
  shows "\<exists>st'. on_master (Finish s args) st = Some st' \<and> array st' = array st \<and>
    joins A (case f of None \<Rightarrow> Some (s, args) | Some x \<Rightarrow> Some x) st' vals"
  using on_master_joins [OF assms, of "Finish s args"] by (cases f) simp_all

lemma on_settle_joins:
  assumes "joins A f st vals" "i < length vals" "s = DoneSide \<Longrightarrow> vals ! i = None"
  shows "\<exists>st'. on_settle (i, s, args) st = Some st' \<and> (\<forall>j. j \<noteq> i \<longrightarrow> array st' ! j = array st ! j) \<and>
    joins A (snd (join_settle (i, s, args) (vals, f))) st' (fst (join_settle (i, s, args) (vals, f)))"
proof (cases s)
  case FailSide
  then show ?thesis using on_master_finish [OF assms(1), of FailSide args] by (auto split: option.splits)
next
  case DoneSide
  let ?vals = "vals[i := Some (callback_value args)]"
  let ?st = "st\<lparr>array := (array st)[i := callback_value args], count := count st - 1\<rparr>"
  have j: "joins A f ?st ?vals"
    using assms(1,2) waiting_update [OF assms(2) assms(3) [OF DoneSide], of "callback_value args"] unfolding joins_def
    by (auto simp: nth_list_update)
  have c: "count ?st = 0 \<longleftrightarrow> None \<notin> set ?vals"
    using j unfolding joins_def by (metis int_int_eq of_nat_0 waiting_0)
  show ?thesis
  proof (cases "None \<in> set ?vals")
    case True
    then have "on_settle (i, s, args) st = Some ?st" using c DoneSide by (simp add: Let_def)
    then show ?thesis using j True DoneSide by (auto simp: Let_def)
  next
    case False
    from on_master_finish [OF j, of DoneSide "array ?st"] obtain st' where st':
      "on_master (Finish DoneSide (array ?st)) ?st = Some st'" "array st' = array ?st"
      "joins A (case f of None \<Rightarrow> Some (DoneSide, array ?st) | Some x \<Rightarrow> Some x) st' ?vals" by blast
    have "on_settle (i, s, args) st = Some st'" using c False st'(1) DoneSide by (simp add: Let_def)
    moreover have "\<forall>j. j \<noteq> i \<longrightarrow> array st' ! j = array st ! j" using st'(2) by simp
    moreover have "join_settle (i, s, args) (vals, f) = (?vals, case f of None \<Rightarrow> Some (DoneSide, array ?st) | Some x \<Rightarrow> Some x)"
      using False joins_array [OF j False] DoneSide by (simp add: Let_def split: option.split)
    ultimately show ?thesis using st'(3) by simp
  qed
qed
lemma join_settle_untouched: "j \<noteq> i \<Longrightarrow> fst (join_settle (i, s, args) (vals, f)) ! j = vals ! j"
  by (cases s) (simp_all add: Let_def)

lemma join_settle_length: "length (fst (join_settle (i, s, args) (vals, f))) = length vals"
  by (cases s) (simp_all add: Let_def)

text \<open>A plain value found last settles the join only after the loop.\<close>

definition after_loop :: "(side \<times> val list) option \<Rightarrow> join \<Rightarrow> bool" where
  "after_loop f j \<longleftrightarrow> f = snd j \<or> (f = None \<and> None \<notin> set (fst j) \<and> snd j = Some (DoneSide, map the (fst j)))"

lemma when_loop_joins:
  assumes "k \<le> length subjects" "length vals = length subjects" "\<And>i. i < k \<Longrightarrow> vals ! i = None"
    "\<And>i. i < k \<Longrightarrow> array st ! i = subject_value (subjects ! i)" "joins A f st vals" "after_loop f (vals, out)"
  shows "\<exists>st' f'. when_loop subjects k st = Some st' \<and>
    (let j = fold join_settle (concat (map (\<lambda>i. settled_already i (subjects ! i)) (rev [0..<k]))) (vals, out)
     in joins A f' st' (fst j) \<and> after_loop f' j)"
  using assms
proof (induction k arbitrary: st vals f out)
  case 0
  then show ?case by auto
next
  case (Suc k)
  let ?ev = "concat (map (\<lambda>i. settled_already i (subjects ! i)) (rev [0..<k]))"
  have k: "k < length vals" "vals ! k = None" "None \<in> set vals"
    using Suc.prems(1,2) Suc.prems(3) [of k] nth_mem [of k vals] by simp_all
  then have f: "f = out" using Suc.prems(6) by (simp add: after_loop_def)
  have step: "\<exists>st' f'. when_loop subjects k st1 = Some st' \<and>
      (let j = fold join_settle ?ev (join_settle (k, s, args) (vals, out)) in joins A f' st' (fst j) \<and> after_loop f' j)"
    if "joins A f1 st1 (fst (join_settle (k, s, args) (vals, out)))" "after_loop f1 (join_settle (k, s, args) (vals, out))"
      "\<forall>j. j \<noteq> k \<longrightarrow> array st1 ! j = array st ! j" for st1 f1 s args
  proof -
    define j where "j = join_settle (k, s, args) (vals, out)"
    have "length (fst j) = length subjects" "\<And>i. i < k \<Longrightarrow> fst j ! i = None"
      using Suc.prems(2,3) by (simp_all add: j_def join_settle_length join_settle_untouched)
    moreover have "\<And>i. i < k \<Longrightarrow> array st1 ! i = subject_value (subjects ! i)" using that(3) Suc.prems(4) by simp
    ultimately show ?thesis using Suc.IH [of "fst j" st1 f1 "snd j"] Suc.prems(1) that(1,2) by (simp add: j_def)
  qed
  show ?case
  proof (cases "subjects ! k")
    case (Plain v)
    let ?st = "st\<lparr>count := count st - 1\<rparr>"
    have v: "callback_value [v] = v" by (simp add: callback_value_def)
    have a: "array st ! k = v" using Suc.prems(4) [of k] Plain by simp
    have "joins A f ?st (fst (join_settle (k, DoneSide, [v]) (vals, out)))"
      using Suc.prems(5) waiting_update [OF k(1,2), of v] a k(1) unfolding joins_def
      by (auto simp: Let_def v nth_list_update split: if_splits)
    moreover have "after_loop f (join_settle (k, DoneSide, [v]) (vals, out))"
      using f by (auto simp: Let_def after_loop_def)
    ultimately have "\<exists>st' f'. when_loop subjects k ?st = Some st' \<and>
      (let j = fold join_settle ?ev (join_settle (k, DoneSide, [v]) (vals, out)) in joins A f' st' (fst j) \<and> after_loop f' j)"
      by (rule step) simp
    then show ?thesis using Plain by simp
  next
    case (Promise p)
    show ?thesis
    proof (cases p)
      case None
      then show ?thesis using Promise Suc.IH [of vals st f out] Suc.prems by simp
    next
      case (Some e)
      obtain s args where e: "e = (s, args)" by (rule prod.exhaust)
      obtain st1 where st1: "on_settle (k, s, args) st = Some st1" "\<forall>j. j \<noteq> k \<longrightarrow> array st1 ! j = array st ! j"
        "joins A (snd (join_settle (k, s, args) (vals, out))) st1 (fst (join_settle (k, s, args) (vals, out)))"
        using on_settle_joins [OF Suc.prems(5) k(1)] k(2) f by blast
      have "after_loop (snd (join_settle (k, s, args) (vals, out))) (join_settle (k, s, args) (vals, out))"
        by (simp add: after_loop_def)
      from step [OF st1(3) this st1(2)] show ?thesis using Promise Some e st1(1) by simp
    qed
  qed
qed

lemma join_settle_open:
  "(snd j = None \<longrightarrow> None \<in> set (fst j)) \<Longrightarrow> snd (join_settle e j) = None \<longrightarrow> None \<in> set (fst (join_settle e j))"
  by (induction e j rule: join_settle.induct) (auto simp: Let_def)

lemma fold_join_settle_open:
  "(snd j = None \<longrightarrow> None \<in> set (fst j)) \<Longrightarrow> snd (fold join_settle es j) = None \<longrightarrow> None \<in> set (fst (fold join_settle es j))"
proof (induction es arbitrary: j)
  case (Cons e es)
  then show ?case using join_settle_open [of j e] by simp
qed simp

lemma join_start_open: "subjects \<noteq> [] \<Longrightarrow> snd (join_start subjects) = None \<longrightarrow> None \<in> set (fst (join_start subjects))"
  unfolding join_start_def by (rule fold_join_settle_open) simp

lemma when_many_joins:
  assumes "subjects \<noteq> []"
  shows "\<exists>st. when_many subjects = Some st \<and> joins (\<lambda>s. []) (snd (join_start subjects)) st (fst (join_start subjects))"
proof -
  let ?st = "\<lparr>array = map subject_value subjects, count = int (length subjects), master = Deferred_new\<rparr>"
  let ?vals = "replicate (length subjects) None :: val option list"
  have "perform_all [] Deferred_new = Some (master ?st) \<and> list_all op_observes [] \<and> first_finish [] = None \<and> (\<forall>s. added s [] = [])"
    by simp
  then have "joins (\<lambda>s. []) None ?st ?vals" unfolding joins_def waiting_def by fastforce
  moreover have "after_loop None (?vals, None)" by (simp add: after_loop_def)
  ultimately obtain st f where st: "when_loop subjects (length subjects) ?st = Some st"
    "joins (\<lambda>s. []) f st (fst (join_start subjects))" "after_loop f (join_start subjects)"
    using when_loop_joins [of "length subjects" subjects ?vals ?st "\<lambda>s. []" None None] by (auto simp: join_start_def Let_def)
  have c: "count st = 0 \<longleftrightarrow> None \<notin> set (fst (join_start subjects))"
    using st(2) unfolding joins_def by (metis int_int_eq of_nat_0 waiting_0)
  show ?thesis
  proof (cases "count st = 0")
    case False
    then show ?thesis using st c by (auto simp: when_many_def after_loop_def)
  next
    case True
    from on_master_finish [OF st(2), of DoneSide "array st"] obtain st' where
      "on_master (Finish DoneSide (array st)) st = Some st'"
      "joins (\<lambda>s. []) (case f of None \<Rightarrow> Some (DoneSide, array st) | Some x \<Rightarrow> Some x) st' (fst (join_start subjects))" by blast
    moreover have "snd (join_start subjects) \<noteq> None"
      using join_start_open [OF assms] True c by blast
    ultimately show ?thesis using True st c joins_array [OF st(2)] by (auto simp: when_many_def after_loop_def split: option.splits)
  qed
qed
lemma fold_join_settle_untouched:
  "i \<notin> fst ` set es \<Longrightarrow> fst (fold join_settle es j) ! i = fst j ! i"
proof (induction es arbitrary: j)
  case (Cons e es)
  obtain k s args where e: "e = (k, s, args)" by (rule prod_cases3)
  obtain vals f where j: "j = (vals, f)" by (rule prod.exhaust)
  show ?case using Cons.IH [of "join_settle e j"] Cons.prems e j join_settle_untouched [of i k s args vals f] by simp
qed simp

lemma fold_join_settle_length: "length (fst (fold join_settle es j)) = length (fst j)"
proof (induction es arbitrary: j)
  case (Cons e es)
  obtain k s args where e: "e = (k, s, args)" by (rule prod_cases3)
  obtain vals f where j: "j = (vals, f)" by (rule prod.exhaust)
  show ?case using Cons.IH [of "join_settle e j"] e j join_settle_length [of k s args vals f] by simp
qed simp

lemma settled_already_index: "e \<in> set (settled_already i x) \<Longrightarrow> fst e = i \<and> x \<noteq> Promise None"
  by (induction i x rule: settled_already.induct) auto

lemma join_start_pending:
  assumes "i < length subjects" "subjects ! i = Promise None"
  shows "fst (join_start subjects) ! i = None"
proof -
  have "i \<notin> fst ` set (concat (map (\<lambda>i. settled_already i (subjects ! i)) (rev [0..<length subjects])))"
    using assms(2) settled_already_index by fastforce
  from fold_join_settle_untouched [OF this] show ?thesis using assms(1) by (simp add: join_start_def)
qed

lemma when_steps_joins:
  "joins A f st vals \<Longrightarrow> distinct (map fst (settle_events es)) \<Longrightarrow> list_all op_observes (attached es) \<Longrightarrow>
   (\<And>i. i \<in> fst ` set (settle_events es) \<Longrightarrow> i < length vals \<and> vals ! i = None) \<Longrightarrow>
   \<exists>st'. when_steps es st = Some st' \<and>
     joins (\<lambda>s. A s @ added s (attached es)) (snd (fold join_settle (settle_events es) (vals, f))) st'
       (fst (fold join_settle (settle_events es) (vals, f)))"
proof (induction es arbitrary: A f st vals)
  case (Cons e es)
  show ?case
  proof (cases e)
    case (Subject i s args)
    define j where "j = join_settle (i, s, args) (vals, f)"
    have i: "i < length vals" "vals ! i = None" using Cons.prems(4) [of i] Subject by auto
    obtain st1 where st1: "on_settle (i, s, args) st = Some st1" "joins A (snd j) st1 (fst j)"
      using on_settle_joins [OF Cons.prems(1) i(1)] i(2) unfolding j_def by blast
    have d: "i \<notin> fst ` set (settle_events es)" "distinct (map fst (settle_events es))"
      using Cons.prems(2) Subject by simp_all
    have v: "k < length (fst j) \<and> fst j ! k = None" if "k \<in> fst ` set (settle_events es)" for k
    proof -
      have "k \<noteq> i" using d(1) that by blast
      then show ?thesis using Cons.prems(4) [of k] that Subject
        unfolding j_def by (simp add: join_settle_length join_settle_untouched)
    qed
    have "list_all op_observes (attached es)" using Cons.prems(3) Subject by simp
    from Cons.IH [OF st1(2) d(2) this v] show ?thesis using st1(1) Subject by (simp add: j_def)
  next
    case (Attach s xs)
    have a: "op_observes (Add s xs)" "list_all op_observes (attached es)" using Cons.prems(3) Attach by simp_all
    from on_master_joins [OF Cons.prems(1) a(1)] obtain st1 where st1: "on_master (Add s xs) st = Some st1"
      "joins (\<lambda>s'. A s' @ added s' [Add s xs]) f st1 vals" by (cases f) auto
    have d: "distinct (map fst (settle_events es))" using Cons.prems(2) Attach by simp
    from Cons.IH [OF st1(2) d a(2)] Cons.prems(4) show ?thesis using st1(1) Attach by simp
  qed
qed simp

lemma joins_calls:
  assumes "joins A f st vals"
  shows "calls (master st) = (case f of None \<Rightarrow> [] | Some (s, args) \<Rightarrow> map (\<lambda>i. (s, i, args)) (A s))"
proof -
  obtain ops where ops: "perform_all ops Deferred_new = Some (master st)" "list_all op_observes ops"
    "first_finish ops = f" "\<forall>s. added s ops = A s" using assms unfolding joins_def by blast
  from observing_run [OF ops(2)] show ?thesis using ops by (auto simp: expected_calls_def split: option.split)
qed

text \<open>
  C9: \<open>when\<close> refines the contract of a join: with two or more arguments, of which plain values and
  settled promises may come in any order and each pending promise is settled at most once, the
  promise \<open>when\<close> returns is settled exactly as the contract says, resolved with all the values in
  the order of the arguments once the last is known, rejected with the arguments of the first
  rejection, and pending otherwise; the callbacks attached to it are called accordingly.
\<close>

theorem when_refines_join:
  assumes "1 < length subjects" "distinct (map fst (settle_events events))" "list_all op_observes (attached events)"
    "list_all (\<lambda>e. fst e < length subjects \<and> subjects ! fst e = Promise None) (settle_events events)"
  shows "map_option (calls \<circ> master) (when_run subjects events) =
    Some (case snd (join_run subjects events) of None \<Rightarrow> []
      | Some (s, args) \<Rightarrow> map (\<lambda>i. (s, i, args)) (added s (attached events)))"
proof -
  have "subjects \<noteq> []" using assms(1) by auto
  from when_many_joins [OF this] obtain st where st: "when_many subjects = Some st"
    "joins (\<lambda>s. []) (snd (join_start subjects)) st (fst (join_start subjects))" by blast
  have l: "length (fst (join_start subjects)) = length subjects"
    by (simp add: join_start_def fold_join_settle_length)
  have "i < length (fst (join_start subjects)) \<and> fst (join_start subjects) ! i = None"
    if "i \<in> fst ` set (settle_events events)" for i
    using that assms(4) join_start_pending l by (auto simp: list_all_iff)
  from when_steps_joins [OF st(2) assms(2,3) this] obtain st' where st': "when_steps events st = Some st'"
    "joins (\<lambda>s. [] @ added s (attached events)) (snd (join_run subjects events)) st' (fst (join_run subjects events))"
    by (auto simp: join_run_def)
  have "when_run subjects events = Some st'" using st(1) st'(1) by (simp add: when_run_def)
  moreover have "calls (master st') = (case snd (join_run subjects events) of None \<Rightarrow> []
      | Some (s, args) \<Rightarrow> map (\<lambda>i. (s, i, args)) (added s (attached events)))"
    using joins_calls [OF st'(2)] by (auto split: option.split)
  ultimately show ?thesis by simp
qed

definition join_subjects :: "subject list" where
  "join_subjects = [Promise None, Plain (Text ''b''), Promise (Some (DoneSide, [Text ''c'', Text ''d'']))]"

definition join_events :: "when_event list" where
  "join_events = [Attach DoneSide [Fn (Callback 1 [])], Attach FailSide [Fn (Callback 2 [])], Subject 0 DoneSide [],
     Attach DoneSide [Fn (Callback 3 [])]]"

theorem when_refines_join_witness:
  "map_option (calls \<circ> master) (when_run join_subjects join_events) =
     Some (map (\<lambda>i. (DoneSide, i, [Undefined, Text ''b'', ArrayOf [Text ''c'', Text ''d'']])) [1, 3])"
proof -
  have "1 < length join_subjects" "distinct (map fst (settle_events join_events))"
    "list_all op_observes (attached join_events)"
    "list_all (\<lambda>e. fst e < length join_subjects \<and> join_subjects ! fst e = Promise None) (settle_events join_events)"
    by (simp_all add: join_subjects_def join_events_def)
  from when_refines_join [OF this] show ?thesis
    by (simp add: join_run_def join_start_def upt_rec) (simp add: join_subjects_def join_events_def callback_value_def upt_rec)
qed
end
