(* ===== verification/JsString.thy ===== *)
theory JsString
  imports Prelude "HOL-Library.Char_ord"
begin

text \<open>
  The string primitives of the language that the modelled code calls: \<open>indexOf\<close>,
  \<open>lastIndexOf\<close>, \<open>substr\<close>, \<open>substring\<close>, \<open>slice\<close>, \<open>split\<close> on a character, \<open>join\<close>,
  the whitespace class of regular expressions, case mapping, and decimal and hexadecimal
  numerals.  A string is a list of characters, that is of the code units 0 to 255; code
  units above are outside the model.
\<close>

section \<open>Characters\<close>

text \<open>The regular expression class \<open>\s\<close>, below code unit 256.\<close>

definition is_space :: "char \<Rightarrow> bool" where
  "is_space c \<longleftrightarrow> of_char c \<in> {9, 10, 11, 12, 13, 32, 160 :: nat}"

definition is_digit :: "char \<Rightarrow> bool" where
  "is_digit c \<longleftrightarrow> 48 \<le> (of_char c :: nat) \<and> of_char c \<le> (57 :: nat)"

definition digit_val :: "char \<Rightarrow> nat" where
  "digit_val c = of_char c - 48"

definition digit_char :: "nat \<Rightarrow> char" where
  "digit_char n = char_of (48 + n)"

definition is_upper :: "char \<Rightarrow> bool" where
  "is_upper c \<longleftrightarrow> (let n = of_char c :: nat in (65 \<le> n \<and> n \<le> 90) \<or> (192 \<le> n \<and> n \<le> 222 \<and> n \<noteq> 215))"

definition lower_char :: "char \<Rightarrow> char" where
  "lower_char c = (if is_upper c then char_of (of_char c + 32 :: nat) else c)"

definition to_lower :: "string \<Rightarrow> string" where
  "to_lower = map lower_char"

lemma length_to_lower [simp]: "length (to_lower s) = length s"
  by (simp add: to_lower_def)

lemma is_digit_digit_char: "n < 10 \<Longrightarrow> is_digit (digit_char n)"
  by (simp add: is_digit_def digit_char_def of_char_of)

lemma digit_val_digit_char [simp]: "n < 10 \<Longrightarrow> digit_val (digit_char n) = n"
  by (simp add: digit_val_def digit_char_def of_char_of)

section \<open>Trimming\<close>

definition ltrim :: "string \<Rightarrow> string" where
  "ltrim = dropWhile is_space"

definition rtrim :: "string \<Rightarrow> string" where
  "rtrim s = rev (dropWhile is_space (rev s))"

definition trim :: "string \<Rightarrow> string" where
  "trim s = rtrim (ltrim s)"

lemma rtrim_prefix: "\<exists>w. s = rtrim s @ w \<and> (\<forall>c \<in> set w. is_space c)"
proof -
  have "rev s = takeWhile is_space (rev s) @ dropWhile is_space (rev s)" by simp
  then have "s = rtrim s @ rev (takeWhile is_space (rev s))"
    unfolding rtrim_def by (metis rev_append rev_rev_ident)
  moreover have "\<forall>c \<in> set (rev (takeWhile is_space (rev s))). is_space c"
    by (auto dest: set_takeWhileD)
  ultimately show ?thesis by blast
qed

lemma rtrim_last: "rtrim s \<noteq> [] \<Longrightarrow> \<not> is_space (last (rtrim s))"
  by (simp add: rtrim_def last_rev hd_dropWhile)

lemma ltrim_suffix: "\<exists>w. s = w @ ltrim s \<and> (\<forall>c \<in> set w. is_space c)"
proof -
  have "s = takeWhile is_space s @ ltrim s" by (simp add: ltrim_def)
  moreover have "\<forall>c \<in> set (takeWhile is_space s). is_space c" by (auto dest: set_takeWhileD)
  ultimately show ?thesis by blast
qed

lemma trim_Nil_iff: "trim s = [] \<longleftrightarrow> (\<forall>c \<in> set s. is_space c)"
proof -
  have "rtrim t = [] \<longleftrightarrow> (\<forall>c \<in> set t. is_space c)" for t
    by (simp add: rtrim_def dropWhile_eq_Nil_conv)
  moreover have "(\<forall>c \<in> set (ltrim s). is_space c) \<longleftrightarrow> (\<forall>c \<in> set s. is_space c)"
    using ltrim_suffix [of s] by (metis (no_types, lifting) UnE set_append UnI2)
  ultimately show ?thesis by (simp add: trim_def)
qed

lemma length_trim: "length (trim s) \<le> length s"
proof -
  have "length (rtrim t) \<le> length t" for t
    by (simp add: rtrim_def length_dropWhile_le [THEN le_trans])
  then have "length (rtrim (ltrim s)) \<le> length (ltrim s)" .
  also have "\<dots> \<le> length s" by (simp add: ltrim_def length_dropWhile_le)
  finally show ?thesis by (simp add: trim_def)
qed

section \<open>Splitting on a character and joining\<close>

fun split_on :: "char \<Rightarrow> string \<Rightarrow> string list" where
  "split_on c [] = [[]]"
| "split_on c (x # xs) =
     (if x = c then [] # split_on c xs
      else (case split_on c xs of [] \<Rightarrow> [[x]] | w # ws \<Rightarrow> (x # w) # ws))"

fun join_with :: "string \<Rightarrow> string list \<Rightarrow> string" where
  "join_with sep [] = []"
| "join_with sep [w] = w"
| "join_with sep (w # v # ws) = w @ sep @ join_with sep (v # ws)"

lemma split_on_not_Nil [simp]: "split_on c s \<noteq> []"
  by (induction s) (auto split: list.splits)

lemma join_split: "join_with [c] (split_on c s) = s"
proof (induction s)
  case Nil
  then show ?case by simp
next
  case (Cons x xs)
  obtain w ws where ws: "split_on c xs = w # ws" by (meson neq_Nil_conv split_on_not_Nil)
  show ?case using Cons ws by (cases ws) auto
qed

lemma split_on_pieces: "w \<in> set (split_on c s) \<Longrightarrow> c \<notin> set w"
proof (induction s arbitrary: w)
  case Nil
  then show ?case by simp
next
  case (Cons x xs)
  obtain v vs where vs: "split_on c xs = v # vs" by (meson neq_Nil_conv split_on_not_Nil)
  show ?case using Cons vs by (auto split: if_splits)
qed

lemma length_split_on: "length (split_on c s) = Suc (count_list s c)"
  by (induction s) (auto split: list.splits)

lemma split_on_single: "c \<notin> set w \<Longrightarrow> split_on c w = [w]"
  by (induction w) auto

lemma split_on_append_sep: "c \<notin> set w \<Longrightarrow> split_on c (w @ c # s) = w # split_on c s"
  by (induction w) auto

lemma split_join:
  "ws \<noteq> [] \<Longrightarrow> \<forall>w \<in> set ws. c \<notin> set w \<Longrightarrow> split_on c (join_with [c] ws) = ws"
  by (induction "[c]" ws rule: join_with.induct) (auto simp: split_on_single split_on_append_sep)

lemma length_join_one:
  "ws \<noteq> [] \<Longrightarrow> length (join_with [c] ws) + 1 = sum_list (map (\<lambda>w. length w + 1) ws)"
  by (induction "[c]" ws rule: join_with.induct) auto

section \<open>Searching\<close>

text \<open>\<open>sub_at p s i\<close>: the text \<open>p\<close> stands at position \<open>i\<close> of \<open>s\<close>.\<close>

definition sub_at :: "string \<Rightarrow> string \<Rightarrow> nat \<Rightarrow> bool" where
  "sub_at p s i \<longleftrightarrow> i + length p \<le> length s \<and> take (length p) (drop i s) = p"

definition index_from :: "string \<Rightarrow> string \<Rightarrow> nat \<Rightarrow> nat option" where
  "index_from s p from = List.find (sub_at p s) [min from (length s) ..< Suc (length s)]"

definition indexOf :: "string \<Rightarrow> string \<Rightarrow> int \<Rightarrow> int" where
  "indexOf s p from = (case index_from s p (nat from) of None \<Rightarrow> -1 | Some i \<Rightarrow> int i)"

definition last_index_from :: "string \<Rightarrow> string \<Rightarrow> nat \<Rightarrow> nat option" where
  "last_index_from s p from = List.find (sub_at p s) (rev [0 ..< Suc (min from (length s))])"

definition lastIndexOf :: "string \<Rightarrow> string \<Rightarrow> int \<Rightarrow> int" where
  "lastIndexOf s p from = (case last_index_from s p (nat from) of None \<Rightarrow> -1 | Some i \<Rightarrow> int i)"

lemma find_upt_Some:
  assumes "List.find P [a..<b] = Some i"
  shows "P i \<and> a \<le> i \<and> i < b \<and> (\<forall>j. a \<le> j \<longrightarrow> j < i \<longrightarrow> \<not> P j)"
proof -
  from assms obtain k where k: "k < b - a" "P (a + k)" "i = a + k" "\<forall>j<k. \<not> P (a + j)"
    by (auto simp: find_Some_iff)
  have "\<not> P j" if "a \<le> j" "j < i" for j
    using k(4) that k(3) by (metis le_add_diff_inverse nat_add_left_cancel_less)
  with k show ?thesis by auto
qed

lemma find_rev_upt_Some:
  assumes "List.find P (rev [0..<n]) = Some i"
  shows "P i \<and> i < n \<and> (\<forall>j. i < j \<longrightarrow> j < n \<longrightarrow> \<not> P j)"
  using assms
proof (induction n)
  case 0
  then show ?case by simp
next
  case (Suc n)
  show ?case
  proof (cases "P n")
    case True
    with Suc.prems show ?thesis by auto
  next
    case False
    with Suc.prems have "List.find P (rev [0..<n]) = Some i" by simp
    from Suc.IH [OF this] False show ?thesis by (metis less_Suc_eq)
  qed
qed

lemma indexOf_hit:
  assumes "indexOf s p from = int i" "0 \<le> from"
  shows "sub_at p s i" "min (nat from) (length s) \<le> i"
    "\<forall>j. min (nat from) (length s) \<le> j \<longrightarrow> j < i \<longrightarrow> \<not> sub_at p s j"
  using assms
  by (auto simp: indexOf_def index_from_def simp del: upt_Suc split: option.splits dest: find_upt_Some)

lemma indexOf_miss: "indexOf s p from = -1 \<longleftrightarrow> (\<forall>i. min (nat from) (length s) \<le> i \<longrightarrow> i \<le> length s \<longrightarrow> \<not> sub_at p s i)"
  by (auto simp: indexOf_def index_from_def find_None_iff less_Suc_eq_le simp del: upt_Suc
      split: option.splits dest!: find_upt_Some)

lemma indexOf_range: "-1 \<le> indexOf s p from \<and> indexOf s p from \<le> int (length s)"
proof (cases "index_from s p (nat from)")
  case None
  then show ?thesis by (simp add: indexOf_def)
next
  case (Some i)
  then have "i < Suc (length s)" by (auto simp: index_from_def simp del: upt_Suc dest!: find_upt_Some)
  with Some show ?thesis by (simp add: indexOf_def)
qed

lemma lastIndexOf_miss:
  "lastIndexOf s p from = -1 \<longleftrightarrow> (\<forall>i \<le> min (nat from) (length s). \<not> sub_at p s i)"
  by (auto simp: lastIndexOf_def last_index_from_def find_None_iff less_Suc_eq_le
      simp del: upt_Suc split: option.splits dest!: find_rev_upt_Some)

lemma lastIndexOf_hit:
  assumes "lastIndexOf s p from = int i"
  shows "sub_at p s i" "i \<le> min (nat from) (length s)"
    "\<forall>j. i < j \<longrightarrow> j \<le> min (nat from) (length s) \<longrightarrow> \<not> sub_at p s j"
  using assms
  by (auto simp: lastIndexOf_def last_index_from_def less_Suc_eq_le simp del: upt_Suc
      split: option.splits dest!: find_rev_upt_Some)

lemma lastIndexOf_range: "-1 \<le> lastIndexOf s p from \<and> lastIndexOf s p from \<le> int (length s)"
proof (cases "last_index_from s p (nat from)")
  case None
  then show ?thesis by (simp add: lastIndexOf_def)
next
  case (Some i)
  then have "i < Suc (min (nat from) (length s))"
    by (auto simp: last_index_from_def simp del: upt_Suc dest!: find_rev_upt_Some)
  with Some show ?thesis by (simp add: lastIndexOf_def)
qed

section \<open>Cutting out parts\<close>

definition substr :: "string \<Rightarrow> int \<Rightarrow> int \<Rightarrow> string" where
  "substr s start len =
     (let n = int (length s); b = (if start < 0 then max (n + start) 0 else start)
      in take (nat len) (drop (nat b) s))"

definition substr_from :: "string \<Rightarrow> int \<Rightarrow> string" where
  "substr_from s start =
     (let n = int (length s); b = (if start < 0 then max (n + start) 0 else start)
      in drop (nat b) s)"

definition substring :: "string \<Rightarrow> int \<Rightarrow> int \<Rightarrow> string" where
  "substring s a b =
     (let n = length s; i = min (nat a) n; j = min (nat b) n
      in take (max i j - min i j) (drop (min i j) s))"

definition slice :: "'a list \<Rightarrow> int \<Rightarrow> int \<Rightarrow> 'a list" where
  "slice s a b =
     (let n = int (length s);
          i = (if a < 0 then max (n + a) 0 else min a n);
          j = (if b < 0 then max (n + b) 0 else min b n)
      in take (nat (j - i)) (drop (nat i) s))"

definition char_at :: "string \<Rightarrow> nat \<Rightarrow> string" where
  "char_at s i = (if i < length s then [s ! i] else [])"

lemma substring_le:
  "0 \<le> a \<Longrightarrow> a \<le> b \<Longrightarrow> b \<le> int (length s) \<Longrightarrow> substring s a b = take (nat b - nat a) (drop (nat a) s)"
  by (simp add: substring_def Let_def min_absorb1 max_absorb2 nat_le_iff nat_mono)

lemma slice_in:
  "0 \<le> a \<Longrightarrow> a \<le> b \<Longrightarrow> b \<le> int (length s) \<Longrightarrow> slice s a b = take (nat b - nat a) (drop (nat a) s)"
  by (simp add: slice_def Let_def nat_diff_distrib)

section \<open>Numerals\<close>

fun show_nat :: "nat \<Rightarrow> string" where
  "show_nat n = (if n < 10 then [digit_char n] else show_nat (n div 10) @ [digit_char (n mod 10)])"

declare show_nat.simps [simp del]

fun read_digits :: "nat \<Rightarrow> string \<Rightarrow> nat" where
  "read_digits acc [] = acc"
| "read_digits acc (c # cs) = read_digits (10 * acc + digit_val c) cs"

lemma read_digits_append: "read_digits acc (s @ t) = read_digits (read_digits acc s) t"
  by (induction s arbitrary: acc) auto

lemma read_show_nat: "read_digits 0 (show_nat n) = n"
proof (induction n rule: show_nat.induct)
  case (1 n)
  show ?case
  proof (cases "n < 10")
    case True
    then show ?thesis by (simp add: show_nat.simps [of n])
  next
    case False
    with 1 show ?thesis by (simp add: show_nat.simps [of n] read_digits_append)
  qed
qed

lemma show_nat_digits: "\<forall>c \<in> set (show_nat n). is_digit c"
proof (induction n rule: show_nat.induct)
  case (1 n)
  then show ?case
    by (cases "n < 10") (simp_all add: show_nat.simps [of n] is_digit_digit_char)
qed

lemma show_nat_not_Nil [simp]: "show_nat n \<noteq> []"
  by (simp add: show_nat.simps [of n])

lemma show_nat_inject: "show_nat m = show_nat n \<longleftrightarrow> m = n"
  by (metis read_show_nat)

text \<open>The first maximal run of digits, as \<open>s.match(/\d+/)\<close> finds it.\<close>

definition first_number :: "string \<Rightarrow> string option" where
  "first_number s =
     (case takeWhile is_digit (dropWhile (\<lambda>c. \<not> is_digit c) s) of [] \<Rightarrow> None | d # ds \<Rightarrow> Some (d # ds))"

end
