(* ===== verification/QueryString.thy ===== *)
theory QueryString
  imports JsString
begin

text \<open>
  Hashes and query strings of \<open>prototype.js\<close>: \<open>Hash\<close> over an object, \<open>toQueryString\<close>, and
  \<open>toQueryParams\<close> (also \<open>parseQuery\<close>), with the URI coding of the language for code units up to 255.
  An object is the list of its own properties in the order in which \<open>for\<close> visits them.
\<close>

section \<open>Objects and hashes\<close>

type_synonym 'v object = "(string \<times> 'v) list"

definition own :: "string \<Rightarrow> 'v object \<Rightarrow> bool" where
  "own key obj \<longleftrightarrow> key \<in> set (map fst obj)"

text \<open>An assignment changes a property in place or adds it at the end.\<close>

fun hash_set :: "string \<Rightarrow> 'v \<Rightarrow> 'v object \<Rightarrow> 'v object" where
  "hash_set key v [] = [(key, v)]"
| "hash_set key v ((k, w) # obj) = (if k = key then (k, v) # obj else (k, w) # hash_set key v obj)"

definition hash_get :: "string \<Rightarrow> 'v object \<Rightarrow> 'v option" where
  "hash_get key obj = map_of obj key"

definition hash_unset :: "string \<Rightarrow> 'v object \<Rightarrow> 'v option \<times> 'v object" where
  "hash_unset key obj = (map_of obj key, filter (\<lambda>p. fst p \<noteq> key) obj)"

definition hash_keys :: "'v object \<Rightarrow> string list" where
  "hash_keys obj = map fst obj"

definition hash_values :: "'v object \<Rightarrow> 'v list" where
  "hash_values obj = map snd obj"

definition hash_index :: "'v \<Rightarrow> 'v object \<Rightarrow> string option" where
  "hash_index v obj = map_option fst (List.find (\<lambda>p. snd p = v) obj)"

definition hash_update :: "'v object \<Rightarrow> 'v object \<Rightarrow> 'v object" where
  "hash_update other obj = foldl (\<lambda>result p. hash_set (fst p) (snd p) result) obj other"

definition hash_merge :: "'v object \<Rightarrow> 'v object \<Rightarrow> 'v object" where
  "hash_merge other obj = hash_update other obj"

section \<open>URI coding\<close>

definition unreserved :: "char \<Rightarrow> bool" where
  "unreserved c \<longleftrightarrow>
     (let n = of_char c :: nat
      in (48 \<le> n \<and> n \<le> 57) \<or> (65 \<le> n \<and> n \<le> 90) \<or> (97 \<le> n \<and> n \<le> 122) \<or> n \<in> {33, 39, 40, 41, 42, 45, 46, 95, 126})"

definition hex_upper :: "nat \<Rightarrow> char" where
  "hex_upper n = (if n < 10 then char_of (48 + n) else char_of (55 + n))"

definition percent_byte :: "nat \<Rightarrow> string" where
  "percent_byte b = [CHR ''%'', hex_upper (b div 16), hex_upper (b mod 16)]"

definition encode_char :: "char \<Rightarrow> string" where
  "encode_char c =
     (let n = of_char c :: nat
      in if unreserved c then [c]
         else if n < 128 then percent_byte n
         else percent_byte (192 + n div 64) @ percent_byte (128 + n mod 64))"

definition encodeURIComponent :: "string \<Rightarrow> string" where
  "encodeURIComponent s = concat (map encode_char s)"

definition hex_value :: "char \<Rightarrow> nat option" where
  "hex_value c =
     (let n = of_char c :: nat
      in if 48 \<le> n \<and> n \<le> 57 then Some (n - 48) else if 65 \<le> n \<and> n \<le> 70 then Some (n - 55)
         else if 97 \<le> n \<and> n \<le> 102 then Some (n - 87) else None)"

definition hex_byte :: "char \<Rightarrow> char \<Rightarrow> nat option" where
  "hex_byte a b = (case (hex_value a, hex_value b) of (Some x, Some y) \<Rightarrow> Some (16 * x + y) | _ \<Rightarrow> None)"

text \<open>
  \<open>None\<close>: the text is malformed (a \<open>URIError\<close>), or stands for a code unit above 255.
\<close>

fun decodeURIComponent :: "string \<Rightarrow> string option" where
  "decodeURIComponent [] = Some []"
| "decodeURIComponent (c # s) =
     (if c \<noteq> CHR ''%'' then map_option ((#) c) (decodeURIComponent s)
      else case s of
        a # b # r \<Rightarrow>
          (case hex_byte a b of None \<Rightarrow> None
           | Some x \<Rightarrow>
               if x < 128 then map_option ((#) (char_of x)) (decodeURIComponent r)
               else (case r of
                   p # d # e # r' \<Rightarrow>
                     (case hex_byte d e of None \<Rightarrow> None
                      | Some y \<Rightarrow>
                          if p = CHR ''%'' \<and> x \<in> {194, 195} \<and> 128 \<le> y \<and> y < 192
                          then map_option ((#) (char_of (64 * (x - 192) + (y - 128)))) (decodeURIComponent r')
                          else None)
                 | _ \<Rightarrow> None))
      | _ \<Rightarrow> None)"

section \<open>Writing query strings\<close>

text \<open>The values of a hash; another object is left out.  A property all objects inherit is \<open>Inherited\<close>.\<close>

datatype qvalue = QUndefined | QNull | QText string | QArray "qvalue list" | QObject | Inherited string

fun interpret_value :: "qvalue \<Rightarrow> string" where
  "interpret_value QUndefined = []"
| "interpret_value QNull = []"
| "interpret_value (QText s) = s"
| "interpret_value (QArray vs) = join_with '','' (map interpret_value vs)"
| "interpret_value QObject = ''[object Object]''"
| "interpret_value (Inherited k) = ''function '' @ k @ ''() { [native code] }''"

definition toQueryPair :: "string \<Rightarrow> qvalue \<Rightarrow> string" where
  "toQueryPair key v = (if v = QUndefined then key else key @ ''='' @ encodeURIComponent (interpret_value v))"

definition query_pairs :: "string \<times> qvalue \<Rightarrow> string list" where
  "query_pairs p =
     (let key = encodeURIComponent (fst p)
      in case snd p of
           QArray vs \<Rightarrow> map (toQueryPair key) vs
         | QObject \<Rightarrow> []
         | v \<Rightarrow> [toQueryPair key v])"

definition toQueryString :: "qvalue object \<Rightarrow> string" where
  "toQueryString obj = join_with ''&'' (foldl (\<lambda>results p. results @ query_pairs p) [] obj)"

section \<open>Reading query strings\<close>

text \<open>What \<open>/([^?#]*)(#.*)?$/\<close> matches first; the dot does not match a line end.\<close>

definition is_delim :: "char \<Rightarrow> bool" where
  "is_delim c \<longleftrightarrow> c = CHR ''?'' \<or> c = CHR ''#''"

definition line_end :: "char \<Rightarrow> bool" where
  "line_end c \<longleftrightarrow> of_char c \<in> {10, 13 :: nat}"

function query_part :: "string \<Rightarrow> string" where
  "query_part s =
     (let w = takeWhile (\<lambda>c. \<not> is_delim c) s; r = dropWhile (\<lambda>c. \<not> is_delim c) s
      in case r of [] \<Rightarrow> w
         | c # t \<Rightarrow> if c = CHR ''#'' \<and> \<not> list_ex line_end t then w else query_part t)"
  by auto
termination
proof (relation "measure length", goal_cases)
  case (2 s w r c t)
  then have "length (c # t) \<le> length s" using length_dropWhile_le [of "\<lambda>c. \<not> is_delim c" s] by simp
  then show ?case by simp
qed simp

declare query_part.simps [simp del]

text \<open>The property names every object inherits; \<open>in\<close> finds them too.\<close>

definition inherited_names :: "string list" where
  "inherited_names = [''constructor'', ''toString'', ''toLocaleString'', ''valueOf'', ''hasOwnProperty'',
     ''isPrototypeOf'', ''propertyIsEnumerable'']"

definition add_param :: "string \<Rightarrow> qvalue \<Rightarrow> qvalue object \<Rightarrow> qvalue object" where
  "add_param key v hash =
     (if own key hash \<or> key \<in> set inherited_names
      then (let old = (case hash_get key hash of Some w \<Rightarrow> w | None \<Rightarrow> Inherited key);
                arr = (case old of QArray vs \<Rightarrow> vs | w \<Rightarrow> [w])
            in hash_set key (QArray (arr @ [v])) hash)
      else hash_set key v hash)"

definition read_pair :: "string \<Rightarrow> (string \<times> qvalue) option option" where
  "read_pair pair =
     (case split_on (CHR ''='') pair of
        [] \<Rightarrow> Some None
      | k # vs \<Rightarrow>
          if k = [] then Some None
          else (case decodeURIComponent k of None \<Rightarrow> None
            | Some key \<Rightarrow>
                if vs = [] then Some (Some (key, QUndefined))
                else (case decodeURIComponent (join_with ''='' vs) of None \<Rightarrow> None
                  | Some v \<Rightarrow> Some (Some (key, QText v)))))"

fun read_pairs :: "string list \<Rightarrow> qvalue object \<Rightarrow> qvalue object option" where
  "read_pairs [] hash = Some hash"
| "read_pairs (p # ps) hash =
     (case read_pair p of None \<Rightarrow> None
      | Some None \<Rightarrow> read_pairs ps hash
      | Some (Some (key, v)) \<Rightarrow> read_pairs ps (add_param key v hash))"

definition toQueryParams :: "char \<Rightarrow> string \<Rightarrow> qvalue object option" where
  "toQueryParams separator s = read_pairs (split_on separator (query_part (trim s))) []"

section \<open>Hashes as maps\<close>

lemma hash_set_map: "map_of (hash_set key v obj) = (map_of obj)(key \<mapsto> v)"
  by (induction key v obj rule: hash_set.induct) auto

lemma hash_set_keys: "map fst (hash_set key v obj) = (if own key obj then map fst obj else map fst obj @ [key])"
  by (induction key v obj rule: hash_set.induct) (auto simp: own_def)

lemma hash_get_set: "hash_get n (hash_set m v ps) = (if n = m then Some v else hash_get n ps)"
  by (simp add: hash_get_def hash_set_map)

lemma hash_set_set: "p \<in> set (hash_set k v obj) \<Longrightarrow> p = (k, v) \<or> p \<in> set obj"
  by (induction k v obj rule: hash_set.induct) (auto split: if_splits)

lemma hash_set_new: "\<not> own key obj \<Longrightarrow> hash_set key v obj = obj @ [(key, v)]"
  by (induction key v obj rule: hash_set.induct) (auto simp: own_def)

lemma hash_set_last: "\<not> own key obj \<Longrightarrow> hash_set key v (obj @ [(key, w)]) = obj @ [(key, v)]"
  by (induction key v obj rule: hash_set.induct) (auto simp: own_def)

lemma hash_get_last: "\<not> own key obj \<Longrightarrow> hash_get key (obj @ [(key, v)]) = Some v"
  by (induction obj) (auto simp: own_def hash_get_def)

lemma hash_update_map: "map_of (hash_update other obj) = (\<lambda>k. case map_of (rev other) k of Some v \<Rightarrow> Some v | None \<Rightarrow> map_of obj k)"
proof (induction other arbitrary: obj)
  case Nil
  then show ?case by (simp add: hash_update_def)
next
  case (Cons p other)
  have "map_of (hash_update (p # other) obj) = map_of (hash_update other (hash_set (fst p) (snd p) obj))"
    by (simp add: hash_update_def)
  also have "\<dots> = (\<lambda>k. case map_of (rev other) k of Some v \<Rightarrow> Some v | None \<Rightarrow> ((map_of obj)(fst p \<mapsto> snd p)) k)"
    unfolding Cons by (rule ext) (simp add: hash_set_map split: option.split)
  also have "\<dots> = (\<lambda>k. case map_of (rev (p # other)) k of Some v \<Rightarrow> Some v | None \<Rightarrow> map_of obj k)"
    by (rule ext) (auto simp: map_add_def split: option.split)
  finally show ?case .
qed

lemma hash_update_distinct: "distinct (map fst obj) \<Longrightarrow> distinct (map fst (hash_update other obj))"
proof (induction other arbitrary: obj)
  case (Cons p other)
  have "distinct (map fst (hash_set (fst p) (snd p) obj))" using Cons.prems by (simp add: hash_set_keys own_def)
  from Cons.IH [OF this] show ?case by (simp add: hash_update_def)
qed (simp add: hash_update_def)

section \<open>Decoding undoes encoding\<close>

lemma of_char_less: "(of_char c :: nat) < 256"
  by (metis char_of_char mod_less_divisor of_char_of zero_less_numeral)

lemma hex_value_upper: "n < 16 \<Longrightarrow> hex_value (hex_upper n) = Some n"
  by (cases "n < 10") (simp_all add: hex_value_def hex_upper_def of_char_of Let_def)

lemma hex_byte_upper: "b < 256 \<Longrightarrow> hex_byte (hex_upper (b div 16)) (hex_upper (b mod 16)) = Some b"
  by (simp add: hex_byte_def hex_value_upper div_less_iff_less_mult)

lemma decode_encode_char: "decodeURIComponent (encode_char c @ t) = map_option ((#) c) (decodeURIComponent t)"
proof -
  define n where "n = (of_char c :: nat)"
  have n: "n < 256" unfolding n_def by (rule of_char_less)
  have c: "char_of n = c" by (simp add: n_def)
  show ?thesis
  proof (cases "unreserved c")
    case True
    then have "c \<noteq> CHR ''%''" by (auto simp: unreserved_def)
    then show ?thesis using True by (simp add: encode_char_def)
  next
    case False
    show ?thesis
    proof (cases "n < 128")
      case True
      then show ?thesis using False hex_byte_upper [OF n] c
        by (simp add: encode_char_def percent_byte_def Let_def flip: n_def)
    next
      case big: False
      let ?x = "192 + n div 64" and ?y = "128 + n mod 64"
      have d: "n div 64 = 2 \<or> n div 64 = 3" using n big by auto
      have h: "hex_byte (hex_upper (?x div 16)) (hex_upper (?x mod 16)) = Some ?x"
        "hex_byte (hex_upper (?y div 16)) (hex_upper (?y mod 16)) = Some ?y"
        by (rule hex_byte_upper, use d in auto)+
      have e: "encode_char c = percent_byte ?x @ percent_byte ?y"
        using False big by (simp add: encode_char_def Let_def flip: n_def)
      have m: "?x \<in> {194, 195}" "\<not> ?x < 128" "128 \<le> ?y" "?y < 192" using d by auto
      have v: "64 * (?x - 192) + (?y - 128) = n" by simp
      define x where "x = ?x"
      define y where "y = ?y"
      have "decodeURIComponent (encode_char c @ t) = map_option ((#) (char_of (64 * (x - 192) + (y - 128)))) (decodeURIComponent t)"
        using h m unfolding e percent_byte_def x_def [symmetric] y_def [symmetric] by simp
      then show ?thesis using v c by (simp add: x_def y_def)
    qed
  qed
qed

lemma decode_encode: "decodeURIComponent (encodeURIComponent s) = Some s"
  by (induction s) (simp_all add: encodeURIComponent_def decode_encode_char)

definition encoded_char :: "char \<Rightarrow> bool" where
  "encoded_char c \<longleftrightarrow> unreserved c \<or> c = CHR ''%''"

lemma unreserved_hex_upper: "n < 16 \<Longrightarrow> unreserved (hex_upper n)"
  by (cases "n < 10") (simp_all add: unreserved_def hex_upper_def of_char_of Let_def)

lemma percent_byte_encoded: "b < 256 \<Longrightarrow> list_all encoded_char (percent_byte b)"
  by (simp add: percent_byte_def encoded_char_def unreserved_hex_upper div_less_iff_less_mult)

lemma encode_char_encoded: "list_all encoded_char (encode_char c)"
proof -
  define n where "n = (of_char c :: nat)"
  have n: "n < 256" unfolding n_def by (rule of_char_less)
  then have "n div 64 < 64" by (simp add: div_less_iff_less_mult)
  moreover have "n mod 64 < 64" by simp
  ultimately have b: "192 + n div 64 < 256" "128 + n mod 64 < 256" by linarith+
  show ?thesis
    unfolding encode_char_def n_def [symmetric] Let_def
    using percent_byte_encoded [OF n] percent_byte_encoded [OF b(1)] percent_byte_encoded [OF b(2)]
    by (simp add: encoded_char_def)
qed

lemma encode_encoded: "list_all encoded_char (encodeURIComponent s)"
  by (induction s) (simp_all add: encodeURIComponent_def encode_char_encoded)

lemma encoded_plain:
  assumes "encoded_char c"
  shows "\<not> is_space c" "\<not> is_delim c" "c \<noteq> CHR ''&''" "c \<noteq> CHR ''=''"
  using assms by (auto simp: encoded_char_def unreserved_def is_space_def is_delim_def Let_def)
section \<open>The round trip\<close>

text \<open>
  The objects a query string can stand for: each name once, not empty and not one of the inherited
  ones; a text, \<open>undefined\<close>, or an array of two texts or more.
\<close>

fun plain_value :: "qvalue \<Rightarrow> bool" where
  "plain_value QUndefined = True"
| "plain_value (QText s) = True"
| "plain_value (QArray vs) = (2 \<le> length vs \<and> list_all (\<lambda>v. \<exists>s. v = QText s) vs)"
| "plain_value _ = False"

definition plain_params :: "qvalue object \<Rightarrow> bool" where
  "plain_params obj \<longleftrightarrow> distinct (map fst obj) \<and>
     list_all (\<lambda>p. fst p \<noteq> [] \<and> fst p \<notin> set inherited_names \<and> plain_value (snd p)) obj"

definition pair_char :: "char \<Rightarrow> bool" where
  "pair_char c \<longleftrightarrow> encoded_char c \<or> c = CHR ''=''"

lemma pair_char_plain:
  assumes "pair_char c" shows "\<not> is_space c" "\<not> is_delim c" "c \<noteq> CHR ''&''"
  using assms encoded_plain [of c] by (auto simp: pair_char_def is_space_def is_delim_def)

lemma encode_char_not_Nil: "encode_char c \<noteq> []"
  by (simp add: encode_char_def percent_byte_def Let_def)

lemma encode_Nil: "encodeURIComponent s = [] \<longleftrightarrow> s = []"
  by (cases s) (simp_all add: encodeURIComponent_def encode_char_not_Nil)

lemma encode_no_eq: "CHR ''='' \<notin> set (encodeURIComponent s)"
  using encode_encoded [of s] encoded_plain(4) by (auto simp: list_all_iff)

lemma query_pair_chars: "list_all (list_all pair_char) (query_pairs p)"
proof -
  have e: "list_all pair_char (encodeURIComponent s)" for s
    using encode_encoded [of s] by (auto simp: list_all_iff pair_char_def)
  have "list_all pair_char (toQueryPair (encodeURIComponent k) v)" for k v
    using e by (simp add: toQueryPair_def pair_char_def)
  then show ?thesis by (simp add: query_pairs_def Let_def list_all_iff split: qvalue.split)
qed

lemma query_string_pieces: "toQueryString obj = join_with ''&'' (concat (map query_pairs obj))"
proof -
  have "foldl (\<lambda>results p. results @ query_pairs p) acc obj = acc @ concat (map query_pairs obj)" for acc
    by (induction obj arbitrary: acc) simp_all
  then show ?thesis by (simp add: toQueryString_def)
qed

lemma trim_plain: "\<forall>c \<in> set s. \<not> is_space c \<Longrightarrow> trim s = s"
proof -
  assume a: "\<forall>c \<in> set s. \<not> is_space c"
  then have "ltrim s = s" by (cases s) (simp_all add: ltrim_def)
  moreover have "rtrim s = s" using a by (cases s rule: rev_cases) (simp_all add: rtrim_def)
  ultimately show ?thesis by (simp add: trim_def)
qed

lemma query_part_plain: "\<forall>c \<in> set s. \<not> is_delim c \<Longrightarrow> query_part s = s"
proof -
  assume a: "\<forall>c \<in> set s. \<not> is_delim c"
  then have d: "dropWhile (\<lambda>c. \<not> is_delim c) s = []" and w: "takeWhile (\<lambda>c. \<not> is_delim c) s = s"
    by (simp_all add: dropWhile_eq_Nil_conv takeWhile_eq_all_conv)
  show ?thesis unfolding query_part.simps [of s] Let_def by (simp only: d w list.case)
qed

lemma set_join_with: "set (join_with sep ws) \<subseteq> set sep \<union> (\<Union>w \<in> set ws. set w)"
  by (induction sep ws rule: join_with.induct) auto

lemma read_query_pair:
  assumes "k \<noteq> []" "v = QUndefined \<or> (\<exists>s. v = QText s)"
  shows "read_pair (toQueryPair (encodeURIComponent k) v) = Some (Some (k, v))"
proof (cases "v = QUndefined")
  case True
  then show ?thesis using assms(1)
    by (simp add: toQueryPair_def read_pair_def split_on_single encode_no_eq encode_Nil decode_encode)
next
  case False
  then obtain s where s: "v = QText s" using assms(2) by blast
  have "split_on (CHR ''='') (encodeURIComponent k @ CHR ''='' # encodeURIComponent s)
    = [encodeURIComponent k, encodeURIComponent s]"
    using split_on_append_sep [OF encode_no_eq] split_on_single [OF encode_no_eq] by simp
  then show ?thesis using assms(1) s by (simp add: toQueryPair_def read_pair_def encode_Nil decode_encode)
qed

lemma read_array_pairs:
  assumes "k \<noteq> []" "\<not> own k hash"
  shows "list_all (\<lambda>v. \<exists>s. v = QText s) us \<Longrightarrow>
    read_pairs (map (toQueryPair (encodeURIComponent k)) us @ ps) (hash @ [(k, QArray vs)]) =
    read_pairs ps (hash @ [(k, QArray (vs @ us))])"
proof (induction us arbitrary: vs)
  case (Cons u us)
  have g: "hash_get k (hash @ [(k, QArray vs)]) = Some (QArray vs)"
    by (rule hash_get_last [OF assms(2)])
  have "add_param k u (hash @ [(k, QArray vs)]) = hash @ [(k, QArray (vs @ [u]))]"
    using assms(2) g by (simp add: add_param_def own_def hash_set_last [unfolded own_def])
  moreover have "read_pair (toQueryPair (encodeURIComponent k) u) = Some (Some (k, u))"
    using Cons.prems by (intro read_query_pair [OF assms(1)]) simp
  ultimately show ?case using Cons.IH [of "vs @ [u]"] Cons.prems by simp
qed simp

lemma read_property:
  assumes "k \<noteq> []" "k \<notin> set inherited_names" "\<not> own k hash" "plain_value v"
  shows "read_pairs (query_pairs (k, v) @ ps) hash = read_pairs ps (hash @ [(k, v)])"
proof -
  have new: "add_param k u hash = hash @ [(k, u)]" for u
    using assms(2,3) by (simp add: add_param_def hash_set_new)
  show ?thesis
  proof (cases v)
    case (QArray vs)
    then obtain a b us where vs: "vs = a # b # us" using assms(4) by (cases vs; cases "tl vs") auto
    then obtain s u where s: "a = QText s" "b = QText u" using assms(4) QArray by auto
    have r: "read_pair (toQueryPair (encodeURIComponent k) (QText w)) = Some (Some (k, QText w))" for w
      by (intro read_query_pair [OF assms(1)]) simp
    have g: "hash_get k (hash @ [(k, QText s)]) = Some (QText s)"
      by (rule hash_get_last [OF assms(3)])
    have "add_param k (QText u) (hash @ [(k, QText s)]) = hash @ [(k, QArray [QText s, QText u])]"
      using assms(3) g by (simp add: add_param_def own_def hash_set_last [unfolded own_def])
    then show ?thesis using QArray vs s r new read_array_pairs [OF assms(1,3), of us ps "[QText s, QText u]"] assms(4)
      by (simp add: query_pairs_def Let_def)
  qed (use assms(4) new read_query_pair [OF assms(1), of v] in \<open>simp_all add: query_pairs_def Let_def\<close>)
qed

lemma read_properties:
  "plain_params obj \<Longrightarrow> (\<And>k. k \<in> set (map fst obj) \<Longrightarrow> \<not> own k hash) \<Longrightarrow>
   read_pairs (concat (map query_pairs obj)) hash = Some (hash @ obj)"
proof (induction obj arbitrary: hash)
  case (Cons p obj)
  obtain k v where p: "p = (k, v)" by (rule prod.exhaust)
  have "read_pairs (query_pairs (k, v) @ concat (map query_pairs obj)) hash = read_pairs (concat (map query_pairs obj)) (hash @ [(k, v)])"
    using Cons.prems p by (intro read_property) (auto simp: plain_params_def)
  moreover have "read_pairs (concat (map query_pairs obj)) (hash @ [(k, v)]) = Some ((hash @ [(k, v)]) @ obj)"
    using Cons.prems p by (intro Cons.IH) (auto simp: plain_params_def own_def)
  ultimately show ?case using p by simp
qed simp

lemma toQueryString_plain: "\<forall>c \<in> set (toQueryString obj). \<not> is_space c \<and> \<not> is_delim c"
proof
  let ?ws = "concat (map query_pairs obj)"
  fix c assume "c \<in> set (toQueryString obj)"
  then have "c \<in> set ''&'' \<union> (\<Union>w \<in> set ?ws. set w)"
    unfolding query_string_pieces using set_join_with by (rule rev_subsetD)
  then consider "c = CHR ''&''" | w where "w \<in> set ?ws" "c \<in> set w" by auto
  then have "c = CHR ''&'' \<or> pair_char c"
  proof cases
    case 2
    then obtain p where "p \<in> set obj" "w \<in> set (query_pairs p)" by auto
    then show ?thesis using 2(2) query_pair_chars [of p] by (simp add: list_all_iff)
  qed simp
  then show "\<not> is_space c \<and> \<not> is_delim c" using pair_char_plain by (auto simp: is_space_def is_delim_def)
qed

lemma query_read_back:
  assumes "plain_params obj"
  shows "toQueryParams (CHR ''&'') (toQueryString obj) = Some obj"
proof -
  let ?ws = "concat (map query_pairs obj)"
  have w: "list_all pair_char u" if "u \<in> set ?ws" for u
    using that query_pair_chars by (auto simp: list_all_iff)
  have s: "query_part (trim (toQueryString obj)) = toQueryString obj"
    using toQueryString_plain [of obj] by (simp add: trim_plain query_part_plain)
  have r: "read_pairs ?ws [] = Some obj" using read_properties [OF assms, of "[]"] by (simp add: own_def)
  show ?thesis
  proof (cases "?ws = []")
    case True
    then have "obj = []" using r unfolding True by simp
    then show ?thesis by (simp add: toQueryParams_def query_string_pieces query_part_plain trim_plain read_pair_def)
  next
    case False
    have "split_on (CHR ''&'') (toQueryString obj) = ?ws"
      unfolding query_string_pieces using w pair_char_plain(3) by (intro split_join [OF False]) (auto simp: list_all_iff)
    then show ?thesis using s r by (simp add: toQueryParams_def)
  qed
qed

text \<open>
  C22: The query string of an object is read back as the object: for texts, \<open>undefined\<close> and arrays of
  two texts or more under names that are not inherited, \<open>toQueryParams\<close> returns from the result of
  \<open>toQueryString\<close> the same properties, in the same order, whatever characters they hold.
\<close>

theorem query_roundtrip:
  assumes "plain_params obj"
  shows "toQueryParams (CHR ''&'') (toQueryString obj) = Some obj"
  using assms by (rule query_read_back)

theorem query_roundtrip_witness:
  "toQueryParams (CHR ''&'') (toQueryString [(''a b'', QText ''x=&?''), (''c'', QUndefined), (''d'', QArray [QText [], QText ''#''])])
   = Some [(''a b'', QText ''x=&?''), (''c'', QUndefined), (''d'', QArray [QText [], QText ''#''])]"
  by (rule query_roundtrip) (simp add: plain_params_def inherited_names_def)
text \<open>
  A parameter named like a property every object inherits is read as an array that starts with the
  inherited function.
\<close>

theorem inherited_name_garbled:
  "toQueryParams (CHR ''&'') ''valueOf=a'' = Some [(''valueOf'', QArray [Inherited ''valueOf'', QText ''a''])]"
proof -
  have p: "query_part (trim ''valueOf=a'') = ''valueOf=a''"
    by (simp add: trim_plain query_part_plain is_space_def is_delim_def)
  show ?thesis
    by (simp add: toQueryParams_def p read_pair_def add_param_def inherited_names_def own_def hash_get_def)
qed
end
