(* ===== verification/Ajax.thy ===== *)
theory Ajax
  imports QueryString Complex_Main
begin

text \<open>
  Requests of \<open>prototype.js\<close>: the global responders with the counter of active requests, what a
  request sends, the state machine of a request under the events of its transport, and the timing of
  the periodical updater.  A callback of a client either returns or throws.
\<close>

section \<open>Responders\<close>

record responder =
  responder_id :: nat
  responds_to :: "string list"

text \<open>
  The callbacks of the options: \<open>None\<close> when there is none, else whether it throws.
\<close>

record request =
  handlers :: "string \<Rightarrow> bool option"
  completed :: bool
  listening :: bool

text \<open>Who was called: the client's own callback of a request, or a responder.\<close>

datatype callee = Client | Responder nat

record ajax =
  responders :: "responder list"
  requests :: "request list"
  active :: int
  log :: "(nat \<times> callee \<times> string) list"

text \<open>The responder the library registers itself; its identity is \<open>0\<close>.\<close>

definition counter :: responder where
  "counter = \<lparr>responder_id = 0, responds_to = [''onCreate'', ''onComplete'']\<rparr>"

definition ajax_start :: ajax where
  "ajax_start = \<lparr>responders = [counter], requests = [], active = 0, log = []\<rparr>"

definition register :: "responder \<Rightarrow> ajax \<Rightarrow> ajax" where
  "register r st = (if r \<in> set (responders st) then st else st\<lparr>responders := responders st @ [r]\<rparr>)"

definition unregister :: "responder \<Rightarrow> ajax \<Rightarrow> ajax" where
  "unregister r st = st\<lparr>responders := filter (\<lambda>x. x \<noteq> r) (responders st)\<rparr>"

text \<open>A responder is called; what it throws is dropped.  The counter changes \<open>activeRequestCount\<close>.\<close>

definition call_responder :: "nat \<Rightarrow> string \<Rightarrow> responder \<Rightarrow> ajax \<Rightarrow> ajax" where
  "call_responder i callback r st =
     (if callback \<in> set (responds_to r)
      then st\<lparr>log := log st @ [(i, Responder (responder_id r), callback)],
              active := active st + (if r = counter then (if callback = ''onCreate'' then 1 else -1) else 0)\<rparr>
      else st)"

definition dispatch :: "nat \<Rightarrow> string \<Rightarrow> ajax \<Rightarrow> ajax" where
  "dispatch i callback st = fold (call_responder i callback) (responders st) st"

section \<open>Calling a client\<close>

definition own_callback :: "nat \<Rightarrow> string \<Rightarrow> ajax \<Rightarrow> bool \<times> ajax" where
  "own_callback i callback st =
     (case handlers (requests st ! i) callback of None \<Rightarrow> (False, st)
      | Some throws \<Rightarrow> (throws, st\<lparr>log := log st @ [(i, Client, callback)]\<rparr>))"

text \<open>An exception is handed to the client, whose handler may throw again, then to the responders.\<close>

definition dispatchException :: "nat \<Rightarrow> ajax \<Rightarrow> bool \<times> ajax" where
  "dispatchException i st =
     (case own_callback i ''onException'' st of (True, st') \<Rightarrow> (True, st')
      | (False, st') \<Rightarrow> (False, dispatch i ''onException'' st'))"

definition catching :: "nat \<Rightarrow> bool \<times> ajax \<Rightarrow> bool \<times> ajax" where
  "catching i r = (case r of (True, st) \<Rightarrow> dispatchException i st | (False, st) \<Rightarrow> (False, st))"

section \<open>What a request sends\<close>

record ajax_options =
  opt_method :: string
  opt_parameters :: "qvalue object"
  opt_postBody :: string

record message =
  msg_method :: string
  msg_url :: string
  msg_body :: "string option"

definition upper_char :: "char \<Rightarrow> char" where
  "upper_char c = (let n = of_char c :: nat in if 97 \<le> n \<and> n \<le> 122 then char_of (n - 32) else c)"

definition to_upper :: "string \<Rightarrow> string" where
  "to_upper = map upper_char"

definition build_message :: "bool \<Rightarrow> string \<Rightarrow> ajax_options \<Rightarrow> message" where
  "build_message webkit url opts =
     (let simulated = opt_method opts \<noteq> ''get'' \<and> opt_method opts \<noteq> ''post'';
          verb = (if simulated then ''post'' else opt_method opts);
          object = (if simulated then hash_set ''_method'' (QText (opt_method opts)) (opt_parameters opts) else opt_parameters opts);
          params = toQueryString object;
          url' = (if params \<noteq> [] \<and> verb = ''get'' then url @ (if CHR ''?'' \<in> set url then ''&'' else ''?'') @ params else url);
          params' = (if params \<noteq> [] \<and> verb \<noteq> ''get'' \<and> webkit then params @ ''&_='' else params)
      in \<lparr>msg_method = to_upper verb, msg_url = url',
          msg_body = (if verb = ''post'' then Some (if opt_postBody opts \<noteq> [] then opt_postBody opts else params') else None)\<rparr>)"

section \<open>The state machine of a request\<close>

text \<open>
  What the transport shows at an event: the ready state, the status (\<open>None\<close> when reading it
  throws), and whether the response is evaluated as a script and throws then.
\<close>

record transport =
  readyState :: nat
  transport_status :: "nat option"
  script :: "bool option"

definition getStatus :: "transport \<Rightarrow> nat" where
  "getStatus t = (case transport_status t of None \<Rightarrow> 0 | Some s \<Rightarrow> s)"

definition success :: "transport \<Rightarrow> bool" where
  "success t \<longleftrightarrow> getStatus t = 0 \<or> (200 \<le> getStatus t \<and> getStatus t < 300)"

definition event_names :: "string list" where
  "event_names = [''Uninitialized'', ''Loading'', ''Loaded'', ''Interactive'', ''Complete'']"

definition event_name :: "nat \<Rightarrow> string" where
  "event_name rs = (if rs < length event_names then event_names ! rs else ''undefined'')"

definition result_callback :: "transport \<Rightarrow> request \<Rightarrow> string" where
  "result_callback t r =
     (let by_status = ''on'' @ show_nat (getStatus t)
      in if handlers r by_status \<noteq> None then by_status else ''on'' @ (if success t then ''Success'' else ''Failure''))"

definition set_request :: "nat \<Rightarrow> (request \<Rightarrow> request) \<Rightarrow> ajax \<Rightarrow> ajax" where
  "set_request i f st = st\<lparr>requests := (requests st)[i := f (requests st ! i)]\<rparr>"

text \<open>The first part of \<open>respondToReadyState\<close>, for a complete response.\<close>

definition complete_part :: "nat \<Rightarrow> transport \<Rightarrow> ajax \<Rightarrow> bool \<times> ajax" where
  "complete_part i t st =
     (let st1 = set_request i (\<lambda>r. r\<lparr>completed := True\<rparr>) st
      in case catching i (own_callback i (result_callback t (requests st1 ! i)) st1) of
           (True, st2) \<Rightarrow> (True, st2)
         | (False, st2) \<Rightarrow> (case script t of Some True \<Rightarrow> dispatchException i st2 | _ \<Rightarrow> (False, st2)))"

definition announce :: "nat \<Rightarrow> string \<Rightarrow> ajax \<Rightarrow> bool \<times> ajax" where
  "announce i callback st =
     catching i (case own_callback i callback st of (True, st') \<Rightarrow> (True, st')
       | (False, st') \<Rightarrow> (False, dispatch i callback st'))"

definition respondToReadyState :: "nat \<Rightarrow> nat \<Rightarrow> transport \<Rightarrow> ajax \<Rightarrow> bool \<times> ajax" where
  "respondToReadyState i rs t st =
     (let state = event_name rs
      in case (if state = ''Complete'' then complete_part i t st else (False, st)) of
           (True, st1) \<Rightarrow> (True, st1)
         | (False, st1) \<Rightarrow>
             (case announce i (''on'' @ state) st1 of
                (True, st2) \<Rightarrow> (True, st2)
              | (False, st2) \<Rightarrow>
                  (False, if state = ''Complete'' then set_request i (\<lambda>r. r\<lparr>listening := False\<rparr>) st2 else st2)))"

definition onStateChange :: "nat \<Rightarrow> transport \<Rightarrow> ajax \<Rightarrow> ajax" where
  "onStateChange i t st =
     (if readyState t > 1 \<and> \<not> (readyState t = 4 \<and> completed (requests st ! i))
      then snd (respondToReadyState i (readyState t) t st) else st)"

text \<open>
  \<open>request\<close>: the client and the responders hear of it, and it is sent; the transport may throw when
  it is opened, or afterwards.  The state change a synchronous request reports itself is an event
  like those of the transport.
\<close>

datatype sending = Sent | OpenFails | SendFails

definition new_request :: "(string \<Rightarrow> bool option) \<Rightarrow> sending \<Rightarrow> ajax \<Rightarrow> ajax" where
  "new_request hs sending st =
     (let i = length (requests st);
          st1 = st\<lparr>requests := requests st @ [\<lparr>handlers = hs, completed = False, listening = False\<rparr>]\<rparr>
      in snd (catching i (case own_callback i ''onCreate'' st1 of (True, st2) \<Rightarrow> (True, st2)
           | (False, st2) \<Rightarrow> (sending \<noteq> Sent, set_request i (\<lambda>r. r\<lparr>listening := sending \<noteq> OpenFails\<rparr>) (dispatch i ''onCreate'' st2)))))"

datatype ajax_event =
    NewRequest "string \<Rightarrow> bool option" sending
  | Transport nat transport
  | LoadingTimer nat transport
  | Register responder
  | Unregister responder

fun ajax_step :: "ajax_event \<Rightarrow> ajax \<Rightarrow> ajax" where
  "ajax_step (NewRequest hs sending) st = new_request hs sending st"
| "ajax_step (Transport i t) st =
     (if i < length (requests st) \<and> listening (requests st ! i) then onStateChange i t st else st)"
| "ajax_step (LoadingTimer i t) st =
     (if i < length (requests st) then snd (respondToReadyState i 1 t st) else st)"
| "ajax_step (Register r) st = register r st"
| "ajax_step (Unregister r) st = unregister r st"

definition ajax_run :: "ajax_event list \<Rightarrow> ajax" where
  "ajax_run es = fold ajax_step es ajax_start"

section \<open>Periodical updates\<close>

record updater =
  frequency :: rat
  decay_option :: rat
  decay :: rat
  last_text :: "string option"

definition updater_start :: "rat \<Rightarrow> rat \<Rightarrow> updater" where
  "updater_start freq dec =
     \<lparr>frequency = (if freq = 0 then 2 else freq), decay_option = dec, decay = (if dec = 0 then 1 else dec), last_text = None\<rparr>"

text \<open>The updater after a response, and the delay until the next request.\<close>

definition updateComplete :: "string \<Rightarrow> updater \<Rightarrow> rat \<times> updater" where
  "updateComplete response u =
     (let u' = (if decay_option u \<noteq> 0
          then u\<lparr>decay := (if Some response = last_text u then decay u * decay_option u else 1), last_text := Some response\<rparr>
          else u)
      in (decay u' * frequency u', u'))"

fun update_delays :: "string list \<Rightarrow> updater \<Rightarrow> rat list" where
  "update_delays [] u = []"
| "update_delays (r # rs) u = (case updateComplete r u of (d, u') \<Rightarrow> d # update_delays rs u')"

section \<open>Periodical executers\<close>

text \<open>
  A tick of a timer whose callback runs until it ends or throws; a tick that comes in between finds
  the flag set.
\<close>

record executer =
  currentlyExecuting :: bool
  executions :: nat

datatype tick = TimerTick | CallbackEnds

fun onTimerEvent :: "tick \<Rightarrow> executer \<Rightarrow> executer" where
  "onTimerEvent TimerTick x =
     (if \<not> currentlyExecuting x then x\<lparr>currentlyExecuting := True, executions := executions x + 1\<rparr> else x)"
| "onTimerEvent CallbackEnds x = x\<lparr>currentlyExecuting := False\<rparr>"

section \<open>What the operations leave alone\<close>

lemma call_responder_frame [simp]:
  "responders (call_responder i cb r st) = responders st" "requests (call_responder i cb r st) = requests st"
  by (simp_all add: call_responder_def)

lemma dispatch_frame [simp]:
  "responders (dispatch i cb st) = responders st" "requests (dispatch i cb st) = requests st"
proof -
  have "responders (fold (call_responder i cb) rs st) = responders st \<and> requests (fold (call_responder i cb) rs st) = requests st" for rs
    by (induction rs arbitrary: st) simp_all
  then show "responders (dispatch i cb st) = responders st" "requests (dispatch i cb st) = requests st"
    by (simp_all add: dispatch_def)
qed

lemma own_callback_frame [simp]:
  "responders (snd (own_callback i cb st)) = responders st" "requests (snd (own_callback i cb st)) = requests st"
  "active (snd (own_callback i cb st)) = active st"
  by (simp_all add: own_callback_def split: option.split)

lemma dispatchException_frame [simp]:
  "responders (snd (dispatchException i st)) = responders st" "requests (snd (dispatchException i st)) = requests st"
proof -
  obtain b st' where r: "own_callback i ''onException'' st = (b, st')" by (rule prod.exhaust)
  have "responders st' = responders st" "requests st' = requests st"
    using own_callback_frame [of i "''onException''" st] r by simp_all
  then show "responders (snd (dispatchException i st)) = responders st" "requests (snd (dispatchException i st)) = requests st"
    using r by (cases b; simp add: dispatchException_def)+
qed

lemma catching_frame [simp]:
  "responders (snd (catching i r)) = responders (snd r)" "requests (snd (catching i r)) = requests (snd r)"
  by (cases r; cases "fst r"; simp add: catching_def)+

lemma announce_frame [simp]:
  "responders (snd (announce i cb st)) = responders st" "requests (snd (announce i cb st)) = requests st"
proof -
  obtain b st' where r: "own_callback i cb st = (b, st')" by (rule prod.exhaust)
  have "responders st' = responders st" "requests st' = requests st" using own_callback_frame [of i cb st] r by simp_all
  then show "responders (snd (announce i cb st)) = responders st" "requests (snd (announce i cb st)) = requests st"
    using r by (cases b; simp add: announce_def)+
qed

lemma set_request_frame [simp]:
  "responders (set_request i f st) = responders st" "active (set_request i f st) = active st"
  "log (set_request i f st) = log st" "length (requests (set_request i f st)) = length (requests st)"
  by (simp_all add: set_request_def)

text \<open>The state after the callback for the result, and what may follow it.\<close>

definition result_called :: "nat \<Rightarrow> transport \<Rightarrow> ajax \<Rightarrow> bool \<times> ajax" where
  "result_called i t st =
     (let st1 = set_request i (\<lambda>r. r\<lparr>completed := True\<rparr>) st
      in catching i (own_callback i (result_callback t (requests st1 ! i)) st1))"

lemma complete_part_cases:
  "snd (complete_part i t st) = snd (result_called i t st) \<or>
   snd (complete_part i t st) = snd (dispatchException i (snd (result_called i t st)))"
proof -
  obtain b st2 where r: "result_called i t st = (b, st2)" by (rule prod.exhaust)
  then have "complete_part i t st = (if b then (True, st2)
      else case script t of Some True \<Rightarrow> dispatchException i st2 | _ \<Rightarrow> (False, st2))"
    by (cases b) (simp_all add: complete_part_def result_called_def Let_def)
  then show ?thesis using r by (auto split: option.split bool.split)
qed

lemma complete_part_frame:
  "responders (snd (complete_part i t st)) = responders st"
  "requests (snd (complete_part i t st)) = requests (set_request i (\<lambda>r. r\<lparr>completed := True\<rparr>) st)"
proof -
  have "responders (snd (result_called i t st)) = responders st"
    "requests (snd (result_called i t st)) = requests (set_request i (\<lambda>r. r\<lparr>completed := True\<rparr>) st)"
    by (simp_all add: result_called_def Let_def)
  then show "responders (snd (complete_part i t st)) = responders st"
    "requests (snd (complete_part i t st)) = requests (set_request i (\<lambda>r. r\<lparr>completed := True\<rparr>) st)"
    using complete_part_cases [of i t st] by auto
qed

section \<open>A request completes once\<close>

definition completions :: "nat \<Rightarrow> ajax \<Rightarrow> nat" where
  "completions i st = count_list (log st) (i, Client, ''onComplete'')"

lemma completions_log: "log st' = log st \<Longrightarrow> completions i st' = completions i st"
  by (simp add: completions_def)

lemma dispatch_completions [simp]: "completions i (dispatch j cb st) = completions i st"
proof -
  have "completions i (fold (call_responder j cb) rs st) = completions i st" for rs
  proof (induction rs arbitrary: st)
    case (Cons r rs)
    have "completions i (call_responder j cb r st) = completions i st"
      by (simp add: call_responder_def completions_def)
    then show ?case using Cons by simp
  qed simp
  then show ?thesis by (simp add: dispatch_def)
qed

lemma own_callback_completions:
  "completions i (snd (own_callback j cb st)) \<le> completions i st + (if i = j \<and> cb = ''onComplete'' then 1 else 0)"
  by (simp add: own_callback_def completions_def split: option.split)

lemma dispatchException_completions: "completions i (snd (dispatchException j st)) \<le> completions i st"
proof -
  obtain b st' where r: "own_callback j ''onException'' st = (b, st')" by (rule prod.exhaust)
  have "completions i st' \<le> completions i st" using own_callback_completions [of i j "''onException''" st] r by simp
  then show ?thesis using r by (cases b) (simp_all add: dispatchException_def)
qed

lemma catching_completions: "completions i (snd (catching j r)) \<le> completions i (snd r)"
proof (cases r)
  case (Pair b st)
  then show ?thesis using dispatchException_completions [of i j st] by (cases b) (simp_all add: catching_def)
qed




text \<open>What \<open>respondToReadyState\<close> does to the requests and to the calls of \<open>onComplete\<close>.\<close>

lemma event_name_complete: "event_name rs = ''Complete'' \<longleftrightarrow> rs = 4"
proof -
  have "rs < 5 \<Longrightarrow> rs \<in> {0, 1, 2, 3, 4}" by auto
  then show ?thesis by (auto simp: event_name_def event_names_def)
qed

definition first_part :: "nat \<Rightarrow> nat \<Rightarrow> transport \<Rightarrow> ajax \<Rightarrow> bool \<times> ajax" where
  "first_part i rs t st = (if rs = 4 then complete_part i t st else (False, st))"

lemma respond_cases:
  "snd (respondToReadyState i rs t st) = snd (first_part i rs t st) \<or>
   (let st2 = snd (announce i (''on'' @ event_name rs) (snd (first_part i rs t st)))
    in snd (respondToReadyState i rs t st) \<in> {st2, set_request i (\<lambda>r. r\<lparr>listening := False\<rparr>) st2})"
proof -
  obtain b1 st1 where f: "first_part i rs t st = (b1, st1)" by (rule prod.exhaust)
  obtain b2 st2 where a: "announce i (''on'' @ event_name rs) st1 = (b2, st2)" by (rule prod.exhaust)
  show ?thesis
    using f a by (cases b1; cases b2) (simp_all add: respondToReadyState_def first_part_def event_name_complete Let_def)
qed

lemma first_part_requests:
  "requests (snd (first_part i rs t st)) =
     (if rs = 4 then requests (set_request i (\<lambda>r. r\<lparr>completed := True\<rparr>) st) else requests st)"
  by (simp add: first_part_def complete_part_frame)

lemma map_completed_set: "map completed (requests (set_request i f st)) = (map completed (requests st))[i := completed (f (requests st ! i))]"
  by (simp add: set_request_def map_update)

lemma map_completed_listening:
  "map completed (requests (set_request i (\<lambda>r. r\<lparr>listening := l\<rparr>) st)) = map completed (requests st)"
  by (cases "i < length (requests st)") (simp_all add: set_request_def map_update list_update_same_conv list_update_beyond not_less)

lemma respond_requests:
  "map completed (requests (snd (respondToReadyState i rs t st))) =
     (if rs = 4 then (map completed (requests st))[i := True] else map completed (requests st))"
proof -
  have "map completed (requests (snd (respondToReadyState i rs t st))) = map completed (requests (snd (first_part i rs t st)))"
    using respond_cases [of i rs t st] by (auto simp: Let_def map_completed_listening)
  then show ?thesis by (simp add: first_part_requests map_completed_set)
qed



section \<open>Runs\<close>




lemma new_request_frame:
  "map completed (requests (new_request hs sending st)) = map completed (requests st) @ [False]"
  "completions i (new_request hs sending st) \<le> completions i st"
proof -
  let ?i = "length (requests st)"
  let ?st1 = "st\<lparr>requests := requests st @ [\<lparr>handlers = hs, completed = False, listening = False\<rparr>]\<rparr>"
  obtain b st2 where r: "own_callback ?i ''onCreate'' ?st1 = (b, st2)" by (rule prod.exhaust)
  have q: "requests st2 = requests ?st1" using own_callback_frame(2) [of ?i "''onCreate''" ?st1] r by simp
  have c: "completions i st2 \<le> completions i st"
    using own_callback_completions [of i ?i "''onCreate''" ?st1] r by (simp add: completions_def)
  let ?st3 = "set_request ?i (\<lambda>r. r\<lparr>listening := sending \<noteq> OpenFails\<rparr>) (dispatch ?i ''onCreate'' st2)"
  have n: "new_request hs sending st = snd (catching ?i (if b then (True, st2) else (sending \<noteq> Sent, ?st3)))"
    using r by (cases b) (simp_all add: new_request_def Let_def)
  show "map completed (requests (new_request hs sending st)) = map completed (requests st) @ [False]"
    using q unfolding n by (cases b) (simp_all add: map_completed_listening)
  have "completions i ?st3 = completions i (dispatch ?i ''onCreate'' st2)" by (simp add: completions_def)
  then have "completions i (snd (if b then (True, st2) else (sending \<noteq> Sent, ?st3))) \<le> completions i st" using c by simp
  then show "completions i (new_request hs sending st) \<le> completions i st"
    unfolding n using catching_completions [of i ?i "if b then (True, st2) else (sending \<noteq> Sent, ?st3)"] by linarith
qed



section \<open>The counter of active requests\<close>

text \<open>
  Clients whose \<open>onCreate\<close>, \<open>onComplete\<close> and \<open>onException\<close> do not throw, under which the counter
  stays registered.
\<close>

definition tame :: "(string \<Rightarrow> bool option) \<Rightarrow> bool" where
  "tame hs \<longleftrightarrow> hs ''onCreate'' \<noteq> Some True \<and> hs ''onComplete'' \<noteq> Some True \<and> hs ''onException'' \<noteq> Some True"

fun tame_event :: "ajax_event \<Rightarrow> bool" where
  "tame_event (NewRequest hs sending) = tame hs"
| "tame_event (Unregister r) = (r \<noteq> counter)"
| "tame_event e = True"

definition counting :: "ajax \<Rightarrow> bool" where
  "counting st \<longleftrightarrow> distinct (responders st) \<and> counter \<in> set (responders st) \<and>
     list_all (\<lambda>r. tame (handlers r)) (requests st)"

definition change :: "string \<Rightarrow> int" where
  "change cb = (if cb = ''onCreate'' then 1 else if cb = ''onComplete'' then -1 else 0)"

lemma dispatch_active: "counting st \<Longrightarrow> active (dispatch i cb st) = active st + change cb"
proof -
  have "active (fold (call_responder i cb) rs st) = active st + (if counter \<in> set rs then change cb else 0)"
    if "distinct rs" for rs
    using that
  proof (induction rs arbitrary: st)
    case (Cons r rs)
    have "active (call_responder i cb r st) = active st + (if r = counter then change cb else 0)"
      by (auto simp: call_responder_def change_def counter_def)
    then show ?case using Cons by auto
  qed simp
  then show "counting st \<Longrightarrow> ?thesis" by (simp add: dispatch_def counting_def)
qed

lemma counting_frame:
  "counting st \<Longrightarrow> responders st' = responders st \<Longrightarrow> requests st' = requests st \<Longrightarrow> counting st'"
  by (simp add: counting_def)

lemma counting_set_request:
  assumes "counting st" "\<And>r. handlers (f r) = handlers r"
  shows "counting (set_request i f st)"
proof (cases "i < length (requests st)")
  case True
  have "tame (handlers r)" if "r \<in> set ((requests st)[i := f (requests st ! i)])" for r
  proof -
    have "r \<in> insert (f (requests st ! i)) (set (requests st))" using that set_update_subset_insert by fast
    then show ?thesis using assms True by (auto simp: counting_def list_all_iff)
  qed
  then show ?thesis using assms(1) by (simp add: counting_def set_request_def list_all_iff)
next
  case False
  then show ?thesis using assms(1) by (simp add: counting_def set_request_def list_update_beyond)
qed

lemma tame_request: "counting st \<Longrightarrow> i < length (requests st) \<Longrightarrow> tame (handlers (requests st ! i))"
  by (auto simp: counting_def list_all_iff)

lemma own_callback_returns:
  "handlers (requests st ! i) cb \<noteq> Some True \<Longrightarrow> \<exists>st'. own_callback i cb st = (False, st')"
  by (auto simp: own_callback_def split: option.split)

lemma own_callback_counting: "counting st \<Longrightarrow> counting (snd (own_callback i cb st))"
  by (rule counting_frame) simp_all

lemma dispatchException_returns:
  assumes "counting st" "i < length (requests st)"
  shows "\<exists>st'. dispatchException i st = (False, st') \<and> active st' = active st"
proof -
  have "handlers (requests st ! i) ''onException'' \<noteq> Some True" using tame_request [OF assms] by (simp add: tame_def)
  from own_callback_returns [OF this] obtain st' where s: "own_callback i ''onException'' st = (False, st')" by blast
  have "counting st'" "active st' = active st"
    using own_callback_counting [OF assms(1), of i "''onException''"] own_callback_frame(3) [of i "''onException''" st] s by simp_all
  then show ?thesis using s dispatch_active [of st' i "''onException''"] by (simp add: dispatchException_def change_def)
qed

lemma catching_returns:
  assumes "counting (snd r)" "i < length (requests (snd r))"
  shows "\<exists>st'. catching i r = (False, st') \<and> active st' = active (snd r)"
  using dispatchException_returns [OF assms] by (cases r; cases "fst r") (simp_all add: catching_def)

lemma result_called_returns:
  assumes "counting st" "i < length (requests st)"
  shows "\<exists>st'. result_called i t st = (False, st') \<and> active st' = active st \<and> counting st' \<and> i < length (requests st')"
proof -
  let ?st1 = "set_request i (\<lambda>r. r\<lparr>completed := True\<rparr>) st"
  let ?own = "own_callback i (result_callback t (requests ?st1 ! i)) ?st1"
  have c: "counting ?st1" by (rule counting_set_request [OF assms(1)]) simp
  have "counting (snd ?own)" "i < length (requests (snd ?own))"
    using own_callback_counting [OF c] assms(2) by simp_all
  from catching_returns [OF this] obtain st' where s: "catching i ?own = (False, st')" "active st' = active (snd ?own)" by blast
  have "responders st' = responders ?st1" "requests st' = requests ?st1"
    using catching_frame [of i ?own] s(1) by simp_all
  then have "counting st'" "i < length (requests st')" using counting_frame [OF c] assms(2) by simp_all
  then show ?thesis using s by (simp add: result_called_def Let_def)
qed

lemma complete_part_returns:
  assumes "counting st" "i < length (requests st)"
  shows "\<exists>st'. complete_part i t st = (False, st') \<and> active st' = active st"
proof -
  obtain st2 where s: "result_called i t st = (False, st2)" "active st2 = active st" "counting st2" "i < length (requests st2)"
    using result_called_returns [OF assms] by blast
  have "complete_part i t st = (case script t of Some True \<Rightarrow> dispatchException i st2 | _ \<Rightarrow> (False, st2))"
    using s(1) by (simp add: complete_part_def result_called_def Let_def)
  then show ?thesis using dispatchException_returns [OF s(3,4)] s(2) by (auto split: option.split bool.split)
qed
lemma announce_active:
  assumes "counting st" "i < length (requests st)" "cb \<noteq> ''onCreate''"
  shows "active (snd (announce i cb st)) = active st + (if cb = ''onComplete'' then -1 else 0)"
proof -
  obtain b st1 where o: "own_callback i cb st = (b, st1)" by (rule prod.exhaust)
  have f: "responders st1 = responders st" "requests st1 = requests st" "active st1 = active st"
    using own_callback_frame [of i cb st] o by simp_all
  have c: "counting st1" by (rule counting_frame [OF assms(1) f(1,2)])
  show ?thesis
  proof (cases b)
    case False
    then show ?thesis using o f dispatch_active [OF c, of i cb] assms(3) by (simp add: announce_def catching_def change_def)
  next
    case True
    have n: "cb \<noteq> ''onComplete''"
      using own_callback_returns [of st i cb] tame_request [OF assms(1,2)] o True by (auto simp: tame_def)
    have "\<exists>st'. dispatchException i st1 = (False, st') \<and> active st' = active st1"
      by (rule dispatchException_returns [OF c]) (use f assms(2) in simp)
    then show ?thesis using o True n f by (auto simp: announce_def catching_def)
  qed
qed

lemma event_not_create: "''on'' @ event_name rs \<noteq> ''onCreate''"
proof -
  have "event_name rs \<in> insert ''undefined'' (set event_names)"
    by (simp add: event_name_def)
  then show ?thesis by (auto simp: event_names_def)
qed

lemma respond_active:
  assumes "counting st" "i < length (requests st)"
  shows "active (snd (respondToReadyState i rs t st)) = active st - (if rs = 4 then 1 else 0)"
    and "counting (snd (respondToReadyState i rs t st))"
proof -
  obtain st1 where s: "first_part i rs t st = (False, st1)" "active st1 = active st"
    using complete_part_returns [OF assms, of t] by (cases "rs = 4") (auto simp: first_part_def)
  have rq: "requests st1 = (if rs = 4 then requests (set_request i (\<lambda>r. r\<lparr>completed := True\<rparr>) st) else requests st)"
    "responders st1 = responders st"
    using first_part_requests [of i rs t st] s(1) complete_part_frame(1) [of i t st]
    by (simp_all add: first_part_def split: if_splits)
  have c0: "counting (set_request i (\<lambda>r. r\<lparr>completed := True\<rparr>) st)" by (rule counting_set_request [OF assms(1)]) simp
  have c: "counting st1"
    using counting_frame [OF c0, of st1] counting_frame [OF assms(1), of st1] rq by (cases "rs = 4") simp_all
  have l: "i < length (requests st1)" using rq assms(2) by simp
  let ?st2 = "snd (announce i (''on'' @ event_name rs) st1)"
  have a: "active ?st2 = active st - (if rs = 4 then 1 else 0)"
    using announce_active [OF c l event_not_create] s(2) by (simp add: event_name_complete)
  have c2: "counting ?st2" by (rule counting_frame [OF c]) simp_all
  have r: "snd (respondToReadyState i rs t st) \<in> {?st2, set_request i (\<lambda>r. r\<lparr>listening := False\<rparr>) ?st2}"
    using s(1) by (cases "announce i (''on'' @ event_name rs) st1"; cases "fst (announce i (''on'' @ event_name rs) st1)")
      (auto simp: respondToReadyState_def first_part_def event_name_complete Let_def)
  show "active (snd (respondToReadyState i rs t st)) = active st - (if rs = 4 then 1 else 0)" using r a by auto
  have "counting (set_request i (\<lambda>r. r\<lparr>listening := False\<rparr>) ?st2)" by (rule counting_set_request [OF c2]) simp
  then show "counting (snd (respondToReadyState i rs t st))" using r c2 by auto
qed

text \<open>The requests that have not completed.\<close>

definition open_requests :: "ajax \<Rightarrow> nat" where
  "open_requests st = length (filter Not (map completed (requests st)))"

definition counts :: "ajax \<Rightarrow> bool" where
  "counts st \<longleftrightarrow> counting st \<and> active st = int (open_requests st)"

lemma respond_counts:
  assumes "counts st" "i < length (requests st)" "rs = 4 \<Longrightarrow> \<not> completed (requests st ! i)"
  shows "counts (snd (respondToReadyState i rs t st))"
proof -
  have c: "counting st" "active st = int (open_requests st)" using assms(1) by (simp_all add: counts_def)
  have "open_requests st = open_requests (snd (respondToReadyState i rs t st)) + (if rs = 4 then 1 else 0)"
    unfolding open_requests_def respond_requests
    using length_filter_update [of i "map completed (requests st)" Not True] assms(2,3) by simp
  then show ?thesis using respond_active [OF c(1) assms(2), of rs t] c(2) unfolding counts_def by simp
qed

lemma new_request_counts:
  assumes "counts st" "tame hs"
  shows "counts (new_request hs sending st)"
proof -
  let ?i = "length (requests st)"
  let ?st1 = "st\<lparr>requests := requests st @ [\<lparr>handlers = hs, completed = False, listening = False\<rparr>]\<rparr>"
  have c1: "counting ?st1" using assms by (simp add: counts_def counting_def)
  have "handlers (requests ?st1 ! ?i) ''onCreate'' \<noteq> Some True" using assms(2) by (simp add: tame_def)
  from own_callback_returns [OF this] obtain st2 where o: "own_callback ?i ''onCreate'' ?st1 = (False, st2)" by blast
  have f: "requests st2 = requests ?st1" "active st2 = active st" "counting st2"
    using own_callback_frame [of ?i "''onCreate''" ?st1] own_callback_counting [OF c1, of ?i "''onCreate''"] o by simp_all
  define st3 where "st3 = set_request ?i (\<lambda>r. r\<lparr>listening := sending \<noteq> OpenFails\<rparr>) (dispatch ?i ''onCreate'' st2)"
  have c3: "counting st3" unfolding st3_def
    by (rule counting_set_request) (simp_all add: counting_frame [OF f(3)])
  have a3: "active st3 = active st + 1" using dispatch_active [OF f(3), of ?i "''onCreate''"] f(2) by (simp add: st3_def change_def)
  have "?i < length (requests (snd (sending \<noteq> Sent, st3)))" using f(1) by (simp add: st3_def)
  with catching_returns [of "(sending \<noteq> Sent, st3)" ?i] c3 obtain st4 where
    s4: "catching ?i (sending \<noteq> Sent, st3) = (False, st4)" "active st4 = active st3" by auto
  have n: "new_request hs sending st = st4" using o s4(1) by (simp add: new_request_def Let_def st3_def)
  have "counting st4" using counting_frame [OF c3, of st4] catching_frame [of ?i "(sending \<noteq> Sent, st3)"] s4(1) by simp
  moreover have "open_requests st4 = Suc (open_requests st)"
    using new_request_frame(1) [of hs sending st] unfolding n open_requests_def by simp
  ultimately show ?thesis using assms(1) a3 s4(2) unfolding n counts_def by simp
qed

lemma step_counts: "counts st \<Longrightarrow> tame_event e \<Longrightarrow> counts (ajax_step e st)"
proof (cases e)
  case (NewRequest hs sending)
  then show "counts st \<Longrightarrow> tame_event e \<Longrightarrow> counts (ajax_step e st)" by (simp add: new_request_counts)
next
  case (Transport i t)
  then show "counts st \<Longrightarrow> tame_event e \<Longrightarrow> counts (ajax_step e st)"
    using respond_counts [of st i "readyState t" t] by (simp add: onStateChange_def)
next
  case (LoadingTimer i t)
  then show "counts st \<Longrightarrow> tame_event e \<Longrightarrow> counts (ajax_step e st)"
    using respond_counts [of st i 1 t] by simp
qed (auto simp: counts_def counting_def register_def unregister_def open_requests_def)

text \<open>
  C15: \<open>Ajax.activeRequestCount\<close> is the number of requests that have not completed, in every run in
  which the library's own responder stays registered and no \<open>onCreate\<close>, \<open>onComplete\<close> or
  \<open>onException\<close> of a client throws; requests whose sending fails stay counted.
\<close>

theorem active_requests_counted:
  assumes "list_all tame_event es"
  shows "active (ajax_run es) = int (open_requests (ajax_run es))"
proof -
  have "counts (fold ajax_step es st)" if "counts st" for st
    using that assms by (induction es arbitrary: st) (simp_all add: step_counts)
  moreover have "counts ajax_start" by (simp add: counts_def counting_def ajax_start_def open_requests_def)
  ultimately show ?thesis unfolding ajax_run_def counts_def by blast
qed

definition quiet_handlers :: "string \<Rightarrow> bool option" where
  "quiet_handlers = (\<lambda>_. None)"

theorem active_requests_counted_witness:
  "active (ajax_run [NewRequest quiet_handlers Sent, Transport 0 \<lparr>readyState = 4, transport_status = Some 200, script = None\<rparr>]) =
   int (open_requests (ajax_run [NewRequest quiet_handlers Sent, Transport 0 \<lparr>readyState = 4, transport_status = Some 200, script = None\<rparr>]))"
  by (rule active_requests_counted) (simp add: tame_def quiet_handlers_def)
definition throwing_handlers :: "string \<Rightarrow> bool option" where
  "throwing_handlers = [''onComplete'' \<mapsto> True]"

text \<open>
  An \<open>onComplete\<close> callback that throws keeps the responders from hearing of the completion: the
  request has completed, nothing is open, and \<open>Ajax.activeRequestCount\<close> stays at one for good.
\<close>

theorem active_count_leaks:
  "let st = ajax_run [NewRequest throwing_handlers Sent, Transport 0 \<lparr>readyState = 4, transport_status = Some 200, script = None\<rparr>]
   in active st = 1 \<and> open_requests st = 0"
  by (simp add: ajax_run_def ajax_start_def new_request_def own_callback_def throwing_handlers_def catching_def dispatch_def
      call_responder_def counter_def set_request_def onStateChange_def respondToReadyState_def event_name_def event_names_def
      complete_part_def result_callback_def success_def getStatus_def announce_def dispatchException_def Let_def open_requests_def show_nat.simps)

section \<open>Messages\<close>

lemma upper_verbs [simp]: "to_upper ''get'' = ''GET''" "to_upper ''post'' = ''POST''"
  by code_simp+

lemma build_message_get:
  "opt_method opts = ''get'' \<Longrightarrow> msg_body (build_message w url opts) = None \<and> msg_method (build_message w url opts) = ''GET''"
  by (simp add: build_message_def Let_def)

lemma build_message_post:
  "opt_method opts \<noteq> ''get'' \<Longrightarrow> msg_url (build_message w url opts) = url \<and> msg_method (build_message w url opts) = ''POST''"
  by (cases "opt_method opts = ''post''") (simp_all add: build_message_def Let_def)

text \<open>
  The parameters of a \<open>GET\<close> request arrive: for an address without a query of its own, reading
  the query string of the address that is opened gives back the parameters of the options.
\<close>

theorem get_parameters_arrive:
  assumes "opt_method opts = ''get''" "plain_params (opt_parameters opts)" "opt_parameters opts \<noteq> []"
    "list_all (\<lambda>c. \<not> is_space c \<and> \<not> is_delim c) url"
  shows "toQueryParams (CHR ''&'') (msg_url (build_message webkit url opts)) = Some (opt_parameters opts)"
proof -
  let ?q = "toQueryString (opt_parameters opts)"
  have ne: "?q \<noteq> []"
    using query_read_back [OF assms(2)] assms(3) by (auto simp: toQueryParams_def query_part_plain trim_plain read_pair_def)
  have "CHR ''?'' \<notin> set url" using assms(4) by (auto simp: list_all_iff is_delim_def)
  then have u: "msg_url (build_message webkit url opts) = url @ CHR ''?'' # ?q"
    using assms(1) ne by (simp add: build_message_def Let_def)
  have pl: "\<forall>c \<in> set ?q. \<not> is_space c \<and> \<not> is_delim c" by (rule toQueryString_plain)
  have t: "trim (url @ CHR ''?'' # ?q) = url @ CHR ''?'' # ?q"
    using assms(4) pl by (intro trim_plain) (auto simp: list_all_iff is_space_def)
  have d: "takeWhile (\<lambda>c. \<not> is_delim c) (url @ CHR ''?'' # ?q) = url"
    "dropWhile (\<lambda>c. \<not> is_delim c) (url @ CHR ''?'' # ?q) = CHR ''?'' # ?q"
    using assms(4) by (simp_all add: list_all_iff is_delim_def)
  have "query_part (url @ CHR ''?'' # ?q) = query_part ?q"
    unfolding query_part.simps [of "url @ CHR ''?'' # ?q"] Let_def by (simp only: d list.case) simp
  then show ?thesis using query_read_back [OF assms(2)] pl unfolding u by (simp add: toQueryParams_def t trim_plain)
qed

definition sample_options :: ajax_options where
  "sample_options = \<lparr>opt_method = ''get'', opt_parameters = [(''id'', QText ''a&b'')], opt_postBody = []\<rparr>"

theorem get_parameters_arrive_witness:
  "toQueryParams (CHR ''&'') (msg_url (build_message False ''/find'' sample_options)) = Some [(''id'', QText ''a&b'')]"
  using get_parameters_arrive [of sample_options "''/find''" False]
  by (simp add: sample_options_def plain_params_def inherited_names_def is_space_def is_delim_def)

section \<open>The delays of the periodical updater\<close>

lemma update_delays_repeat:
  assumes "decay_option u \<noteq> 0" "last_text u = Some r"
  shows "update_delays (replicate n r) u = map (\<lambda>k. decay u * decay_option u ^ Suc k * frequency u) [0..<n]"
  using assms
proof (induction n arbitrary: u)
  case (Suc n)
  define u' where "u' = u\<lparr>decay := decay u * decay_option u, last_text := Some r\<rparr>"
  have s: "updateComplete r u = (decay u' * frequency u', u')"
    using Suc.prems by (simp add: updateComplete_def Let_def u'_def)
  have "update_delays (replicate n r) u' = map (\<lambda>k. decay u' * decay_option u' ^ Suc k * frequency u') [0..<n]"
    by (rule Suc.IH) (use Suc.prems in \<open>simp_all add: u'_def\<close>)
  then have "update_delays (replicate (Suc n) r) u = decay u' * frequency u' # map (\<lambda>k. decay u' * decay_option u' ^ Suc k * frequency u') [0..<n]"
    using s by simp
  also have "\<dots> = map (\<lambda>k. decay u * decay_option u ^ Suc k * frequency u) [0..<Suc n]"
    by (simp add: u'_def upt_conv_Cons map_Suc_upt [symmetric] mult.assoc comp_def del: upt_Suc map_Suc_upt)
  finally show ?case .
qed simp

text \<open>
  The periodical updater waits longer while nothing changes and starts afresh when something
  does: after a response that differs from the last one the delay is the frequency, and with each
  repetition of that response it grows by the decay factor.
\<close>

theorem updater_backs_off:
  assumes "decay_option u \<noteq> 0" "last_text u \<noteq> Some r"
  shows "update_delays (replicate (Suc n) r) u = map (\<lambda>k. decay_option u ^ k * frequency u) [0..<Suc n]"
proof -
  define u' where "u' = u\<lparr>decay := 1, last_text := Some r\<rparr>"
  have "updateComplete r u = (frequency u, u')" using assms by (auto simp: updateComplete_def Let_def u'_def)
  moreover have "update_delays (replicate n r) u' = map (\<lambda>k. decay u' * decay_option u' ^ Suc k * frequency u') [0..<n]"
    by (rule update_delays_repeat) (use assms in \<open>simp_all add: u'_def\<close>)
  ultimately show ?thesis
    by (simp add: u'_def upt_conv_Cons map_Suc_upt [symmetric] comp_def del: upt_Suc map_Suc_upt)
qed

theorem updater_backs_off_witness:
  "update_delays (replicate 3 ''same'') (updater_start 0 2) = [2, 4, 8]"
proof -
  have "update_delays (replicate (Suc 2) ''same'') (updater_start 0 2) = map (\<lambda>k. decay_option (updater_start 0 2) ^ k * frequency (updater_start 0 2)) [0..<Suc 2]"
    by (rule updater_backs_off) (simp_all add: updater_start_def)
  then show ?thesis by (simp add: updater_start_def eval_nat_numeral)
qed
end
