(* ===== verification/ProtoText.thy ===== *)
theory ProtoText
  imports JsString
begin

text \<open>
  The string methods of \<open>prototype.js\<close>: \<open>gsub\<close> over a match function, \<open>sub\<close>, \<open>inspect\<close>, padding,
  prefixes and suffixes, and the HTML escapes of the WebKit branch.
\<close>

section \<open>gsub\<close>

text \<open>
  The result of a match: where it starts and how long it is.  The loop cuts the source after each
  match; it does not return when a match takes nothing off the source.
\<close>

type_synonym matcher = "string \<Rightarrow> (nat \<times> nat) option"

partial_function (option) gsub_loop :: "matcher \<Rightarrow> (string \<Rightarrow> string) \<Rightarrow> string \<Rightarrow> string \<Rightarrow> string option" where
  "gsub_loop pattern replacement source result =
     (if source = [] then Some result
      else case pattern source of
        Some (i, n) \<Rightarrow>
          gsub_loop pattern replacement (drop (i + n) source)
            (result @ take i source @ replacement (take n (drop i source)))
      | None \<Rightarrow> gsub_loop pattern replacement [] (result @ source))"

definition gsub :: "matcher \<Rightarrow> (string \<Rightarrow> string) \<Rightarrow> string \<Rightarrow> string option" where
  "gsub pattern replacement s = gsub_loop pattern replacement s []"

text \<open>\<open>sub\<close> counts down in the replacement function, so the loop carries the count.\<close>

partial_function (option) sub_loop :: "matcher \<Rightarrow> (string \<Rightarrow> string) \<Rightarrow> int \<Rightarrow> string \<Rightarrow> string \<Rightarrow> string option" where
  "sub_loop pattern replacement count source result =
     (if source = [] then Some result
      else case pattern source of
        Some (i, n) \<Rightarrow>
          (let m = take n (drop i source)
           in sub_loop pattern replacement (count - 1) (drop (i + n) source)
                (result @ take i source @ (if count - 1 < 0 then m else replacement m)))
      | None \<Rightarrow> sub_loop pattern replacement count [] (result @ source))"

definition sub :: "matcher \<Rightarrow> (string \<Rightarrow> string) \<Rightarrow> int option \<Rightarrow> string \<Rightarrow> string option" where
  "sub pattern replacement count s =
     sub_loop pattern replacement (case count of None \<Rightarrow> 1 | Some n \<Rightarrow> n) s []"

text \<open>The match function of a character class: the first character in it.\<close>

definition char_class :: "(char \<Rightarrow> bool) \<Rightarrow> matcher" where
  "char_class p s = (if list_ex p s then Some (length (takeWhile (\<lambda>c. \<not> p c) s), 1) else None)"

section \<open>Numbers and padding\<close>

definition string_times :: "int \<Rightarrow> string \<Rightarrow> string" where
  "string_times count s = (if count < 1 then [] else join_with s (replicate (nat (count + 1)) []))"

definition hex_digit :: "nat \<Rightarrow> char" where
  "hex_digit n = (if n < 10 then char_of (48 + n) else char_of (87 + n))"

fun to_radix :: "nat \<Rightarrow> nat \<Rightarrow> string" where
  "to_radix r n = (if r < 2 \<or> n < r then [hex_digit n] else to_radix r (n div r) @ [hex_digit (n mod r)])"

declare to_radix.simps [simp del]

definition toPaddedString :: "nat \<Rightarrow> nat \<Rightarrow> nat \<Rightarrow> string" where
  "toPaddedString n len radix =
     (let str = to_radix radix n in string_times (int len - int (length str)) ''0'' @ str)"

section \<open>Inspecting strings\<close>

definition special_char :: "char \<Rightarrow> string option" where
  "special_char c =
     (let n = of_char c :: nat
      in if n = 8 then Some [char_of (92 :: nat), CHR ''b'']
         else if n = 9 then Some [char_of (92 :: nat), CHR ''t'']
         else if n = 10 then Some [char_of (92 :: nat), CHR ''n'']
         else if n = 12 then Some [char_of (92 :: nat), CHR ''f'']
         else if n = 13 then Some [char_of (92 :: nat), CHR ''r'']
         else if n = 92 then Some [char_of (92 :: nat), char_of (92 :: nat)]
         else None)"

definition needs_escape :: "char \<Rightarrow> bool" where
  "needs_escape c \<longleftrightarrow> (let n = of_char c :: nat in n < 32 \<or> n = 92)"

definition escape_match :: "string \<Rightarrow> string" where
  "escape_match m =
     (case special_char (hd m) of Some e \<Rightarrow> e
      | None \<Rightarrow> [char_of (92 :: nat), CHR ''u'', CHR ''0'', CHR ''0''] @ toPaddedString (of_char (hd m)) 2 16)"

text \<open>A global replacement of one character.\<close>

definition replace_char :: "char \<Rightarrow> string \<Rightarrow> string \<Rightarrow> string" where
  "replace_char c w s = concat (map (\<lambda>x. if x = c then w else [x]) s)"

definition quote_char :: "bool \<Rightarrow> char" where
  "quote_char useDoubleQuotes = char_of (if useDoubleQuotes then 34 else 39 :: nat)"

definition inspect :: "bool \<Rightarrow> string \<Rightarrow> string option" where
  "inspect useDoubleQuotes s =
     map_option (\<lambda>escaped. [quote_char useDoubleQuotes]
         @ replace_char (quote_char useDoubleQuotes) [char_of (92 :: nat), quote_char useDoubleQuotes] escaped
         @ [quote_char useDoubleQuotes])
       (gsub (char_class needs_escape) escape_match s)"

section \<open>Prefixes, suffixes and parts\<close>

definition startsWith :: "string \<Rightarrow> string \<Rightarrow> bool" where
  "startsWith s pattern \<longleftrightarrow> indexOf s pattern 0 = 0"

definition endsWith :: "string \<Rightarrow> string \<Rightarrow> bool" where
  "endsWith s pattern \<longleftrightarrow>
     (let d = int (length s) - int (length pattern) in d \<ge> 0 \<and> lastIndexOf s pattern (int (length s)) = d)"

definition string_include :: "string \<Rightarrow> string \<Rightarrow> bool" where
  "string_include s pattern \<longleftrightarrow> indexOf s pattern 0 > -1"

definition blank :: "string \<Rightarrow> bool" where
  "blank s \<longleftrightarrow> list_all is_space s"

definition truncate :: "string \<Rightarrow> int \<Rightarrow> string option \<Rightarrow> string" where
  "truncate s len truncation =
     (let n = (if len = 0 then 30 else len); t = (case truncation of None \<Rightarrow> ''...'' | Some t \<Rightarrow> t)
      in if int (length s) > n then slice s 0 (n - int (length t)) @ t else s)"

section \<open>HTML\<close>

definition escapeHTML :: "string \<Rightarrow> string" where
  "escapeHTML s = replace_char (CHR ''>'') ''&gt;'' (replace_char (CHR ''<'') ''&lt;'' (replace_char (CHR ''&'') ''&amp;'' s))"

text \<open>A global replacement of a text, and the removal of tags \<open></?[^>]+>\<close>.\<close>

function replace_text :: "string \<Rightarrow> string \<Rightarrow> string \<Rightarrow> string" where
  "replace_text p w [] = []"
| "replace_text p w (c # cs) =
     (if p \<noteq> [] \<and> sub_at p (c # cs) 0 then w @ replace_text p w (drop (length p) (c # cs))
      else c # replace_text p w cs)"
  by pat_completeness auto
termination
  by (relation "measure (\<lambda>(p, w, s). length s)") auto

definition tag_end :: "string \<Rightarrow> string option" where
  "tag_end s =
     (let body = takeWhile (\<lambda>c. c \<noteq> CHR ''>'') s; r = dropWhile (\<lambda>c. c \<noteq> CHR ''>'') s
      in if body \<noteq> [] \<and> r \<noteq> [] then Some (tl r) else None)"

lemma tag_end_shorter: "tag_end s = Some r \<Longrightarrow> length r < length s"
proof -
  assume "tag_end s = Some r"
  then have "r = tl (dropWhile (\<lambda>c. c \<noteq> CHR ''>'') s)" "dropWhile (\<lambda>c. c \<noteq> CHR ''>'') s \<noteq> []"
    by (auto simp: tag_end_def Let_def split: if_splits)
  then show ?thesis using length_dropWhile_le [of "\<lambda>c. c \<noteq> CHR ''>''" s] by (cases "dropWhile (\<lambda>c. c \<noteq> CHR ''>'') s") auto
qed

function stripTags :: "string \<Rightarrow> string" where
  "stripTags [] = []"
| "stripTags (c # cs) =
     (if c = CHR ''<'' then (case tag_end cs of Some r \<Rightarrow> stripTags r | None \<Rightarrow> c # stripTags cs)
      else c # stripTags cs)"
  by pat_completeness auto
termination
  by (relation "measure length") (auto dest: tag_end_shorter)

definition unescapeHTML :: "string \<Rightarrow> string" where
  "unescapeHTML s = replace_text ''&gt;'' ''>'' (replace_text ''&lt;'' ''<'' (replace_text ''&amp;'' ''&'' (stripTags s)))"

section \<open>gsub ends exactly when its matches make progress\<close>

lemma gsub_loop_ends:
  assumes "\<And>s i n. s \<noteq> [] \<Longrightarrow> pattern s = Some (i, n) \<Longrightarrow> 0 < i + n"
  shows "\<exists>r. gsub_loop pattern f s acc = Some r"
proof (induction "length s" arbitrary: s acc rule: less_induct)
  case less
  show ?case
  proof (cases "s = []")
    case True
    then show ?thesis by (simp add: gsub_loop.simps)
  next
    case False
    show ?thesis
    proof (cases "pattern s")
      case None
      then show ?thesis using False by (subst gsub_loop.simps) (simp add: gsub_loop.simps [of _ _ "[]"])
    next
      case (Some m)
      obtain i n where m: "m = (i, n)" by (rule prod.exhaust)
      have "length (drop (i + n) s) < length s" using assms [OF False, of i n] Some m False by simp
      from less [OF this] show ?thesis using False Some m by (subst gsub_loop.simps) simp
    qed
  qed
qed

lemma gsub_loop_not_stuck:
  assumes "gsub_loop pattern f t acc = Some r"
  shows "s \<noteq> [] \<and> pattern s = Some (0, 0) \<longrightarrow> t \<noteq> s"
  using assms
proof (rule gsub_loop.raw_induct [where P = "\<lambda>pattern f t acc r. s \<noteq> [] \<and> pattern s = Some (0, 0) \<longrightarrow> t \<noteq> s", rotated])
  fix loop pattern f t acc r
  assume ih: "\<And>pattern f t acc r. loop pattern f t acc = Some r \<Longrightarrow> s \<noteq> [] \<and> pattern s = Some (0, 0) \<longrightarrow> t \<noteq> s"
    and r: "(if t = [] then Some acc
      else case pattern t of None \<Rightarrow> loop pattern f [] (acc @ t)
        | Some (i, n) \<Rightarrow> loop pattern f (drop (i + n) t) (acc @ take i t @ f (take n (drop i t)))) = Some (r :: string)"
  show "s \<noteq> [] \<and> pattern s = Some (0, 0) \<longrightarrow> t \<noteq> s"
  proof (intro impI notI)
    assume st: "s \<noteq> [] \<and> pattern s = Some (0, 0)" and "t = s"
    with r have "loop pattern f s (acc @ f []) = Some r" by simp
    from ih [OF this] st show False by blast
  qed
qed

lemma gsub_loop_stuck:
  assumes "s \<noteq> []" "pattern s = Some (0, 0)"
  shows "gsub_loop pattern f s acc = None"
  using gsub_loop_not_stuck [of pattern f s acc _ s] assms by (cases "gsub_loop pattern f s acc") auto

lemma char_class_progress: "char_class p s = Some (i, n) \<Longrightarrow> 0 < i + n"
  by (auto simp: char_class_def split: if_splits)

lemma gsub_loop_char_class:
  "gsub_loop (char_class p) f s acc = Some (acc @ concat (map (\<lambda>c. if p c then f [c] else [c]) s))"
proof (induction "length s" arbitrary: s acc rule: less_induct)
  case less
  have plain: "concat (map (\<lambda>c. if p c then f [c] else [c]) w) = w" if "\<forall>c \<in> set w. \<not> p c" for w
    using that by (induction w) auto
  show ?case
  proof (cases "list_ex p s")
    case False
    then have "\<forall>c \<in> set s. \<not> p c" by (simp add: list_ex_iff)
    then show ?thesis using False
      by (subst gsub_loop.simps) (simp add: char_class_def plain gsub_loop.simps [of _ _ "[]"])
  next
    case True
    define w where "w = takeWhile (\<lambda>c. \<not> p c) s"
    define r where "r = dropWhile (\<lambda>c. \<not> p c) s"
    have s: "s = w @ r" by (simp add: w_def r_def)
    have "\<forall>c \<in> set w. \<not> p c" by (auto simp: w_def dest: set_takeWhileD)
    note w = plain [OF this]
    have "r \<noteq> []" using True by (auto simp: r_def dropWhile_eq_Nil_conv list_ex_iff)
    then obtain c r' where r: "r = c # r'" by (cases r) simp
    have "\<not> \<not> p (hd r)" using \<open>r \<noteq> []\<close> unfolding r_def by (rule hd_dropWhile)
    then have c: "p c" using r by simp
    have m: "char_class p s = Some (length w, 1)" using True by (simp add: char_class_def w_def)
    have "gsub_loop (char_class p) f s acc = gsub_loop (char_class p) f r' (acc @ w @ f [c])"
      using True by (subst gsub_loop.simps) (use m s r in auto)
    also have "\<dots> = Some ((acc @ w @ f [c]) @ concat (map (\<lambda>c. if p c then f [c] else [c]) r'))"
      by (rule less) (simp add: s r)
    finally show ?thesis using w c by (simp add: s r)
  qed
qed

lemma gsub_char_class: "gsub (char_class p) f s = Some (concat (map (\<lambda>c. if p c then f [c] else [c]) s))"
  by (simp add: gsub_def gsub_loop_char_class)

text \<open>
  \<open>gsub\<close> returns whenever every match of its pattern takes something off the text, which every
  pattern does that cannot match the empty string.
\<close>

theorem gsub_returns:
  assumes "\<And>s i n. s \<noteq> [] \<Longrightarrow> pattern s = Some (i, n) \<Longrightarrow> 0 < i + n"
  shows "\<exists>r. gsub pattern replacement s = Some r"
  unfolding gsub_def by (rule gsub_loop_ends) (rule assms)

theorem gsub_returns_witness: "\<exists>r. gsub (char_class (\<lambda>c. c = CHR ''_'')) (\<lambda>_. ''-'') ''a_b'' = Some r"
  by (rule gsub_returns) (rule char_class_progress)

text \<open>
  \<open>gsub\<close> does not return when its pattern matches the empty string at the start of what is left
  of the text, as \<open>/x*/\<close> does on any text that does not start with an \<open>x\<close>: the loop cuts nothing
  off and matches the same text again.
\<close>

theorem gsub_empty_match_loops:
  assumes "s \<noteq> []" "pattern s = Some (0, 0)"
  shows "gsub pattern replacement s = None"
  using gsub_loop_stuck [of s pattern replacement "[]"] assms by (simp add: gsub_def)

definition xs_match :: matcher where
  "xs_match s = Some (0, length (takeWhile (\<lambda>c. c = CHR ''x'') s))"

theorem gsub_empty_match_loops_witness: "gsub xs_match (\<lambda>_. ''-'') ''ab'' = None"
  by (rule gsub_empty_match_loops) (simp_all add: xs_match_def)

section \<open>Inspected strings read back\<close>

text \<open>
  String literals as the language reads them, for the escapes \<open>inspect\<close> writes: the body up to the
  closing quote.
\<close>

definition hex_digit_value :: "char \<Rightarrow> nat option" where
  "hex_digit_value c =
     (let n = of_char c :: nat
      in if 48 \<le> n \<and> n \<le> 57 then Some (n - 48) else if 97 \<le> n \<and> n \<le> 102 then Some (n - 87)
         else if 65 \<le> n \<and> n \<le> 70 then Some (n - 55) else None)"

definition single_escape :: "char \<Rightarrow> char option" where
  "single_escape c =
     (if c = CHR ''b'' then Some (char_of (8 :: nat)) else if c = CHR ''t'' then Some (char_of (9 :: nat))
      else if c = CHR ''n'' then Some (char_of (10 :: nat)) else if c = CHR ''f'' then Some (char_of (12 :: nat))
      else if c = CHR ''r'' then Some (char_of (13 :: nat))
      else if of_char c \<in> {34, 39, 92 :: nat} then Some c else None)"

fun read_literal :: "char \<Rightarrow> string \<Rightarrow> string option" where
  "read_literal q [] = None"
| "read_literal q [c] = (if c = q then Some [] else None)"
| "read_literal q (c # d # s) =
     (if c = q \<or> of_char c \<in> {10, 13 :: nat} then None
      else if of_char c = (92 :: nat) then
        (if d = CHR ''u'' then
           (case s of h1 # h2 # h3 # h4 # r \<Rightarrow>
              (case (hex_digit_value h1, hex_digit_value h2, hex_digit_value h3, hex_digit_value h4) of
                 (Some 0, Some 0, Some a, Some b) \<Rightarrow> map_option ((#) (char_of (16 * a + b))) (read_literal q r)
               | _ \<Rightarrow> None)
            | _ \<Rightarrow> None)
         else (case single_escape d of Some e \<Rightarrow> map_option ((#) e) (read_literal q s) | None \<Rightarrow> None))
      else map_option ((#) c) (read_literal q (d # s)))"

definition read_string :: "string \<Rightarrow> string option" where
  "read_string s = (case s of [] \<Rightarrow> None
     | q # r \<Rightarrow> if of_char q \<in> {34, 39 :: nat} then read_literal q r else None)"

text \<open>How \<open>inspect\<close> writes one character.\<close>

definition written :: "char \<Rightarrow> char \<Rightarrow> string" where
  "written q c = (if needs_escape c then escape_match [c] else if c = q then [char_of (92 :: nat), q] else [c])"
lemma replace_char_append: "replace_char c w (s @ t) = replace_char c w s @ replace_char c w t"
  by (simp add: replace_char_def)

lemma replace_char_absent: "c \<notin> set s \<Longrightarrow> replace_char c w s = s"
  by (induction s) (auto simp: replace_char_def)

lemma of_char_range: "(of_char c :: nat) < 256"
  using of_char_of [of "of_char c :: nat"] by (metis char_of_char mod_less_divisor of_char_mod_256 zero_less_numeral)

lemma char_zero: "char_of (48 :: nat) = CHR ''0''"
  by code_simp

lemma hex_digit_value_digit: "n < 16 \<Longrightarrow> hex_digit_value (hex_digit n) = Some n"
  by (cases "n < 10") (simp_all add: hex_digit_value_def hex_digit_def of_char_of Let_def)

lemma padded_hex: "n < 256 \<Longrightarrow> toPaddedString n 2 16 = [hex_digit (n div 16), hex_digit (n mod 16)]"
proof (cases "n < 16")
  case True
  then show ?thesis
    by (simp add: toPaddedString_def to_radix.simps [of 16 n] string_times_def numeral_2_eq_2 hex_digit_def [of 0] char_zero)
next
  case False
  assume "n < 256"
  then have "n div 16 < 16" by simp
  then show ?thesis using False
    by (simp add: toPaddedString_def to_radix.simps [of 16 n] to_radix.simps [of 16 "n div 16"] string_times_def)
qed

lemma escape_match_cases:
  assumes "needs_escape c"
  shows "(\<exists>e. escape_match [c] = [char_of (92 :: nat), e] \<and> single_escape e = Some c \<and> e \<noteq> CHR ''u'' \<and> e \<in> set ''btnfr'' \<union> {char_of (92 :: nat)}) \<or>
    escape_match [c] = [char_of (92 :: nat), CHR ''u'', CHR ''0'', CHR ''0'', hex_digit (of_char c div 16), hex_digit (of_char c mod 16)]"
proof (cases "special_char c")
  case None
  then show ?thesis using padded_hex [OF of_char_range, of c] by (simp add: escape_match_def)
next
  case (Some e)
  have "\<exists>n \<in> {8, 9, 10, 12, 13, 92 :: nat}. c = char_of n"
    using Some by (auto simp: special_char_def Let_def split: if_splits) (metis char_of_char)+
  then obtain n where n: "n \<in> {8, 9, 10, 12, 13, 92 :: nat}" "c = char_of n" by blast
  have "list_all (\<lambda>n. case special_char (char_of n) of None \<Rightarrow> False | Some e \<Rightarrow>
      e = [char_of (92 :: nat), e ! 1] \<and> single_escape (e ! 1) = Some (char_of n) \<and> e ! 1 \<noteq> CHR ''u'' \<and>
      e ! 1 \<in> set ''btnfr'' \<union> {char_of (92 :: nat)}) [8, 9, 10, 12, 13, 92 :: nat]" by code_simp
  then have "case special_char c of None \<Rightarrow> False | Some e \<Rightarrow>
      e = [char_of (92 :: nat), e ! 1] \<and> single_escape (e ! 1) = Some c \<and> e ! 1 \<noteq> CHR ''u'' \<and>
      e ! 1 \<in> set ''btnfr'' \<union> {char_of (92 :: nat)}" using n by (auto simp only: list_all_iff list.set)
  then show ?thesis using Some by (auto simp: escape_match_def)
qed
lemma quote_char_value: "(of_char (quote_char b) :: nat) = (if b then 34 else 39)"
  by (simp add: quote_char_def of_char_of)

lemma quote_not_hex: "n < 16 \<Longrightarrow> hex_digit n \<noteq> quote_char b"
proof
  assume "n < 16" "hex_digit n = quote_char b"
  then have "hex_digit_value (quote_char b) = Some n" using hex_digit_value_digit by metis
  then show False by (simp add: hex_digit_value_def quote_char_value Let_def split: if_splits)
qed

lemma char_neq_quote: "of_char c \<notin> {34, 39 :: nat} \<Longrightarrow> c \<noteq> quote_char b"
  using quote_char_value [of b] by (auto split: if_splits)

lemma letters_not_quote: "c \<in> set ''btnfru0'' \<union> {char_of (92 :: nat)} \<Longrightarrow> c \<noteq> quote_char b"
proof (rule char_neq_quote)
  assume "c \<in> set ''btnfru0'' \<union> {char_of (92 :: nat)}"
  then show "of_char c \<notin> {34, 39 :: nat}" by (auto simp: of_char_of)
qed

lemma hex_low: "(of_char c :: nat) mod 16 < 16" "(of_char c :: nat) div 16 < 16"
  using of_char_range [of c] by (simp_all add: div_less_iff_less_mult del: of_char_mod_256)

lemma escape_no_quote:
  assumes "needs_escape c"
  shows "quote_char b \<notin> set (escape_match [c])"
proof -
  have l: "x \<noteq> quote_char b" if "x \<in> set ''btnfru0'' \<union> {char_of (92 :: nat)}" for x
    using that by (rule letters_not_quote)
  have h: "hex_digit (of_char c mod 16) \<noteq> quote_char b" "hex_digit (of_char c div 16) \<noteq> quote_char b"
    by (rule quote_not_hex [OF hex_low(1)], rule quote_not_hex [OF hex_low(2)])
  from escape_match_cases [OF assms] show ?thesis
  proof (elim disjE exE conjE)
    fix e assume e: "escape_match [c] = [char_of (92 :: nat), e]" "e \<in> set ''btnfr'' \<union> {char_of (92 :: nat)}"
    then have "e \<in> set ''btnfru0'' \<union> {char_of (92 :: nat)}" by auto
    then show ?thesis using e(1) l [of e] l [of "char_of (92 :: nat)"] by auto
  next
    assume e: "escape_match [c] = [char_of (92 :: nat), CHR ''u'', CHR ''0'', CHR ''0'', hex_digit (of_char c div 16), hex_digit (of_char c mod 16)]"
    then show ?thesis using l [of "char_of (92 :: nat)"] l [of "CHR ''u''"] l [of "CHR ''0''"] h by auto
  qed
qed

lemma inspect_written:
  "inspect b s = Some ([quote_char b] @ concat (map (written (quote_char b)) s) @ [quote_char b])"
proof -
  let ?q = "quote_char b"
  have "replace_char ?q [char_of (92 :: nat), ?q] (if needs_escape c then escape_match [c] else [c]) = written ?q c" for c
    using escape_no_quote [of c b] by (simp add: written_def replace_char_absent) (simp add: replace_char_def)
  then have "replace_char ?q [char_of (92 :: nat), ?q] (concat (map (\<lambda>c. if needs_escape c then escape_match [c] else [c]) s))
    = concat (map (written ?q) s)"
    by (induction s) (simp_all add: replace_char_append, simp add: replace_char_def)
  then show ?thesis by (simp add: inspect_def gsub_char_class)
qed

lemma read_written:
  assumes "t \<noteq> []"
  shows "read_literal (quote_char b) (written (quote_char b) c @ t) = map_option ((#) c) (read_literal (quote_char b) t)"
proof -
  let ?q = "quote_char b"
  obtain d u where t: "t = d # u" using assms by (cases t) simp
  have bs: "char_of (92 :: nat) \<noteq> ?q" by (rule letters_not_quote) simp
  have bsv: "(of_char (char_of (92 :: nat)) :: nat) = 92" by (simp add: of_char_of)
  show ?thesis
  proof (cases "needs_escape c")
    case True
    from escape_match_cases [OF True] show ?thesis
    proof (elim disjE exE conjE)
      fix e assume "escape_match [c] = [char_of (92 :: nat), e]" "single_escape e = Some c" "e \<noteq> CHR ''u''"
      then show ?thesis using True bs bsv by (simp add: written_def)
    next
      assume e: "escape_match [c] = [char_of (92 :: nat), CHR ''u'', CHR ''0'', CHR ''0'', hex_digit (of_char c div 16), hex_digit (of_char c mod 16)]"
      have z: "hex_digit_value (CHR ''0'') = Some 0" by (simp add: hex_digit_value_def)
      have v: "char_of (16 * (of_char c div 16) + of_char c mod 16 :: nat) = c" by simp
      show ?thesis using True bs bsv e z v hex_digit_value_digit [OF hex_low(1), of c] hex_digit_value_digit [OF hex_low(2), of c]
        by (simp add: written_def)
    qed
  next
    case False
    show ?thesis
    proof (cases "c = ?q")
      case True
      have "single_escape ?q = Some ?q"
        using quote_char_value [of b] by (auto simp: single_escape_def split: if_splits)
      moreover have "?q \<noteq> CHR ''u''" using letters_not_quote [of "CHR ''u''" b] by auto
      ultimately show ?thesis using True False bs bsv by (simp add: written_def)
    next
      case neq: False
      have "of_char c \<notin> {10, 13, 92 :: nat}" using False by (auto simp: needs_escape_def Let_def)
      then show ?thesis using neq False t by (simp add: written_def)
    qed
  qed
qed

text \<open>
  C32: Every string \<open>inspect\<close> writes, with single or with double quotes (as \<open>toJSON\<close> does), is read
  back as the string itself: control characters, backslashes and quotes of the kind in use are
  escaped, the other characters stand for themselves.
\<close>

theorem inspect_reads_back: "Option.bind (inspect b s) read_string = Some s"
proof -
  let ?q = "quote_char b"
  have "read_literal ?q (concat (map (written ?q) s) @ [?q]) = Some s"
    by (induction s) (simp_all add: read_written)
  moreover have "of_char ?q \<in> {34, 39 :: nat}" by (simp add: quote_char_value)
  ultimately show ?thesis by (simp add: inspect_written read_string_def)
qed
section \<open>Prefixes, suffixes and parts\<close>

lemma sub_at_0: "sub_at p s 0 \<longleftrightarrow> prefix p s"
  unfolding sub_at_def prefix_def by (auto simp: take_is_prefix) (metis append_take_drop_id)

lemma sub_at_end: "length p \<le> length s \<Longrightarrow> sub_at p s (length s - length p) \<longleftrightarrow> suffix p s"
  by (auto simp: sub_at_def suffix_def) (metis append_take_drop_id)

lemma sub_at_iff: "sub_at p s i \<longleftrightarrow> (\<exists>u v. s = u @ p @ v \<and> length u = i)"
proof
  assume a: "sub_at p s i"
  then have "s = take i s @ p @ drop (length p) (drop i s)" unfolding sub_at_def by (metis append_take_drop_id)
  moreover have "length (take i s) = i" using a by (simp add: sub_at_def)
  ultimately show "\<exists>u v. s = u @ p @ v \<and> length u = i" by blast
qed (auto simp: sub_at_def)

text \<open>
  \<open>startsWith\<close>, \<open>endsWith\<close> and \<open>include\<close>, which compare the positions \<open>indexOf\<close> and
  \<open>lastIndexOf\<close> find, decide whether the pattern is a prefix, a suffix, or anywhere in the text, the
  empty pattern and patterns longer than the text included.
\<close>

theorem starts_ends_include:
  "(startsWith s p \<longleftrightarrow> prefix p s) \<and> (endsWith s p \<longleftrightarrow> suffix p s) \<and> (string_include s p \<longleftrightarrow> sublist p s)"
proof (intro conjI)
  show "startsWith s p \<longleftrightarrow> prefix p s"
  proof
    assume "startsWith s p"
    then show "prefix p s" using indexOf_hit(1) [of s p 0 0] by (simp add: startsWith_def sub_at_0)
  next
    assume pre: "prefix p s"
    then have "indexOf s p 0 \<noteq> -1" unfolding indexOf_miss by (auto simp: sub_at_0)
    then have "0 \<le> indexOf s p 0" using indexOf_range [of s p 0] by linarith
    then obtain i where i: "indexOf s p 0 = int i" by (rule nonneg_int_cases)
    have "i = 0" using indexOf_hit(3) [OF i] pre by (cases i) (auto simp: sub_at_0)
    then show "startsWith s p" using i by (simp add: startsWith_def)
  qed
  show "endsWith s p \<longleftrightarrow> suffix p s"
  proof
    assume "endsWith s p"
    then have d: "length p \<le> length s" "lastIndexOf s p (int (length s)) = int (length s - length p)"
      by (auto simp: endsWith_def Let_def of_nat_diff)
    then show "suffix p s" using lastIndexOf_hit(1) [OF d(2)] by (simp add: sub_at_end)
  next
    assume suf: "suffix p s"
    then have le: "length p \<le> length s" by (rule suffix_length_le)
    let ?d = "length s - length p"
    have at: "sub_at p s ?d" using suf le by (simp add: sub_at_end)
    then have "lastIndexOf s p (int (length s)) \<noteq> -1"
      unfolding lastIndexOf_miss by (intro notI) (drule spec [of _ ?d], simp)
    then have "0 \<le> lastIndexOf s p (int (length s))" using lastIndexOf_range [of s p "int (length s)"] by linarith
    then obtain i where i: "lastIndexOf s p (int (length s)) = int i" by (rule nonneg_int_cases)
    have "i + length p \<le> length s" using lastIndexOf_hit(1) [OF i] by (simp add: sub_at_def)
    moreover have "\<not> i < ?d" using lastIndexOf_hit(3) [OF i] at by auto
    ultimately have "i = ?d" by simp
    then show "endsWith s p" using i le by (simp add: endsWith_def Let_def of_nat_diff)
  qed
  show "string_include s p \<longleftrightarrow> sublist p s"
  proof -
    have "string_include s p \<longleftrightarrow> indexOf s p 0 \<noteq> -1"
      using indexOf_range [of s p 0] by (auto simp: string_include_def)
    also have "\<dots> \<longleftrightarrow> (\<exists>i \<le> length s. sub_at p s i)" by (auto simp: indexOf_miss)
    also have "\<dots> \<longleftrightarrow> (\<exists>i. sub_at p s i)" by (meson add_leD1 sub_at_def)
    also have "\<dots> \<longleftrightarrow> sublist p s" unfolding sub_at_iff sublist_def by auto
    finally show ?thesis .
  qed
qed

section \<open>HTML escapes\<close>

lemma escapeHTML_chars:
  "escapeHTML s = concat (map (\<lambda>c. if c = CHR ''&'' then ''&amp;'' else if c = CHR ''<'' then ''&lt;''
     else if c = CHR ''>'' then ''&gt;'' else [c]) s)"
  by (induction s) (simp_all add: escapeHTML_def replace_char_def)

lemma escapeHTML_no_bracket: "CHR ''<'' \<notin> set (escapeHTML s)" "CHR ''>'' \<notin> set (escapeHTML s)"
  by (auto simp: escapeHTML_chars)

text \<open>
  The result of \<open>escapeHTML\<close> holds no tag: no angle bracket is left in it, whatever the text.
\<close>

theorem escapeHTML_safe: "CHR ''<'' \<notin> set (escapeHTML s) \<and> CHR ''>'' \<notin> set (escapeHTML s)"
  using escapeHTML_no_bracket by blast

lemma stripTags_none: "CHR ''<'' \<notin> set s \<Longrightarrow> stripTags s = s"
  by (induction s) auto

text \<open>
  \<open>unescapeHTML\<close> is not the inverse of \<open>escapeHTML\<close>: it turns \<open>&amp;\<close> back into an ampersand
  first and then reads it as the start of another entity, so a text that holds the characters
  \<open>&lt;\<close> comes back as an angle bracket.
\<close>

theorem unescapeHTML_not_inverse:
  "escapeHTML ''&lt;'' = ''&amp;lt;'' \<and> unescapeHTML (escapeHTML ''&lt;'') = ''<''"
proof -
  have "escapeHTML ''&lt;'' = ''&amp;lt;''" by (simp add: escapeHTML_chars)
  then show ?thesis by (simp add: unescapeHTML_def stripTags_none sub_at_def)
qed

text \<open>On texts without ampersands the two are inverse.\<close>

definition bracket_entity :: "char \<Rightarrow> string" where
  "bracket_entity c = (if c = CHR ''<'' then ''&lt;'' else if c = CHR ''>'' then ''&gt;'' else [c])"

definition gt_entity :: "char \<Rightarrow> string" where
  "gt_entity c = (if c = CHR ''>'' then ''&gt;'' else [c])"

lemma unescape_amp: "CHR ''&'' \<notin> set s \<Longrightarrow>
   replace_text ''&amp;'' ''&'' (concat (map bracket_entity s)) = concat (map bracket_entity s)"
  by (induction s) (auto simp: bracket_entity_def sub_at_def)

lemma unescape_lt: "CHR ''&'' \<notin> set s \<Longrightarrow>
   replace_text ''&lt;'' ''<'' (concat (map bracket_entity s)) = concat (map gt_entity s)"
  by (induction s) (auto simp: bracket_entity_def gt_entity_def sub_at_def)

lemma unescape_gt: "CHR ''&'' \<notin> set s \<Longrightarrow> replace_text ''&gt;'' ''>'' (concat (map gt_entity s)) = s"
  by (induction s) (auto simp: gt_entity_def sub_at_def)

lemma unescape_escape: "CHR ''&'' \<notin> set s \<Longrightarrow> unescapeHTML (escapeHTML s) = s"
proof -
  assume a: "CHR ''&'' \<notin> set s"
  then have e: "escapeHTML s = concat (map bracket_entity s)"
    unfolding escapeHTML_chars by (intro arg_cong [where f = concat] map_cong) (auto simp: bracket_entity_def)
  have "stripTags (escapeHTML s) = escapeHTML s" by (rule stripTags_none) (rule escapeHTML_no_bracket)
  then show ?thesis unfolding unescapeHTML_def e using a by (simp add: unescape_amp unescape_lt unescape_gt)
qed

end
