(* ===== verification/JsValue.thy ===== *)
theory JsValue
  imports JsString Complex_Main
begin

text \<open>
  Values of the language as the collection library of \<open>prototype.js\<close> and the utilities of
  \<open>jquery.js\<close> compare them: truth, the strict and the loose equality, and the order.  Numbers are
  exact rationals and \<open>NaN\<close>; an object is its identity and the string it converts to.
\<close>

section \<open>Values\<close>

datatype js_value = Undefined | Null | Boolean bool | Number rat | NaN | String string | Object nat string

fun truthy :: "js_value \<Rightarrow> bool" where
  "truthy Undefined = False"
| "truthy Null = False"
| "truthy (Boolean b) = b"
| "truthy (Number r) = (r \<noteq> 0)"
| "truthy NaN = False"
| "truthy (String s) = (s \<noteq> [])"
| "truthy (Object i s) = True"

definition nullish :: "js_value \<Rightarrow> bool" where
  "nullish v \<longleftrightarrow> v = Undefined \<or> v = Null"

lemma nullish_simps [simp]:
  "nullish Undefined" "nullish Null" "\<not> nullish (Boolean b)" "\<not> nullish (Number r)" "\<not> nullish NaN"
  "\<not> nullish (String s)" "\<not> nullish (Object i s)"
  by (simp_all add: nullish_def)

section \<open>Numbers in strings\<close>

definition all_digits :: "string \<Rightarrow> bool" where
  "all_digits s \<longleftrightarrow> s \<noteq> [] \<and> list_all is_digit s"

definition hex_val :: "char \<Rightarrow> nat option" where
  "hex_val c =
     (let n = of_char c :: nat
      in if is_digit c then Some (n - 48) else if 65 \<le> n \<and> n \<le> 70 then Some (n - 55)
         else if 97 \<le> n \<and> n \<le> 102 then Some (n - 87) else None)"

fun read_hex :: "nat \<Rightarrow> string \<Rightarrow> nat option" where
  "read_hex acc [] = Some acc"
| "read_hex acc (c # cs) = (case hex_val c of None \<Rightarrow> None | Some d \<Rightarrow> read_hex (16 * acc + d) cs)"

text \<open>The digits of a fraction, scaled.\<close>

definition fraction_value :: "string \<Rightarrow> string \<Rightarrow> rat" where
  "fraction_value ip fp = of_nat (read_digits 0 (ip @ fp)) / 10 ^ length fp"

definition mantissa :: "string \<Rightarrow> rat option" where
  "mantissa s =
     (let ip = takeWhile is_digit s; r = dropWhile is_digit s
      in case r of [] \<Rightarrow> if ip = [] then None else Some (fraction_value ip [])
         | c # fp \<Rightarrow> if c = CHR ''.'' \<and> list_all is_digit fp \<and> ip @ fp \<noteq> [] then Some (fraction_value ip fp) else None)"

definition exponent :: "string \<Rightarrow> rat option" where
  "exponent s =
     (case s of [] \<Rightarrow> None
      | c # r \<Rightarrow> if c = CHR ''-'' then if all_digits r then Some (1 / 10 ^ read_digits 0 r) else None
          else if c = CHR ''+'' then if all_digits r then Some (10 ^ read_digits 0 r) else None
          else if all_digits s then Some (10 ^ read_digits 0 s) else None)"

definition is_e :: "char \<Rightarrow> bool" where
  "is_e c \<longleftrightarrow> c = CHR ''e'' \<or> c = CHR ''E''"

definition unsigned_number :: "string \<Rightarrow> rat option" where
  "unsigned_number s =
     (let m = takeWhile (\<lambda>c. \<not> is_e c) s; e = dropWhile (\<lambda>c. \<not> is_e c) s
      in case mantissa m of None \<Rightarrow> None
         | Some v \<Rightarrow> (case e of [] \<Rightarrow> Some v | _ # x \<Rightarrow> map_option ((*) v) (exponent x)))"

text \<open>The number a string converts to; no finite number for \<open>Infinity\<close> and for other texts.\<close>

definition string_number :: "string \<Rightarrow> rat option" where
  "string_number str =
     (case trim str of [] \<Rightarrow> Some 0
      | c # r \<Rightarrow>
          if c = CHR ''-'' then map_option uminus (unsigned_number r)
          else if c = CHR ''+'' then unsigned_number r
          else if c = CHR ''0'' \<and> r \<noteq> [] \<and> (hd r = CHR ''x'' \<or> hd r = CHR ''X'') \<and> tl r \<noteq> []
          then map_option of_nat (read_hex 0 (tl r))
          else unsigned_number (c # r))"

fun number_of :: "js_value \<Rightarrow> rat option" where
  "number_of Undefined = None"
| "number_of Null = Some 0"
| "number_of (Boolean b) = Some (if b then 1 else 0)"
| "number_of (Number r) = Some r"
| "number_of NaN = None"
| "number_of (String s) = string_number s"
| "number_of (Object i s) = string_number s"

section \<open>Comparing\<close>

fun text_of :: "js_value \<Rightarrow> string option" where
  "text_of (String s) = Some s"
| "text_of (Object i s) = Some s"
| "text_of v = None"

definition strict_equal :: "js_value \<Rightarrow> js_value \<Rightarrow> bool" where
  "strict_equal a b \<longleftrightarrow> (case (a, b) of (Object i s, Object j t) \<Rightarrow> i = j | (NaN, _) \<Rightarrow> False | _ \<Rightarrow> a = b)"

definition numbers_equal :: "rat option \<Rightarrow> rat option \<Rightarrow> bool" where
  "numbers_equal a b \<longleftrightarrow> a \<noteq> None \<and> a = b"

definition loose_equal :: "js_value \<Rightarrow> js_value \<Rightarrow> bool" where
  "loose_equal a b \<longleftrightarrow>
     (if nullish a \<or> nullish b then nullish a \<and> nullish b
      else case (a, b) of (Object i s, Object j t) \<Rightarrow> i = j
        | _ \<Rightarrow> (case (text_of a, text_of b) of (Some s, Some t) \<Rightarrow> s = t
             | _ \<Rightarrow> numbers_equal (number_of a) (number_of b)))"

fun text_less :: "string \<Rightarrow> string \<Rightarrow> bool" where
  "text_less s [] = False"
| "text_less [] (c # cs) = True"
| "text_less (c # cs) (d # ds) = (if c = d then text_less cs ds else (of_char c :: nat) < of_char d)"

definition numbers_less :: "rat option \<Rightarrow> rat option \<Rightarrow> bool" where
  "numbers_less a b \<longleftrightarrow> (case (a, b) of (Some x, Some y) \<Rightarrow> x < y | _ \<Rightarrow> False)"

definition js_less :: "js_value \<Rightarrow> js_value \<Rightarrow> bool" where
  "js_less a b \<longleftrightarrow>
     (case (text_of a, text_of b) of (Some s, Some t) \<Rightarrow> text_less s t
      | _ \<Rightarrow> numbers_less (number_of a) (number_of b))"

text \<open>\<open>a >= b\<close> is false when a number is missing.\<close>

definition js_ge :: "js_value \<Rightarrow> js_value \<Rightarrow> bool" where
  "js_ge a b \<longleftrightarrow>
     (case (text_of a, text_of b) of (Some s, Some t) \<Rightarrow> \<not> text_less s t
      | _ \<Rightarrow> number_of a \<noteq> None \<and> number_of b \<noteq> None \<and> \<not> numbers_less (number_of a) (number_of b))"

section \<open>Laws\<close>

lemma strict_imp_eq: "strict_equal a b \<Longrightarrow> \<not> (\<exists>i s. a = Object i s) \<Longrightarrow> a = b"
  by (cases a; cases b) (simp_all add: strict_equal_def)

lemma strict_equal_refl: "strict_equal a a \<longleftrightarrow> a \<noteq> NaN"
  by (cases a) (simp_all add: strict_equal_def)

lemma strict_imp_loose: "strict_equal a b \<Longrightarrow> loose_equal a b"
  by (cases a; cases b) (simp_all add: strict_equal_def loose_equal_def nullish_def numbers_equal_def)

lemma strict_equal_truthy: "strict_equal a b \<Longrightarrow> truthy a = truthy b"
  by (cases a; cases b) (simp_all add: strict_equal_def)

lemma numbers_equal_sym: "numbers_equal a b = numbers_equal b a"
  by (cases a; cases b) (auto simp: numbers_equal_def)

lemma loose_equal_sym: "loose_equal a b \<longleftrightarrow> loose_equal b a"
  by (cases a; cases b) (simp_all add: loose_equal_def nullish_def eq_commute numbers_equal_sym)

lemma js_less_numbers [simp]: "js_less (Number x) (Number y) \<longleftrightarrow> x < y"
  by (simp add: js_less_def numbers_less_def)

lemma js_ge_numbers [simp]: "js_ge (Number x) (Number y) \<longleftrightarrow> y \<le> x"
  by (simp add: js_ge_def numbers_less_def) auto

lemma loose_equal_numbers [simp]: "loose_equal (Number x) (Number y) \<longleftrightarrow> x = y"
  by (simp add: loose_equal_def nullish_def numbers_equal_def)

lemma loose_equal_texts [simp]: "loose_equal (String s) (String t) \<longleftrightarrow> s = t"
  by (simp add: loose_equal_def nullish_def)

end
