(* ===== verification/InPlaceEditor.thy ===== *)
theory InPlaceEditor
  imports ProtoText QueryString JsValue
begin

text \<open>
  The in-place editors of \<open>controls.js\<close>: \<open>Ajax.InPlaceEditor\<close>, its \<open>InPlaceCollectionEditor\<close> and the
  layer for deprecated options.  An element shows its content; clicking it opens a form with a field,
  submitting the form sends the value and shows a notice until the answer comes.  The page's events
  and the answers of the server are the steps of a state machine.  An HTML text written into an
  element is read back as it was written, and the effects that the callbacks start (highlighting)
  are only counted as started.  Callbacks of a client are recorded, they do not act on the editor.
\<close>

section \<open>Options\<close>

type_synonym options = "js_value object"

definition opt :: "string \<Rightarrow> options \<Rightarrow> js_value" where
  "opt name ofs = (case hash_get name ofs of Some v \<Rightarrow> v | None \<Rightarrow> Undefined)"

definition js_or :: "js_value \<Rightarrow> js_value \<Rightarrow> js_value" where
  "js_or a b = (if truthy a then a else b)"

definition InPlaceEditor_DefaultOptions :: options where
  "InPlaceEditor_DefaultOptions =
    [(''ajaxOptions'', Object 0 ''[object Object]''),
     (''autoRows'', Number 3),
     (''cancelControl'', String ''link''),
     (''cancelText'', String ''cancel''),
     (''clickToEditText'', String ''Click to edit''),
     (''externalControl'', Null),
     (''externalControlOnly'', Boolean False),
     (''fieldPostCreation'', String ''activate''),
     (''formClassName'', String ''inplaceeditor-form''),
     (''formId'', Null),
     (''highlightColor'', String ''#ffff99''),
     (''highlightEndColor'', String ''#ffffff''),
     (''hoverClassName'', String []),
     (''htmlResponse'', Boolean True),
     (''loadingClassName'', String ''inplaceeditor-loading''),
     (''loadingText'', String ''Loading...''),
     (''okControl'', String ''button''),
     (''okText'', String ''ok''),
     (''paramName'', String ''value''),
     (''rows'', Number 1),
     (''savingClassName'', String ''inplaceeditor-saving''),
     (''savingText'', String ''Saving...''),
     (''size'', Number 0),
     (''stripLoadedTextTags'', Boolean False),
     (''submitOnBlur'', Boolean False),
     (''textAfterControls'', String []),
     (''textBeforeControls'', String []),
     (''textBetweenControls'', String [])]"

definition collection_defaults :: options where
  "collection_defaults = [(''loadingCollectionText'', String ''Loading options...'')]"

definition fallback :: "string \<Rightarrow> js_value \<Rightarrow> options \<Rightarrow> options" where
  "fallback name expr ofs = (if own name ofs \<or> expr = Undefined then ofs else hash_set name expr ofs)"

text \<open>
  \<open>a ? 'link' : (b ? 'button' : a == b == false ? false : undefined)\<close>; the comparison reads from the
  left, so it asks whether \<open>a == b\<close> is false.
\<close>

definition control_of :: "js_value \<Rightarrow> js_value \<Rightarrow> js_value" where
  "control_of link button =
     (if truthy link then String ''link''
      else if truthy button then String ''button''
      else if loose_equal (Boolean (loose_equal link button)) (Boolean False) then Boolean False
      else Undefined)"

definition dealWithDeprecatedOptions :: "options \<Rightarrow> options" where
  "dealWithDeprecatedOptions ofs =
     (let cancelled = fallback ''cancelControl'' (control_of (opt ''cancelLink'' ofs) (opt ''cancelButton'' ofs)) ofs;
          confirmed = fallback ''okControl'' (control_of (opt ''okLink'' cancelled) (opt ''okButton'' cancelled)) cancelled;
          coloured = fallback ''highlightColor'' (opt ''highlightcolor'' confirmed) confirmed
      in fallback ''highlightEndColor'' (opt ''highlightendcolor'' coloured) coloured)"

section \<open>Data\<close>

text \<open>An entry of a collection: a value, or an array of values; arrays inside it do not occur.\<close>

datatype collection_entry = Plain js_value | Listed "js_value list"

record choice =
  choice_value :: js_value
  choice_text :: js_value
  selected :: bool

text \<open>The field: an \<open>input\<close>, a \<open>textarea\<close> or a \<open>select\<close>.\<close>

record field =
  tag :: string
  size_attr :: js_value
  rows_attr :: js_value
  cols_attr :: js_value
  field_name :: js_value
  field_value :: js_value
  choices_of :: "choice list"
  submits_on_blur :: bool
  disabled :: bool
  activated :: bool

definition plain_field :: "string \<Rightarrow> js_value \<Rightarrow> field" where
  "plain_field t name = \<lparr>tag = t, size_attr = Undefined, rows_attr = Undefined, cols_attr = Undefined, field_name = name,
     field_value = String [], choices_of = [], submits_on_blur = False, disabled = False, activated = False\<rparr>"

text \<open>The children of the form in their order.\<close>

datatype child = Editor_field | Break | Words js_value | Button string js_value | Link string js_value "string list"

record ipe_form =
  form_id :: js_value
  form_classes :: "js_value list"
  children :: "child list"
  editor :: field
  inserted :: bool

datatype ipe_request = Save | LoadText | LoadCollection

record sent_request =
  receiver :: "string option"
  url :: js_value
  verb :: "string option"
  params :: "qvalue object"

record ipe =
  options :: options
  has_external :: bool
  external_shown :: bool
  innerHTML :: string
  classes :: "js_value list"
  shown :: bool
  background :: js_value
  originalBackground :: js_value
  oldInnerHTML :: "string option"
  saving :: bool
  editing :: bool
  form :: "ipe_form option"
  collection :: "collection_entry list"
  text_shown :: string
  has_effect :: bool
  observing :: bool
  pending :: "ipe_request list"
  sent :: "sent_request list"
  calls :: "string list"

text \<open>
  What an editor is created with.  \<open>own_callbacks\<close> gives the callbacks named in the options
  (\<open>Some None\<close>: named as \<open>null\<close>), \<open>serialize\<close> and \<open>evaluate\<close> stand for the callback that reads the
  form and for \<open>eval\<close> of a collection; \<open>ajax_method\<close> is the method set in the \<open>ajaxOptions\<close>.
\<close>

datatype handler = Builtin | Own

record ipe_config =
  element_id :: string
  url_of :: js_value
  user_options :: "options option"
  own_callbacks :: "string \<Rightarrow> handler option option"
  is_collection :: bool
  id_taken :: bool
  external_found :: bool
  computed_background :: js_value
  ajax_method :: "string option"
  serialize :: "ipe_form \<Rightarrow> js_value \<Rightarrow> string"
  evaluate :: "string \<Rightarrow> collection_entry list"
  given_collection :: "collection_entry list"

section \<open>Creating an editor\<close>

definition callback_of :: "ipe_config \<Rightarrow> string \<Rightarrow> handler option" where
  "callback_of cfg name =
     (case own_callbacks cfg name of Some h \<Rightarrow> h
      | None \<Rightarrow> if name \<in> {''onComplete'', ''onEnterHover'', ''onFailure'', ''onLeaveHover''} then Some Builtin else None)"

definition prepareOptions :: "ipe_config \<Rightarrow> options" where
  "prepareOptions cfg = (if is_collection cfg then hash_update collection_defaults InPlaceEditor_DefaultOptions else InPlaceEditor_DefaultOptions)"

text \<open>\<open>Object.extend(this.options, options || { })\<close>, after the deprecated names were translated.\<close>

definition extended_options :: "ipe_config \<Rightarrow> options" where
  "extended_options cfg =
     (case user_options cfg of None \<Rightarrow> prepareOptions cfg
      | Some ofs \<Rightarrow> hash_update (dealWithDeprecatedOptions ofs) (prepareOptions cfg))"

definition final_options :: "ipe_config \<Rightarrow> options" where
  "final_options cfg =
     (let ofs = extended_options cfg;
          named = (if \<not> truthy (opt ''formId'' ofs) \<and> element_id cfg \<noteq> []
                   then hash_set ''formId'' (String (if id_taken cfg then [] else element_id cfg @ ''-inplaceeditor'')) ofs
                   else ofs)
      in if truthy (opt ''externalControl'' named) \<and> external_found cfg then named
         else hash_set ''externalControlOnly'' (Boolean False) named)"

definition ipe_initialize :: "ipe_config \<Rightarrow> string \<Rightarrow> ipe" where
  "ipe_initialize cfg html =
     \<lparr>options = final_options cfg,
      has_external = truthy (opt ''externalControl'' (final_options cfg)) \<and> external_found cfg,
      external_shown = True, innerHTML = html, classes = [], shown = True,
      background = computed_background cfg,
      originalBackground = js_or (computed_background cfg) (String ''transparent''),
      oldInnerHTML = None, saving = False, editing = False, form = None, collection = [], text_shown = [],
      has_effect = False, observing = True, pending = [], sent = [], calls = []\<rparr>"

section \<open>Callbacks and class names\<close>

definition add_class :: "js_value \<Rightarrow> js_value list \<Rightarrow> js_value list" where
  "add_class c cs = (if c \<in> set cs then cs else cs @ [c])"

definition remove_class :: "js_value \<Rightarrow> js_value list \<Rightarrow> js_value list" where
  "remove_class c cs = filter (\<lambda>x. x \<noteq> c) cs"

text \<open>The callbacks the library provides: the colour under the mouse and the highlight effect.\<close>

definition builtin :: "string \<Rightarrow> ipe \<Rightarrow> ipe" where
  "builtin name st =
     (if name = ''onEnterHover'' then st\<lparr>background := opt ''highlightColor'' (options st)\<rparr>
      else if name = ''onLeaveHover'' then st\<lparr>has_effect := True\<rparr>
      else st)"

definition triggerCallback :: "ipe_config \<Rightarrow> string \<Rightarrow> ipe \<Rightarrow> ipe" where
  "triggerCallback cfg name st =
     (case callback_of cfg name of None \<Rightarrow> st
      | Some h \<Rightarrow> (let called = st\<lparr>calls := calls st @ [name]\<rparr> in if h = Builtin then builtin name called else called))"

definition enterHover :: "ipe_config \<Rightarrow> ipe \<Rightarrow> ipe" where
  "enterHover cfg st =
     (let hover = opt ''hoverClassName'' (options st);
          marked = (if truthy hover then st\<lparr>classes := add_class hover (classes st)\<rparr> else st)
      in if saving st then marked else triggerCallback cfg ''onEnterHover'' marked)"

definition leaveHover :: "ipe_config \<Rightarrow> ipe \<Rightarrow> ipe" where
  "leaveHover cfg st =
     (let hover = opt ''hoverClassName'' (options st);
          unmarked = (if truthy hover then st\<lparr>classes := remove_class hover (classes st)\<rparr> else st)
      in if saving st then unmarked else triggerCallback cfg ''onLeaveHover'' unmarked)"

section \<open>The form\<close>

text \<open>A script element and its text: \<open>stripScripts\<close> without regard to the case of the tag names.\<close>

definition script_rest :: "string \<Rightarrow> string option" where
  "script_rest s =
     (if to_lower (take 7 s) = ''<script'' \<and> CHR ''>'' \<in> set (drop 7 s)
      then (let body = tl (dropWhile (\<lambda>c. c \<noteq> CHR ''>'') (drop 7 s))
            in case index_from (to_lower body) ''</script>'' 0 of None \<Rightarrow> None
               | Some i \<Rightarrow> Some (drop (i + 9) body))
      else None)"

lemma script_rest_shorter: "script_rest s = Some r \<Longrightarrow> length r < length s"
proof -
  assume r: "script_rest s = Some r"
  then obtain i where i: "r = drop (i + 9) (tl (dropWhile (\<lambda>c. c \<noteq> CHR ''>'') (drop 7 s)))"
    and s: "to_lower (take 7 s) = ''<script''"
    by (auto simp: script_rest_def Let_def split: if_splits option.splits)
  have "s \<noteq> []" using s by (auto simp: to_lower_def)
  moreover have "length (dropWhile (\<lambda>c. c \<noteq> CHR ''>'') (drop 7 s)) \<le> length (drop 7 s)"
    by (rule length_dropWhile_le)
  ultimately show ?thesis unfolding i length_drop length_tl by (cases s) auto
qed

function stripScripts :: "string \<Rightarrow> string" where
  "stripScripts [] = []"
| "stripScripts (c # cs) =
     (case script_rest (c # cs) of Some r \<Rightarrow> stripScripts r | None \<Rightarrow> c # stripScripts cs)"
  by pat_completeness auto
termination
  by (relation "measure length") (auto dest: script_rest_shorter)

definition getText :: "ipe \<Rightarrow> string" where
  "getText st = unescapeHTML (innerHTML st)"

definition breaks_line :: "string \<Rightarrow> bool" where
  "breaks_line s \<longleftrightarrow> (\<exists>c \<in> set s. c = char_of (10 :: nat) \<or> c = char_of (13 :: nat))"

definition on_form :: "(ipe_form \<Rightarrow> ipe_form) \<Rightarrow> ipe \<Rightarrow> ipe" where
  "on_form f st = st\<lparr>form := map_option f (form st)\<rparr>"

definition on_editor :: "(field \<Rightarrow> field) \<Rightarrow> ipe \<Rightarrow> ipe" where
  "on_editor f = on_form (\<lambda>fm. fm\<lparr>editor := f (editor fm)\<rparr>)"

text \<open>A request for the text or the collection, and the form marked as loading.\<close>

definition ask :: "ipe_config \<Rightarrow> ipe_request \<Rightarrow> string \<Rightarrow> ipe \<Rightarrow> ipe" where
  "ask cfg what target st =
     st\<lparr>pending := pending st @ [what],
        sent := sent st @ [\<lparr>receiver = None, url = opt target (options st),
          verb = Some (case ajax_method cfg of None \<Rightarrow> ''get'' | Some m \<Rightarrow> m),
          params = [(''editorId'', QText (element_id cfg))]\<rparr>]\<rparr>"

definition mark_loading :: "ipe \<Rightarrow> ipe" where
  "mark_loading st = on_form (\<lambda>fm. fm\<lparr>form_classes := add_class (opt ''loadingClassName'' (options st)) (form_classes fm)\<rparr>) st"

definition unmark_loading :: "ipe \<Rightarrow> ipe" where
  "unmark_loading st = on_form (\<lambda>fm. fm\<lparr>form_classes := remove_class (opt ''loadingClassName'' (options st)) (form_classes fm)\<rparr>) st"

definition loadExternalText :: "ipe_config \<Rightarrow> ipe \<Rightarrow> ipe" where
  "loadExternalText cfg st =
     ask cfg LoadText ''loadTextURL'' (on_editor (\<lambda>fld. fld\<lparr>disabled := True\<rparr>) (mark_loading st))"

definition postProcessEditField :: "ipe \<Rightarrow> ipe" where
  "postProcessEditField st =
     (if truthy (opt ''fieldPostCreation'' (options st)) then on_editor (\<lambda>fld. fld\<lparr>activated := True\<rparr>) st else st)"

definition edit_field :: "ipe \<Rightarrow> field" where
  "edit_field st =
     (let ofs = options st;
          text = (if truthy (opt ''loadTextURL'' ofs) then opt ''loadingText'' ofs else String (getText st));
          size = js_or (js_or (opt ''size'' ofs) (opt ''cols'' ofs)) (Number 0);
          one_row = js_ge (Number 1) (opt ''rows'' ofs);
          fld = (if one_row \<and> \<not> breaks_line (getText st)
                 then (let f = plain_field ''input'' (opt ''paramName'' ofs)
                       in if js_less (Number 0) size then f\<lparr>size_attr := size\<rparr> else f)
                 else (plain_field ''textarea'' (opt ''paramName'' ofs))
                   \<lparr>rows_attr := (if one_row then opt ''autoRows'' ofs else opt ''rows'' ofs),
                    cols_attr := js_or (opt ''cols'' ofs) (Number 40)\<rparr>)
      in fld\<lparr>field_value := text, submits_on_blur := truthy (opt ''submitOnBlur'' ofs)\<rparr>)"

section \<open>The list of a collection\<close>

text \<open>
  \<open>2 === entry.length ? entry : [entry, entry].flatten()\<close>, then \<open>entry[0]\<close> and \<open>entry[1]\<close>.  A string
  has a length too, and its elements are characters; \<open>null\<close> has no properties.
\<close>

definition element_of :: "js_value list \<Rightarrow> nat \<Rightarrow> js_value" where
  "element_of vs i = (case aref vs i of Some v \<Rightarrow> v | None \<Rightarrow> Undefined)"

fun entry_pair :: "collection_entry \<Rightarrow> (js_value \<times> js_value) option" where
  "entry_pair (Plain v) =
     (if nullish v then None
      else case v of String [a, b] \<Rightarrow> Some (String [a], String [b]) | _ \<Rightarrow> Some (v, v))"
| "entry_pair (Listed vs) =
     (if length vs = 2 then Some (element_of vs 0, element_of vs 1)
      else Some (element_of (vs @ vs) 0, element_of (vs @ vs) 1))"

fun entry_pairs :: "collection_entry list \<Rightarrow> (js_value \<times> js_value) list option" where
  "entry_pairs [] = Some []"
| "entry_pairs (e # es) =
     (case entry_pair e of None \<Rightarrow> None
      | Some p \<Rightarrow> (case entry_pairs es of None \<Rightarrow> None | Some ps \<Rightarrow> Some (p # ps)))"

definition marker :: "ipe \<Rightarrow> js_value" where
  "marker st = (if own ''value'' (options st) then opt ''value'' (options st) else String (text_shown st))"

definition make_choices :: "js_value \<Rightarrow> (js_value \<times> js_value) list \<Rightarrow> choice list" where
  "make_choices mark ps =
     (let textFound = list_ex (\<lambda>p. loose_equal (fst p) mark) ps
      in map (\<lambda>(index, p). \<lparr>choice_value = fst p, choice_text = snd p,
               selected = (if textFound then loose_equal (fst p) mark else index = 0)\<rparr>) (enumerate 0 ps))"

text \<open>The handlers can fail: the first component is the error, the second the state left behind.\<close>

type_synonym ipe_outcome = "js_error option \<times> ipe"

definition andthen :: "ipe_outcome \<Rightarrow> (ipe \<Rightarrow> ipe_outcome) \<Rightarrow> ipe_outcome" where
  "andthen r f = (case r of (None, st) \<Rightarrow> f st | (Some e, st) \<Rightarrow> (Some e, st))"

lemma andthen_simps [simp]:
  "andthen (None, st) f = f st"
  "andthen (Some e, st) f = (Some e, st)"
  by (simp_all add: andthen_def)

lemma andthen_None_iff: "andthen r f = (None, st') \<longleftrightarrow> (\<exists>st. r = (None, st) \<and> f st = (None, st'))"
  by (cases r; cases "fst r") auto

definition buildOptionList :: "ipe \<Rightarrow> ipe_outcome" where
  "buildOptionList st =
     (if form st = None then (Some TypeError, st)
      else (let loaded = unmark_loading st
            in case entry_pairs (collection st) of None \<Rightarrow> (Some TypeError, loaded)
               | Some ps \<Rightarrow> (None, on_editor (\<lambda>fld. fld\<lparr>choices_of := make_choices (marker st) ps, disabled := False, activated := True\<rparr>) loaded)))"

definition showLoadingText :: "js_value \<Rightarrow> ipe \<Rightarrow> ipe" where
  "showLoadingText text st =
     on_editor (\<lambda>fld.
       (let shown_text = (case js_or text (String []) of String s \<Rightarrow> String (stripTags (stripScripts s)) | v \<Rightarrow> v)
        in fld\<lparr>disabled := True,
               choices_of := (case choices_of fld of
                   [] \<Rightarrow> [\<lparr>choice_value = String [], choice_text = shown_text, selected = True\<rparr>]
                 | c # cs \<Rightarrow> c\<lparr>choice_text := shown_text\<rparr> # cs)\<rparr>)) st"

definition collection_loadExternalText :: "ipe_config \<Rightarrow> ipe \<Rightarrow> ipe_outcome" where
  "collection_loadExternalText cfg st =
     (if form st = None then (Some TypeError, st)
      else (None, ask cfg LoadText ''loadTextURL'' (showLoadingText (opt ''loadingText'' (options st)) st)))"

definition checkForExternalText :: "ipe_config \<Rightarrow> ipe \<Rightarrow> ipe_outcome" where
  "checkForExternalText cfg st =
     (let read_text = st\<lparr>text_shown := getText st\<rparr>
      in if truthy (opt ''loadTextURL'' (options st)) then collection_loadExternalText cfg read_text
         else buildOptionList read_text)"

definition loadCollection :: "ipe_config \<Rightarrow> ipe \<Rightarrow> ipe" where
  "loadCollection cfg st =
     ask cfg LoadCollection ''loadCollectionURL''
       (showLoadingText (opt ''loadingCollectionText'' (options st)) (mark_loading st))"

definition createEditField :: "ipe_config \<Rightarrow> ipe \<Rightarrow> ipe_outcome" where
  "createEditField cfg st =
     (if is_collection cfg
      then (let listed = (on_editor (\<lambda>_. (plain_field ''select'' (opt ''paramName'' (options st)))\<lparr>size_attr := Number 1\<rparr>) st)
                  \<lparr>collection := given_collection cfg\<rparr>
            in if truthy (opt ''loadCollectionURL'' (options st)) then (None, loadCollection cfg listed)
               else checkForExternalText cfg listed)
      else (let made = on_editor (\<lambda>_. edit_field st) st
            in if truthy (opt ''loadTextURL'' (options st)) then (None, loadExternalText cfg made) else (None, made)))"

section \<open>Opening and closing\<close>

definition addText :: "string \<Rightarrow> bool \<Rightarrow> options \<Rightarrow> child list" where
  "addText mode unless ofs =
     (let text = opt (''text'' @ mode @ ''Controls'') ofs
      in if \<not> truthy text \<or> unless then [] else [Words text])"

definition createControl :: "string \<Rightarrow> string list \<Rightarrow> options \<Rightarrow> child list" where
  "createControl mode extraClasses ofs =
     (let control = opt (mode @ ''Control'') ofs; text = opt (mode @ ''Text'') ofs
      in if loose_equal (String ''button'') control then [Button mode text]
         else if loose_equal (String ''link'') control then [Link mode text ((''editor_'' @ mode @ ''_link'') # extraClasses)]
         else [])"

text \<open>\<open>a || b\<close> and \<open>a && b\<close> are compared with \<open>=== false\<close>.\<close>

definition controls_children :: "options \<Rightarrow> child list" where
  "controls_children ofs =
     (let ok_control = opt ''okControl'' ofs; cancel_control = opt ''cancelControl'' ofs;
          either = js_or ok_control cancel_control;
          both = (if truthy ok_control then cancel_control else ok_control)
      in addText ''Before'' (either = Boolean False) ofs
         @ createControl ''ok'' [] ofs
         @ addText ''Between'' (both = Boolean False) ofs
         @ createControl ''cancel'' [''editor_cancel''] ofs
         @ addText ''After'' (either = Boolean False) ofs)"

definition edited_tag :: "ipe \<Rightarrow> string" where
  "edited_tag st = (case form st of None \<Rightarrow> [] | Some fm \<Rightarrow> tag (editor fm))"

definition createForm :: "ipe_config \<Rightarrow> ipe \<Rightarrow> ipe_outcome" where
  "createForm cfg st =
     (let ofs = options st;
          opened = st\<lparr>form := Some \<lparr>form_id = opt ''formId'' ofs, form_classes = [opt ''formClassName'' ofs], children = [],
            editor = plain_field [] Undefined, inserted = False\<rparr>\<rparr>
      in andthen (createEditField cfg opened) (\<lambda>made.
           let field_children = Editor_field # (if edited_tag made = ''textarea'' then [Break] else []);
               customized = triggerCallback cfg ''onFormCustomization'' (on_form (\<lambda>fm. fm\<lparr>children := field_children\<rparr>) made)
           in (None, on_form (\<lambda>fm. fm\<lparr>children := field_children @ controls_children ofs\<rparr>) customized)))"

text \<open>Removing an element that is nowhere in the page fails: it has no parent.\<close>

definition removeForm :: "ipe \<Rightarrow> ipe_outcome" where
  "removeForm st =
     (case form st of None \<Rightarrow> (None, st)
      | Some fm \<Rightarrow> if inserted fm then (None, st\<lparr>form := None\<rparr>) else (Some TypeError, st))"

definition enterEditMode :: "ipe_config \<Rightarrow> ipe \<Rightarrow> ipe_outcome" where
  "enterEditMode cfg st =
     (if saving st \<or> editing st then (None, st)
      else (let begun = triggerCallback cfg ''onEnterEditMode'' (st\<lparr>editing := True\<rparr>);
                hidden = begun\<lparr>external_shown := \<not> has_external begun \<and> external_shown begun, shown := False\<rparr>
            in andthen (createForm cfg hidden) (\<lambda>formed.
                 let placed = on_form (\<lambda>fm. fm\<lparr>inserted := True\<rparr>) formed
                 in (None, if truthy (opt ''loadTextURL'' (options placed)) then placed else postProcessEditField placed))))"

definition leaveEditMode :: "ipe_config \<Rightarrow> ipe \<Rightarrow> ipe_outcome" where
  "leaveEditMode cfg st =
     andthen (removeForm (st\<lparr>classes := remove_class (opt ''savingClassName'' (options st)) (classes st)\<rparr>)) (\<lambda>removed.
       let left = leaveHover cfg removed
       in (None, triggerCallback cfg ''onLeaveEditMode''
           (left\<lparr>background := originalBackground left, shown := True,
                 external_shown := has_external left \<or> external_shown left,
                 saving := False, editing := False, oldInnerHTML := None\<rparr>)))"

definition wrapUp :: "ipe_config \<Rightarrow> ipe \<Rightarrow> ipe_outcome" where
  "wrapUp cfg st = andthen (leaveEditMode cfg st) (\<lambda>left. (None, triggerCallback cfg ''onComplete'' left))"

section \<open>Submitting\<close>

text \<open>The field's value: of a \<open>select\<close> the last choice marked selected, else its first one.\<close>

definition current_choice :: "choice list \<Rightarrow> js_value" where
  "current_choice cs =
     (case rev (filter selected cs) of c # _ \<Rightarrow> choice_value c
      | [] \<Rightarrow> (case cs of [] \<Rightarrow> Null | c # _ \<Rightarrow> choice_value c))"

definition getValue :: "field \<Rightarrow> js_value" where
  "getValue fld = (if tag fld = ''select'' then current_choice (choices_of fld) else field_value fld)"

definition showSaving :: "ipe \<Rightarrow> ipe" where
  "showSaving st =
     st\<lparr>oldInnerHTML := Some (innerHTML st),
        innerHTML := (case opt ''savingText'' (options st) of String s \<Rightarrow> s | _ \<Rightarrow> []),
        classes := add_class (opt ''savingClassName'' (options st)) (classes st),
        background := originalBackground st, shown := True\<rparr>"

definition prepareSubmission :: "ipe_config \<Rightarrow> ipe \<Rightarrow> ipe_outcome" where
  "prepareSubmission cfg st =
     andthen (removeForm (st\<lparr>saving := True\<rparr>)) (\<lambda>removed. (None, showSaving (leaveHover cfg removed)))"

definition handleFormSubmission :: "ipe_config \<Rightarrow> ipe \<Rightarrow> ipe_outcome" where
  "handleFormSubmission cfg st =
     (case form st of None \<Rightarrow> (Some TypeError, st)
      | Some fm \<Rightarrow>
          (let value = getValue (editor fm)
           in andthen (prepareSubmission cfg st) (\<lambda>prepared.
                case toQueryParams (CHR ''&'') (serialize cfg fm value) of None \<Rightarrow> (Some (Thrown ''URIError''), prepared)
                | Some ps \<Rightarrow>
                    (let updating = truthy (opt ''htmlResponse'' (options prepared))
                     in (None, prepared\<lparr>pending := pending prepared @ [Save],
                          sent := sent prepared @ [\<lparr>receiver = (if updating then Some (element_id cfg) else None),
                            url = url_of cfg,
                            verb = (case ajax_method cfg of Some m \<Rightarrow> Some m | None \<Rightarrow> if updating then None else Some ''get''),
                            params = hash_set ''editorId'' (QText (element_id cfg)) ps\<rparr>]\<rparr>)))))"

definition handleFormCancellation :: "ipe_config \<Rightarrow> ipe \<Rightarrow> ipe_outcome" where
  "handleFormCancellation cfg st = wrapUp cfg st"

definition checkForEscapeOrReturn :: "ipe_config \<Rightarrow> nat \<Rightarrow> bool \<Rightarrow> ipe \<Rightarrow> ipe_outcome" where
  "checkForEscapeOrReturn cfg keyCode modified st =
     (if \<not> editing st \<or> modified then (None, st)
      else if keyCode = 27 then handleFormCancellation cfg st
      else if keyCode = 13 then handleFormSubmission cfg st
      else (None, st))"

section \<open>Answers\<close>

text \<open>\<open>if (this._oldInnerHTML)\<close> is false for the empty text too.\<close>

definition handleAJAXFailure :: "ipe_config \<Rightarrow> ipe \<Rightarrow> ipe" where
  "handleAJAXFailure cfg st =
     (let told = triggerCallback cfg ''onFailure'' st
      in case oldInnerHTML told of Some old \<Rightarrow>
           (if old \<noteq> [] then told\<lparr>innerHTML := old, oldInnerHTML := None\<rparr> else told)
         | None \<Rightarrow> told)"

text \<open>
  The answer to a submission: on success the updater writes the answer into the element first (when it
  answers with HTML), on failure the failure handler runs first; then the editor wraps up.
\<close>

definition save_answered :: "ipe_config \<Rightarrow> bool \<Rightarrow> string \<Rightarrow> ipe \<Rightarrow> ipe_outcome" where
  "save_answered cfg success response st =
     wrapUp cfg
       (if \<not> success then handleAJAXFailure cfg st
        else if truthy (opt ''htmlResponse'' (options st)) then st\<lparr>innerHTML := stripScripts response\<rparr>
        else st)"

definition text_loaded :: "string \<Rightarrow> ipe \<Rightarrow> ipe_outcome" where
  "text_loaded response st =
     (if form st = None then (Some TypeError, st)
      else (let text = (if truthy (opt ''stripLoadedTextTags'' (options st)) then stripTags response else response)
            in (None, postProcessEditField
                 (on_editor (\<lambda>fld. fld\<lparr>field_value := String text, disabled := False\<rparr>) (unmark_loading st)))))"

definition collection_text_loaded :: "string \<Rightarrow> ipe \<Rightarrow> ipe_outcome" where
  "collection_text_loaded response st = buildOptionList (st\<lparr>text_shown := trim response\<rparr>)"

text \<open>The check \<open>/^\[.*\]$/\<close>: the dot does not match a line break.\<close>

definition looks_like_array :: "string \<Rightarrow> bool" where
  "looks_like_array js \<longleftrightarrow>
     2 \<le> length js \<and> hd js = CHR ''['' \<and> last js = CHR '']'' \<and> \<not> breaks_line js"

definition collection_loaded :: "ipe_config \<Rightarrow> string \<Rightarrow> ipe \<Rightarrow> ipe_outcome" where
  "collection_loaded cfg response st =
     (let js = trim response
      in if \<not> looks_like_array js then (Some (Thrown ''Server returned an invalid collection representation.''), st)
         else checkForExternalText cfg (st\<lparr>collection := evaluate cfg js\<rparr>))"

text \<open>The requests of the collection editor name \<open>this.onFailure\<close>, which does not exist, for a failure.\<close>

definition answered :: "ipe_config \<Rightarrow> ipe_request \<Rightarrow> bool \<Rightarrow> string \<Rightarrow> ipe \<Rightarrow> ipe_outcome" where
  "answered cfg what success response st =
     (case what of
        Save \<Rightarrow> save_answered cfg success response st
      | LoadText \<Rightarrow>
          if success then (if is_collection cfg then collection_text_loaded response st else text_loaded response st)
          else (None, if is_collection cfg then st else handleAJAXFailure cfg st)
      | LoadCollection \<Rightarrow> if success then collection_loaded cfg response st else (None, st))"

definition destroy :: "ipe_config \<Rightarrow> ipe \<Rightarrow> ipe_outcome" where
  "destroy cfg st =
     (let restored = (case oldInnerHTML st of Some old \<Rightarrow> if old \<noteq> [] then st\<lparr>innerHTML := old\<rparr> else st | None \<Rightarrow> st)
      in andthen (leaveEditMode cfg restored) (\<lambda>left. (None, left\<lparr>observing := False\<rparr>)))"

section \<open>The page's events\<close>

text \<open>
  The element and the external control are observed until the editor is destroyed; the form's own
  events need a form in the page; an answer needs a request that waits for it.
\<close>

datatype ipe_event =
  Click | Key nat bool | Over | Out | FormSubmit | FormCancel | Typed string | Choose nat
| Answer nat bool string | Destroy

definition in_page :: "ipe \<Rightarrow> bool" where
  "in_page st \<longleftrightarrow> (case form st of None \<Rightarrow> False | Some fm \<Rightarrow> inserted fm)"

definition choose_at :: "nat \<Rightarrow> choice list \<Rightarrow> choice list" where
  "choose_at i cs = map (\<lambda>(j, c). c\<lparr>selected := (j = i)\<rparr>) (enumerate 0 cs)"

fun ipe_step :: "ipe_config \<Rightarrow> ipe_event \<Rightarrow> ipe \<Rightarrow> ipe_outcome" where
  "ipe_step cfg Click st = (if observing st then enterEditMode cfg st else (None, st))"
| "ipe_step cfg (Key keyCode modified) st =
     (if observing st then checkForEscapeOrReturn cfg keyCode modified st else (None, st))"
| "ipe_step cfg Over st = (None, if observing st then enterHover cfg st else st)"
| "ipe_step cfg Out st = (None, if observing st then leaveHover cfg st else st)"
| "ipe_step cfg FormSubmit st = (if in_page st then handleFormSubmission cfg st else (None, st))"
| "ipe_step cfg FormCancel st = (if in_page st then handleFormCancellation cfg st else (None, st))"
| "ipe_step cfg (Typed s) st =
     (None, on_editor (\<lambda>fld. if disabled fld then fld else fld\<lparr>field_value := String s\<rparr>) st)"
| "ipe_step cfg (Choose i) st =
     (None, on_editor (\<lambda>fld. if disabled fld \<or> length (choices_of fld) \<le> i then fld
                              else fld\<lparr>choices_of := choose_at i (choices_of fld)\<rparr>) st)"
| "ipe_step cfg (Answer i success response) st =
     (if i < length (pending st)
      then answered cfg (pending st ! i) success response
             (st\<lparr>pending := take i (pending st) @ drop (Suc i) (pending st)\<rparr>)
      else (None, st))"
| "ipe_step cfg Destroy st = destroy cfg st"

definition ipe_next :: "ipe_config \<Rightarrow> ipe_event \<Rightarrow> ipe \<Rightarrow> ipe" where
  "ipe_next cfg ev st = snd (ipe_step cfg ev st)"

definition ipe_run :: "ipe_config \<Rightarrow> ipe_event list \<Rightarrow> ipe \<Rightarrow> ipe" where
  "ipe_run cfg evs st = foldl (\<lambda>s ev. ipe_next cfg ev s) st evs"

lemma ipe_run_simps [simp]:
  "ipe_run cfg [] st = st"
  "ipe_run cfg (ev # evs) st = ipe_run cfg evs (ipe_next cfg ev st)"
  by (simp_all add: ipe_run_def)

section \<open>What the parts of a handler leave alone\<close>

lemma builtin_keeps [simp]:
  "options (builtin n st) = options st" "has_external (builtin n st) = has_external st"
  "external_shown (builtin n st) = external_shown st" "innerHTML (builtin n st) = innerHTML st"
  "classes (builtin n st) = classes st" "shown (builtin n st) = shown st"
  "originalBackground (builtin n st) = originalBackground st" "oldInnerHTML (builtin n st) = oldInnerHTML st"
  "saving (builtin n st) = saving st" "editing (builtin n st) = editing st" "form (builtin n st) = form st"
  "collection (builtin n st) = collection st" "text_shown (builtin n st) = text_shown st"
  "observing (builtin n st) = observing st" "pending (builtin n st) = pending st" "sent (builtin n st) = sent st"
  by (simp_all add: builtin_def)

lemma trigger_keeps [simp]:
  "options (triggerCallback cfg n st) = options st" "has_external (triggerCallback cfg n st) = has_external st"
  "external_shown (triggerCallback cfg n st) = external_shown st" "innerHTML (triggerCallback cfg n st) = innerHTML st"
  "classes (triggerCallback cfg n st) = classes st" "shown (triggerCallback cfg n st) = shown st"
  "originalBackground (triggerCallback cfg n st) = originalBackground st"
  "oldInnerHTML (triggerCallback cfg n st) = oldInnerHTML st"
  "saving (triggerCallback cfg n st) = saving st" "editing (triggerCallback cfg n st) = editing st"
  "form (triggerCallback cfg n st) = form st"
  "collection (triggerCallback cfg n st) = collection st" "text_shown (triggerCallback cfg n st) = text_shown st"
  "observing (triggerCallback cfg n st) = observing st" "pending (triggerCallback cfg n st) = pending st"
  "sent (triggerCallback cfg n st) = sent st"
  by (simp_all add: triggerCallback_def Let_def split: option.split)

lemma hover_keeps [simp]:
  "options (leaveHover cfg st) = options st" "has_external (leaveHover cfg st) = has_external st"
  "external_shown (leaveHover cfg st) = external_shown st" "innerHTML (leaveHover cfg st) = innerHTML st"
  "shown (leaveHover cfg st) = shown st" "oldInnerHTML (leaveHover cfg st) = oldInnerHTML st"
  "saving (leaveHover cfg st) = saving st" "editing (leaveHover cfg st) = editing st" "form (leaveHover cfg st) = form st"
  "observing (leaveHover cfg st) = observing st" "pending (leaveHover cfg st) = pending st"
  "originalBackground (leaveHover cfg st) = originalBackground st"
  "options (enterHover cfg st) = options st" "has_external (enterHover cfg st) = has_external st"
  "external_shown (enterHover cfg st) = external_shown st" "innerHTML (enterHover cfg st) = innerHTML st"
  "shown (enterHover cfg st) = shown st" "oldInnerHTML (enterHover cfg st) = oldInnerHTML st"
  "saving (enterHover cfg st) = saving st" "editing (enterHover cfg st) = editing st" "form (enterHover cfg st) = form st"
  "observing (enterHover cfg st) = observing st" "pending (enterHover cfg st) = pending st"
  by (simp_all add: leaveHover_def enterHover_def Let_def)

lemma on_form_keeps [simp]:
  "options (on_form f st) = options st" "has_external (on_form f st) = has_external st"
  "external_shown (on_form f st) = external_shown st" "innerHTML (on_form f st) = innerHTML st"
  "shown (on_form f st) = shown st" "oldInnerHTML (on_form f st) = oldInnerHTML st"
  "saving (on_form f st) = saving st" "editing (on_form f st) = editing st"
  "observing (on_form f st) = observing st" "pending (on_form f st) = pending st"
  "collection (on_form f st) = collection st" "text_shown (on_form f st) = text_shown st"
  "form (on_form f st) = map_option f (form st)"
  by (simp_all add: on_form_def)

section \<open>The three modes of an editor\<close>

text \<open>
  Viewing the element, editing in the form, or saving: what is shown, and what the flags say, always
  agree.
\<close>

definition viewing :: "ipe \<Rightarrow> bool" where
  "viewing st \<longleftrightarrow> \<not> editing st \<and> \<not> saving st \<and> form st = None \<and> shown st \<and> oldInnerHTML st = None
     \<and> (has_external st \<longrightarrow> external_shown st)"

definition in_form :: "ipe \<Rightarrow> bool" where
  "in_form st \<longleftrightarrow> editing st \<and> \<not> saving st \<and> in_page st \<and> \<not> shown st \<and> oldInnerHTML st = None
     \<and> (has_external st \<longrightarrow> \<not> external_shown st)"

definition being_saved :: "ipe \<Rightarrow> bool" where
  "being_saved st \<longleftrightarrow> editing st \<and> saving st \<and> form st = None \<and> shown st
     \<and> (has_external st \<longrightarrow> \<not> external_shown st)"

definition in_mode :: "ipe \<Rightarrow> bool" where
  "in_mode st \<longleftrightarrow> viewing st \<or> in_form st \<or> being_saved st"

lemmas mode_defs = viewing_def in_form_def being_saved_def in_page_def

text \<open>Leaving the edit mode.\<close>

lemma wrapUp_outcome:
  assumes "in_mode st"
  shows "\<exists>st'. wrapUp cfg st = (None, st') \<and> viewing st' \<and> innerHTML st' = innerHTML st
    \<and> pending st' = pending st \<and> observing st' = observing st \<and> options st' = options st
    \<and> has_external st' = has_external st"
  using assms
  by (auto simp: in_mode_def mode_defs wrapUp_def leaveEditMode_def removeForm_def Let_def split: option.splits)

text \<open>Opening the form of a text editor.\<close>

lemma createForm_outcome:
  assumes "\<not> is_collection cfg"
  shows "\<exists>st'. createForm cfg st = (None, st') \<and> form st' \<noteq> None \<and> innerHTML st' = innerHTML st
    \<and> observing st' = observing st \<and> options st' = options st \<and> has_external st' = has_external st
    \<and> external_shown st' = external_shown st \<and> shown st' = shown st \<and> oldInnerHTML st' = oldInnerHTML st
    \<and> saving st' = saving st \<and> editing st' = editing st
    \<and> (pending st' = pending st \<or> pending st' = pending st @ [LoadText])"
  using assms
  by (auto simp: createForm_def createEditField_def Let_def loadExternalText_def ask_def mark_loading_def on_editor_def)

lemma enterEditMode_outcome:
  assumes "\<not> is_collection cfg" "viewing st"
  shows "\<exists>st'. enterEditMode cfg st = (None, st') \<and> in_form st' \<and> innerHTML st' = innerHTML st
    \<and> observing st' = observing st \<and> options st' = options st
    \<and> (pending st' = pending st \<or> pending st' = pending st @ [LoadText])"
proof -
  define hidden where "hidden = (triggerCallback cfg ''onEnterEditMode'' (st\<lparr>editing := True\<rparr>))
    \<lparr>external_shown := \<not> has_external st \<and> external_shown st, shown := False\<rparr>"
  have h: "innerHTML hidden = innerHTML st" "observing hidden = observing st" "options hidden = options st"
    "has_external hidden = has_external st" "external_shown hidden = (\<not> has_external st \<and> external_shown st)"
    "shown hidden = False" "oldInnerHTML hidden = None" "saving hidden = False" "editing hidden = True" "pending hidden = pending st"
    using assms(2) by (simp_all add: hidden_def viewing_def)
  from createForm_outcome [OF assms(1), of hidden]
  obtain st' where st': "createForm cfg hidden = (None, st')" "form st' \<noteq> None" "innerHTML st' = innerHTML st"
    "observing st' = observing st" "options st' = options st" "has_external st' = has_external st"
    "external_shown st' = (\<not> has_external st \<and> external_shown st)" "shown st' = False" "oldInnerHTML st' = None"
    "saving st' = False" "editing st' = True"
    "pending st' = pending st \<or> pending st' = pending st @ [LoadText]"
    unfolding h by blast
  have guard: "\<not> (saving st \<or> editing st)" using assms(2) by (simp add: viewing_def)
  have "enterEditMode cfg st = andthen (createForm cfg hidden) (\<lambda>formed.
      let placed = on_form (\<lambda>fm. fm\<lparr>inserted := True\<rparr>) formed
      in (None, if truthy (opt ''loadTextURL'' (options placed)) then placed else postProcessEditField placed))"
    using guard by (simp add: enterEditMode_def hidden_def Let_def)
  then show ?thesis using st' by (auto simp: Let_def mode_defs postProcessEditField_def on_editor_def)
qed

text \<open>Submitting.\<close>

lemma submission_outcome:
  assumes "in_form st"
  shows "\<exists>r. handleFormSubmission cfg st = r \<and> being_saved (snd r) \<and> oldInnerHTML (snd r) = Some (innerHTML st)
    \<and> observing (snd r) = observing st \<and> options (snd r) = options st
    \<and> innerHTML (snd r) = (case opt ''savingText'' (options st) of String s \<Rightarrow> s | _ \<Rightarrow> [])
    \<and> (pending (snd r) = pending st \<or> pending (snd r) = pending st @ [Save])"
  using assms
  by (auto simp: mode_defs handleFormSubmission_def prepareSubmission_def removeForm_def showSaving_def Let_def split: option.splits)

lemma submission_without_form: "form st = None \<Longrightarrow> handleFormSubmission cfg st = (Some TypeError, st)"
  by (simp add: handleFormSubmission_def)

lemma in_mode_form: "in_mode st \<Longrightarrow> form st \<noteq> None \<Longrightarrow> in_form st"
  by (auto simp: in_mode_def mode_defs)

lemma in_mode_on_editor [simp]: "in_mode (on_editor f st) = in_mode st"
  by (cases "form st") (simp_all add: in_mode_def mode_defs on_editor_def)

lemma in_mode_pending [simp]: "in_mode (st\<lparr>pending := ps\<rparr>) = in_mode st"
  by (simp add: in_mode_def mode_defs)

text \<open>The answers.\<close>

lemma failure_keeps [simp]:
  "options (handleAJAXFailure cfg st) = options st" "has_external (handleAJAXFailure cfg st) = has_external st"
  "external_shown (handleAJAXFailure cfg st) = external_shown st" "shown (handleAJAXFailure cfg st) = shown st"
  "saving (handleAJAXFailure cfg st) = saving st" "editing (handleAJAXFailure cfg st) = editing st"
  "form (handleAJAXFailure cfg st) = form st" "observing (handleAJAXFailure cfg st) = observing st"
  "pending (handleAJAXFailure cfg st) = pending st"
  by (simp_all add: handleAJAXFailure_def Let_def split: option.split)

lemma failure_restores:
  "innerHTML (handleAJAXFailure cfg st) = (case oldInnerHTML st of Some old \<Rightarrow> if old \<noteq> [] then old else innerHTML st | None \<Rightarrow> innerHTML st)"
  "oldInnerHTML (handleAJAXFailure cfg st) = (case oldInnerHTML st of Some old \<Rightarrow> if old \<noteq> [] then None else Some old | None \<Rightarrow> None)"
  by (simp_all add: handleAJAXFailure_def Let_def split: option.split)

lemma in_mode_failure: "in_mode st \<Longrightarrow> in_mode (handleAJAXFailure cfg st)"
  by (auto simp: in_mode_def mode_defs failure_restores split: option.splits)

lemma text_loaded_outcome:
  assumes "in_mode st"
  shows "in_mode (snd (text_loaded r st)) \<and> innerHTML (snd (text_loaded r st)) = innerHTML st
    \<and> oldInnerHTML (snd (text_loaded r st)) = oldInnerHTML st \<and> saving (snd (text_loaded r st)) = saving st
    \<and> options (snd (text_loaded r st)) = options st
    \<and> observing (snd (text_loaded r st)) = observing st \<and> pending (snd (text_loaded r st)) = pending st"
proof (cases "form st")
  case None
  then show ?thesis using assms by (simp add: text_loaded_def)
next
  case (Some fm)
  then have "in_form st" using assms in_mode_form by simp
  then show ?thesis using Some
    by (auto simp: text_loaded_def Let_def in_mode_def mode_defs postProcessEditField_def on_editor_def unmark_loading_def)
qed

lemma save_answered_outcome:
  assumes "in_mode st"
  shows "\<exists>st'. save_answered cfg success r st = (None, st') \<and> viewing st' \<and> pending st' = pending st
    \<and> observing st' = observing st \<and> options st' = options st
    \<and> innerHTML st' = (if success then if truthy (opt ''htmlResponse'' (options st)) then stripScripts r else innerHTML st
                       else innerHTML (handleAJAXFailure cfg st))"
proof -
  define before where "before = (if \<not> success then handleAJAXFailure cfg st
        else if truthy (opt ''htmlResponse'' (options st)) then st\<lparr>innerHTML := stripScripts r\<rparr> else st)"
  have "in_mode before" using assms in_mode_failure by (simp add: before_def in_mode_def mode_defs)
  from wrapUp_outcome [OF this, of cfg] show ?thesis
    by (auto simp: save_answered_def before_def)
qed

lemma destroy_outcome:
  assumes "in_mode st"
  shows "\<exists>st'. destroy cfg st = (None, st') \<and> viewing st' \<and> pending st' = pending st \<and> \<not> observing st'
    \<and> options st' = options st
    \<and> innerHTML st' = (case oldInnerHTML st of Some old \<Rightarrow> if old \<noteq> [] then old else innerHTML st | None \<Rightarrow> innerHTML st)"
proof -
  define before where "before = (case oldInnerHTML st of Some old \<Rightarrow> if old \<noteq> [] then st\<lparr>innerHTML := old\<rparr> else st | None \<Rightarrow> st)"
  have "in_mode before" using assms by (auto simp: before_def in_mode_def mode_defs split: option.split)
  from wrapUp_outcome [OF this, of cfg] show ?thesis
    by (auto simp: destroy_def wrapUp_def andthen_None_iff before_def mode_defs split: option.splits)
qed

lemma viewing_in_mode: "viewing st \<Longrightarrow> in_mode st" "in_form st \<Longrightarrow> in_mode st" "being_saved st \<Longrightarrow> in_mode st"
  by (simp_all add: in_mode_def)

lemma answered_in_mode:
  assumes "\<not> is_collection cfg" "in_mode st" "what \<noteq> LoadCollection \<or> \<not> success"
  shows "in_mode (snd (answered cfg what success r st))"
proof (cases what)
  case Save
  then show ?thesis using save_answered_outcome [OF assms(2), of cfg success r] by (auto simp: answered_def viewing_in_mode)
next
  case LoadText
  then show ?thesis using text_loaded_outcome [OF assms(2), of r] in_mode_failure [OF assms(2)] assms(1)
    by (simp add: answered_def)
next
  case LoadCollection
  then show ?thesis using assms by (simp add: answered_def)
qed

section \<open>Content\<close>

text \<open>The content last confirmed by the server, along a run.\<close>

definition confirmed :: "ipe_event \<Rightarrow> ipe \<Rightarrow> string \<Rightarrow> string" where
  "confirmed ev st c =
     (case ev of Answer i success r \<Rightarrow>
        if success \<and> i < length (pending st) \<and> pending st ! i = Save \<and> truthy (opt ''htmlResponse'' (options st))
        then stripScripts r else c
      | _ \<Rightarrow> c)"




text \<open>No request for a collection is under way in a text editor.\<close>

definition text_pending :: "ipe \<Rightarrow> bool" where
  "text_pending st \<longleftrightarrow> LoadCollection \<notin> set (pending st)"



lemma set_drop_at: "set (take i ps @ drop (Suc i) ps) \<subseteq> set ps"
  by (auto dest: in_set_takeD in_set_dropD)







text \<open>The two invariants over one event.\<close>

lemma on_editor_keeps [simp]:
  "options (on_editor f st) = options st" "innerHTML (on_editor f st) = innerHTML st"
  "oldInnerHTML (on_editor f st) = oldInnerHTML st" "saving (on_editor f st) = saving st"
  "observing (on_editor f st) = observing st" "pending (on_editor f st) = pending st"
  by (simp_all add: on_editor_def)

lemma viewing_on_editor [simp]: "viewing (on_editor f st) = viewing st"
  by (simp add: viewing_def on_editor_def)

lemma text_pending_extends:
  "text_pending st \<Longrightarrow> pending st' = pending st \<or> pending st' = pending st @ [LoadText] \<or> pending st' = pending st @ [Save]
   \<Longrightarrow> text_pending st'"
  by (auto simp: text_pending_def)

lemma drop_at_text_pending: "text_pending st \<Longrightarrow> text_pending (st\<lparr>pending := take i (pending st) @ drop (Suc i) (pending st)\<rparr>)"
  by (auto simp: text_pending_def dest: in_set_takeD in_set_dropD)

lemma answered_pending:
  assumes "\<not> is_collection cfg" "in_mode st" "what \<noteq> LoadCollection"
  shows "pending (snd (answered cfg what success r st)) = pending st"
proof (cases what)
  case Save
  then show ?thesis using save_answered_outcome [OF assms(2), of cfg success r] by (auto simp: answered_def)
next
  case LoadText
  then show ?thesis using text_loaded_outcome [OF assms(2), of r] assms(1) by (simp add: answered_def)
qed (use assms in simp)

lemma modes_kept:
  assumes cfg: "\<not> is_collection cfg" and m: "in_mode st" and tp: "text_pending st"
  shows "in_mode (ipe_next cfg ev st) \<and> text_pending (ipe_next cfg ev st)"
proof (cases ev)
  case Click
  show ?thesis
  proof (cases "viewing st")
    case True
    from enterEditMode_outcome [OF cfg True] show ?thesis using m tp Click
      by (auto simp: ipe_next_def viewing_in_mode text_pending_def)
  next
    case False
    then have "enterEditMode cfg st = (None, st)" using m by (auto simp: in_mode_def mode_defs enterEditMode_def)
    then show ?thesis using m tp Click by (simp add: ipe_next_def)
  qed
next
  case (Key k b)
  have "in_mode (snd (handleFormCancellation cfg st)) \<and> text_pending (snd (handleFormCancellation cfg st))"
    using wrapUp_outcome [OF m, of cfg] tp by (auto simp: handleFormCancellation_def viewing_in_mode text_pending_def)
  moreover have "in_mode (snd (handleFormSubmission cfg st)) \<and> text_pending (snd (handleFormSubmission cfg st))"
    using submission_outcome [of st cfg] submission_without_form [of st cfg] in_mode_form [OF m] m tp
    by (cases "form st") (auto simp: viewing_in_mode text_pending_def)
  ultimately show ?thesis using m tp Key by (auto simp: ipe_next_def checkForEscapeOrReturn_def)
next
  case Over
  then show ?thesis using m tp by (simp add: ipe_next_def in_mode_def mode_defs text_pending_def)
next
  case Out
  then show ?thesis using m tp by (simp add: ipe_next_def in_mode_def mode_defs text_pending_def)
next
  case FormSubmit
  then show ?thesis
    using submission_outcome [of st cfg] in_mode_form [OF m] m tp
    by (auto simp: ipe_next_def viewing_in_mode text_pending_def in_page_def split: option.splits)
next
  case FormCancel
  then show ?thesis
    using wrapUp_outcome [OF m, of cfg] m tp by (auto simp: ipe_next_def handleFormCancellation_def viewing_in_mode text_pending_def)
next
  case (Answer i success r)
  define st1 where "st1 = st\<lparr>pending := take i (pending st) @ drop (Suc i) (pending st)\<rparr>"
  have m1: "in_mode st1" using m by (simp add: st1_def)
  have t1: "text_pending st1" using drop_at_text_pending [OF tp] by (simp add: st1_def)
  show ?thesis
  proof (cases "i < length (pending st)")
    case True
    then have what: "pending st ! i \<noteq> LoadCollection" using tp nth_mem by (fastforce simp: text_pending_def)
    have "ipe_next cfg ev st = snd (answered cfg (pending st ! i) success r st1)"
      using True Answer by (simp add: ipe_next_def st1_def)
    then show ?thesis using answered_in_mode [OF cfg m1] answered_pending [OF cfg m1 what] what t1
      by (simp add: text_pending_def)
  next
    case False
    then show ?thesis using Answer m tp by (simp add: ipe_next_def)
  qed
next
  case Destroy
  then show ?thesis using destroy_outcome [OF m, of cfg] tp by (auto simp: ipe_next_def viewing_in_mode text_pending_def)
qed (use m tp in \<open>simp_all add: ipe_next_def text_pending_def\<close>)







lemma initial_modes: "in_mode (ipe_initialize cfg html)" "text_pending (ipe_initialize cfg html)"
  by (simp_all add: ipe_initialize_def in_mode_def mode_defs text_pending_def)

lemma modes_kept_run:
  "\<not> is_collection cfg \<Longrightarrow> in_mode st \<Longrightarrow> text_pending st
   \<Longrightarrow> in_mode (ipe_run cfg evs st) \<and> text_pending (ipe_run cfg evs st)"
  by (induction evs arbitrary: st) (simp_all add: modes_kept)



section \<open>The list of choices\<close>

lemma choice_values: "map choice_value (make_choices mark ps) = map fst ps"
proof -
  have "map choice_value (map (\<lambda>(index, p). \<lparr>choice_value = fst p, choice_text = snd p, selected = s index p\<rparr>) (enumerate n ps))
        = map fst ps" for s n
    by (induction ps arbitrary: n) auto
  then show ?thesis by (simp add: make_choices_def)
qed

lemma current_choice_last:
  "filter selected cs \<noteq> [] \<Longrightarrow> current_choice cs = choice_value (last (filter selected cs))"
  by (cases "rev (filter selected cs)") (auto simp: current_choice_def last_rev hd_rev [symmetric])

lemma filter_selected_choices:
  "list_ex (\<lambda>p. loose_equal (fst p) mark) ps
   \<Longrightarrow> map choice_value (filter selected (make_choices mark ps)) = map fst (filter (\<lambda>p. loose_equal (fst p) mark) ps)"
proof -
  assume a: "list_ex (\<lambda>p. loose_equal (fst p) mark) ps"
  have "map choice_value (filter selected (map (\<lambda>(index, p). \<lparr>choice_value = fst p, choice_text = snd p,
               selected = loose_equal (fst p) mark\<rparr>) (enumerate n ps)))
        = map fst (filter (\<lambda>p. loose_equal (fst p) mark) ps)" for n
    by (induction ps arbitrary: n) auto
  then show ?thesis using a by (simp add: make_choices_def)
qed

lemma current_choice_found:
  assumes "list_ex (\<lambda>p. loose_equal (fst p) mark) ps"
  shows "current_choice (make_choices mark ps) = fst (last (filter (\<lambda>p. loose_equal (fst p) mark) ps))"
proof -
  have ne: "filter (\<lambda>p. loose_equal (fst p) mark) ps \<noteq> []" using assms by (auto simp: list_ex_iff filter_empty_conv)
  then have ne': "filter selected (make_choices mark ps) \<noteq> []"
    using filter_selected_choices [OF assms] by (metis Nil_is_map_conv)
  then have "current_choice (make_choices mark ps) = last (map choice_value (filter selected (make_choices mark ps)))"
    by (simp add: current_choice_last last_map)
  then show ?thesis using filter_selected_choices [OF assms] ne by (simp add: last_map)
qed

lemma no_later_choice:
  "0 < n \<Longrightarrow> filter selected (map (\<lambda>(index, p). \<lparr>choice_value = fst p, choice_text = snd p, selected = (index = 0)\<rparr>) (enumerate n ps)) = []"
  by (auto simp: filter_empty_conv in_set_enumerate_eq)

lemma current_choice_first:
  assumes "\<not> list_ex (\<lambda>p. loose_equal (fst p) mark) ps" "ps \<noteq> []"
  shows "current_choice (make_choices mark ps) = fst (hd ps)"
proof -
  obtain p rest where ps: "ps = p # rest" using assms(2) by (cases ps) auto
  have "filter selected (make_choices mark ps) = [\<lparr>choice_value = fst p, choice_text = snd p, selected = True\<rparr>]"
    using assms(1) no_later_choice [of 1 rest] by (simp add: ps make_choices_def)
  then show ?thesis by (simp add: current_choice_def ps)
qed

section \<open>Properties\<close>

definition sample_editor :: ipe_config where
  "sample_editor = \<lparr>element_id = ''title'', url_of = String ''/save'', user_options = Some [(''rows'', Number 1)],
     own_callbacks = (\<lambda>name. None), is_collection = False, id_taken = False, external_found = False,
     computed_background = Undefined, ajax_method = None,
     serialize = (\<lambda>fm v. case v of String s \<Rightarrow> ''value='' @ s | _ \<Rightarrow> []), evaluate = (\<lambda>s. []), given_collection = []\<rparr>"

text \<open>
  C33: In every run of a text editor, with keys, clicks, answers and failures in any order, the editor is
  in one of three consistent modes: viewing (element shown, no form), editing (form in the page,
  element hidden) or saving (form gone, element shown with the notice).
\<close>

theorem editor_modes:
  assumes "\<not> is_collection cfg"
  shows "in_mode (ipe_run cfg evs (ipe_initialize cfg html))"
  using modes_kept_run [OF assms initial_modes] by simp

theorem editor_modes_witness:
  "in_mode (ipe_run sample_editor [Click, Typed ''B'', FormSubmit, Key 13 False, Answer 0 False []] (ipe_initialize sample_editor ''A''))"
  by (rule editor_modes) (simp add: sample_editor_def)



lemma cancelled_save_run:
  assumes "in_form st" "observing st" "pending st = []"
  shows "innerHTML (ipe_run cfg [FormSubmit, Key 27 False, Answer 0 False r] st)
      = (case opt ''savingText'' (options st) of String s \<Rightarrow> s | _ \<Rightarrow> [])
    \<and> viewing (ipe_run cfg [FormSubmit, Key 27 False, Answer 0 False r] st)"
proof -
  define st1 where "st1 = ipe_next cfg FormSubmit st"
  have st1: "being_saved st1" "observing st1" "pending st1 = [] \<or> pending st1 = [Save]"
    "innerHTML st1 = (case opt ''savingText'' (options st) of String s \<Rightarrow> s | _ \<Rightarrow> [])"
    using submission_outcome [OF assms(1), of cfg] assms by (auto simp: st1_def ipe_next_def in_form_def)
  from wrapUp_outcome [OF viewing_in_mode(3) [OF st1(1)], of cfg] obtain st2 where st2: "wrapUp cfg st1 = (None, st2)"
    "viewing st2" "innerHTML st2 = innerHTML st1" "pending st2 = pending st1" by blast
  have k: "ipe_next cfg (Key 27 False) st1 = st2"
    using st1(1,2) st2(1) by (simp add: ipe_next_def checkForEscapeOrReturn_def handleFormCancellation_def being_saved_def)
  have a: "innerHTML (ipe_next cfg (Answer 0 False r) st2) = innerHTML st2 \<and> viewing (ipe_next cfg (Answer 0 False r) st2)"
  proof (cases "pending st2")
    case Nil
    then show ?thesis using st2 by (simp add: ipe_next_def)
  next
    case (Cons p ps)
    then have p: "p = Save" "ps = []" using st1(3) st2(4) by auto
    have m: "in_mode (st2\<lparr>pending := []\<rparr>)" using viewing_in_mode(1) [OF st2(2)] by simp
    have "oldInnerHTML st2 = None" using st2(2) by (simp add: viewing_def)
    then show ?thesis using save_answered_outcome [OF m, of cfg False r] Cons p
      by (auto simp: ipe_next_def answered_def failure_restores)
  qed
  show ?thesis using a st1(4) st2(3) by (simp add: st1_def [symmetric] k)
qed

text \<open>
  The escape key is accepted while a value is being saved; the editor then forgets the old content,
  and when the save fails the element keeps showing the notice instead of any content.
\<close>

theorem cancelled_save_loses_content:
  assumes "in_form st" "observing st" "pending st = []" "opt ''savingText'' (options st) = String notice"
  shows "innerHTML (ipe_run cfg [FormSubmit, Key 27 False, Answer 0 False r] st) = notice
    \<and> viewing (ipe_run cfg [FormSubmit, Key 27 False, Answer 0 False r] st)"
  using cancelled_save_run [OF assms(1-3), of cfg r] assms(4) by simp

theorem cancelled_save_loses_content_witness:
  "innerHTML (ipe_run sample_editor [FormSubmit, Key 27 False, Answer 0 False []]
      (ipe_run sample_editor [Click] (ipe_initialize sample_editor ''A''))) = ''Saving...''"
proof -
  let ?st = "ipe_run sample_editor [Click] (ipe_initialize sample_editor ''A'')"
  have "in_form ?st" "observing ?st" "pending ?st = []" "opt ''savingText'' (options ?st) = String ''Saving...''"
    by code_simp+
  from cancelled_save_loses_content [OF this, of sample_editor "[]"] show ?thesis by simp
qed

text \<open>
  The field of the collection editor offers the chosen value: when an entry is equal to the marker
  its value (the last such entry's) is the selected one, otherwise the first entry's.
\<close>

theorem collection_selects_marker:
  assumes "form st \<noteq> None" "entry_pairs (collection st) = Some ps" "ps \<noteq> []"
  shows "\<exists>st' fm. buildOptionList st = (None, st') \<and> form st' = Some fm \<and> \<not> disabled (editor fm)
    \<and> map choice_value (choices_of (editor fm)) = map fst ps
    \<and> current_choice (choices_of (editor fm)) =
        (if list_ex (\<lambda>p. loose_equal (fst p) (marker st)) ps
         then fst (last (filter (\<lambda>p. loose_equal (fst p) (marker st)) ps)) else fst (hd ps))"
proof -
  obtain fm where fm: "form st = Some fm" using assms(1) by auto
  have "map choice_value (make_choices (marker st) ps) = map fst ps"
    by (rule choice_values)
  then show ?thesis
    using fm assms current_choice_found [of "marker st" ps] current_choice_first [of "marker st" ps]
    by (simp add: buildOptionList_def on_editor_def unmark_loading_def)
qed

theorem collection_selects_marker_witness:
  "\<exists>st' fm. buildOptionList (ipe_initialize sample_editor ''A''
      \<lparr>form := Some \<lparr>form_id = Null, form_classes = [], children = [], editor = plain_field ''select'' Null, inserted = True\<rparr>,
       collection := [Plain (String ''red''), Listed [Number 2, String ''two'']]\<rparr>) = (None, st') \<and> form st' = Some fm
    \<and> map choice_value (choices_of (editor fm)) = [String ''red'', Number 2]"
proof -
  let ?st = "ipe_initialize sample_editor ''A''
      \<lparr>form := Some \<lparr>form_id = Null, form_classes = [], children = [], editor = plain_field ''select'' Null, inserted = True\<rparr>,
       collection := [Plain (String ''red''), Listed [Number 2, String ''two'']]\<rparr>"
  have "form ?st \<noteq> None" by simp
  moreover have "entry_pairs (collection ?st) = Some [(String ''red'', String ''red''), (Number 2, String ''two'')]"
    by (simp add: element_of_def aref_def)
  ultimately show ?thesis using collection_selects_marker [of ?st] by fastforce
qed

text \<open>
  An entry that is a text of two characters is taken for a pair: its first character becomes the
  value and its second the label.
\<close>

theorem two_characters_split:
  "entry_pair (Plain (String [a, b])) = Some (String [a], String [b])"
  by simp

text \<open>
  The deprecated way to switch a control off works only with one of the two names: both set to
  \<open>false\<close> leave the control as it is by default.
\<close>

theorem both_off_stays_on:
  "control_of (Boolean False) (Boolean False) = Undefined \<and> control_of (Boolean False) Undefined = Boolean False"
  by code_simp

end
