(* ===== verification/Forms.thy ===== *)
theory Forms
  imports QueryString Complex_Main
begin

text \<open>
  Forms of \<open>prototype.js\<close>: the elements of a form, what each contributes (\<open>Form.Element.Serializers\<close>),
  the serialisation as a hash and as a query string, and the observers that report changed values
  (\<open>TimedObserver\<close>, \<open>EventObserver\<close> and \<open>DelayedObserver\<close> of \<open>controls.js\<close>).  An element is what the
  page holds of it; a value is \<open>null\<close>, a text, or the array of a list with many choices.
\<close>

section \<open>Elements\<close>

record select_option =
  value_attribute :: "string option"
  option_text :: string
  option_selected :: bool

record form_element =
  tagName :: string
  type_attribute :: string
  element_name :: string
  element_value :: string
  checked :: bool
  element_disabled :: bool
  option_list :: "select_option list"
  tabIndex :: "int option"

definition optionValue :: "select_option \<Rightarrow> string" where
  "optionValue opt = (case value_attribute opt of Some v \<Rightarrow> v | None \<Rightarrow> option_text opt)"

text \<open>The browser's index of the selected option: the first one selected, \<open>-1\<close> when none is.\<close>

definition selectedIndex :: "select_option list \<Rightarrow> int" where
  "selectedIndex opts =
     (let before = takeWhile (\<lambda>opt. \<not> option_selected opt) opts
      in if length before = length opts then -1 else int (length before))"

definition selectOne :: "form_element \<Rightarrow> qvalue" where
  "selectOne el =
     (let index = selectedIndex (option_list el)
      in if index \<ge> 0 then QText (optionValue (option_list el ! nat index)) else QNull)"

definition selectMany :: "form_element \<Rightarrow> qvalue" where
  "selectMany el =
     (if option_list el = [] then QNull
      else QArray (map (\<lambda>opt. QText (optionValue opt)) (filter option_selected (option_list el))))"

definition inputSelector :: "form_element \<Rightarrow> qvalue" where
  "inputSelector el = (if checked el then QText (element_value el) else QNull)"

definition is_selector :: "form_element \<Rightarrow> bool" where
  "is_selector el \<longleftrightarrow> to_lower (type_attribute el) \<in> {''checkbox'', ''radio''}"

text \<open>\<open>getValue\<close>: the serialiser of the element's tag; \<open>None\<close> where there is none to call.\<close>

definition element_getValue :: "form_element \<Rightarrow> qvalue option" where
  "element_getValue el =
     (let tag = to_lower (tagName el)
      in if tag = ''input'' then Some (if is_selector el then inputSelector el else QText (element_value el))
         else if tag = ''textarea'' then Some (QText (element_value el))
         else if tag = ''select'' then Some (if type_attribute el = ''select-one'' then selectOne el else selectMany el)
         else None)"

section \<open>Setting a value\<close>

text \<open>The value given: none, one text, or an array of texts.\<close>

datatype setting = Unset | Single string | Several "string list"

text \<open>Selecting an option of a list with a single choice takes the choice from the others.\<close>

definition select_at :: "bool \<Rightarrow> nat \<Rightarrow> bool \<Rightarrow> select_option list \<Rightarrow> select_option list" where
  "select_at one i b opts =
     (let cleared = (if one \<and> b then map (\<lambda>opt. opt\<lparr>option_selected := False\<rparr>) opts else opts)
      in cleared[i := (cleared ! i)\<lparr>option_selected := b\<rparr>])"

definition select_single :: "bool \<Rightarrow> string \<Rightarrow> select_option list \<Rightarrow> select_option list" where
  "select_single one v opts =
     (let before = takeWhile (\<lambda>opt. optionValue opt \<noteq> v) opts
      in if length before = length opts then opts else select_at one (length before) True opts)"

definition select_several :: "bool \<Rightarrow> string list \<Rightarrow> select_option list \<Rightarrow> select_option list" where
  "select_several one vs opts =
     foldl (\<lambda>os i. select_at one i (optionValue (opts ! i) \<in> set vs) os) opts [0..<length opts]"

definition setValue :: "setting \<Rightarrow> form_element \<Rightarrow> form_element option" where
  "setValue v el =
     (let tag = to_lower (tagName el); one = (type_attribute el = ''select-one'')
      in if tag \<notin> {''input'', ''textarea'', ''select''} then None
         else Some (case v of Unset \<Rightarrow> el
           | Single s \<Rightarrow>
               if tag = ''select'' then el\<lparr>option_list := select_single one s (option_list el)\<rparr>
               else if tag = ''input'' \<and> is_selector el then el\<lparr>checked := (s \<noteq> [])\<rparr>
               else el\<lparr>element_value := s\<rparr>
           | Several vs \<Rightarrow>
               if tag = ''select'' then el\<lparr>option_list := select_several one vs (option_list el)\<rparr>
               else if tag = ''input'' \<and> is_selector el then el\<lparr>checked := True\<rparr>
               else el\<lparr>element_value := join_with '','' vs\<rparr>))"

section \<open>Serialising a form\<close>

text \<open>
  The \<open>submit\<close> option: not given (or falsy but not \<open>false\<close>), \<open>false\<close>, or the name of a button.  The
  state of the loop is the data so far and whether a submit button was already taken.
\<close>

datatype submit_option = Any_button | No_button | Named string

definition takes_button :: "submit_option \<Rightarrow> string \<Rightarrow> bool" where
  "takes_button submit key = (case submit of Any_button \<Rightarrow> True | No_button \<Rightarrow> False | Named n \<Rightarrow> key = n)"

definition serialize_round :: "submit_option \<Rightarrow> form_element \<Rightarrow> qvalue object \<times> bool \<Rightarrow> (qvalue object \<times> bool) option" where
  "serialize_round submit el s =
     (case s of (data, submitted) \<Rightarrow>
        if \<not> element_disabled el \<and> element_name el \<noteq> []
        then (case element_getValue el of None \<Rightarrow> None
          | Some v \<Rightarrow>
              (let key = element_name el; is_submit = (type_attribute el = ''submit'')
               in if v \<noteq> QNull \<and> type_attribute el \<noteq> ''file''
                     \<and> (\<not> is_submit \<or> (\<not> submitted \<and> takes_button submit key))
                  then Some (add_param key v data, submitted \<or> is_submit)
                  else Some (data, submitted)))
        else Some (data, submitted))"

fun serialize_loop :: "submit_option \<Rightarrow> form_element list \<Rightarrow> qvalue object \<times> bool \<Rightarrow> (qvalue object \<times> bool) option" where
  "serialize_loop submit [] s = Some s"
| "serialize_loop submit (el # els) s =
     (case serialize_round submit el s of None \<Rightarrow> None | Some s' \<Rightarrow> serialize_loop submit els s')"

definition serializeElements :: "submit_option \<Rightarrow> form_element list \<Rightarrow> qvalue object option" where
  "serializeElements submit els = map_option fst (serialize_loop submit els ([], False))"

definition serializeElements_text :: "submit_option \<Rightarrow> form_element list \<Rightarrow> string option" where
  "serializeElements_text submit els = map_option toQueryString (serializeElements submit els)"

definition getElements :: "form_element list \<Rightarrow> form_element list" where
  "getElements children = filter (\<lambda>el. to_lower (tagName el) \<in> {''input'', ''textarea'', ''select''}) children"

definition getInputs :: "string \<Rightarrow> string \<Rightarrow> form_element list \<Rightarrow> form_element list" where
  "getInputs typeName name children =
     filter (\<lambda>el. (typeName = [] \<or> type_attribute el = typeName) \<and> (name = [] \<or> element_name el = name))
       (filter (\<lambda>el. to_lower (tagName el) = ''input'') children)"

definition Form_disable :: "form_element list \<Rightarrow> form_element list" where
  "Form_disable children =
     map (\<lambda>el. if to_lower (tagName el) \<in> {''input'', ''textarea'', ''select''} then el\<lparr>element_disabled := True\<rparr> else el) children"

definition Form_enable :: "form_element list \<Rightarrow> form_element list" where
  "Form_enable children =
     map (\<lambda>el. if to_lower (tagName el) \<in> {''input'', ''textarea'', ''select''} then el\<lparr>element_disabled := False\<rparr> else el) children"

definition findFirstElement :: "form_element list \<Rightarrow> form_element option" where
  "findFirstElement children =
     (let elements = filter (\<lambda>el. type_attribute el \<noteq> ''hidden'' \<and> \<not> element_disabled el) (getElements children);
          indexed = sort_key (\<lambda>el. the (tabIndex el))
            (filter (\<lambda>el. case tabIndex el of None \<Rightarrow> False | Some i \<Rightarrow> i \<ge> 0) elements)
      in case indexed of el # _ \<Rightarrow> Some el
         | [] \<Rightarrow> List.find (\<lambda>el. to_lower (tagName el) \<in> {''input'', ''select'', ''textarea''}) elements)"

text \<open>\<open>Form.Element.serialize\<close>: one element as a query string.\<close>

definition element_serialize :: "form_element \<Rightarrow> string option" where
  "element_serialize el =
     (if \<not> element_disabled el \<and> element_name el \<noteq> []
      then (case element_getValue el of None \<Rightarrow> None
        | Some v \<Rightarrow> Some (if v \<noteq> QNull then toQueryString [(element_name el, v)] else []))
      else Some [])"

text \<open>\<open>Form.request\<close>: the parameters and the method the request is made with.\<close>

definition Form_request_parameters :: "qvalue object \<Rightarrow> form_element list \<Rightarrow> qvalue object option" where
  "Form_request_parameters given children =
     map_option (hash_update given) (serializeElements Any_button (getElements children))"

definition Form_request_action :: "string \<Rightarrow> string \<Rightarrow> string" where
  "Form_request_action href action = (if list_all is_space action then href else action)"

section \<open>Observers\<close>

record observer =
  lastValue :: qvalue
  reported :: "qvalue list"

text \<open>\<open>String(v)\<close>\<close>

definition String_of :: "qvalue \<Rightarrow> string" where
  "String_of v = (case v of QNull \<Rightarrow> ''null'' | QUndefined \<Rightarrow> ''undefined'' | _ \<Rightarrow> interpret_value v)"

definition report :: "qvalue \<Rightarrow> observer \<Rightarrow> observer" where
  "report v ob = ob\<lparr>reported := reported ob @ [v], lastValue := v\<rparr>"

definition timed_execute :: "qvalue \<Rightarrow> observer \<Rightarrow> observer" where
  "timed_execute v ob =
     (let changed = (case (lastValue ob, v) of (QText a, QText b) \<Rightarrow> a \<noteq> b | _ \<Rightarrow> String_of (lastValue ob) \<noteq> String_of v)
      in if changed then report v ob else ob)"

text \<open>
  \<open>this.lastValue != value\<close>: every reading of a list with many choices is a new array, which is
  equal to no other array, and to a text when it is joined to that text.
\<close>

definition values_differ :: "qvalue \<Rightarrow> qvalue \<Rightarrow> bool" where
  "values_differ a b =
     (case (a, b) of (QArray xs, QArray ys) \<Rightarrow> True
      | (QText s, QArray ys) \<Rightarrow> s \<noteq> interpret_value b
      | (QArray xs, QText s) \<Rightarrow> interpret_value a \<noteq> s
      | _ \<Rightarrow> a \<noteq> b)"

definition onElementEvent :: "qvalue \<Rightarrow> observer \<Rightarrow> observer" where
  "onElementEvent v ob = (if values_differ (lastValue ob) v then report v ob else ob)"

text \<open>The event a registered element reacts to.\<close>

definition registerCallback :: "form_element \<Rightarrow> string option" where
  "registerCallback el =
     (if type_attribute el = [] then None
      else Some (if to_lower (type_attribute el) \<in> {''checkbox'', ''radio''} then ''click'' else ''change''))"

text \<open>
  The delayed observer: a key event that changed the value starts the timer anew; when it ends the
  callback is told the value.  \<open>timer\<close> is the time it ends, \<open>told\<close> the calls with their times.
\<close>

record delayed =
  delay :: rat
  last_seen :: string
  timer :: "rat option"
  told :: "(rat \<times> string) list"

definition delayed_initialize :: "rat \<Rightarrow> string \<Rightarrow> delayed" where
  "delayed_initialize d v = \<lparr>delay = (if d = 0 then 1 / 2 else d), last_seen = v, timer = None, told = []\<rparr>"

definition delayedListener :: "rat \<Rightarrow> string \<Rightarrow> delayed \<Rightarrow> delayed" where
  "delayedListener now v ob =
     (if last_seen ob = v then ob else ob\<lparr>timer := Some (now + delay ob), last_seen := v\<rparr>)"

definition delayed_onTimerEvent :: "rat \<Rightarrow> string \<Rightarrow> delayed \<Rightarrow> delayed" where
  "delayed_onTimerEvent now v ob = ob\<lparr>timer := None, told := told ob @ [(now, v)]\<rparr>"

text \<open>The timer ends, if it is due before a time, with the value the field has then.\<close>

definition let_time_pass :: "rat \<Rightarrow> string \<Rightarrow> delayed \<Rightarrow> delayed" where
  "let_time_pass now v ob =
     (case timer ob of Some due \<Rightarrow> if due \<le> now then delayed_onTimerEvent due v ob else ob | None \<Rightarrow> ob)"

text \<open>Key events at their times, each with the value it leaves in the field, which keeps it till the next.\<close>

fun delayed_keys :: "(rat \<times> string) list \<Rightarrow> string \<Rightarrow> delayed \<Rightarrow> delayed" where
  "delayed_keys [] v ob = ob"
| "delayed_keys ((now, w) # keys) v ob = delayed_keys keys w (delayedListener now w (let_time_pass now v ob))"

definition delayed_run :: "(rat \<times> string) list \<Rightarrow> rat \<Rightarrow> string \<Rightarrow> delayed \<Rightarrow> delayed" where
  "delayed_run keys finish v ob =
     let_time_pass finish (if keys = [] then v else snd (last keys)) (delayed_keys keys v ob)"


section \<open>The delayed observer\<close>

text \<open>What holds at a time, with the value in the field.\<close>

definition waiting_well :: "rat \<Rightarrow> string \<Rightarrow> string \<Rightarrow> delayed \<Rightarrow> bool" where
  "waiting_well clock start v ob \<longleftrightarrow>
     last_seen ob = v \<and> sorted_wrt (\<lambda>p q. fst p + delay ob \<le> fst q) (told ob)
     \<and> (\<forall>p \<in> set (told ob). fst p \<le> clock)
     \<and> (case timer ob of Some due \<Rightarrow> due \<le> clock + delay ob \<and> (\<forall>p \<in> set (told ob). fst p + delay ob \<le> due)
        | None \<Rightarrow> v = (if told ob = [] then start else snd (last (told ob))))"

lemma let_time_pass_well:
  assumes "waiting_well clock start v ob" "clock \<le> now"
  shows "waiting_well now start v (let_time_pass now v ob)"
proof (cases "timer ob")
  case None
  then show ?thesis using assms by (auto simp: let_time_pass_def waiting_well_def)
next
  case (Some due)
  show ?thesis
  proof (cases "due \<le> now")
    case True
    have later: "\<And>p. p \<in> set (told ob) \<Longrightarrow> fst p \<le> now" using assms by (force simp: waiting_well_def)
    show ?thesis using assms(1) Some True later
      by (auto simp: let_time_pass_def delayed_onTimerEvent_def waiting_well_def sorted_wrt_append)
  next
    case False
    have later: "\<And>p. p \<in> set (told ob) \<Longrightarrow> fst p \<le> now" using assms by (force simp: waiting_well_def)
    show ?thesis using assms Some False later by (simp add: let_time_pass_def waiting_well_def)
  qed
qed

lemma listener_well:
  assumes "waiting_well now start v ob"
  shows "waiting_well now start w (delayedListener now w ob)"
  using assms by (cases "last_seen ob = w") (auto simp: delayedListener_def waiting_well_def)

lemma keys_well:
  "waiting_well clock start v ob \<Longrightarrow> sorted (clock # map fst keys)
   \<Longrightarrow> waiting_well (last (clock # map fst keys)) start (if keys = [] then v else snd (last keys)) (delayed_keys keys v ob)"
proof (induction keys arbitrary: clock v ob)
  case (Cons p keys)
  obtain now w where p: "p = (now, w)" by (rule prod.exhaust)
  have "waiting_well now start v (let_time_pass now v ob)"
    by (rule let_time_pass_well [OF Cons.prems(1)]) (use Cons.prems(2) p in simp)
  then have "waiting_well now start w (delayedListener now w (let_time_pass now v ob))" by (rule listener_well)
  from Cons.IH [OF this] Cons.prems p show ?case by (cases keys) auto
qed (simp add: waiting_well_def)

lemma delay_kept [simp]:
  "delay (let_time_pass now v ob) = delay ob" "delay (delayedListener now v ob) = delay ob"
  by (simp_all add: let_time_pass_def delayed_onTimerEvent_def delayedListener_def split: option.split)

lemma delay_kept_keys [simp]: "delay (delayed_keys keys v ob) = delay ob"
  by (induction keys v ob rule: delayed_keys.induct) simp_all

lemma delayed_start: "0 \<le> d \<Longrightarrow> waiting_well 0 v v (delayed_initialize d v)"
  by (simp add: delayed_initialize_def waiting_well_def)

lemma finished_well:
  assumes "waiting_well clock start v ob" "clock + delay ob \<le> finish" "0 \<le> delay ob"
  shows "timer (let_time_pass finish v ob) = None"
  using assms by (auto simp: let_time_pass_def delayed_onTimerEvent_def waiting_well_def split: option.splits)

section \<open>Properties of the observers\<close>

text \<open>
  The delayed observer: whatever keys are typed when, its reports are at least the delay apart,
  and once the keys have been quiet for the delay, the value in the field is the one reported last
  (or the initial value, when nothing was ever reported).
\<close>

theorem delayed_observer_reports:
  assumes "0 \<le> d" "sorted (0 # map fst keys)"
    and "last (0 # map fst keys) + delay (delayed_initialize d v) \<le> finish"
    and "ob = delayed_run keys finish v (delayed_initialize d v)"
  shows "sorted_wrt (\<lambda>p q. fst p + delay (delayed_initialize d v) \<le> fst q) (told ob) \<and> timer ob = None
    \<and> (if keys = [] then v else snd (last keys)) = (if told ob = [] then v else snd (last (told ob)))"
proof -
  let ?w = "if keys = [] then v else snd (last keys)"
  have d: "0 \<le> delay (delayed_initialize d v)" using assms(1) by (simp add: delayed_initialize_def)
  have k: "waiting_well (last (0 # map fst keys)) v ?w (delayed_keys keys v (delayed_initialize d v))"
    by (rule keys_well [OF delayed_start [OF assms(1)] assms(2)])
  have "last (0 # map fst keys) \<le> finish" using assms(3) d by linarith
  from let_time_pass_well [OF k this] have "waiting_well finish v ?w ob"
    by (simp only: assms(4) delayed_run_def)
  moreover have "timer ob = None"
    unfolding assms(4) delayed_run_def by (rule finished_well [OF k]) (use assms(3) d in simp_all)
  moreover have "delay ob = delay (delayed_initialize d v)" by (simp add: assms(4) delayed_run_def)
  ultimately show ?thesis by (simp add: waiting_well_def)
qed

theorem delayed_observer_reports_witness:
  "told (delayed_run [(0, ''a''), (1 / 4, ''ab''), (2, ''a'')] 3 [] (delayed_initialize 0 [])) = [(3 / 4, ''ab''), (5 / 2, ''a'')]
   \<and> sorted_wrt (\<lambda>p q. fst p + 1 / 2 \<le> fst q) (told (delayed_run [(0, ''a''), (1 / 4, ''ab''), (2, ''a'')] 3 [] (delayed_initialize 0 [])))"
proof -
  have "delay (delayed_initialize 0 []) = 1 / 2" by (simp add: delayed_initialize_def)
  moreover have "sorted (0 # map fst [(0 :: rat, ''a''), (1 / 4, ''ab''), (2, ''a'')])" by simp
  ultimately show ?thesis
    using delayed_observer_reports [of 0 "[(0, ''a''), (1 / 4, ''ab''), (2, ''a'')]" "[]" 3, OF _ _ _ refl]
    by (simp add: delayed_run_def delayed_initialize_def delayedListener_def let_time_pass_def delayed_onTimerEvent_def)
qed

section \<open>What a form sends\<close>

text \<open>
  The reference: an element contributes when it is enabled, has a name and a value and is no file
  field; of the buttons only the first one that may be taken contributes.
\<close>

definition contributes :: "submit_option \<Rightarrow> form_element \<Rightarrow> bool" where
  "contributes submit el \<longleftrightarrow>
     \<not> element_disabled el \<and> element_name el \<noteq> [] \<and> element_getValue el \<noteq> Some QNull \<and> type_attribute el \<noteq> ''file''
     \<and> (type_attribute el = ''submit'' \<longrightarrow> takes_button submit (element_name el))"

fun keep_first :: "('a \<Rightarrow> bool) \<Rightarrow> 'a list \<Rightarrow> 'a list" where
  "keep_first P [] = []"
| "keep_first P (x # xs) = (if P x then x # filter (\<lambda>y. \<not> P y) xs else x # keep_first P xs)"

definition controls :: "submit_option \<Rightarrow> form_element list \<Rightarrow> form_element list" where
  "controls submit els = keep_first (\<lambda>el. type_attribute el = ''submit'') (filter (contributes submit) els)"

definition put :: "qvalue object \<Rightarrow> form_element \<Rightarrow> qvalue object" where
  "put data el = add_param (element_name el) (the (element_getValue el)) data"

lemma loop_after_submit:
  "(\<And>el. el \<in> set els \<Longrightarrow> element_getValue el \<noteq> None)
   \<Longrightarrow> map_option fst (serialize_loop submit els (data, True))
     = Some (foldl put data (filter (\<lambda>el. type_attribute el \<noteq> ''submit'') (filter (contributes submit) els)))"
proof (induction els arbitrary: data)
  case (Cons el els)
  then obtain v where v: "element_getValue el = Some v" by auto
  have p: "put data el = add_param (element_name el) v data" by (simp add: put_def v)
  show ?case using Cons by (simp add: serialize_round_def contributes_def p v)
qed simp

lemma loop_before_submit:
  "(\<And>el. el \<in> set els \<Longrightarrow> element_getValue el \<noteq> None)
   \<Longrightarrow> map_option fst (serialize_loop submit els (data, False)) = Some (foldl put data (controls submit els))"
proof (induction els arbitrary: data)
  case (Cons el els)
  then obtain v where v: "element_getValue el = Some v" by auto
  have rest: "map_option fst (serialize_loop submit els (data', True))
     = Some (foldl put data' (filter (\<lambda>el. type_attribute el \<noteq> ''submit'') (filter (contributes submit) els)))" for data'
    using Cons.prems by (intro loop_after_submit) simp
  have p: "put data el = add_param (element_name el) v data" by (simp add: put_def v)
  have IH: "map_option fst (serialize_loop submit els (data', False)) = Some (foldl put data' (controls submit els))" for data'
    using Cons by simp
  show ?case
  proof (cases "contributes submit el")
    case False
    then have "serialize_round submit el (data, False) = Some (data, False)"
      by (auto simp: serialize_round_def contributes_def v)
    then show ?thesis using IH False by (simp add: controls_def)
  next
    case True
    then have "serialize_round submit el (data, False) = Some (put data el, type_attribute el = ''submit'')"
      by (auto simp: serialize_round_def contributes_def v p Let_def)
    then show ?thesis using IH rest [of "put data el"] True
      by (cases "type_attribute el = ''submit''") (simp_all add: controls_def del: filter_filter)
  qed
qed (simp add: controls_def)

lemma serialize_reference:
  "(\<And>el. el \<in> set els \<Longrightarrow> element_getValue el \<noteq> None)
   \<Longrightarrow> serializeElements submit els = Some (foldl put [] (controls submit els))"
  by (simp add: serializeElements_def loop_before_submit)

lemma elements_have_values: "el \<in> set (getElements children) \<Longrightarrow> element_getValue el \<noteq> None"
  by (auto simp: getElements_def element_getValue_def Let_def)

text \<open>The texts an object holds under a name.\<close>

fun texts :: "qvalue \<Rightarrow> string list" where
  "texts (QText s) = [s]"
| "texts (QArray vs) = map interpret_value vs"
| "texts _ = []"

definition texts_under :: "string \<Rightarrow> qvalue object \<Rightarrow> string list" where
  "texts_under k data = (case hash_get k data of None \<Rightarrow> [] | Some v \<Rightarrow> texts v)"

text \<open>The objects a form makes of texts: each value a text or an array of two or more.\<close>

fun text_value :: "qvalue \<Rightarrow> bool" where
  "text_value (QText s) = True"
| "text_value (QArray vs) = (2 \<le> length vs \<and> list_all (\<lambda>v. \<exists>s. v = QText s) vs)"
| "text_value _ = False"

definition text_data :: "qvalue object \<Rightarrow> bool" where
  "text_data obj \<longleftrightarrow> plain_params obj \<and> list_all (\<lambda>p. text_value (snd p)) obj"

lemma text_plain: "text_value v \<Longrightarrow> plain_value v"
  by (cases v) simp_all

lemma own_get: "own k data \<Longrightarrow> \<exists>w. hash_get k data = Some w \<and> (k, w) \<in> set data"
  by (cases "map_of data k") (auto simp: own_def hash_get_def map_of_eq_None_iff dest: map_of_SomeD)

lemma add_param_text_data:
  assumes "text_data data" "k \<noteq> []" "k \<notin> set inherited_names"
  shows "text_data (add_param k (QText s) data)"
proof -
  have put: "text_data (hash_set k v data)" if "text_value v" for v
  proof -
    have "distinct (map fst (hash_set k v data))"
      using assms(1) by (auto simp: hash_set_keys text_data_def plain_params_def own_def)
    then show ?thesis using assms that
      by (auto simp: text_data_def plain_params_def list_all_iff text_plain dest!: hash_set_set)
  qed
  show ?thesis
  proof (cases "own k data")
    case False
    then show ?thesis using put [of "QText s"] assms(3) by (simp add: add_param_def)
  next
    case True
    then obtain w where w: "hash_get k data = Some w" "(k, w) \<in> set data"
      using own_get by blast
    then have "text_value w" using assms(1) by (auto simp: text_data_def list_all_iff)
    then have "text_value (QArray ((case w of QArray vs \<Rightarrow> vs | w \<Rightarrow> [w]) @ [QText s]))"
      by (cases w) (auto simp: list_all_iff)
    from put [OF this] show ?thesis using True w(1) by (simp add: add_param_def)
  qed
qed

lemma texts_under_add:
  assumes "text_data data" "k \<notin> set inherited_names"
  shows "texts_under n (add_param k (QText s) data) = texts_under n data @ (if n = k then [s] else [])"
proof (cases "own k data")
  case False
  then have "hash_get k data = None" by (auto simp: own_def hash_get_def map_of_eq_None_iff)
  then show ?thesis using False assms(2) by (auto simp: add_param_def texts_under_def hash_get_def hash_set_map)
next
  case True
  then obtain w where w: "hash_get k data = Some w" "(k, w) \<in> set data"
    using own_get by blast
  then have "text_value w" using assms(1) by (auto simp: text_data_def list_all_iff)
  then have "texts (QArray ((case w of QArray vs \<Rightarrow> vs | w \<Rightarrow> [w]) @ [QText s])) = texts w @ [s]"
    by (cases w) simp_all
  then show ?thesis using True w(1) by (auto simp: add_param_def texts_under_def hash_get_def hash_set_map)
qed

definition text_control :: "form_element \<Rightarrow> bool" where
  "text_control el \<longleftrightarrow> element_name el \<notin> set inherited_names
     \<and> (case element_getValue el of Some (QText s) \<Rightarrow> True | Some QNull \<Rightarrow> True | _ \<Rightarrow> False)"

lemma controls_subset: "set (controls submit els) \<subseteq> {el \<in> set els. contributes submit el}"
proof -
  have "set (keep_first P xs) \<subseteq> set xs" for P and xs :: "form_element list" by (induction xs) auto
  from this [of "\<lambda>el. type_attribute el = ''submit''" "filter (contributes submit) els"] show ?thesis by (auto simp: controls_def)
qed

lemma put_texts:
  assumes "\<And>el. el \<in> set els \<Longrightarrow> element_name el \<noteq> [] \<and> element_name el \<notin> set inherited_names \<and> (\<exists>s. element_getValue el = Some (QText s))"
    and "text_data data"
  shows "text_data (foldl put data els) \<and> texts_under n (foldl put data els)
    = texts_under n data @ concat (map (\<lambda>el. if element_name el = n then texts (the (element_getValue el)) else []) els)"
  using assms
proof (induction els arbitrary: data)
  case (Cons el els)
  then obtain s where s: "element_getValue el = Some (QText s)" by auto
  have p: "put data el = add_param (element_name el) (QText s) data" by (simp add: put_def s)
  have d: "text_data (put data el)" unfolding p using Cons.prems by (intro add_param_text_data) auto
  have "texts_under n (put data el) = texts_under n data @ (if n = element_name el then [s] else [])"
    unfolding p using Cons.prems by (intro texts_under_add) auto
  then show ?case using Cons.IH [OF _ d] Cons.prems s by auto
qed simp

text \<open>
  A form of text controls: \<open>serialize\<close> gives under each name the values of the contributing controls
  of that name in their order (of the submit buttons only the first that may be taken), and reading
  the query string back gives the hash.
\<close>

theorem form_serialize_roundtrip:
  assumes "list_all text_control els"
  shows "\<exists>data s. serializeElements submit els = Some data \<and> serializeElements_text submit els = Some s
    \<and> toQueryParams (CHR ''&'') s = Some data
    \<and> texts_under n data = concat (map (\<lambda>el. if element_name el = n then texts (the (element_getValue el)) else []) (controls submit els))"
proof -
  have v: "element_getValue el \<noteq> None" if "el \<in> set els" for el
    using assms that by (auto simp: list_all_iff text_control_def split: option.splits)
  have c: "element_name el \<noteq> [] \<and> element_name el \<notin> set inherited_names \<and> (\<exists>s. element_getValue el = Some (QText s))"
    if "el \<in> set (controls submit els)" for el
  proof -
    have "el \<in> set els" "contributes submit el" using that controls_subset by auto
    moreover from this assms have "text_control el" by (simp add: list_all_iff)
    ultimately show ?thesis by (auto simp: text_control_def contributes_def split: option.splits qvalue.splits)
  qed
  have e: "text_data []" by (simp add: text_data_def plain_params_def)
  note r = serialize_reference [OF v, where submit = submit]
  show ?thesis using put_texts [OF c e, where n = n] query_read_back
    by (auto simp: r serializeElements_text_def text_data_def texts_under_def hash_get_def)
qed


theorem form_serialize_roundtrip_witness:
  "\<exists>data s. serializeElements Any_button [\<lparr>tagName = ''INPUT'', type_attribute = ''text'', element_name = ''q'', element_value = ''a&b'',
        checked = False, element_disabled = False, option_list = [], tabIndex = None\<rparr>] = Some data
    \<and> serializeElements_text Any_button [\<lparr>tagName = ''INPUT'', type_attribute = ''text'', element_name = ''q'', element_value = ''a&b'',
        checked = False, element_disabled = False, option_list = [], tabIndex = None\<rparr>] = Some s
    \<and> toQueryParams (CHR ''&'') s = Some data \<and> texts_under ''q'' data = [''a&b'']"
proof -
  let ?el = "\<lparr>tagName = ''INPUT'', type_attribute = ''text'', element_name = ''q'', element_value = ''a&b'',
        checked = False, element_disabled = False, option_list = [], tabIndex = None\<rparr>"
  have tag: "to_lower ''INPUT'' = ''input''" "to_lower ''text'' = ''text''" by code_simp+
  have v: "element_getValue ?el = Some (QText ''a&b'')" by (simp add: element_getValue_def is_selector_def tag)
  have "text_control ?el" by (simp add: text_control_def v inherited_names_def)
  then have "list_all text_control [?el]" by simp
  from form_serialize_roundtrip [OF this, where submit = Any_button and n = "''q''"] show ?thesis
    by (simp add: controls_def contributes_def v)
qed

section \<open>Setting and reading values\<close>

lemma optionValue_selected [simp]: "optionValue (opt\<lparr>option_selected := b\<rparr>) = optionValue opt"
  by (simp add: optionValue_def split: option.split)

lemma selectedIndex_first:
  "i < length opts \<Longrightarrow> option_selected (opts ! i) \<Longrightarrow> (\<And>j. j < i \<Longrightarrow> \<not> option_selected (opts ! j)) \<Longrightarrow> selectedIndex opts = int i"
proof -
  assume i: "i < length opts" and s: "option_selected (opts ! i)" and b: "\<And>j. j < i \<Longrightarrow> \<not> option_selected (opts ! j)"
  have "takeWhile (\<lambda>opt. \<not> option_selected opt) opts = take i opts"
    using i s b by (intro takeWhile_eq_take_P_nth) auto
  then show ?thesis using i by (simp add: selectedIndex_def)
qed

lemma select_single_reads:
  assumes "v \<in> set (map optionValue opts)" and el: "option_list el = select_single True v opts"
  shows "selectOne el = QText v"
proof -
  define i where "i = length (takeWhile (\<lambda>opt. optionValue opt \<noteq> v) opts)"
  have i: "i < length opts"
  proof -
    have "takeWhile (\<lambda>opt. optionValue opt \<noteq> v) opts \<noteq> opts" using assms(1) by (auto simp: takeWhile_eq_all_conv)
    then have "i \<noteq> length opts" using takeWhile_eq_take [of "\<lambda>opt. optionValue opt \<noteq> v" opts] by (auto simp: i_def)
    then show ?thesis using length_takeWhile_le [of "\<lambda>opt. optionValue opt \<noteq> v" opts] by (simp add: i_def)
  qed
  have vi: "optionValue (opts ! i) = v" using nth_length_takeWhile [of "\<lambda>opt. optionValue opt \<noteq> v" opts] i by (simp add: i_def)
  define new where "new = (map (\<lambda>opt. opt\<lparr>option_selected := False\<rparr>) opts)[i := (opts ! i)\<lparr>option_selected := True\<rparr>]"
  have o: "option_list el = new" using el i by (simp add: select_single_def select_at_def new_def i_def [symmetric])
  have n: "selectedIndex new = int i" using i by (intro selectedIndex_first) (auto simp: new_def)
  have "optionValue (new ! i) = v" using vi i by (simp add: new_def)
  then show ?thesis by (simp add: selectOne_def o n)
qed

lemma select_several_nth:
  "n \<le> length opts \<Longrightarrow> foldl (\<lambda>os i. select_at False i (optionValue (opts ! i) \<in> set vs) os) opts [0..<n]
    = map (\<lambda>opt. opt\<lparr>option_selected := (optionValue opt \<in> set vs)\<rparr>) (take n opts) @ drop n opts"
proof (induction n)
  case (Suc n)
  then have n: "n < length opts" by simp
  let ?g = "\<lambda>opt. opt\<lparr>option_selected := (optionValue opt \<in> set vs)\<rparr>"
  have "select_at False n (optionValue (opts ! n) \<in> set vs) (map ?g (take n opts) @ drop n opts)
      = map ?g (take n opts) @ ?g (opts ! n) # drop (Suc n) opts"
    using n by (simp add: select_at_def list_update_append nth_append Cons_nth_drop_Suc [symmetric])
  then show ?case using Suc n by (simp add: take_Suc_conv_app_nth)
qed simp

lemma select_several_all:
  "select_several False vs opts = map (\<lambda>opt. opt\<lparr>option_selected := (optionValue opt \<in> set vs)\<rparr>) opts"
  using select_several_nth [of "length opts" opts vs] by (simp add: select_several_def)

lemma text_reads_back:
  "to_lower (tagName el) \<noteq> ''select'' \<Longrightarrow> \<not> is_selector el \<Longrightarrow> setValue (Single s) el = Some el' \<Longrightarrow> element_getValue el' = Some (QText s)"
  by (auto simp: setValue_def element_getValue_def is_selector_def Let_def split: if_splits)

lemma choice_reads_back:
  "to_lower (tagName el) = ''select'' \<Longrightarrow> type_attribute el = ''select-one'' \<Longrightarrow> s \<in> set (map optionValue (option_list el))
   \<Longrightarrow> setValue (Single s) el = Some el' \<Longrightarrow> element_getValue el' = Some (QText s)"
proof -
  assume a: "to_lower (tagName el) = ''select''" "type_attribute el = ''select-one''" "s \<in> set (map optionValue (option_list el))"
    and "setValue (Single s) el = Some el'"
  then have el': "el' = el\<lparr>option_list := select_single True s (option_list el)\<rparr>" by (simp add: setValue_def)
  have "selectOne el' = QText s" by (rule select_single_reads [OF a(3)]) (simp add: el')
  then show ?thesis using a by (simp add: element_getValue_def el')
qed

lemma choices_read_back:
  "to_lower (tagName el) = ''select'' \<Longrightarrow> type_attribute el \<noteq> ''select-one'' \<Longrightarrow> option_list el \<noteq> []
   \<Longrightarrow> setValue (Several vs) el = Some el'
   \<Longrightarrow> element_getValue el' = Some (QArray (map QText (filter (\<lambda>v. v \<in> set vs) (map optionValue (option_list el)))))"
  by (auto simp: setValue_def element_getValue_def select_several_all selectMany_def filter_map comp_def)

text \<open>When setting is undone by reading.\<close>

fun settable :: "setting \<Rightarrow> form_element \<Rightarrow> bool" where
  "settable (Single s) el =
     (if to_lower (tagName el) = ''select'' then type_attribute el = ''select-one'' \<and> s \<in> set (map optionValue (option_list el))
      else \<not> is_selector el)"
| "settable (Several vs) el = (to_lower (tagName el) = ''select'' \<and> type_attribute el \<noteq> ''select-one'' \<and> option_list el \<noteq> [])"
| "settable Unset el = False"

text \<open>
  A value that was set is read back: the text of a text field or area, the choice of a list that
  offers it, and of a list with many choices exactly the offered values in the given array.
\<close>

theorem set_value_reads_back:
  assumes "settable v el" "setValue v el = Some el'"
  shows "element_getValue el' = Some (case v of
      Single s \<Rightarrow> QText s
    | Several us \<Rightarrow> QArray (map QText (filter (\<lambda>w. w \<in> set us) (map optionValue (option_list el))))
    | Unset \<Rightarrow> QNull)"
  using assms by (cases v) (auto simp: text_reads_back choice_reads_back choices_read_back split: if_splits)

theorem set_value_reads_back_witness:
  "\<exists>el'. element_getValue el' = Some (QArray [QText ''b'', QText ''c''])"
proof -
  let ?el = "\<lparr>tagName = ''select'', type_attribute = ''select-multiple'', element_name = ''n'', element_value = [], checked = False,
     element_disabled = False, option_list = map (\<lambda>v. \<lparr>value_attribute = Some v, option_text = v, option_selected = (v = ''a'')\<rparr>)
       [''a'', ''b'', ''c''], tabIndex = None\<rparr>"
  have t: "to_lower ''select'' = ''select''" by code_simp
  have "settable (Several [''c'', ''b'']) ?el" by (simp add: t)
  moreover have "\<exists>el'. setValue (Several [''c'', ''b'']) ?el = Some el'" by (simp add: setValue_def t)
  ultimately show ?thesis using set_value_reads_back [of "Several [''c'', ''b'']" ?el] by (force simp: optionValue_def)
qed

text \<open>
  A single value set on a list with many choices is added to the choices: the others stay selected.
\<close>

theorem single_value_keeps_others:
  "map option_selected (select_single False ''b''
     [\<lparr>value_attribute = Some ''a'', option_text = ''a'', option_selected = True\<rparr>,
      \<lparr>value_attribute = Some ''b'', option_text = ''b'', option_selected = False\<rparr>]) = [True, True]"
  by (simp add: select_single_def select_at_def optionValue_def)

text \<open>
  An event observer of a list with many choices reports every event, changed or not.
\<close>

theorem many_choices_always_reported:
  "reported (onElementEvent (QArray vs) (report (QArray vs) ob)) = reported ob @ [QArray vs, QArray vs]"
  by (simp add: onElementEvent_def report_def values_differ_def)

end
