(* ===== verification/Classes.thy ===== *)
theory Classes
  imports QueryString
begin

text \<open>
  Classes of \<open>prototype.js\<close>: \<open>Class.create\<close> and \<open>addMethods\<close> over a heap of classes, with methods that
  call the method they override through \<open>$super\<close>.  What a method does is a list of actions, to emit a
  number or to call \<open>$super\<close>; methods do not change classes while they run.
\<close>

section \<open>Methods and classes\<close>

datatype action = Emit nat | Super

text \<open>
  A property of a prototype: data; a function with the question whether its first parameter is named
  \<open>$super\<close>; a function wrapped around the property of that name of a class's prototype; the
  constructor; or a function every object inherits.
\<close>

datatype member = Data nat | Code bool "action list" | Wrapped nat string "action list" | Constructor nat | Inherited_function string

record klass =
  superclass :: "nat option"
  subclasses :: "nat list"
  prototype :: "member object"

type_synonym heap = "klass list"

text \<open>
  Property lookup along the chain of prototypes; a superclass stands before its subclasses in the heap.
\<close>

fun lookup :: "heap \<Rightarrow> nat \<Rightarrow> string \<Rightarrow> member option" where
  "lookup hp c name =
     (if c < length hp
      then (case hash_get name (prototype (hp ! c)) of
          Some v \<Rightarrow> Some v
        | None \<Rightarrow> (case superclass (hp ! c) of
              Some p \<Rightarrow> if p < c then lookup hp p name else None
            | None \<Rightarrow> if name \<in> set inherited_names then Some (Inherited_function name) else None))
      else None)"

declare lookup.simps [simp del]

section \<open>Creating classes\<close>

text \<open>The value \<open>addMethods\<close> stores for a property of the source.\<close>

definition stored :: "nat option \<Rightarrow> string \<Rightarrow> member \<Rightarrow> member" where
  "stored ancestor property v =
     (case (ancestor, v) of (Some p, Code True body) \<Rightarrow> Wrapped p property body | _ \<Rightarrow> v)"

definition set_member :: "nat \<Rightarrow> string \<Rightarrow> member \<Rightarrow> heap \<Rightarrow> heap" where
  "set_member c name v hp = hp[c := (hp ! c)\<lparr>prototype := hash_set name v (prototype (hp ! c))\<rparr>]"

definition addMethods :: "nat \<Rightarrow> member object \<Rightarrow> heap \<Rightarrow> heap" where
  "addMethods c source hp =
     foldl (\<lambda>h p. set_member c (fst p) (stored (superclass (hp ! c)) (fst p) (snd p)) h) hp source"

definition new_class :: "nat option \<Rightarrow> heap \<Rightarrow> heap" where
  "new_class parent hp =
     (let k = length hp;
          linked = (case parent of None \<Rightarrow> hp | Some p \<Rightarrow> hp[p := (hp ! p)\<lparr>subclasses := subclasses (hp ! p) @ [k]\<rparr>])
      in linked @ [\<lparr>superclass = parent, subclasses = [], prototype = []\<rparr>])"

text \<open>\<open>Class.create(parent, properties...)\<close>: the new class is the last one of the heap.\<close>

definition class_create :: "nat option \<Rightarrow> member object list \<Rightarrow> heap \<Rightarrow> heap" where
  "class_create parent properties hp =
     (let k = length hp;
          filled = foldl (\<lambda>h source. addMethods k source h) (new_class parent hp) properties;
          ready = (if lookup filled k ''initialize'' = None then set_member k ''initialize'' (Code False []) filled else filled)
      in set_member k ''constructor'' (Constructor k) ready)"

section \<open>Running methods\<close>

text \<open>A body with what a call of \<open>$super\<close> gives.\<close>

fun run_body :: "action list \<Rightarrow> nat list js \<Rightarrow> nat list js" where
  "run_body [] call = ok []"
| "run_body (Emit n # body) call = js_bind (run_body body call) (\<lambda>out. ok (n # out))"
| "run_body (Super # body) call = js_bind call (\<lambda>first. js_bind (run_body body call) (\<lambda>out. ok (first @ out)))"

text \<open>
  A call of a method on an instance of a class; a value that is no function cannot be called.  A
  constructor called as a method runs \<open>initialize\<close>; as \<open>initialize\<close> itself it would not end.
\<close>

function invoke_method :: "heap \<Rightarrow> nat \<Rightarrow> string \<Rightarrow> nat list js" where
  "invoke_method hp c name =
     (case lookup hp c name of
        None \<Rightarrow> raise TypeError
      | Some (Data n) \<Rightarrow> raise TypeError
      | Some (Code takes body) \<Rightarrow> run_body body (raise TypeError)
      | Some (Wrapped p m body) \<Rightarrow> run_body body (if p < c then invoke_method hp p m else raise TypeError)
      | Some (Constructor k) \<Rightarrow> if name = ''initialize'' then raise RangeError else invoke_method hp c ''initialize''
      | Some (Inherited_function m) \<Rightarrow> ok [])"
  by pat_completeness auto
termination
  by (relation "measures [\<lambda>(hp, c, name). c, \<lambda>(hp, c, name). if name = ''initialize'' then 0 else 1]") auto

declare invoke_method.simps [simp del]

text \<open>A new instance runs \<open>initialize\<close>.\<close>

definition construct :: "heap \<Rightarrow> nat \<Rightarrow> nat list js" where
  "construct hp c = invoke_method hp c ''initialize''"

section \<open>Well-formed heaps\<close>

text \<open>
  Superclasses stand before their subclasses and know them; a wrapped method is wrapped around its own
  name in the superclass, and a method keeps a \<open>$super\<close> parameter only where there is no superclass.
\<close>

definition member_ok :: "nat option \<Rightarrow> string \<Rightarrow> member \<Rightarrow> bool" where
  "member_ok parent n v \<longleftrightarrow>
     (case v of Wrapped p m body \<Rightarrow> parent = Some p \<and> m = n
      | Code takes body \<Rightarrow> takes \<longrightarrow> parent = None
      | Constructor k \<Rightarrow> n = ''constructor''
      | Inherited_function m \<Rightarrow> False
      | Data d \<Rightarrow> True)"

definition class_ok :: "heap \<Rightarrow> nat \<Rightarrow> bool" where
  "class_ok hp c \<longleftrightarrow>
     (\<forall>p. superclass (hp ! c) = Some p \<longrightarrow> p < c \<and> c \<in> set (subclasses (hp ! p)))
     \<and> (\<forall>d \<in> set (subclasses (hp ! c)). d < length hp \<and> superclass (hp ! d) = Some c)
     \<and> distinct (subclasses (hp ! c))
     \<and> (\<forall>(n, v) \<in> set (prototype (hp ! c)). member_ok (superclass (hp ! c)) n v)"

definition heap_ok :: "heap \<Rightarrow> bool" where
  "heap_ok hp \<longleftrightarrow> (\<forall>c < length hp. class_ok hp c)"

text \<open>A source as a program writes it: data and functions.\<close>

definition is_source :: "member object \<Rightarrow> bool" where
  "is_source source \<longleftrightarrow> list_all (\<lambda>p. case snd p of Data d \<Rightarrow> True | Code takes body \<Rightarrow> True | _ \<Rightarrow> False) source"

lemma length_set_member [simp]: "length (set_member c n v hp) = length hp"
  by (simp add: set_member_def)

lemma shape_set_member [simp]:
  "superclass (set_member c n v hp ! d) = superclass (hp ! d)" "subclasses (set_member c n v hp ! d) = subclasses (hp ! d)"
proof -
  have "superclass (set_member c n v hp ! d) = superclass (hp ! d) \<and> subclasses (set_member c n v hp ! d) = subclasses (hp ! d)"
  proof (cases "c < length hp")
    case True
    then show ?thesis by (cases "c = d") (simp_all add: set_member_def)
  next
    case False
    then show ?thesis by (simp add: set_member_def list_update_beyond)
  qed
  then show "superclass (set_member c n v hp ! d) = superclass (hp ! d)" "subclasses (set_member c n v hp ! d) = subclasses (hp ! d)"
    by simp_all
qed

lemma prototype_set_member:
  "c < length hp \<Longrightarrow> prototype (set_member c n v hp ! d) = (if d = c then hash_set n v (prototype (hp ! c)) else prototype (hp ! d))"
  by (simp add: set_member_def nth_list_update)

lemma set_member_ok:
  assumes "heap_ok hp" "c < length hp" "member_ok (superclass (hp ! c)) n v"
  shows "heap_ok (set_member c n v hp)"
  unfolding heap_ok_def
proof (intro allI impI)
  fix d assume "d < length (set_member c n v hp)"
  then have old: "class_ok hp d" using assms(1) by (simp add: heap_ok_def)
  have "\<forall>(m, w) \<in> set (prototype (set_member c n v hp ! d)). member_ok (superclass (hp ! d)) m w"
  proof (cases "d = c")
    case True
    then show ?thesis using old assms(2,3) hash_set_set [of _ n v "prototype (hp ! c)"]
      by (fastforce simp: prototype_set_member class_ok_def)
  next
    case False
    then show ?thesis using old assms(2) by (simp add: prototype_set_member class_ok_def)
  qed
  then show "class_ok (set_member c n v hp) d" using old by (simp add: class_ok_def)
qed

lemma length_addMethods [simp]: "length (addMethods c source hp) = length hp"
proof -
  have "length (foldl (\<lambda>h p. set_member c (fst p) (stored s (fst p) (snd p)) h) hp source) = length hp" for s
    by (induction source arbitrary: hp) simp_all
  then show ?thesis by (simp add: addMethods_def)
qed

lemma addMethods_simps:
  "addMethods c [] hp = hp"
  "addMethods c (p # source) hp = addMethods c source (set_member c (fst p) (stored (superclass (hp ! c)) (fst p) (snd p)) hp)"
  by (simp_all add: addMethods_def)

lemma stored_ok: "(case v of Data d \<Rightarrow> True | Code takes body \<Rightarrow> True | _ \<Rightarrow> False) \<Longrightarrow> member_ok parent n (stored parent n v)"
  by (cases parent; cases v) (auto simp: stored_def member_ok_def split: bool.splits)

lemma addMethods_ok: "heap_ok hp \<Longrightarrow> c < length hp \<Longrightarrow> is_source source \<Longrightarrow> heap_ok (addMethods c source hp)"
  by (induction source arbitrary: hp) (simp_all add: addMethods_simps is_source_def set_member_ok stored_ok)

lemma superclass_addMethods [simp]: "superclass (addMethods c source hp ! d) = superclass (hp ! d)"
  by (induction source arbitrary: hp) (simp_all add: addMethods_simps)

lemma length_new_class [simp]: "length (new_class parent hp) = Suc (length hp)"
  by (simp add: new_class_def Let_def split: option.split)

lemma new_class_old:
  assumes "d < length hp"
  shows "superclass (new_class parent hp ! d) = superclass (hp ! d)" "prototype (new_class parent hp ! d) = prototype (hp ! d)"
    "subclasses (new_class parent hp ! d) = subclasses (hp ! d) @ (if parent = Some d then [length hp] else [])"
  using assms by (cases parent; cases "parent = Some d"; simp add: new_class_def Let_def nth_append)+

lemma new_class_last:
  "new_class parent hp ! length hp = \<lparr>superclass = parent, subclasses = [], prototype = []\<rparr>"
  by (cases parent) (simp_all add: new_class_def Let_def nth_append)

lemma new_class_ok:
  assumes ok: "heap_ok hp" and par: "\<And>p. parent = Some p \<Longrightarrow> p < length hp"
  shows "heap_ok (new_class parent hp)"
  unfolding heap_ok_def
proof (intro allI impI)
  let ?new = "new_class parent hp"
  fix d assume "d < length ?new"
  then consider "d < length hp" | "d = length hp" by fastforce
  then show "class_ok ?new d"
  proof cases
    case 1
    then have old: "class_ok hp d" using ok by (simp add: heap_ok_def)
    have a: "\<forall>p. superclass (?new ! d) = Some p \<longrightarrow> p < d \<and> d \<in> set (subclasses (?new ! p))"
      using old 1 by (fastforce simp: new_class_old class_ok_def)
    have sub: "\<forall>e \<in> set (subclasses (hp ! d)). e < length hp \<and> superclass (hp ! e) = Some d" using old by (simp add: class_ok_def)
    then have b: "\<forall>e \<in> set (subclasses (?new ! d)). e < length ?new \<and> superclass (?new ! e) = Some d"
      using 1 by (auto simp: new_class_old new_class_last less_Suc_eq split: if_splits)
    have c: "distinct (subclasses (?new ! d))" using old sub 1 by (auto simp: new_class_old class_ok_def)
    show ?thesis using a b c old 1 by (simp add: class_ok_def new_class_old(1,2))
  next
    case 2
    then show ?thesis using par by (auto simp: class_ok_def new_class_last new_class_old)
  qed
qed

lemma class_create_ok:
  assumes ok: "heap_ok hp" and par: "\<And>p. parent = Some p \<Longrightarrow> p < length hp" and src: "list_all is_source properties"
  shows "heap_ok (class_create parent properties hp)"
proof -
  let ?k = "length hp"
  have fill: "heap_ok h \<Longrightarrow> ?k < length h \<Longrightarrow> list_all is_source ps
      \<Longrightarrow> heap_ok (foldl (\<lambda>h source. addMethods ?k source h) h ps) \<and> length (foldl (\<lambda>h source. addMethods ?k source h) h ps) = length h" for h ps
    by (induction ps arbitrary: h) (simp_all add: addMethods_ok)
  define filled where "filled = foldl (\<lambda>h source. addMethods ?k source h) (new_class parent hp) properties"
  have f: "heap_ok filled" "length filled = Suc ?k"
    using fill [OF new_class_ok [OF ok par] _ src] by (simp_all add: filled_def)
  obtain ready where rdy: "ready = (if lookup filled ?k ''initialize'' = None then set_member ?k ''initialize'' (Code False []) filled else filled)" by simp
  have r: "heap_ok ready" "length ready = Suc ?k" using f by (simp_all add: rdy set_member_ok member_ok_def)
  have "class_create parent properties hp = set_member ?k ''constructor'' (Constructor ?k) ready"
    unfolding rdy by (simp add: class_create_def Let_def filled_def)
  then show ?thesis using r by (simp add: set_member_ok member_ok_def)
qed

section \<open>Looking up\<close>

definition is_function :: "member \<Rightarrow> bool" where
  "is_function v \<longleftrightarrow> (case v of Data n \<Rightarrow> False | _ \<Rightarrow> True)"

definition callable :: "heap \<Rightarrow> nat \<Rightarrow> string \<Rightarrow> bool" where
  "callable hp c n \<longleftrightarrow> (case lookup hp c n of Some v \<Rightarrow> is_function v | None \<Rightarrow> False)"

lemma callable_set_member:
  "c < length hp \<Longrightarrow> is_function v \<or> n \<noteq> m \<Longrightarrow> callable hp d n \<Longrightarrow> callable (set_member c m v hp) d n"
proof (induction hp d n rule: lookup.induct)
  case (1 hp d n)
  have step: "callable h d n = (d < length h \<and> (case hash_get n (prototype (h ! d)) of Some w \<Rightarrow> is_function w
      | None \<Rightarrow> (case superclass (h ! d) of Some p \<Rightarrow> p < d \<and> callable h p n | None \<Rightarrow> n \<in> set inherited_names)))" for h
    by (simp add: callable_def lookup.simps [of h d n] is_function_def split: option.split)
  show ?case using 1 unfolding step
    by (auto simp: prototype_set_member hash_get_set split: option.splits if_splits)
qed

lemma new_class_lookup: "d < length hp \<Longrightarrow> lookup (new_class parent hp) d n = lookup hp d n"
proof (induction hp d n rule: lookup.induct)
  case (1 hp d n)
  then show ?case
    by (simp add: lookup.simps [of "new_class parent hp" d n] lookup.simps [of hp d n] new_class_old split: option.split)
qed

section \<open>Every call of \<open>$super\<close> meets a function\<close>

text \<open>
  A typed source: a method that calls \<open>$super\<close> has the parameter, and the superclass has a function of
  that name.
\<close>

definition typed_member :: "heap \<Rightarrow> nat option \<Rightarrow> string \<Rightarrow> member \<Rightarrow> bool" where
  "typed_member hp parent n v \<longleftrightarrow>
     (case v of Data d \<Rightarrow> True
      | Code takes body \<Rightarrow> Super \<in> set body \<longrightarrow> takes \<and> (case parent of Some p \<Rightarrow> callable hp p n | None \<Rightarrow> False)
      | _ \<Rightarrow> False)"

definition typed_source :: "heap \<Rightarrow> nat option \<Rightarrow> member object \<Rightarrow> bool" where
  "typed_source hp parent source \<longleftrightarrow> list_all (\<lambda>p. typed_member hp parent (fst p) (snd p)) source"

text \<open>
  The heaps programs build: classes are created from typed sources, and typed functions are added later.
\<close>

inductive built :: "heap \<Rightarrow> bool" where
  start: "built []"
| create: "built hp \<Longrightarrow> (\<And>p. parent = Some p \<Longrightarrow> p < length hp) \<Longrightarrow> list_all (typed_source hp parent) properties
     \<Longrightarrow> built (class_create parent properties hp)"
| add: "built hp \<Longrightarrow> c < length hp \<Longrightarrow> typed_source hp (superclass (hp ! c)) source
     \<Longrightarrow> list_all (\<lambda>p. is_function (snd p)) source \<Longrightarrow> built (addMethods c source hp)"

text \<open>What is kept in the heap of them.\<close>

definition kept_member :: "heap \<Rightarrow> member \<Rightarrow> bool" where
  "kept_member hp v \<longleftrightarrow>
     (case v of Code takes body \<Rightarrow> Super \<notin> set body
      | Wrapped p m body \<Rightarrow> Super \<in> set body \<longrightarrow> callable hp p m
      | _ \<Rightarrow> True)"

definition well_typed :: "heap \<Rightarrow> bool" where
  "well_typed hp \<longleftrightarrow> heap_ok hp \<and> (\<forall>c < length hp. \<forall>(n, v) \<in> set (prototype (hp ! c)). kept_member hp v)"

lemma typed_is_source: "typed_source hp parent source \<Longrightarrow> is_source source"
  by (auto simp: typed_source_def is_source_def typed_member_def list_all_iff split: member.splits)

lemma kept_mono: "kept_member hp v \<Longrightarrow> (\<And>p m. callable hp p m \<Longrightarrow> callable hp' p m) \<Longrightarrow> kept_member hp' v"
  by (auto simp: kept_member_def split: member.splits)

lemma stored_kept: "typed_member hp parent n v \<Longrightarrow> kept_member hp (stored parent n v)"
  by (cases v; cases parent) (auto simp: typed_member_def stored_def kept_member_def split: bool.splits)

text \<open>
  Adding members to a class: functions anywhere, or anything in a class that no other class builds on.
  \<open>base\<close> is the heap in which the source was typed.
\<close>

lemma set_member_typed:
  assumes wt: "well_typed hp" and c: "c < length hp" and ok: "member_ok (superclass (hp ! c)) n v"
    and kept: "kept_member hp v" and f: "is_function v"
  shows "well_typed (set_member c n v hp)" "\<And>p m. callable hp p m \<Longrightarrow> callable (set_member c n v hp) p m"
proof -
  show mono: "callable (set_member c n v hp) p m" if "callable hp p m" for p m
    using callable_set_member [OF c disjI1 [OF f] that] .
  have "\<forall>(m, w) \<in> set (prototype (set_member c n v hp ! d)). kept_member (set_member c n v hp) w" if d: "d < length hp" for d
  proof (clarify)
    fix m w assume "(m, w) \<in> set (prototype (set_member c n v hp ! d))"
    then have "w = v \<or> (m, w) \<in> set (prototype (hp ! d))"
      using c hash_set_set [of "(m, w)" n v] by (auto simp: prototype_set_member split: if_splits)
    then have "kept_member hp w" using kept wt d by (auto simp: well_typed_def)
    then show "kept_member (set_member c n v hp) w" by (rule kept_mono) (rule mono)
  qed
  then show "well_typed (set_member c n v hp)"
    using set_member_ok [OF _ c ok] wt by (simp add: well_typed_def)
qed

lemma lookup_below: "p < c \<Longrightarrow> lookup (set_member c m v hp) p n = lookup hp p n"
proof (induction hp p n rule: lookup.induct)
  case (1 hp p n)
  have same: "prototype (set_member c m v hp ! p) = prototype (hp ! p)"
    using 1(2) by (simp add: set_member_def)
  show ?case using 1
    by (simp add: lookup.simps [of "set_member c m v hp" p n] lookup.simps [of hp p n] same split: option.split)
qed

lemma callable_below: "p < c \<Longrightarrow> callable (set_member c m v hp) p n = callable hp p n"
  by (simp add: callable_def lookup_below)

lemma wrapped_below:
  assumes "heap_ok hp" "d < length hp" "(n, Wrapped p m body) \<in> set (prototype (hp ! d))"
  shows "p < d"
proof -
  have c: "class_ok hp d" using assms(1,2) by (simp add: heap_ok_def)
  then have "member_ok (superclass (hp ! d)) n (Wrapped p m body)" using assms(3) by (auto simp: class_ok_def)
  then show ?thesis using c by (simp add: class_ok_def member_ok_def)
qed

lemma set_top_typed:
  assumes wt: "well_typed hp" and k: "length hp = Suc k" and ok: "member_ok (superclass (hp ! k)) n v" and kept: "kept_member hp v"
  shows "well_typed (set_member k n v hp)"
proof -
  have hok: "heap_ok (set_member k n v hp)" using set_member_ok [OF _ _ ok] wt k by (simp add: well_typed_def)
  have "kept_member (set_member k n v hp) w"
    if d: "d < length hp" and w: "(m, w) \<in> set (prototype (set_member k n v hp ! d))" for d m w
  proof -
    have "w = v \<or> (m, w) \<in> set (prototype (hp ! d))"
      using w k hash_set_set [of "(m, w)" n v] by (auto simp: prototype_set_member split: if_splits)
    then have h: "kept_member hp w" using kept wt d by (auto simp: well_typed_def)
    show ?thesis
    proof (cases w)
      case (Wrapped p q body)
      have "p < d" using wrapped_below [OF hok _ w [unfolded Wrapped]] d by simp
      then have "p < k" using d k by simp
      then show ?thesis using h Wrapped by (simp add: kept_member_def callable_below)
    qed (use h in \<open>simp_all add: kept_member_def\<close>)
  qed
  then show ?thesis using hok by (auto simp: well_typed_def)
qed

lemma typed_member_mono:
  "typed_member hp parent n v \<Longrightarrow> (\<And>p. parent = Some p \<Longrightarrow> callable hp p n \<Longrightarrow> callable hp' p n) \<Longrightarrow> typed_member hp' parent n v"
  by (auto simp: typed_member_def split: member.splits option.splits)

lemma typed_source_mono:
  assumes "typed_source hp parent source" "\<And>p n. parent = Some p \<Longrightarrow> callable hp p n \<Longrightarrow> callable hp' p n"
  shows "typed_source hp' parent source"
  unfolding typed_source_def list_all_iff
proof
  fix e assume "e \<in> set source"
  then have "typed_member hp parent (fst e) (snd e)" using assms(1) by (simp add: typed_source_def list_all_iff)
  then show "typed_member hp' parent (fst e) (snd e)" by (rule typed_member_mono) (rule assms(2))
qed

lemma typed_sources_mono:
  assumes "list_all (typed_source hp parent) ps" "\<And>p n. parent = Some p \<Longrightarrow> callable hp p n \<Longrightarrow> callable hp' p n"
  shows "list_all (typed_source hp' parent) ps"
  unfolding list_all_iff
proof
  fix s assume "s \<in> set ps"
  then have "typed_source hp parent s" using assms(1) by (simp add: list_all_iff)
  then show "typed_source hp' parent s" by (rule typed_source_mono) (rule assms(2))
qed

lemma typed_stored_ok: "typed_member hp parent n v \<Longrightarrow> member_ok parent n (stored parent n v)"
  by (rule stored_ok) (auto simp: typed_member_def split: member.splits)

text \<open>Filling the class just created.\<close>

lemma addMethods_top_typed:
  assumes "well_typed h" "length h = Suc k" "\<And>p. superclass (h ! k) = Some p \<Longrightarrow> p < k" "typed_source h (superclass (h ! k)) source"
  shows "well_typed (addMethods k source h) \<and> (\<forall>p < k. \<forall>n. lookup (addMethods k source h) p n = lookup h p n)"
  using assms
proof (induction source arbitrary: h)
  case (Cons e source)
  let ?par = "superclass (h ! k)"
  let ?h = "set_member k (fst e) (stored ?par (fst e) (snd e)) h"
  have t: "typed_member h ?par (fst e) (snd e)" using Cons.prems(4) by (simp add: typed_source_def)
  have "well_typed ?h" by (rule set_top_typed) (use Cons.prems t stored_kept typed_stored_ok in auto)
  moreover have "typed_source h ?par source" using Cons.prems(4) by (simp add: typed_source_def)
  then have "typed_source ?h ?par source" by (rule typed_source_mono) (simp add: callable_below Cons.prems(3))
  then have "typed_source ?h (superclass (?h ! k)) source" by simp
  ultimately have "well_typed (addMethods k source ?h) \<and> (\<forall>p < k. \<forall>n. lookup (addMethods k source ?h) p n = lookup ?h p n)"
    using Cons.IH [of ?h] Cons.prems(2,3) by simp
  then show ?case by (simp add: addMethods_simps lookup_below)
qed (simp add: addMethods_simps)

lemma callable_lookup: "lookup h p n = lookup hp p n \<Longrightarrow> callable h p n = callable hp p n"
  by (simp add: callable_def)

lemma fill_typed:
  assumes "well_typed h" "length h = Suc k" "superclass (h ! k) = parent" "\<And>p. parent = Some p \<Longrightarrow> p < k"
    and "list_all (typed_source h parent) ps"
  shows "well_typed (foldl (\<lambda>h source. addMethods k source h) h ps)
    \<and> length (foldl (\<lambda>h source. addMethods k source h) h ps) = Suc k
    \<and> superclass (foldl (\<lambda>h source. addMethods k source h) h ps ! k) = parent"
  using assms
proof (induction ps arbitrary: h)
  case (Cons source ps)
  let ?h = "addMethods k source h"
  have top: "well_typed ?h" "\<And>p n. p < k \<Longrightarrow> lookup ?h p n = lookup h p n"
    using addMethods_top_typed [OF Cons.prems(1,2), of source] Cons.prems(3,4,5) by auto
  have "list_all (typed_source h parent) ps" using Cons.prems(5) by simp
  then have "list_all (typed_source ?h parent) ps"
    by (rule typed_sources_mono) (simp add: callable_def top(2) Cons.prems(4))
  then show ?case using Cons.IH [of ?h] Cons.prems(2,3,4) top(1) by simp
qed simp

lemma new_class_typed:
  assumes "well_typed hp" "\<And>p. parent = Some p \<Longrightarrow> p < length hp"
  shows "well_typed (new_class parent hp)"
proof -
  have hok: "heap_ok (new_class parent hp)" using assms new_class_ok by (simp add: well_typed_def)
  have "kept_member (new_class parent hp) w"
    if d: "d < Suc (length hp)" and w: "(m, w) \<in> set (prototype (new_class parent hp ! d))" for d m w
  proof -
    have d': "d < length hp" using d w by (cases "d = length hp") (simp_all add: new_class_last)
    then have w': "(m, w) \<in> set (prototype (hp ! d))" using w by (simp add: new_class_old)
    then have h: "kept_member hp w" using assms(1) d' by (auto simp: well_typed_def)
    show ?thesis
    proof (cases w)
      case (Wrapped p q body)
      have "p < d" using wrapped_below [OF _ d' w' [unfolded Wrapped]] assms(1) by (simp add: well_typed_def)
      then show ?thesis using h Wrapped d' by (simp add: kept_member_def callable_def new_class_lookup)
    qed (use h in \<open>simp_all add: kept_member_def\<close>)
  qed
  then show ?thesis using hok by (auto simp: well_typed_def)
qed

lemma class_create_typed:
  assumes wt: "well_typed hp" and par: "\<And>p. parent = Some p \<Longrightarrow> p < length hp" and src: "list_all (typed_source hp parent) properties"
  shows "well_typed (class_create parent properties hp)"
proof -
  let ?k = "length hp"
  let ?new = "new_class parent hp"
  define filled where "filled = foldl (\<lambda>h source. addMethods ?k source h) ?new properties"
  have "list_all (typed_source ?new parent) properties"
    by (rule typed_sources_mono [OF src]) (simp add: callable_def new_class_lookup par)
  then have f: "well_typed filled" "length filled = Suc ?k" "superclass (filled ! ?k) = parent"
    using fill_typed [OF new_class_typed [OF wt par], where k = ?k and ps = properties] par by (simp_all add: filled_def new_class_last)
  obtain ready where rdy: "ready = (if lookup filled ?k ''initialize'' = None then set_member ?k ''initialize'' (Code False []) filled else filled)" by simp
  have r: "well_typed ready" "length ready = Suc ?k" using f by (simp_all add: rdy set_top_typed member_ok_def kept_member_def)
  have "class_create parent properties hp = set_member ?k ''constructor'' (Constructor ?k) ready"
    unfolding rdy by (simp add: class_create_def Let_def filled_def)
  then show ?thesis using r by (simp add: set_top_typed member_ok_def kept_member_def)
qed

lemma addMethods_typed:
  "well_typed hp \<Longrightarrow> c < length hp \<Longrightarrow> typed_source hp (superclass (hp ! c)) source \<Longrightarrow> list_all (\<lambda>p. is_function (snd p)) source
   \<Longrightarrow> well_typed (addMethods c source hp)"
proof (induction source arbitrary: hp)
  case (Cons e source)
  let ?par = "superclass (hp ! c)"
  let ?v = "stored ?par (fst e) (snd e)"
  have t: "typed_member hp ?par (fst e) (snd e)" using Cons.prems(3) by (simp add: typed_source_def)
  have f: "is_function ?v" using Cons.prems(4)
    by (cases ?par; cases "snd e") (auto simp: stored_def is_function_def split: bool.splits)
  note s = set_member_typed [OF Cons.prems(1,2) typed_stored_ok [OF t] stored_kept [OF t] f]
  have "typed_source hp ?par source" using Cons.prems(3) by (simp add: typed_source_def)
  then have "typed_source (set_member c (fst e) ?v hp) ?par source" by (rule typed_source_mono) (rule s(2))
  then show ?case using Cons.IH [OF s(1)] Cons.prems by (simp add: addMethods_simps)
qed (simp add: addMethods_simps)

lemma built_typed: "built hp \<Longrightarrow> well_typed hp"
  by (induction rule: built.induct) (auto simp: class_create_typed addMethods_typed, simp add: well_typed_def heap_ok_def)

lemma member_typed:
  assumes "well_typed hp" "c < length hp" "hash_get n (prototype (hp ! c)) = Some v"
  shows "member_ok (superclass (hp ! c)) n v" "kept_member hp v"
proof -
  have m: "(n, v) \<in> set (prototype (hp ! c))" using assms(3) by (simp add: hash_get_def map_of_SomeD)
  have "class_ok hp c" using assms(1,2) by (simp add: well_typed_def heap_ok_def)
  then have "\<forall>(n, v) \<in> set (prototype (hp ! c)). member_ok (superclass (hp ! c)) n v" by (simp add: class_ok_def)
  from bspec [OF this m] show "member_ok (superclass (hp ! c)) n v" by simp
  have "\<forall>(n, v) \<in> set (prototype (hp ! c)). kept_member hp v" using assms(1,2) by (simp add: well_typed_def)
  from bspec [OF this m] show "kept_member hp v" by simp
qed

text \<open>Where the looked-up property stands.\<close>

lemma lookup_member:
  assumes wt: "well_typed hp" and v: "\<forall>m. v \<noteq> Inherited_function m" and l: "lookup hp c n = Some v"
  shows "\<exists>d \<le> c. d < length hp \<and> member_ok (superclass (hp ! d)) n v \<and> kept_member hp v"
  using l
proof (induction c rule: less_induct)
  case (less c)
  have c: "c < length hp" using less.prems by (simp add: lookup.simps [of hp c n] split: if_splits)
  show ?case
  proof (cases "hash_get n (prototype (hp ! c))")
    case (Some w)
    then have "w = v" using less.prems c by (simp add: lookup.simps [of hp c n])
    then show ?thesis using member_typed [OF wt c Some] c by auto
  next
    case None
    then obtain p where p: "p < c" "lookup hp p n = Some v"
      using less.prems v c by (auto simp: lookup.simps [of hp c n] split: option.splits if_splits)
    obtain d where "d \<le> p" "d < length hp" "member_ok (superclass (hp ! d)) n v" "kept_member hp v"
      using less.IH [OF p] by blast
    then show ?thesis using p(1) by (intro exI [of _ d]) simp
  qed
qed

lemma run_body_ok: "(Super \<in> set body \<Longrightarrow> \<exists>out. call = ok out) \<Longrightarrow> \<exists>out. run_body body call = ok out"
  by (induction body call rule: run_body.induct) auto

text \<open>
  C25: Type soundness: in a heap built from typed sources, and typed functions added later, a call of a
  method that the class or one of its ancestors has ends without an error, whatever chain of
  \<open>$super\<close> calls it makes.
\<close>

theorem super_calls_are_safe:
  assumes "built hp" "callable hp c n" "n \<noteq> ''constructor''"
  shows "\<exists>out. invoke_method hp c n = ok out"
proof -
  have wt: "well_typed hp" by (rule built_typed [OF assms(1)])
  show ?thesis using assms(2,3)
  proof (induction c arbitrary: n rule: less_induct)
    case (less c)
    then obtain v where v: "lookup hp c n = Some v" "is_function v" by (auto simp: callable_def split: option.splits)
    show ?case
    proof (cases "\<exists>m. v = Inherited_function m")
      case True
      then show ?thesis using v by (auto simp: invoke_method.simps [of hp c n])
    next
      case False
      then obtain d where d: "d \<le> c" "d < length hp" "member_ok (superclass (hp ! d)) n v" "kept_member hp v"
        using lookup_member [OF wt _ v(1)] by auto
      show ?thesis
      proof (cases v)
        case (Code takes body)
        then show ?thesis using v d(4) run_body_ok [of body] by (simp add: invoke_method.simps [of hp c n] kept_member_def)
      next
        case (Wrapped p m body)
        have "class_ok hp d" using wt d(2) by (simp add: well_typed_def heap_ok_def)
        then have p: "p < c" "m = n" using d(1,3) Wrapped by (auto simp: member_ok_def class_ok_def)
        have "\<exists>out. invoke_method hp p m = ok out" if "Super \<in> set body"
          using less.IH [OF p(1), of m] d(4) Wrapped that p(2) less.prems(2) by (simp add: kept_member_def)
        then show ?thesis using v Wrapped p(1) run_body_ok [of body] by (simp add: invoke_method.simps [of hp c n])
      qed (use v d(3) less.prems in \<open>auto simp: is_function_def member_ok_def\<close>)
    qed
  qed
qed


section \<open>Dispatch along the ancestors\<close>

text \<open>The definitions of a name in a class and its ancestors, nearest first.\<close>

fun definitions :: "heap \<Rightarrow> nat \<Rightarrow> string \<Rightarrow> member list" where
  "definitions hp c n =
     (if c < length hp
      then (case hash_get n (prototype (hp ! c)) of Some v \<Rightarrow> [v] | None \<Rightarrow> [])
           @ (case superclass (hp ! c) of Some p \<Rightarrow> if p < c then definitions hp p n else []
              | None \<Rightarrow> if n \<in> set inherited_names then [Inherited_function n] else [])
      else [])"

declare definitions.simps [simp del]

text \<open>A call runs the first definition, and each \<open>$super\<close> in it the rest.\<close>

fun dispatch_on :: "member list \<Rightarrow> nat list js" where
  "dispatch_on [] = raise TypeError"
| "dispatch_on (v # vs) =
     (case v of Data n \<Rightarrow> raise TypeError
      | Code takes body \<Rightarrow> run_body body (raise TypeError)
      | Wrapped p m body \<Rightarrow> run_body body (dispatch_on vs)
      | Constructor k \<Rightarrow> raise TypeError
      | Inherited_function m \<Rightarrow> ok [])"

lemma invoke_lookup:
  "lookup hp c n = lookup hp p n \<Longrightarrow> p < c \<Longrightarrow> n \<noteq> ''constructor'' \<Longrightarrow> heap_ok hp
   \<Longrightarrow> (\<And>q m body. lookup hp p n = Some (Wrapped q m body) \<Longrightarrow> q < p) \<Longrightarrow> (\<And>k. lookup hp p n \<noteq> Some (Constructor k))
   \<Longrightarrow> invoke_method hp c n = invoke_method hp p n"
  by (cases "lookup hp p n") (auto simp: invoke_method.simps [of hp c n] invoke_method.simps [of hp p n] split: member.split)

lemma found_member_ok:
  assumes ok: "heap_ok hp" and l: "lookup hp c n = Some v" and v: "\<forall>m. v \<noteq> Inherited_function m"
  shows "\<exists>d \<le> c. d < length hp \<and> member_ok (superclass (hp ! d)) n v"
  using l
proof (induction c rule: less_induct)
  case (less c)
  have c: "c < length hp" using less.prems by (simp add: lookup.simps [of hp c n] split: if_splits)
  show ?case
  proof (cases "hash_get n (prototype (hp ! c))")
    case (Some w)
    then have "w = v" using less.prems c by (simp add: lookup.simps [of hp c n])
    then have m: "(n, v) \<in> set (prototype (hp ! c))" using Some by (simp add: hash_get_def map_of_SomeD)
    have "class_ok hp c" using ok c by (simp add: heap_ok_def)
    then have "\<forall>(n, v) \<in> set (prototype (hp ! c)). member_ok (superclass (hp ! c)) n v" by (simp add: class_ok_def)
    from bspec [OF this m] show ?thesis using c by auto
  next
    case None
    then obtain p where p: "p < c" "lookup hp p n = Some v"
      using less.prems v c by (auto simp: lookup.simps [of hp c n] split: option.splits if_splits)
    obtain d where "d \<le> p" "d < length hp" "member_ok (superclass (hp ! d)) n v" using less.IH [OF p] by blast
    then show ?thesis using p(1) by (intro exI [of _ d]) simp
  qed
qed

lemma wrapped_shape:
  assumes "heap_ok hp" "lookup hp c n = Some (Wrapped q m body)"
  shows "q < c" "m = n"
proof -
  obtain d where d: "d \<le> c" "d < length hp" "member_ok (superclass (hp ! d)) n (Wrapped q m body)"
    using found_member_ok [OF assms] by auto
  then have "class_ok hp d" using assms(1) by (simp add: heap_ok_def)
  then show "q < c" "m = n" using d by (auto simp: member_ok_def class_ok_def)
qed

lemma no_constructor:
  assumes "heap_ok hp" "n \<noteq> ''constructor''"
  shows "lookup hp c n \<noteq> Some (Constructor k)"
  using found_member_ok [OF assms(1), of c n "Constructor k"] assms(2) by (auto simp: member_ok_def)

text \<open>
  Calling a method runs the nearest definition of its name, and every \<open>$super\<close> in it runs the next
  definition up the chain of superclasses, in whatever class it stands.
\<close>

theorem invoke_dispatches:
  assumes "heap_ok hp" "n \<noteq> ''constructor''"
  shows "invoke_method hp c n = dispatch_on (definitions hp c n)"
proof (induction c rule: less_induct)
  case (less c)
  show ?case
  proof (cases "c < length hp")
    case False
    then show ?thesis by (simp add: definitions.simps [of hp c n] invoke_method.simps [of hp c n] lookup.simps [of hp c n])
  next
    case c: True
    then have cok: "class_ok hp c" using assms(1) by (simp add: heap_ok_def)
    show ?thesis
    proof (cases "hash_get n (prototype (hp ! c))")
      case None
      show ?thesis
      proof (cases "superclass (hp ! c)")
        case (Some p)
        then have p: "p < c" using cok by (simp add: class_ok_def)
        then have "lookup hp c n = lookup hp p n" using None Some c by (simp add: lookup.simps [of hp c n])
        then have "invoke_method hp c n = invoke_method hp p n"
          using invoke_lookup [OF _ p assms(2,1)] wrapped_shape [OF assms(1)] no_constructor [OF assms] by blast
        then show ?thesis using less.IH [OF p] None Some p c by (simp add: definitions.simps [of hp c n])
      next
        case sn: None
        then show ?thesis using None c
          by (simp add: definitions.simps [of hp c n] invoke_method.simps [of hp c n] lookup.simps [of hp c n])
      qed
    next
      case (Some v)
      then have l: "lookup hp c n = Some v" using c by (simp add: lookup.simps [of hp c n])
      show ?thesis
      proof (cases v)
        case (Wrapped q m body)
        have q: "superclass (hp ! c) = Some q"
        proof -
          have "(n, v) \<in> set (prototype (hp ! c))" using Some by (simp add: hash_get_def map_of_SomeD)
          moreover have "\<forall>(n, v) \<in> set (prototype (hp ! c)). member_ok (superclass (hp ! c)) n v" using cok by (simp add: class_ok_def)
          ultimately have "member_ok (superclass (hp ! c)) n v" by fastforce
          then show ?thesis using Wrapped by (simp add: member_ok_def)
        qed
        have w: "q < c" "m = n" using wrapped_shape [OF assms(1)] l Wrapped by simp_all
        show ?thesis using less.IH [OF w(1)] Some q w c Wrapped l
          by (simp add: definitions.simps [of hp c n] invoke_method.simps [of hp c n])
      next
        case (Constructor k)
        then show ?thesis using l no_constructor [OF assms, of c k] by simp
      qed (use l Some c in \<open>simp_all add: definitions.simps [of hp c n] invoke_method.simps [of hp c n]\<close>)
    qed
  qed
qed

definition animal :: "member object" where
  "animal = [(''initialize'', Code False [Emit 1]), (''say'', Code False [Emit 2])]"

definition dog :: "member object" where
  "dog = [(''initialize'', Code True [Super, Emit 3]), (''say'', Code True [Emit 4, Super])]"

definition kennel :: heap where
  "kennel = class_create (Some 1) [[(''say'', Code True [Super, Emit 5])]] (class_create (Some 0) [dog] (class_create None [animal] []))"

lemma length_class_create [simp]: "length (class_create parent properties hp) = Suc (length hp)"
proof -
  have "length (foldl (\<lambda>h source. addMethods k source h) h ps) = length h" for k h ps
    by (induction ps arbitrary: h) simp_all
  then show ?thesis by (simp add: class_create_def Let_def)
qed

lemma kennel_ok: "heap_ok kennel"
  unfolding kennel_def
  by (intro class_create_ok) (simp_all add: is_source_def animal_def dog_def, simp add: heap_ok_def)

theorem invoke_dispatches_witness:
  "invoke_method kennel 2 ''say'' = ok [4, 2, 5] \<and> invoke_method kennel 2 ''say'' = dispatch_on (definitions kennel 2 ''say'')"
proof -
  have "invoke_method kennel 2 ''say'' = ok [4, 2, 5]" by code_simp
  then show ?thesis using invoke_dispatches [OF kennel_ok, of "''say''" 2] by simp
qed

theorem super_calls_are_safe_witness:
  "\<exists>out. invoke_method kennel 2 ''initialize'' = ok out"
proof (rule super_calls_are_safe)
  have a: "built (class_create None [animal] [])"
    by (rule built.create [OF built.start]) (simp_all add: animal_def typed_source_def typed_member_def)
  have b: "built (class_create (Some 0) [dog] (class_create None [animal] []))"
  proof (rule built.create [OF a])
    have "callable (class_create None [animal] []) 0 ''initialize''" "callable (class_create None [animal] []) 0 ''say''" by code_simp+
    then show "list_all (typed_source (class_create None [animal] []) (Some 0)) [dog]"
      by (simp add: dog_def typed_source_def typed_member_def)
  next
    have "length (class_create None [animal] []) = 1" by code_simp
    then show "\<And>p. Some 0 = Some p \<Longrightarrow> p < length (class_create None [animal] [])" by simp
  qed
  show "built kennel"
    unfolding kennel_def
  proof (rule built.create [OF b])
    have "callable (class_create (Some 0) [dog] (class_create None [animal] [])) 1 ''say''" by code_simp
    then show "list_all (typed_source (class_create (Some 0) [dog] (class_create None [animal] [])) (Some 1)) [[(''say'', Code True [Super, Emit 5])]]"
      by (simp add: typed_source_def typed_member_def)
  next
    have "length (class_create (Some 0) [dog] (class_create None [animal] [])) = 2" by code_simp
    then show "\<And>p. Some 1 = Some p \<Longrightarrow> p < length (class_create (Some 0) [dog] (class_create None [animal] []))" by simp
  qed
  show "callable kennel 2 ''initialize''" by code_simp
qed simp


section \<open>Functions\<close>

text \<open>A function takes its \<open>this\<close> and its arguments.\<close>

type_synonym ('t, 'a, 'r) js_function = "'t \<Rightarrow> 'a list \<Rightarrow> 'r"

text \<open>\<open>bind\<close>: with no context and no arguments the function itself; a call without context gets \<open>window\<close>.\<close>

definition bind_function :: "'t \<Rightarrow> 't option \<Rightarrow> 'a list \<Rightarrow> ('t, 'a, 'r) js_function \<Rightarrow> ('t, 'a, 'r) js_function" where
  "bind_function window ctx args f =
     (case ctx of None \<Rightarrow> if args = [] then f else (\<lambda>this more. f window (args @ more))
      | Some t \<Rightarrow> (\<lambda>this more. f t (args @ more)))"

definition curry_function :: "'a list \<Rightarrow> ('t, 'a, 'r) js_function \<Rightarrow> ('t, 'a, 'r) js_function" where
  "curry_function args f = (if args = [] then f else (\<lambda>this more. f this (args @ more)))"

definition methodize_function :: "('t, 'a, 'r) js_function \<Rightarrow> 't \<Rightarrow> ('a, 'a, 'r) js_function" where
  "methodize_function f window = (\<lambda>this more. f window (this # more))"

text \<open>\<open>Try.these\<close>: the value of the first function that does not throw; all of them are tried in order.\<close>

fun try_these :: "'a js list \<Rightarrow> 'a option" where
  "try_these [] = None"
| "try_these (r # rs) = (case r of Inl e \<Rightarrow> try_these rs | Inr v \<Rightarrow> Some v)"

text \<open>
  The names of the parameters in the text of a function: \<open>/^[\s\(]*function[^(]*\(([^\)]*)\)/\<close> without
  white space, split at commas.  \<open>None\<close> when the text does not match.
\<close>

definition argumentNames :: "string \<Rightarrow> string list option" where
  "argumentNames s =
     (let body = dropWhile (\<lambda>c. is_space c \<or> c = CHR ''('') s;
          rest = dropWhile (\<lambda>c. c \<noteq> CHR ''('') (drop 8 body);
          inner = takeWhile (\<lambda>c. c \<noteq> CHR '')'') (tl rest)
      in if take 8 body = ''function'' \<and> rest \<noteq> [] \<and> CHR '')'' \<in> set (tl rest)
         then (let names = split_on (CHR '','') (filter (\<lambda>c. \<not> is_space c) inner)
               in Some (if length names = 1 \<and> hd names = [] then [] else names))
         else None)"

definition name_char :: "char \<Rightarrow> bool" where
  "name_char c \<longleftrightarrow> \<not> is_space c \<and> c \<notin> {CHR '','', CHR ''('', CHR '')''}"

lemma takeWhile_until: "CHR '')'' \<notin> set w \<Longrightarrow> takeWhile (\<lambda>c. c \<noteq> CHR '')'') (w @ CHR '')'' # rest) = w"
  by (induction w) auto

lemma dropWhile_until: "CHR ''('' \<notin> set w \<Longrightarrow> dropWhile (\<lambda>c. c \<noteq> CHR ''('') (w @ CHR ''('' # rest) = CHR ''('' # rest"
  by (induction w) auto

lemma set_join_names: "set (join_with sep ws) \<subseteq> set sep \<union> (\<Union>w \<in> set ws. set w)"
  by (induction sep ws rule: join_with.induct) auto

text \<open>
  The parameter names written in a function's text are read back by \<open>argumentNames\<close>, so a method
  is recognised as overriding by the name \<open>$super\<close> of its first parameter.
\<close>

theorem argumentNames_reads_names:
  assumes "list_all (\<lambda>n. n \<noteq> [] \<and> list_all name_char n) names" "CHR ''('' \<notin> set name"
  shows "argumentNames (''function'' @ name @ ''('' @ join_with '','' names @ '')'' @ code) = Some names"
proof -
  let ?w = "join_with '','' names"
  have chars: "c = CHR '','' \<or> name_char c" if "c \<in> set ?w" for c
    using that set_join_names [of "'',''" names] assms(1) by (auto simp: list_all_iff)
  have w: "CHR '')'' \<notin> set ?w" using chars by (auto simp: name_char_def)
  have f: "filter (\<lambda>c. \<not> is_space c) ?w = ?w"
  proof -
    have "\<not> is_space c" if "c \<in> set ?w" for c
      using chars [OF that] by (auto simp: name_char_def is_space_def)
    then show ?thesis by (simp add: filter_id_conv)
  qed
  have d: "dropWhile (\<lambda>c. is_space c \<or> c = CHR ''('') (''function'' @ x) = ''function'' @ x" for x by (simp add: is_space_def)
  have s: "split_on (CHR '','') ?w = (if names = [] then [[]] else names)"
  proof (cases "names = []")
    case False
    moreover have "split_on (CHR '','') ?w = names"
      using assms(1) by (intro split_join [OF False]) (auto simp: list_all_iff name_char_def)
    ultimately show ?thesis by simp
  qed simp
  have n: "names \<noteq> [] \<Longrightarrow> hd names \<noteq> []" using assms(1) by (cases names) auto
  show ?thesis
    unfolding argumentNames_def d Let_def using n
    by (auto simp: dropWhile_until [OF assms(2)] takeWhile_until [OF w] f s)
qed

theorem argumentNames_reads_names_witness:
  "argumentNames (''function'' @ '' '' @ ''('' @ join_with '','' [''$super'', ''element''] @ '')'' @ ''{}'') = Some [''$super'', ''element'']"
  by (rule argumentNames_reads_names) (simp_all add: name_char_def is_space_def)

end
