(* ===== verification/Json.thy ===== *)
theory Json
  imports ProtoText QueryString
begin

text \<open>
  JSON in \<open>prototype.js\<close>: \<open>toJSON\<close> of values, arrays, objects and hashes, the test \<open>isJSON\<close> that guards
  \<open>evalJSON\<close>, and the removal of a security comment.  Numbers are integers or not finite; evaluating a
  text is a parameter.
\<close>

section \<open>Writing\<close>

datatype jvalue = JUndefined | JFunction | JElement | JNull | JBoolean bool | JInteger int | JNotFinite
  | JString string | JArray "jvalue list" | JObject "(string \<times> jvalue) list"

definition string_toJSON :: "string \<Rightarrow> string" where
  "string_toJSON s = (case inspect True s of Some r \<Rightarrow> r | None \<Rightarrow> [])"

definition show_int :: "int \<Rightarrow> string" where
  "show_int i = (if i < 0 then ''-'' @ show_nat (nat (- i)) else show_nat (nat i))"

text \<open>\<open>Object.toJSON\<close>: \<open>undefined\<close>, functions and elements give \<open>undefined\<close> and are left out.\<close>

fun toJSON :: "jvalue \<Rightarrow> string option" where
  "toJSON JUndefined = None"
| "toJSON JFunction = None"
| "toJSON JElement = None"
| "toJSON JNull = Some ''null''"
| "toJSON (JBoolean b) = Some (if b then ''true'' else ''false'')"
| "toJSON (JInteger i) = Some (show_int i)"
| "toJSON JNotFinite = Some ''null''"
| "toJSON (JString s) = Some (string_toJSON s)"
| "toJSON (JArray vs) =
     Some (''['' @ join_with '', '' (concat (map (\<lambda>v. case toJSON v of Some s \<Rightarrow> [s] | None \<Rightarrow> []) vs)) @ '']'')"
| "toJSON (JObject ps) =
     Some (''{'' @ join_with '', ''
       (concat (map (\<lambda>(k, v). case toJSON v of Some s \<Rightarrow> [string_toJSON k @ '': '' @ s] | None \<Rightarrow> []) ps)) @ ''}'')"

section \<open>Testing\<close>

text \<open>\<open>replace(/\\./g, '@')\<close>: the dot matches no line end.\<close>

fun mask_escapes :: "string \<Rightarrow> string" where
  "mask_escapes [] = []"
| "mask_escapes [c] = [c]"
| "mask_escapes (c # d # s) =
     (if c = char_of (92 :: nat) \<and> \<not> line_end d then CHR ''@'' # mask_escapes s else c # mask_escapes (d # s))"

text \<open>The removal of \<open>/"[^"\\\n\r]*"/g\<close>.\<close>

definition in_string :: "char \<Rightarrow> bool" where
  "in_string c \<longleftrightarrow> c \<noteq> char_of (34 :: nat) \<and> c \<noteq> char_of (92 :: nat) \<and> \<not> line_end c"

function drop_strings :: "string \<Rightarrow> string" where
  "drop_strings [] = []"
| "drop_strings (c # cs) =
     (let rest = dropWhile in_string cs
      in if c = char_of (34 :: nat) \<and> rest \<noteq> [] \<and> hd rest = char_of (34 :: nat) then drop_strings (tl rest)
         else c # drop_strings cs)"
  by pat_completeness auto
termination
proof (relation "measure length", goal_cases)
  case (2 c cs rest)
  then have "length rest \<le> length cs" using length_dropWhile_le by simp
  then show ?case using 2 by (cases rest) auto
qed simp_all

definition json_char :: "char \<Rightarrow> bool" where
  "json_char c \<longleftrightarrow> c \<in> set '',:{}[].-+Eaeflnrstu '' \<or> is_digit c \<or> of_char c \<in> {9, 10, 13 :: nat}"

definition isJSON :: "string \<Rightarrow> bool" where
  "isJSON s \<longleftrightarrow> \<not> blank s \<and> list_all json_char (drop_strings (mask_escapes s))"

section \<open>Reading\<close>

text \<open>The filter \<open>/^\/\*-secure-([\s\S]*)\*\/\s*$/\<close>: what stands in the comment, or the text itself.\<close>

definition unfilterJSON :: "string \<Rightarrow> string" where
  "unfilterJSON s =
     (let body = rtrim (drop 10 s); n = length body
      in if take 10 s = ''/*-secure-'' \<and> n \<ge> 2 \<and> drop (n - 2) body = ''*/'' then take (n - 2) body else s)"

text \<open>\<open>evalJSON\<close>: \<open>evaluate\<close> is \<open>eval('(' + json + ')')\<close>, which gives a value or throws.\<close>

definition evalJSON :: "(string \<Rightarrow> 'v option) \<Rightarrow> bool \<Rightarrow> string \<Rightarrow> 'v js" where
  "evalJSON evaluate sanitize s =
     (let json = unfilterJSON s; failed = raise (Thrown (''Badly formed JSON string: '' @ (case inspect False s of Some r \<Rightarrow> r | None \<Rightarrow> [])))
      in if \<not> sanitize \<or> isJSON json then (case evaluate json of Some v \<Rightarrow> ok v | None \<Rightarrow> failed) else failed)"

section \<open>What is written passes the test\<close>

lemma mask_plain: "c \<noteq> char_of (92 :: nat) \<Longrightarrow> mask_escapes (c # t) = c # mask_escapes t"
  by (cases t) auto

lemma mask_plains: "char_of (92 :: nat) \<notin> set w \<Longrightarrow> mask_escapes (w @ t) = w @ mask_escapes t"
proof (induction w)
  case (Cons a w)
  then have "a \<noteq> char_of (92 :: nat)" by auto
  then show ?case using Cons by (simp add: mask_plain)
qed simp

lemma quote_true: "quote_char True = char_of (34 :: nat)"
  by (simp add: quote_char_def)

lemma digit_in_string: "n < 16 \<Longrightarrow> in_string (hex_digit n)"
proof -
  have "list_all (\<lambda>n. in_string (hex_digit n)) [0..<16]" by code_simp
  then show "n < 16 \<Longrightarrow> in_string (hex_digit n)" by (simp add: list_all_iff)
qed

lemma in_string_facts: "in_string (CHR ''@'')" "in_string (CHR ''0'')" "\<not> line_end (CHR ''u'')" "\<not> line_end (char_of (34 :: nat))"
  by code_simp+

lemma written_masked: "\<exists>w. list_all in_string w \<and> (\<forall>t. mask_escapes (written (quote_char True) c @ t) = w @ mask_escapes t)"
proof (cases "needs_escape c")
  case True
  have bs: "\<not> line_end e" if "e \<in> set ''btnfr'' \<union> {char_of (92 :: nat)}" for e
  proof -
    have "list_all (\<lambda>e. \<not> line_end e) (char_of (92 :: nat) # ''btnfr'')" by code_simp
    then show ?thesis using that by (auto simp: list_all_iff)
  qed
  from escape_match_cases [OF True] show ?thesis
  proof (elim disjE exE conjE)
    fix e assume e: "escape_match [c] = [char_of (92 :: nat), e]" "e \<in> set ''btnfr'' \<union> {char_of (92 :: nat)}"
    then show ?thesis using True bs [OF e(2)] in_string_facts by (intro exI [of _ "''@''"]) (simp add: written_def)
  next
    assume e: "escape_match [c] = [char_of (92 :: nat), CHR ''u'', CHR ''0'', CHR ''0'', hex_digit (of_char c div 16), hex_digit (of_char c mod 16)]"
    let ?w = "[CHR ''0'', CHR ''0'', hex_digit (of_char c div 16), hex_digit (of_char c mod 16)]"
    have d: "in_string (hex_digit (of_char c div 16))" "in_string (hex_digit (of_char c mod 16))"
      by (rule digit_in_string [OF hex_low(2)], rule digit_in_string [OF hex_low(1)])
    have "mask_escapes (?w @ t) = ?w @ mask_escapes t" for t
      by (rule mask_plains) (use d in_string_facts(2) in \<open>auto simp: in_string_def\<close>)
    then show ?thesis using True d e in_string_facts by (intro exI [of _ "CHR ''@'' # ?w"]) (simp add: written_def)
  qed
next
  case False
  show ?thesis
  proof (cases "c = quote_char True")
    case True
    then show ?thesis using False in_string_facts
      by (intro exI [of _ "''@''"]) (simp add: written_def quote_true)
  next
    case neq: False
    have "(of_char c :: nat) \<notin> {10, 13, 92}" using False by (auto simp: needs_escape_def Let_def)
    then have "c \<noteq> char_of (92 :: nat)" "\<not> line_end c" by (auto simp: of_char_of line_end_def)
    then show ?thesis using False neq by (intro exI [of _ "[c]"]) (simp add: written_def in_string_def quote_true mask_plain)
  qed
qed

lemma body_masked: "\<exists>w. list_all in_string w \<and> (\<forall>t. mask_escapes (concat (map (written (quote_char True)) s) @ t) = w @ mask_escapes t)"
proof (induction s)
  case (Cons c s)
  obtain v where v: "list_all in_string v" "\<forall>t. mask_escapes (written (quote_char True) c @ t) = v @ mask_escapes t"
    using written_masked by blast
  obtain w where w: "list_all in_string w" "\<forall>t. mask_escapes (concat (map (written (quote_char True)) s) @ t) = w @ mask_escapes t"
    using Cons by blast
  show ?case by (rule exI [of _ "v @ w"]) (simp add: v w)
qed simp

lemma dropWhile_body: "list_all in_string w \<Longrightarrow> dropWhile in_string (w @ char_of (34 :: nat) # t) = char_of (34 :: nat) # t"
  by (induction w) (auto simp: in_string_def)

text \<open>A piece of JSON: what is left of it holds only allowed characters, whatever follows.\<close>

definition json_piece :: "string \<Rightarrow> bool" where
  "json_piece s \<longleftrightarrow> (\<exists>k. list_all json_char k \<and> (\<forall>t. drop_strings (mask_escapes (s @ t)) = k @ drop_strings (mask_escapes t)))"

lemma piece_append: "json_piece a \<Longrightarrow> json_piece b \<Longrightarrow> json_piece (a @ b)"
proof -
  assume "json_piece a" "json_piece b"
  then obtain j k where "list_all json_char j" "\<forall>t. drop_strings (mask_escapes (a @ t)) = j @ drop_strings (mask_escapes t)"
    "list_all json_char k" "\<forall>t. drop_strings (mask_escapes (b @ t)) = k @ drop_strings (mask_escapes t)"
    by (auto simp: json_piece_def)
  then show ?thesis unfolding json_piece_def by (intro exI [of _ "j @ k"]) simp
qed

lemma piece_Nil: "json_piece []"
  by (auto simp: json_piece_def intro: exI [of _ "[]"])

lemma json_char_plain: "json_char c \<Longrightarrow> c \<noteq> char_of (92 :: nat) \<and> c \<noteq> char_of (34 :: nat)"
proof -
  have "\<not> json_char (char_of (92 :: nat))" "\<not> json_char (char_of (34 :: nat))" by code_simp+
  then show "json_char c \<Longrightarrow> c \<noteq> char_of (92 :: nat) \<and> c \<noteq> char_of (34 :: nat)" by blast
qed

lemma piece_char: "json_char c \<Longrightarrow> json_piece [c]"
  using json_char_plain [of c] unfolding json_piece_def by (intro exI [of _ "[c]"]) (simp add: mask_plain)

lemma piece_chars: "list_all json_char s \<Longrightarrow> json_piece s"
proof (induction s)
  case (Cons c s)
  then show ?case using piece_append [OF piece_char, of c s] by simp
qed (simp add: piece_Nil)

lemma piece_string: "json_piece (string_toJSON s)"
proof -
  obtain w where w: "list_all in_string w" "\<forall>t. mask_escapes (concat (map (written (quote_char True)) s) @ t) = w @ mask_escapes t"
    using body_masked by blast
  have q: "char_of (34 :: nat) \<noteq> (char_of (92 :: nat) :: char)" by simp
  have "drop_strings (mask_escapes (string_toJSON s @ t)) = drop_strings (mask_escapes t)" for t
    using w dropWhile_body [OF w(1), of "mask_escapes t"] q
    by (simp add: string_toJSON_def inspect_written quote_true mask_plain)
  then show ?thesis unfolding json_piece_def by (intro exI [of _ "[]"]) simp
qed

lemma piece_join: "(\<And>w. w \<in> set ws \<Longrightarrow> json_piece w) \<Longrightarrow> json_piece (join_with '', '' ws)"
proof (induction "'', ''" ws rule: join_with.induct)
  case (3 v w ws)
  have "json_piece '', ''" by (rule piece_chars) (simp add: json_char_def)
  then have "json_piece (v @ '', '' @ join_with '', '' (w # ws))" using 3 by (intro piece_append) auto
  then show ?case by simp
qed (simp_all add: piece_Nil)

lemma json_words:
  "json_piece ''null''" "json_piece ''true''" "json_piece ''false''" "json_piece ''[''" "json_piece '']''"
  "json_piece ''{''" "json_piece ''}''" "json_piece '': ''" "json_piece ''-''"
  by (rule piece_chars, simp add: json_char_def)+

lemma piece_int: "json_piece (show_int i)"
proof -
  have "json_piece (show_nat n)" for n
    by (rule piece_chars) (use show_nat_digits [of n] in \<open>auto simp: list_all_iff json_char_def\<close>)
  then show ?thesis using piece_append [OF json_words(9)] by (simp add: show_int_def)
qed

lemma piece_around: "json_char a \<Longrightarrow> json_char b \<Longrightarrow> json_piece w \<Longrightarrow> json_piece (a # w @ [b])"
  using piece_append [OF piece_char [of a] piece_append [OF _ piece_char [of b]], of w] by simp

lemma brackets: "json_char (CHR ''['')" "json_char (CHR '']'')" "json_char (CHR ''{'')" "json_char (CHR ''}'')"
  by code_simp+

lemma piece_property: "json_piece s \<Longrightarrow> json_piece (string_toJSON k @ '': '' @ s)"
  by (intro piece_append piece_string json_words)

lemma toJSON_piece: "toJSON v = Some s \<Longrightarrow> json_piece s"
proof (induction v arbitrary: s rule: toJSON.induct)
  case (9 vs)
  let ?ws = "concat (map (\<lambda>v. case toJSON v of Some s \<Rightarrow> [s] | None \<Rightarrow> []) vs)"
  have "json_piece (join_with '', '' ?ws)"
    by (rule piece_join) (use 9(1) in \<open>auto split: option.splits\<close>)
  from piece_around [OF brackets(1,2) this] show ?case using 9(2) by simp
next
  case (10 ps)
  let ?ws = "concat (map (\<lambda>(k, v). case toJSON v of Some s \<Rightarrow> [string_toJSON k @ '': '' @ s] | None \<Rightarrow> []) ps)"
  have "json_piece w" if w: "w \<in> set ?ws" for w
  proof -
    obtain k v where kv: "(k, v) \<in> set ps" "w \<in> set (case toJSON v of Some s \<Rightarrow> [string_toJSON k @ '': '' @ s] | None \<Rightarrow> [])"
      using w by auto
    show ?thesis
    proof (cases "toJSON v")
      case (Some s)
      have "json_piece s" by (rule 10(1) [OF kv(1) refl Some])
      then show ?thesis using kv(2) Some piece_property [of s k] by simp
    qed (use kv(2) in simp)
    qed
  then have "json_piece (join_with '', '' ?ws)" by (rule piece_join)
  from piece_around [OF brackets(3,4) this] show ?case using 10(2) by simp
qed (auto simp: json_words piece_int piece_string split: if_splits)

lemma toJSON_not_blank: "toJSON v = Some s \<Longrightarrow> \<not> blank s"
proof (induction v arbitrary: s rule: toJSON.induct)
  case (6 i)
  have "\<not> list_all is_space (show_nat n)" for n
    using show_nat_digits [of n] show_nat_not_Nil [of n]
    by (cases "show_nat n") (auto simp: is_digit_def is_space_def)
  then show ?case using 6 by (auto simp: show_int_def blank_def is_space_def split: if_splits)
next
  case (8 s)
  then show ?case by (auto simp: string_toJSON_def inspect_written quote_true blank_def is_space_def of_char_of)
qed (auto simp: blank_def is_space_def split: if_splits)

text \<open>
  Every text \<open>C39: toJSON\<close> writes passes the test \<open>isJSON\<close>, whatever characters its strings and property
  names hold, so the sanitising \<open>evalJSON\<close> evaluates it.
\<close>

theorem toJSON_isJSON:
  assumes "toJSON v = Some s"
  shows "isJSON s"
proof -
  from toJSON_piece [OF assms] obtain k where "list_all json_char k" "drop_strings (mask_escapes (s @ [])) = k @ drop_strings (mask_escapes [])"
    unfolding json_piece_def by blast
  then show ?thesis using toJSON_not_blank [OF assms] by (simp add: isJSON_def)
qed

theorem toJSON_isJSON_witness:
  "isJSON (''['' @ string_toJSON ''a(b)'' @ '', '' @ ''-12'' @ '']'')"
proof (rule toJSON_isJSON)
  have "show_nat 12 = ''12''" by code_simp
  then show "toJSON (JArray [JString ''a(b)'', JFunction, JInteger (-12)]) = Some (''['' @ string_toJSON ''a(b)'' @ '', '' @ ''-12'' @ '']'')"
    by (simp add: show_int_def)
qed

text \<open>
  The sanitising \<open>evalJSON\<close> evaluates a text only when everything outside its string literals is
  made of the characters of JSON; otherwise it throws without evaluating.
\<close>

theorem evalJSON_sanitizes:
  assumes "evalJSON evaluate True s = ok v"
  shows "evaluate (unfilterJSON s) = Some v \<and> list_all json_char (drop_strings (mask_escapes (unfilterJSON s)))"
  using assms by (auto simp: evalJSON_def isJSON_def Let_def split: if_splits option.splits)

theorem evalJSON_sanitizes_witness:
  "list_all json_char (drop_strings (mask_escapes (unfilterJSON ''/*-secure-[1]*/'')))"
proof -
  have e: "evalJSON (\<lambda>s. Some s) True ''/*-secure-[1]*/'' = ok ''[1]''" by code_simp
  show ?thesis by (rule conjunct2 [OF evalJSON_sanitizes [OF e]])
qed

text \<open>
  An array loses the elements that cannot be written, so the others change their places.
\<close>

theorem toJSON_drops_elements:
  "toJSON (JArray [JUndefined, JInteger 1]) = toJSON (JArray [JInteger 1])"
  by simp

end
