(* ===== verification/Templates.thy ===== *)
theory Templates
  imports ProtoText
begin

text \<open>
  Templates of \<open>prototype.js\<close> (\<open>Template.evaluate\<close>, \<open>interpolate\<close>) with their paths into objects, and the
  changes of case between names of styles (\<open>camelize\<close>, \<open>underscore\<close>, \<open>dasherize\<close>, \<open>capitalize\<close>).
\<close>

section \<open>Template holes\<close>

text \<open>
  \<open>/(^|.|\r|\n)(#\{(.*?)\})/\<close>: a hole at the start of the text (its length), or the first one with one
  character before it.
\<close>

definition template_line_end :: "char \<Rightarrow> bool" where
  "template_line_end c \<longleftrightarrow> of_char c \<in> {10, 13 :: nat}"

definition hole_at :: "string \<Rightarrow> nat option" where
  "hole_at s =
     (let body = takeWhile (\<lambda>c. c \<noteq> CHR ''}'' \<and> \<not> template_line_end c) (drop 2 s)
      in if take 2 s = ''#{'' \<and> drop (2 + length body) s \<noteq> [] \<and> s ! (2 + length body) = CHR ''}''
         then Some (3 + length body) else None)"

fun seek_hole :: "string \<Rightarrow> (nat \<times> nat) option" where
  "seek_hole [] = None"
| "seek_hole (c # s) =
     (case hole_at s of Some n \<Rightarrow> Some (0, n + 1)
      | None \<Rightarrow> (case seek_hole s of Some (i, n) \<Rightarrow> Some (i + 1, n) | None \<Rightarrow> None))"

definition template_match :: matcher where
  "template_match s = (case hole_at s of Some n \<Rightarrow> Some (0, n) | None \<Rightarrow> seek_hole s)"

section \<open>Paths into objects\<close>

datatype tvalue = TNull | TText string | TObject "(string \<times> tvalue) list"

definition tvalue_text :: "tvalue \<Rightarrow> string" where
  "tvalue_text v = (case v of TNull \<Rightarrow> [] | TText s \<Rightarrow> s | TObject ps \<Rightarrow> ''[object Object]'')"

text \<open>\<open>ctx[prop_name]\<close>; of a text the length and the characters are properties.\<close>

definition tvalue_member :: "tvalue \<Rightarrow> string \<Rightarrow> tvalue" where
  "tvalue_member v prop_name =
     (case v of TNull \<Rightarrow> TNull
      | TObject ps \<Rightarrow> (case map_of ps prop_name of Some w \<Rightarrow> w | None \<Rightarrow> TNull)
      | TText s \<Rightarrow>
          if prop_name = ''length'' then TText (show_nat (length s))
          else if prop_name \<noteq> [] \<and> list_all is_digit prop_name \<and> show_nat (read_digits 0 prop_name) = prop_name \<and> read_digits 0 prop_name < length s
               then TText [s ! read_digits 0 prop_name]
          else TNull)"

text \<open>
  \<open>/^([^.[]+|\[((?:.*?[^\\])?)\])(\.|\[|$)/\<close>: the component, the length of the first group, and the
  character that follows it, if any.
\<close>

definition path_ends :: "string \<Rightarrow> bool" where
  "path_ends s \<longleftrightarrow> s = [] \<or> hd s = CHR ''.'' \<or> hd s = CHR ''[''"

definition bracket_fits :: "string \<Rightarrow> nat \<Rightarrow> bool" where
  "bracket_fits r n \<longleftrightarrow>
     n < length r \<and> r ! n = CHR '']'' \<and> path_ends (drop (n + 1) r)
     \<and> (n = 0 \<or> (r ! (n - 1) \<noteq> char_of (92 :: nat) \<and> list_all (\<lambda>c. \<not> template_line_end c) (take (n - 1) r)))"

definition path_match :: "string \<Rightarrow> (string \<times> nat \<times> string) option" where
  "path_match expr =
     (case expr of [] \<Rightarrow> None
      | c # r \<Rightarrow>
          if c = CHR ''.'' then None
          else if c = CHR ''['' then
            (case filter (bracket_fits r) ([1..<length r] @ [0]) of [] \<Rightarrow> None
             | n # _ \<Rightarrow> Some (replace_text [char_of (92 :: nat), CHR '']''] '']'' (take n r), n + 2, take 1 (drop (n + 1) r)))
          else (let run = takeWhile (\<lambda>c. c \<noteq> CHR ''.'' \<and> c \<noteq> CHR ''['') expr
                in Some (run, length run, take 1 (drop (length run) expr))))"

lemma path_match_length: "path_match expr = Some (prop_name, n, sep) \<Longrightarrow> 0 < n \<and> expr \<noteq> []"
  by (auto simp: path_match_def Let_def split: list.splits if_splits)

function path_value :: "tvalue \<Rightarrow> string \<Rightarrow> tvalue" where
  "path_value ctx expr =
     (case path_match expr of None \<Rightarrow> ctx
      | Some (prop_name, n, sep) \<Rightarrow>
          (let ctx' = tvalue_member ctx prop_name
           in if ctx' = TNull \<or> sep = [] then ctx'
              else path_value ctx' (drop (if sep = ''['' then n else n + 1) expr)))"
  by pat_completeness auto
termination
  by (relation "measure (\<lambda>(ctx, expr). length expr)") (auto dest!: path_match_length)

declare path_value.simps [simp del]

section \<open>Evaluating\<close>

text \<open>The replacement of a match: the character before the hole, the hole, and its expression.\<close>

definition fill_hole :: "tvalue \<Rightarrow> string \<Rightarrow> string" where
  "fill_hole obj m =
     (let before = (if hole_at m \<noteq> None then [] else take 1 m);
          hole = drop (length before) m;
          expr = take (length hole - 3) (drop 2 hole)
      in if obj = TNull then []
         else if before = [char_of (92 :: nat)] then hole
         else if path_match expr = None then before
         else before @ tvalue_text (path_value obj expr))"

definition template_evaluate :: "string \<Rightarrow> tvalue \<Rightarrow> string option" where
  "template_evaluate template obj = gsub template_match (fill_hole obj) template"

section \<open>Case of names\<close>

definition upper_letter :: "char \<Rightarrow> char" where
  "upper_letter c = (let n = of_char c :: nat in if 97 \<le> n \<and> n \<le> 122 then char_of (n - 32) else c)"

definition capitalize :: "string \<Rightarrow> string" where
  "capitalize s = (case s of [] \<Rightarrow> [] | c # cs \<Rightarrow> upper_letter c # to_lower cs)"

definition capital_first :: "string \<Rightarrow> string" where
  "capital_first s = (case s of [] \<Rightarrow> [] | c # cs \<Rightarrow> upper_letter c # cs)"

definition camelize :: "string \<Rightarrow> string" where
  "camelize s =
     (case split_on (CHR ''-'') s of
        [] \<Rightarrow> []
      | p # ps \<Rightarrow>
          if ps = [] then p
          else (if take 1 s = ''-'' then capital_first p else p) @ concat (map capital_first ps))"

definition dasherize :: "string \<Rightarrow> string" where
  "dasherize s = replace_char (CHR ''_'') ''-'' s"

text \<open>\<open>$w\<close>: the words of a text.\<close>

function words_of :: "string \<Rightarrow> string list" where
  "words_of s =
     (let r = dropWhile is_space s
      in if r = [] then [] else takeWhile (\<lambda>c. \<not> is_space c) r # words_of (dropWhile (\<lambda>c. \<not> is_space c) r))"
  by pat_completeness auto
termination
proof (relation "measure length", goal_cases)
  case (2 s r)
  then have "r \<noteq> []" by simp
  then obtain c t where r: "r = c # t" by (meson neq_Nil_conv)
  have "\<not> is_space (hd r)" using hd_dropWhile [of is_space s] 2 by simp
  then have "\<not> is_space c" using r by simp
  then have "length (dropWhile (\<lambda>c. \<not> is_space c) r) \<le> length t"
    using r length_dropWhile_le [of "\<lambda>c. \<not> is_space c" t] by simp
  moreover have "length r \<le> length s" using 2 length_dropWhile_le by simp
  ultimately show ?case using r by simp
qed simp

declare words_of.simps [simp del]

text \<open>\<open>succ\<close> of a text: its last character made the next one.\<close>

definition string_succ :: "string \<Rightarrow> string" where
  "string_succ s = (if s = [] then [] else butlast s @ [char_of (of_char (last s) + 1 :: nat)])"


section \<open>Filling in\<close>

lemma hole_needs_hash: "c \<noteq> CHR ''#'' \<Longrightarrow> hole_at (c # s) = None"
  by (auto simp: hole_at_def Let_def numeral_2_eq_2 split: if_splits)

lemma hole_Nil [simp]: "hole_at [] = None"
  by (simp add: hole_at_def)

text \<open>The name of a hole: no dot, bracket, closing brace or line end.\<close>

definition plain_name :: "string \<Rightarrow> bool" where
  "plain_name n \<longleftrightarrow> n \<noteq> [] \<and> list_all (\<lambda>c. c \<noteq> CHR ''}'' \<and> c \<noteq> CHR ''.'' \<and> c \<noteq> CHR ''['' \<and> \<not> template_line_end c) n"

definition hole_text :: "string \<Rightarrow> string" where
  "hole_text n = ''#{'' @ n @ ''}''"

lemma takeWhile_name:
  "plain_name n \<Longrightarrow> takeWhile (\<lambda>c. c \<noteq> CHR ''}'' \<and> \<not> template_line_end c) (n @ CHR ''}'' # t) = n"
proof -
  have "list_all (\<lambda>c. c \<noteq> CHR ''}'' \<and> \<not> template_line_end c) n \<Longrightarrow> takeWhile (\<lambda>c. c \<noteq> CHR ''}'' \<and> \<not> template_line_end c) (n @ CHR ''}'' # t) = n"
    by (induction n) auto
  then show "plain_name n \<Longrightarrow> takeWhile (\<lambda>c. c \<noteq> CHR ''}'' \<and> \<not> template_line_end c) (n @ CHR ''}'' # t) = n"
    by (auto simp: plain_name_def list_all_iff)
qed

lemma hole_at_text: "plain_name n \<Longrightarrow> hole_at (hole_text n @ t) = Some (length n + 3)"
  by (simp add: hole_at_def hole_text_def takeWhile_name nth_append numeral_2_eq_2)

lemma hole_before: "hole_at (c # hole_text n @ t) = None"
  by (simp add: hole_at_def hole_text_def numeral_2_eq_2)

lemma seek_text:
  "plain_name n \<Longrightarrow> CHR ''#'' \<notin> set w \<Longrightarrow> seek_hole (w @ [c] @ hole_text n @ t) = Some (length w, length n + 4)"
proof (induction w)
  case Nil
  then show ?case by (simp add: hole_at_text)
next
  case (Cons d w)
  have "hole_at (w @ [c] @ hole_text n @ t) = None"
  proof (cases w)
    case (Cons e v)
    then have "e \<noteq> CHR ''#''" using Cons.prems(2) by auto
    then show ?thesis using Cons hole_needs_hash [of e] by simp
  qed (simp add: hole_before)
  then show ?case using Cons by simp
qed

lemma no_hash_no_hole: "CHR ''#'' \<notin> set w \<Longrightarrow> hole_at (w @ t) = (if w = [] then hole_at t else None)"
proof (cases w)
  case (Cons c v)
  assume "CHR ''#'' \<notin> set w"
  then have "c \<noteq> CHR ''#''" using Cons by auto
  then show ?thesis using hole_needs_hash [of c "v @ t"] Cons by simp
qed simp

lemma no_hash_no_seek: "CHR ''#'' \<notin> set w \<Longrightarrow> seek_hole w = None"
proof (induction w)
  case (Cons c w)
  then have "hole_at w = None" using no_hash_no_hole [of w "[]"] by auto
  then show ?case using Cons by simp
qed simp

lemma path_plain: "plain_name n \<Longrightarrow> path_match n = Some (n, length n, [])"
proof -
  assume "plain_name n"
  then have n: "n \<noteq> []" "list_all (\<lambda>c. c \<noteq> CHR ''.'' \<and> c \<noteq> CHR ''['') n" by (auto simp: plain_name_def list_all_iff)
  then have t: "takeWhile (\<lambda>c. c \<noteq> CHR ''.'' \<and> c \<noteq> CHR ''['') n = n" by (simp add: takeWhile_eq_all_conv list_all_iff)
  obtain c r where c: "n = c # r" using n(1) by (cases n) auto
  then have "c \<noteq> CHR ''.''" "c \<noteq> CHR ''[''" using n(2) by simp_all
  then have "path_match n = (let run = takeWhile (\<lambda>c. c \<noteq> CHR ''.'' \<and> c \<noteq> CHR ''['') n
                in Some (run, length run, take 1 (drop (length run) n)))"
    using c by (simp add: path_match_def)
  then show ?thesis by (simp add: t)
qed

lemma path_value_plain: "plain_name n \<Longrightarrow> path_value ctx n = tvalue_member ctx n"
  by (simp add: path_value.simps [of ctx n] path_plain)

text \<open>A template as pieces: literal text and holes.\<close>

datatype piece = Lit string | Hole string

fun piece_text :: "piece \<Rightarrow> string" where
  "piece_text (Lit s) = s"
| "piece_text (Hole n) = hole_text n"

fun piece_value :: "tvalue \<Rightarrow> piece \<Rightarrow> string" where
  "piece_value obj (Lit s) = s"
| "piece_value obj (Hole n) = tvalue_text (tvalue_member obj n)"

fun plain_piece :: "piece \<Rightarrow> bool" where
  "plain_piece (Lit s) = list_all (\<lambda>c. c \<noteq> CHR ''#'' \<and> c \<noteq> char_of (92 :: nat)) s"
| "plain_piece (Hole n) = plain_name n"

lemma fill_first: "plain_name n \<Longrightarrow> obj \<noteq> TNull \<Longrightarrow> fill_hole obj (hole_text n) = tvalue_text (tvalue_member obj n)"
  using hole_at_text [of n "[]"]
  by (simp add: fill_hole_def path_plain path_value_plain) (simp add: hole_text_def path_plain path_value_plain)

lemma fill_after:
  "plain_name n \<Longrightarrow> obj \<noteq> TNull \<Longrightarrow> c \<noteq> CHR ''#'' \<Longrightarrow> c \<noteq> char_of (92 :: nat)
   \<Longrightarrow> fill_hole obj (c # hole_text n) = c # tvalue_text (tvalue_member obj n)"
  using hole_needs_hash [of c "hole_text n"]
  by (auto simp: fill_hole_def path_plain path_value_plain hole_text_def Let_def)

lemma gsub_pieces:
  assumes "obj \<noteq> TNull"
  shows "list_all plain_piece ps \<Longrightarrow> list_all (\<lambda>c. c \<noteq> CHR ''#'' \<and> c \<noteq> char_of (92 :: nat)) w \<Longrightarrow>
    gsub_loop template_match (fill_hole obj) (w @ concat (map piece_text ps)) acc
      = Some (acc @ w @ concat (map (piece_value obj) ps))"
proof (induction ps arbitrary: w acc)
  case Nil
  then have "CHR ''#'' \<notin> set w" by (auto simp: list_all_iff)
  then show ?case
    by (subst gsub_loop.simps) (use no_hash_no_hole [of w "[]"] in \<open>auto simp: template_match_def no_hash_no_seek gsub_loop.simps [of _ _ "[]"]\<close>)
next
  case (Cons p ps)
  show ?case
  proof (cases p)
    case (Lit v)
    then show ?thesis using Cons.IH [of "w @ v" acc] Cons.prems by simp
  next
    case (Hole n)
    then have n: "plain_name n" using Cons.prems by simp
    let ?rest = "concat (map piece_text ps)"
    have IH: "gsub_loop template_match (fill_hole obj) ?rest a = Some (a @ concat (map (piece_value obj) ps))" for a
      using Cons.IH [of "[]" a] Cons.prems by simp
    show ?thesis
    proof (cases w rule: rev_cases)
      case Nil
      have m: "template_match (hole_text n @ ?rest) = Some (0, length n + 3)" by (simp add: template_match_def hole_at_text n)
      have l: "length (hole_text n) = length n + 3" by (simp add: hole_text_def)
      have "gsub_loop template_match (fill_hole obj) (hole_text n @ ?rest) acc
          = gsub_loop template_match (fill_hole obj) ?rest (acc @ fill_hole obj (hole_text n))"
        by (subst gsub_loop.simps) (simp add: m l [symmetric], simp add: hole_text_def)
      then show ?thesis using Nil Hole IH fill_first [OF n assms] by simp
    next
      case (snoc v c)
      then have v: "CHR ''#'' \<notin> set v" "CHR ''#'' \<notin> set w" "c \<noteq> CHR ''#''" "c \<noteq> char_of (92 :: nat)" "w \<noteq> []"
        using Cons.prems by (auto simp: list_all_iff)
      have "hole_at (w @ hole_text n @ ?rest) = None"
        using v(2,5) no_hash_no_hole [of w] by simp
      then have m: "template_match (v @ [c] @ hole_text n @ ?rest) = Some (length v, length n + 4)"
        using seek_text [OF n v(1), of c ?rest] by (simp add: template_match_def snoc)
      have l: "length (c # hole_text n) = length n + 4" by (simp add: hole_text_def)
      have "gsub_loop template_match (fill_hole obj) (v @ (c # hole_text n) @ ?rest) acc
          = gsub_loop template_match (fill_hole obj) ?rest (acc @ v @ fill_hole obj (c # hole_text n))"
        using m by (subst gsub_loop.simps) (simp add: l [symmetric])
      then show ?thesis using snoc Hole IH fill_after [OF n assms v(3,4)] by simp
    qed
  qed
qed

text \<open>
  A template of literal text and named holes is filled with the values of the object's properties,
  everything else unchanged and in its place.
\<close>

theorem template_fills:
  assumes "list_all plain_piece ps" "obj \<noteq> TNull"
  shows "template_evaluate (concat (map piece_text ps)) obj = Some (concat (map (piece_value obj) ps))"
  using gsub_pieces [OF assms(2,1), of "[]" "[]"] by (simp add: template_evaluate_def gsub_def)

theorem template_fills_witness:
  "template_evaluate (concat (map piece_text [Lit ''Dear '', Hole ''name'', Hole ''sign'', Lit ''}'']))
     (TObject [(''name'', TText ''Ann'')]) = Some ''Dear Ann}''"
proof -
  let ?ps = "[Lit ''Dear '', Hole ''name'', Hole ''sign'', Lit ''}'']"
  have "list_all plain_piece ?ps" by code_simp
  from template_fills [OF this, of "TObject [(''name'', TText ''Ann'')]"] show ?thesis
    by (simp add: tvalue_text_def tvalue_member_def)
qed

end
