(* ===== verification/JqCore.thy ===== *)
theory JqCore
  imports JsString QueryString
begin

text \<open>
  Utilities of \<open>jquery.js\<close>: \<open>extend\<close>, the array functions behind every set of elements, the stack of
  sets, and the class names of elements.  Objects are trees: sharing between objects, and the check
  that keeps an object from being extended by itself, are not modelled.
\<close>

section \<open>extend\<close>

datatype tree = Undef | Nul | Leaf nat | Arr "tree list" | Obj "(string \<times> tree) list"

text \<open>The object or array copied into: the source's own value when it has the same kind.\<close>

fun obj_part :: "tree option \<Rightarrow> (string \<times> tree) list" where
  "obj_part (Some (Obj ps)) = ps"
| "obj_part _ = []"

fun arr_part :: "tree option \<Rightarrow> tree list" where
  "arr_part (Some (Arr vs)) = vs"
| "arr_part _ = []"

text \<open>An array element set behind the end leaves a gap.\<close>

definition set_element :: "nat \<Rightarrow> tree \<Rightarrow> tree list \<Rightarrow> tree list" where
  "set_element i v vs = (if i < length vs then vs[i := v] else vs @ replicate (i - length vs) Undef @ [v])"

text \<open>
  \<open>copied deep src copy\<close> is the value put in place of \<open>src\<close>, \<open>None\<close> when the property is left alone.
\<close>

fun copied :: "bool \<Rightarrow> tree option \<Rightarrow> tree \<Rightarrow> tree option"
  and extend_props :: "bool \<Rightarrow> (string \<times> tree) list \<Rightarrow> (string \<times> tree) list \<Rightarrow> (string \<times> tree) list"
  and extend_elems :: "bool \<Rightarrow> nat \<Rightarrow> tree list \<Rightarrow> tree list \<Rightarrow> tree list" where
  "copied deep src Undef = None"
| "copied deep src Nul = Some Nul"
| "copied deep src (Leaf n) = Some (Leaf n)"
| "copied deep src (Arr vs) = Some (Arr (if deep then extend_elems deep 0 (arr_part src) vs else vs))"
| "copied deep src (Obj ps) = Some (Obj (if deep then extend_props deep (obj_part src) ps else ps))"
| "extend_props deep target [] = target"
| "extend_props deep target ((name, v) # ps) =
     extend_props deep (case copied deep (hash_get name target) v of Some w \<Rightarrow> hash_set name w target | None \<Rightarrow> target) ps"
| "extend_elems deep i target [] = target"
| "extend_elems deep i target (v # vs) =
     extend_elems deep (i + 1)
       (case copied deep (if i < length target then Some (target ! i) else None) v of
          Some w \<Rightarrow> set_element i w target | None \<Rightarrow> target) vs"

text \<open>\<open>jQuery.extend([deep], target, options...)\<close>; \<open>null\<close> options are skipped.\<close>

definition jq_extend :: "bool \<Rightarrow> (string \<times> tree) list \<Rightarrow> (string \<times> tree) list option list \<Rightarrow> (string \<times> tree) list" where
  "jq_extend deep target optionss =
     foldl (\<lambda>t ofs. case ofs of None \<Rightarrow> t | Some ps \<Rightarrow> extend_props deep t ps) target optionss"

section \<open>Arrays and sets of elements\<close>

definition jq_merge :: "'a list \<Rightarrow> 'a list \<Rightarrow> 'a list" where
  "jq_merge first second = first @ second"

text \<open>What \<open>makeArray\<close> is given: nothing, something without length (or a text, function, window), an array.\<close>

datatype 'a arraylike = Nothing | One_thing 'a | Array_like "'a list"

definition makeArray :: "'a arraylike \<Rightarrow> 'a list \<Rightarrow> 'a list" where
  "makeArray arr results =
     (case arr of Nothing \<Rightarrow> results | One_thing x \<Rightarrow> results @ [x] | Array_like xs \<Rightarrow> jq_merge results xs)"

fun inArray_loop :: "'a \<Rightarrow> 'a list \<Rightarrow> nat \<Rightarrow> int" where
  "inArray_loop elem [] i = -1"
| "inArray_loop elem (x # xs) i = (if x = elem then int i else inArray_loop elem xs (i + 1))"

definition inArray :: "'a \<Rightarrow> 'a list \<Rightarrow> int" where
  "inArray elem arr = inArray_loop elem arr 0"

fun jq_grep_loop :: "('a \<Rightarrow> nat \<Rightarrow> bool) \<Rightarrow> bool \<Rightarrow> 'a list \<Rightarrow> nat \<Rightarrow> 'a list" where
  "jq_grep_loop callback inverted [] i = []"
| "jq_grep_loop callback inverted (x # xs) i =
     (if inverted \<noteq> callback x i then x # jq_grep_loop callback inverted xs (i + 1) else jq_grep_loop callback inverted xs (i + 1))"

definition jq_grep :: "'a list \<Rightarrow> ('a \<Rightarrow> nat \<Rightarrow> bool) \<Rightarrow> bool \<Rightarrow> 'a list" where
  "jq_grep elems callback inverted = jq_grep_loop callback inverted elems 0"

text \<open>What a callback of \<open>map\<close> returns: \<open>null\<close>, a value, or an array, which is flattened.\<close>

datatype 'a mapped = No_value | A_value 'a | Values "'a list"

fun jq_map_loop :: "('a \<Rightarrow> nat \<Rightarrow> 'b mapped) \<Rightarrow> 'a list \<Rightarrow> nat \<Rightarrow> 'b mapped list" where
  "jq_map_loop callback [] i = []"
| "jq_map_loop callback (x # xs) i =
     (case callback x i of No_value \<Rightarrow> jq_map_loop callback xs (i + 1) | v \<Rightarrow> v # jq_map_loop callback xs (i + 1))"

fun flat :: "'b mapped \<Rightarrow> 'b list" where
  "flat No_value = []"
| "flat (A_value v) = [v]"
| "flat (Values vs) = vs"

definition jq_map :: "'a list \<Rightarrow> ('a \<Rightarrow> nat \<Rightarrow> 'b mapped) \<Rightarrow> 'b list" where
  "jq_map elems callback = concat (map flat (jq_map_loop callback elems 0))"

text \<open>\<open>each\<close>: the callback gets index and element and a state; \<open>false\<close> ends the loop.\<close>

fun jq_each_loop :: "(nat \<Rightarrow> 'a \<Rightarrow> 's \<Rightarrow> bool \<times> 's) \<Rightarrow> 'a list \<Rightarrow> nat \<Rightarrow> 's \<Rightarrow> 's" where
  "jq_each_loop callback [] i s = s"
| "jq_each_loop callback (x # xs) i s =
     (case callback i x s of (False, s') \<Rightarrow> s' | (True, s') \<Rightarrow> jq_each_loop callback xs (i + 1) s')"

definition jq_each :: "'a list \<Rightarrow> (nat \<Rightarrow> 'a \<Rightarrow> 's \<Rightarrow> bool \<times> 's) \<Rightarrow> 's \<Rightarrow> 's" where
  "jq_each object callback s = jq_each_loop callback object 0 s"

text \<open>A set of elements and the set it was made from.\<close>

datatype 'a jqset = Jq (elements: "'a list") (prevObject: "'a jqset option")

definition pushStack :: "'a list \<Rightarrow> 'a jqset \<Rightarrow> 'a jqset" where
  "pushStack elems s = Jq elems (Some s)"

definition jq_get :: "int \<Rightarrow> 'a jqset \<Rightarrow> 'a option" where
  "jq_get num s =
     (let i = (if num < 0 then int (length (elements s)) + num else num)
      in if i < 0 then None else aref (elements s) (nat i))"

definition jq_slice :: "int \<Rightarrow> int \<Rightarrow> 'a jqset \<Rightarrow> 'a jqset" where
  "jq_slice a b s = pushStack (slice (elements s) a b) s"

definition jq_slice_from :: "int \<Rightarrow> 'a jqset \<Rightarrow> 'a jqset" where
  "jq_slice_from a s = pushStack (slice (elements s) a (int (length (elements s)))) s"

definition jq_eq :: "int \<Rightarrow> 'a jqset \<Rightarrow> 'a jqset" where
  "jq_eq i s = (if i = -1 then jq_slice_from i s else jq_slice i (i + 1) s)"

definition jq_first :: "'a jqset \<Rightarrow> 'a jqset" where "jq_first s = jq_eq 0 s"
definition jq_last :: "'a jqset \<Rightarrow> 'a jqset" where "jq_last s = jq_eq (-1) s"

definition jq_end :: "'a jqset \<Rightarrow> 'a jqset" where
  "jq_end s = (case prevObject s of Some p \<Rightarrow> p | None \<Rightarrow> Jq [] None)"

section \<open>Class names\<close>

text \<open>\<open>split(/\s+/)\<close> and the replacement of line ends and tabs by blanks.\<close>

fun split_spaces :: "string \<Rightarrow> string \<Rightarrow> bool \<Rightarrow> string list" where
  "split_spaces [] cur sp = [rev cur]"
| "split_spaces (c # cs) cur sp =
     (if is_space c then (if sp then split_spaces cs cur True else rev cur # split_spaces cs [] True)
      else split_spaces cs (c # cur) False)"

definition class_names :: "string \<Rightarrow> string list" where
  "class_names value = split_spaces value [] False"

definition blank_breaks :: "string \<Rightarrow> string" where
  "blank_breaks s = map (\<lambda>c. if of_char c \<in> {9, 10, 13 :: nat} then CHR '' '' else c) s"

definition padded :: "string \<Rightarrow> string" where
  "padded s = '' '' @ s @ '' ''"

fun replace_first :: "string \<Rightarrow> string \<Rightarrow> string \<Rightarrow> string" where
  "replace_first p w [] = (if p = [] then w else [])"
| "replace_first p w (c # cs) =
     (if prefix p (c # cs) then w @ drop (length p) (c # cs) else c # replace_first p w cs)"

text \<open>The class name of one element after \<open>addClass(value)\<close> and \<open>removeClass(value)\<close>.\<close>

definition addClass :: "string \<Rightarrow> string \<Rightarrow> string" where
  "addClass value className =
     (if value = [] then className
      else if className = [] then value
      else trim (foldl (\<lambda>setClass c. if indexOf (padded className) (padded c) 0 < 0 then setClass @ '' '' @ c else setClass)
             className (class_names value)))"

definition removeClass :: "string option \<Rightarrow> string \<Rightarrow> string" where
  "removeClass value className =
     (if className = [] then className
      else case value of None \<Rightarrow> []
        | Some v \<Rightarrow>
            if v = [] then className
            else trim (foldl (\<lambda>s c. replace_first (padded c) '' '' s) (blank_breaks (padded className)) (class_names v)))"

definition hasClass :: "string \<Rightarrow> string list \<Rightarrow> bool" where
  "hasClass selector classNames = list_ex (\<lambda>className. indexOf (blank_breaks (padded className)) (padded selector) 0 > -1) classNames"

text \<open>\<open>toggleClass(value, state)\<close> of a text: the names up to the first empty one.\<close>

fun toggle_loop :: "bool option \<Rightarrow> string list \<Rightarrow> string \<Rightarrow> string" where
  "toggle_loop state [] className = className"
| "toggle_loop state (c # cs) className =
     (if c = [] then className
      else (let add = (case state of Some b \<Rightarrow> b | None \<Rightarrow> \<not> hasClass c [className])
            in toggle_loop state cs (if add then addClass c className else removeClass (Some c) className)))"

definition toggleClass :: "string \<Rightarrow> bool option \<Rightarrow> string \<Rightarrow> string" where
  "toggleClass value state className = toggle_loop state (class_names value) className"

text \<open>
  \<open>toggleClass()\<close> and \<open>toggleClass(state)\<close>: the whole class name, with what was stored of it.
\<close>

definition toggle_whole :: "bool option \<Rightarrow> string \<times> string \<Rightarrow> string \<times> string" where
  "toggle_whole value s =
     (case s of (className, stored) \<Rightarrow>
        (let stored' = (if className \<noteq> [] then className else stored)
         in (if className \<noteq> [] \<or> value = Some False then [] else stored', stored')))"


section \<open>Class names as lists of words\<close>

definition word :: "string \<Rightarrow> bool" where
  "word w \<longleftrightarrow> w \<noteq> [] \<and> list_all (\<lambda>c. \<not> is_space c) w"

definition joined :: "string list \<Rightarrow> string" where
  "joined ws = join_with '' '' ws"

lemma space_is_space: "is_space (CHR '' '')"
  by code_simp

lemma word_no_space: "word w \<Longrightarrow> CHR '' '' \<notin> set w"
  using space_is_space by (auto simp: word_def list_all_iff)

text \<open>The padded class name, word by word.\<close>

lemma padded_joined: "ws \<noteq> [] \<Longrightarrow> padded (joined ws) = concat (map (\<lambda>w. CHR '' '' # w) ws) @ '' ''"
proof -
  assume "ws \<noteq> []"
  then have "joined ws = tl (concat (map (\<lambda>w. CHR '' '' # w) ws))"
    unfolding joined_def by (induction "'' ''" ws rule: join_with.induct) auto
  moreover have "concat (map (\<lambda>w. CHR '' '' # w) ws) = CHR '' '' # tl (concat (map (\<lambda>w. CHR '' '' # w) ws))"
    using \<open>ws \<noteq> []\<close> by (cases ws) auto
  ultimately show ?thesis by (simp add: padded_def)
qed

definition spaced :: "string list \<Rightarrow> string" where
  "spaced ws = concat (map (\<lambda>w. CHR '' '' # w) ws) @ '' ''"

lemma spaced_simps [simp]: "spaced [] = '' ''" "spaced (w # ws) = CHR '' '' # w @ spaced ws"
  by (simp_all add: spaced_def)

lemma spaced_hd: "\<exists>t. spaced ws = CHR '' '' # t"
  by (cases ws) auto

lemma prefix_word:
  assumes "word c" "word w"
  shows "prefix (c @ '' '') (w @ spaced ws) \<longleftrightarrow> c = w"
proof
  obtain t where t: "spaced ws = CHR '' '' # t" using spaced_hd by blast
  have "c = w" if "c @ CHR '' '' # u = w @ CHR '' '' # t" for u
    using that word_no_space [OF assms(1)] word_no_space [OF assms(2)]
  proof (induction c arbitrary: w)
    case Nil
    then show ?case by (cases w) auto
  next
    case (Cons a c)
    then show ?case by (cases w) auto
  qed
  then show "prefix (c @ '' '') (w @ spaced ws) \<Longrightarrow> c = w" using t by (auto simp: prefix_def)
  show "c = w \<Longrightarrow> prefix (c @ '' '') (w @ spaced ws)" using t by (simp add: prefix_def)
qed

fun contains :: "string \<Rightarrow> string \<Rightarrow> bool" where
  "contains p [] = (p = [])"
| "contains p (c # cs) = (prefix p (c # cs) \<or> contains p cs)"

lemma contains_sublist: "contains p s \<longleftrightarrow> sublist p s"
  by (induction s) (auto simp: sublist_Cons_right)

lemma indexOf_contains: "indexOf s p 0 < 0 \<longleftrightarrow> \<not> contains p s"
proof -
  have "indexOf s p 0 < 0 \<longleftrightarrow> indexOf s p 0 = -1" using indexOf_range [of s p 0] by auto
  also have "\<dots> \<longleftrightarrow> (\<forall>i \<le> length s. \<not> sub_at p s i)" by (simp add: indexOf_miss)
  also have "\<dots> \<longleftrightarrow> \<not> sublist p s"
  proof -
    have "(\<exists>i \<le> length s. sub_at p s i) \<longleftrightarrow> sublist p s"
    proof
      assume "\<exists>i \<le> length s. sub_at p s i"
      then obtain i where "take (length p) (drop i s) = p" by (auto simp: sub_at_def)
      then show "sublist p s" by (metis sublist_drop sublist_order.order.trans sublist_take)
    next
      assume "sublist p s"
      then obtain a b where "s = a @ p @ b" by (auto simp: sublist_def)
      then show "\<exists>i \<le> length s. sub_at p s i" by (intro exI [of _ "length a"]) (simp add: sub_at_def)
    qed
    then show ?thesis by blast
  qed
  finally show ?thesis by (simp add: contains_sublist)
qed

lemma contains_skip: "CHR '' '' \<notin> set w \<Longrightarrow> contains (padded c) (w @ t) = contains (padded c) t"
  by (induction w) (auto simp: padded_def)

lemma contains_spaced:
  assumes "word c"
  shows "list_all word ws \<Longrightarrow> contains (padded c) (spaced ws) \<longleftrightarrow> c \<in> set ws"
proof (induction ws)
  case Nil
  have "c \<noteq> []" using assms by (simp add: word_def)
  then show ?case by (cases c) (simp_all add: padded_def)
next
  case (Cons w ws)
  then have "contains (padded c) (w @ spaced ws) \<longleftrightarrow> c \<in> set ws"
    using contains_skip [OF word_no_space, of w] by simp
  moreover have "prefix (padded c) (CHR '' '' # w @ spaced ws) \<longleftrightarrow> c = w"
    using prefix_word [OF assms, of w ws] Cons.prems by (simp add: padded_def)
  ultimately show ?case by auto
qed

lemma replace_skip: "CHR '' '' \<notin> set w \<Longrightarrow> t \<noteq> [] \<Longrightarrow> replace_first (padded c) v (w @ t) = w @ replace_first (padded c) v t"
  by (induction w) (auto simp: padded_def)

lemma replace_spaced:
  assumes "word c"
  shows "list_all word ws \<Longrightarrow> replace_first (padded c) '' '' (spaced ws) = spaced (remove1 c ws)"
proof (induction ws)
  case Nil
  have "c \<noteq> []" using assms by (simp add: word_def)
  then show ?case by (cases c) (simp_all add: padded_def)
next
  case (Cons w ws)
  have p: "prefix (padded c) (CHR '' '' # w @ spaced ws) \<longleftrightarrow> c = w"
    using prefix_word [OF assms, of w ws] Cons.prems by (simp add: padded_def)
  obtain t where t: "spaced ws = CHR '' '' # t" using spaced_hd by blast
  show ?case
  proof (cases "c = w")
    case True
    then have "replace_first (padded c) '' '' (spaced (c # ws)) = '' '' @ drop (length (padded c)) (CHR '' '' # c @ spaced ws)"
      using p by simp
    also have "\<dots> = spaced ws" using t by (simp add: padded_def)
    finally show ?thesis using True by simp
  next
    case False
    have "replace_first (padded c) '' '' (w @ spaced ws) = w @ replace_first (padded c) '' '' (spaced ws)"
      by (rule replace_skip) (use Cons.prems word_no_space t in auto)
    then show ?thesis using False p Cons by auto
  qed
qed

lemma split_word: "word w \<Longrightarrow> split_spaces (w @ t) cur False = split_spaces t (rev w @ cur) False"
proof -
  have "list_all (\<lambda>c. \<not> is_space c) w \<Longrightarrow> split_spaces (w @ t) cur False = split_spaces t (rev w @ cur) False" for cur
    by (induction w arbitrary: cur) auto
  then show "word w \<Longrightarrow> split_spaces (w @ t) cur False = split_spaces t (rev w @ cur) False" by (simp add: word_def)
qed

lemma split_after_space: "word w \<Longrightarrow> split_spaces (w @ t) [] True = split_spaces (w @ t) [] False"
  by (cases w) (auto simp: word_def)

lemma word_start: "word w \<Longrightarrow> \<exists>d v. w = d # v \<and> \<not> is_space d"
  by (cases w) (auto simp: word_def)

lemma class_names_joined: "list_all word cs \<Longrightarrow> cs \<noteq> [] \<Longrightarrow> class_names (joined cs) = cs"
proof -
  have "list_all word cs \<Longrightarrow> cs \<noteq> [] \<Longrightarrow> split_spaces (join_with '' '' cs) [] False = cs"
  proof (induction "'' ''" cs rule: join_with.induct)
    case (2 w)
    then show ?case using split_word [of w "[]" "[]"] by simp
  next
    case (3 w v ws)
    have "word (hd (v # ws))" using 3 by simp
    then obtain d u where "join_with '' '' (v # ws) = d # u" "\<not> is_space d"
      using word_start [of v] by (cases ws) auto
    then have skip: "split_spaces (join_with '' '' (v # ws)) [] True = split_spaces (join_with '' '' (v # ws)) [] False" by simp
    show ?case using 3 split_word [of w "CHR '' '' # join_with '' '' (v # ws)" "[]"] skip space_is_space by simp
  qed simp
  then show "list_all word cs \<Longrightarrow> cs \<noteq> [] \<Longrightarrow> class_names (joined cs) = cs" by (simp add: class_names_def joined_def)
qed

lemma blank_breaks_word: "word w \<Longrightarrow> blank_breaks w = w"
proof -
  have "(of_char c :: nat) \<notin> {9, 10, 13}" if "\<not> is_space c" for c
    using that by (auto simp: is_space_def)
  then have "list_all (\<lambda>c. \<not> is_space c) w \<Longrightarrow> blank_breaks w = w"
    by (induction w) (auto simp: blank_breaks_def)
  then show "word w \<Longrightarrow> blank_breaks w = w" by (simp add: word_def)
qed

lemma blank_breaks_append: "blank_breaks (a @ b) = blank_breaks a @ blank_breaks b"
  by (simp add: blank_breaks_def)

lemma blank_breaks_blank: "blank_breaks '' '' = '' ''"
  by code_simp

lemma blank_breaks_spaced: "list_all word ws \<Longrightarrow> blank_breaks (spaced ws) = spaced ws"
proof (induction ws)
  case (Cons w ws)
  have "spaced (w # ws) = '' '' @ w @ spaced ws" by simp
  then show ?case using Cons blank_breaks_word [of w] by (simp only: blank_breaks_append blank_breaks_blank) simp
qed (simp add: blank_breaks_blank)

lemma padded_spaced: "ws \<noteq> [] \<Longrightarrow> padded (joined ws) = spaced ws"
  by (simp add: padded_joined spaced_def)

lemma joined_Cons: "ws \<noteq> [] \<Longrightarrow> joined (w # ws) = w @ CHR '' '' # joined ws"
  by (cases ws) (auto simp: joined_def)

lemma joined_append: "ws \<noteq> [] \<Longrightarrow> joined (ws @ vs) = joined ws @ concat (map (\<lambda>v. CHR '' '' # v) vs)"
proof (induction ws)
  case (Cons w ws)
  show ?case
  proof (cases "ws = []")
    case True
    then show ?thesis
    proof (induction vs arbitrary: w ws)
      case (Cons v vs)
      then show ?case using Cons.IH [of "[]" v] by (simp add: joined_def)
    qed (simp add: joined_def)
  next
    case False
    then show ?thesis using Cons by (simp add: joined_Cons)
  qed
qed simp

lemma trim_edges:
  assumes "s \<noteq> []" "\<not> is_space (hd s)" "\<not> is_space (last s)"
  shows "trim s = s" "trim ('' '' @ s @ '' '') = s"
proof -
  obtain a t where s: "s = a # t" using assms(1) by (cases s) auto
  obtain u z where z: "s = u @ [z]" using assms(1) by (cases s rule: rev_cases) auto
  have az: "\<not> is_space a" "\<not> is_space z" using assms s z by (simp_all, metis last_snoc z)
  have l: "ltrim s = s" using az(1) by (simp add: ltrim_def s)
  have r: "rtrim s = s" using az(2) by (simp add: rtrim_def z)
  show "trim s = s" by (simp add: trim_def l r)
  have "ltrim ('' '' @ s @ '' '') = s @ '' ''" using az(1) space_is_space by (simp add: ltrim_def s)
  moreover have "rtrim (s @ '' '') = s" using az(2) space_is_space by (simp add: rtrim_def z)
  moreover have "rtrim ('' '' @ s @ '' '') = '' '' @ s" using az(2) space_is_space by (simp add: rtrim_def z)
  moreover have "ltrim ('' '' @ s) = s" using az(1) space_is_space by (simp add: ltrim_def s)
  ultimately show "trim ('' '' @ s @ '' '') = s" by (simp add: trim_def)
qed

lemma joined_edges:
  assumes "list_all word ws" "ws \<noteq> []"
  shows "joined ws \<noteq> []" "\<not> is_space (hd (joined ws))" "\<not> is_space (last (joined ws))"
proof -
  have edges: "w \<noteq> [] \<and> \<not> is_space (hd w) \<and> \<not> is_space (last w)" if "word w" for w
    using that by (auto simp: word_def list_all_iff)
  have "list_all word ws \<Longrightarrow> ws \<noteq> [] \<Longrightarrow> joined ws \<noteq> [] \<and> \<not> is_space (hd (joined ws)) \<and> \<not> is_space (last (joined ws))"
  proof (induction ws)
    case (Cons w ws)
    then show ?case using edges [of w] by (cases "ws = []") (simp_all add: joined_Cons, simp add: joined_def)
  qed simp
  then show "joined ws \<noteq> []" "\<not> is_space (hd (joined ws))" "\<not> is_space (last (joined ws))" using assms by auto
qed

lemma trim_spaced: "list_all word ws \<Longrightarrow> trim (spaced ws) = joined ws"
proof (cases "ws = []")
  case True
  have "trim '' '' = []" by code_simp
  then show ?thesis using True by (simp add: joined_def)
next
  case False
  assume "list_all word ws"
  from trim_edges(2) [OF joined_edges [OF this False]] show ?thesis
    by (simp add: padded_spaced [OF False, symmetric] padded_def)
qed

lemma add_loop:
  "(\<And>c. c \<in> set cs \<Longrightarrow> word c) \<Longrightarrow> list_all word ws \<Longrightarrow> ws \<noteq> [] \<Longrightarrow>
   foldl (\<lambda>setClass c. if indexOf (padded (joined ws)) (padded c) 0 < 0 then setClass @ '' '' @ c else setClass) s cs
     = s @ concat (map (\<lambda>c. CHR '' '' # c) (filter (\<lambda>c. c \<notin> set ws) cs))"
proof (induction cs arbitrary: s)
  case (Cons c cs)
  have "indexOf (padded (joined ws)) (padded c) 0 < 0 \<longleftrightarrow> c \<notin> set ws"
    using contains_spaced [of c ws] Cons.prems by (simp add: indexOf_contains padded_spaced)
  then show ?case using Cons by simp
qed simp

lemma addClass_words:
  assumes "list_all word cs" "cs \<noteq> []" "list_all word ws" "ws \<noteq> []"
  shows "addClass (joined cs) (joined ws) = joined (ws @ filter (\<lambda>c. c \<notin> set ws) cs)"
proof -
  let ?vs = "ws @ filter (\<lambda>c. c \<notin> set ws) cs"
  have ne: "joined cs \<noteq> []" "joined ws \<noteq> []" using joined_edges(1) assms by auto
  have w: "list_all word ?vs" using assms by (auto simp: list_all_iff)
  have "foldl (\<lambda>setClass c. if indexOf (padded (joined ws)) (padded c) 0 < 0 then setClass @ '' '' @ c else setClass) (joined ws) cs
     = joined ?vs" using add_loop [of cs ws "joined ws"] assms by (simp add: joined_append list_all_iff)
  moreover have "trim (joined ?vs) = joined ?vs" by (rule trim_edges(1)) (use joined_edges [OF w] assms(4) in auto)
  ultimately show ?thesis using ne assms by (simp add: addClass_def class_names_joined)
qed

lemma remove_loop:
  "list_all word cs \<Longrightarrow> list_all word ws \<Longrightarrow>
   foldl (\<lambda>s c. replace_first (padded c) '' '' s) (spaced ws) cs = spaced (foldl (\<lambda>vs c. remove1 c vs) ws cs)"
proof (induction cs arbitrary: ws)
  case (Cons c cs)
  have "list_all word (remove1 c ws)" using Cons.prems by (auto simp: list_all_iff dest: in_set_remove1 [THEN iffD1, rotated] notin_set_remove1)
  then show ?case using Cons by (simp add: replace_spaced)
qed simp

lemma remove_all_words: "list_all word ws \<Longrightarrow> list_all word (foldl (\<lambda>vs c. remove1 c vs) ws cs)"
proof (induction cs arbitrary: ws)
  case (Cons c cs)
  have "list_all word (remove1 c ws)" using Cons.prems set_remove1_subset [of c ws] by (auto simp: list_all_iff)
  then show ?case using Cons.IH by simp
qed simp

lemma removeClass_words:
  assumes "list_all word cs" "cs \<noteq> []" "list_all word ws"
  shows "removeClass (Some (joined cs)) (joined ws) = joined (foldl (\<lambda>vs c. remove1 c vs) ws cs)"
proof (cases "ws = []")
  case True
  have "foldl (\<lambda>vs c. remove1 c vs) [] cs = []" by (induction cs) auto
  then show ?thesis using True by (simp add: removeClass_def joined_def)
next
  case False
  have ne: "joined cs \<noteq> []" "joined ws \<noteq> []" using joined_edges(1) assms False by auto
  show ?thesis using assms ne False remove_loop [OF assms(1,3)] trim_spaced [OF remove_all_words [OF assms(3)]]
    by (simp add: removeClass_def class_names_joined padded_spaced blank_breaks_spaced)
qed

lemma remove_distinct: "distinct ws \<Longrightarrow> foldl (\<lambda>vs c. remove1 c vs) ws cs = filter (\<lambda>w. w \<notin> set cs) ws"
proof (induction cs arbitrary: ws)
  case (Cons c cs)
  then have "foldl (\<lambda>vs c. remove1 c vs) (remove1 c ws) cs = filter (\<lambda>w. w \<notin> set cs) (remove1 c ws)" by simp
  then show ?case using Cons.prems by (auto simp: distinct_remove1_removeAll removeAll_filter_not_eq intro!: filter_cong)
qed simp

lemma hasClass_words:
  assumes "word c" "list_all word ws" "ws \<noteq> []"
  shows "hasClass c [joined ws] \<longleftrightarrow> c \<in> set ws"
proof -
  have "indexOf (spaced ws) (padded c) 0 > -1 \<longleftrightarrow> \<not> indexOf (spaced ws) (padded c) 0 < 0" by auto
  then show ?thesis using assms contains_spaced [OF assms(1,2)]
    by (simp add: hasClass_def padded_spaced blank_breaks_spaced indexOf_contains)
qed

text \<open>
  On class names that are distinct words with single blanks between them, \<open>addClass\<close> appends exactly
  the names not yet there, \<open>removeClass\<close> takes exactly the given ones out, keeping the order, and
  \<open>hasClass\<close> tells what is in the list.
\<close>

theorem class_names_as_list:
  assumes "list_all word cs" "cs \<noteq> []" "list_all word ws" "ws \<noteq> []" "distinct ws" "word c"
  shows "addClass (joined cs) (joined ws) = joined (ws @ filter (\<lambda>c. c \<notin> set ws) cs)
    \<and> removeClass (Some (joined cs)) (joined ws) = joined (filter (\<lambda>w. w \<notin> set cs) ws)
    \<and> hasClass c [joined ws] = (c \<in> set ws)"
  using addClass_words [OF assms(1-4)] removeClass_words [OF assms(1-3)] remove_distinct [OF assms(5), of cs]
    hasClass_words [OF assms(6,3,4)] by simp

theorem class_names_as_list_witness:
  "addClass ''b c'' ''a b'' = ''a b c'' \<and> removeClass (Some ''b c'') ''a b'' = ''a'' \<and> \<not> hasClass ''c'' [''a b'']"
proof -
  have "list_all word [''b'', ''c'']" "list_all word [''a'', ''b'']" "word ''c''" by code_simp+
  from class_names_as_list [OF this(1) _ this(2) _ _ this(3)] show ?thesis by (simp add: joined_def)
qed

text \<open>
  \<open>addClass\<close> adds a name twice when it is given twice, and \<open>removeClass\<close> then takes only one away: the
  element still has the class.
\<close>

theorem removed_class_remains:
  "hasClass ''a'' [removeClass (Some ''a'') (addClass ''a a'' ''x'')]"
  by code_simp

text \<open>A blank before the names makes \<open>toggleClass\<close> do nothing.\<close>

theorem toggle_leading_blank:
  "toggleClass '' a'' state className = className"
proof -
  have "class_names '' a'' = [[], ''a'']" by code_simp
  then show ?thesis by (simp add: toggleClass_def)
qed

section \<open>extend along paths\<close>

text \<open>What an object has at a path of names.\<close>

fun at_path :: "string list \<Rightarrow> tree \<Rightarrow> tree option" where
  "at_path [] t = Some t"
| "at_path (k # ks) t = (case t of Obj ps \<Rightarrow> (case hash_get k ps of Some v \<Rightarrow> at_path ks v | None \<Rightarrow> None) | _ \<Rightarrow> None)"

lemma hash_get_Cons: "hash_get n ((m, v) # ps) = (if n = m then Some v else hash_get n ps)"
  by (auto simp: hash_get_def)

text \<open>One property of the result, when the source names each property once.\<close>

lemma extend_props_get:
  "distinct (map fst ps) \<Longrightarrow> hash_get k (extend_props deep target ps) =
    (case hash_get k ps of None \<Rightarrow> hash_get k target
     | Some v \<Rightarrow> (case copied deep (hash_get k target) v of Some w \<Rightarrow> Some w | None \<Rightarrow> hash_get k target))"
proof (induction ps arbitrary: target)
  case Nil
  then show ?case by (simp add: hash_get_def)
next
  case (Cons p ps)
  obtain n v where p: "p = (n, v)" by (rule prod.exhaust)
  have absent: "hash_get n ps = None" using Cons.prems p by (auto simp: hash_get_def map_of_eq_None_iff)
  show ?case using Cons absent p
    by (cases "copied deep (hash_get n target) v") (auto simp: hash_get_Cons hash_get_set split: option.split)
qed

text \<open>Objects all through, with no \<open>undefined\<close> and no repeated names.\<close>

fun clean_tree :: "tree \<Rightarrow> bool" where
  "clean_tree Undef = False"
| "clean_tree Nul = True"
| "clean_tree (Leaf n) = True"
| "clean_tree (Arr vs) = True"
| "clean_tree (Obj ps) = (distinct (map fst ps) \<and> list_all (\<lambda>p. clean_tree (snd p)) ps)"

lemma copied_clean: "clean_tree v \<Longrightarrow> copied deep src v \<noteq> None"
  by (cases v) auto

lemma clean_member: "clean_tree (Obj ps) \<Longrightarrow> hash_get k ps = Some v \<Longrightarrow> clean_tree v"
  by (auto simp: hash_get_def list_all_iff dest!: map_of_SomeD)

text \<open>A value that is no object or array, and a path that leaves a tree at one of its names.\<close>

fun simple :: "tree \<Rightarrow> bool" where
  "simple Nul = True"
| "simple (Leaf n) = True"
| "simple _ = False"

fun leaves :: "string list \<Rightarrow> tree \<Rightarrow> bool" where
  "leaves [] t = False"
| "leaves (k # ks) t = (case t of Obj ps \<Rightarrow> (case hash_get k ps of None \<Rightarrow> True | Some v \<Rightarrow> leaves ks v) | _ \<Rightarrow> False)"

lemma copied_simple: "simple v \<Longrightarrow> copied deep src v = Some v"
  by (cases v) simp_all

lemma extend_keeps_source:
  "clean_tree (Obj ps) \<Longrightarrow> ks \<noteq> [] \<Longrightarrow> at_path ks (Obj ps) = Some v \<Longrightarrow> simple v
   \<Longrightarrow> at_path ks (Obj (extend_props True target ps)) = Some v"
proof (induction ks arbitrary: ps target)
  case (Cons k ks)
  then obtain w where w: "hash_get k ps = Some w" "at_path ks w = Some v" by (auto split: option.splits)
  have d: "distinct (map fst ps)" using Cons.prems(1) by simp
  note get = extend_props_get [OF d, of k True target]
  show ?case
  proof (cases "ks = []")
    case True
    then show ?thesis using w get copied_simple [OF Cons.prems(4)] by simp
  next
    case False
    then obtain qs where qs: "w = Obj qs" using w(2) by (cases ks; cases w) auto
    have "clean_tree (Obj qs)" using clean_member [OF Cons.prems(1) w(1)] qs by simp
    from Cons.IH [OF this False w(2) [unfolded qs] Cons.prems(4)] show ?thesis using w get qs by simp
  qed
qed simp

lemma extend_keeps_target:
  "clean_tree (Obj ps) \<Longrightarrow> leaves ks (Obj ps) \<Longrightarrow> at_path ks (Obj target) = Some v
   \<Longrightarrow> at_path ks (Obj (extend_props True target ps)) = Some v"
proof (induction ks arbitrary: ps target)
  case (Cons k ks)
  have d: "distinct (map fst ps)" using Cons.prems(1) by simp
  note get = extend_props_get [OF d, of k True target]
  obtain u where u: "hash_get k target = Some u" "at_path ks u = Some v" using Cons.prems(3) by (auto split: option.splits)
  show ?case
  proof (cases "hash_get k ps")
    case None
    then show ?thesis using get u by simp
  next
    case (Some w)
    then have l: "leaves ks w" using Cons.prems(2) by simp
    then obtain qs where qs: "w = Obj qs" by (cases ks; cases w) auto
    obtain us where us: "u = Obj us" using u(2) l by (cases ks; cases u) auto
    have "clean_tree (Obj qs)" using clean_member [OF Cons.prems(1) Some] qs by simp
    from Cons.IH [OF this, of us] l u(2) qs us show ?thesis using Some u(1) get by simp
  qed
qed simp

text \<open>
  A deep \<open>extend\<close> is an overriding union along paths: a simple value the source has at a path is in
  the result at that path; and what the target has at a path that leaves the source at one of its
  names is still there.
\<close>

theorem deep_extend_paths:
  assumes "clean_tree (Obj ps)"
    and "(ks \<noteq> [] \<and> at_path ks (Obj ps) = Some v \<and> simple v) \<or> (leaves ks (Obj ps) \<and> at_path ks (Obj target) = Some v)"
  shows "at_path ks (Obj (jq_extend True target [Some ps])) = Some v"
  using assms extend_keeps_source [of ps ks v target] extend_keeps_target [of ps ks target v]
  by (auto simp: jq_extend_def)

theorem deep_extend_paths_witness:
  "at_path [''a'', ''x''] (Obj (jq_extend True [(''a'', Obj [(''y'', Leaf 1)])] [Some [(''a'', Obj [(''x'', Leaf 2)])]])) = Some (Leaf 2)"
  by (rule deep_extend_paths) (simp_all add: hash_get_def)

section \<open>Sets of elements\<close>

text \<open>
  \<open>eq\<close> picks the same element as \<open>get\<close>, from the front or, with a negative index, from the back, and
  nothing when there is none; \<open>end\<close> gives the set it was picked from.
\<close>

theorem eq_picks_get:
  "elements (jq_eq i s) = (case jq_get i s of Some x \<Rightarrow> [x] | None \<Rightarrow> []) \<and> jq_end (jq_eq i s) = s"
proof -
  have e: "jq_end (jq_eq i s) = s"
    by (simp add: jq_eq_def jq_slice_def jq_slice_from_def pushStack_def jq_end_def)
  define xs where "xs = elements s"
  define n where "n = int (length xs)"
  have one: "take 1 (drop k xs) = (case aref xs k of Some x \<Rightarrow> [x] | None \<Rightarrow> [])" for k
    by (cases "k < length xs") (simp_all add: aref_def Cons_nth_drop_Suc [symmetric])
  have n: "0 \<le> n" by (simp add: n_def)
  let ?cut = "elements (jq_eq i s)"
  consider "0 \<le> i" | "i = -1" | "i < -1" by linarith
  then have "?cut = (case jq_get i s of Some x \<Rightarrow> [x] | None \<Rightarrow> [])"
  proof cases
    case 1
    have "nat (i + 1) - nat i = Suc 0" using 1 by (simp add: nat_add_distrib)
    then have "?cut = (if i < n then take 1 (drop (nat i) xs) else [])"
      using 1 by (auto simp: jq_eq_def jq_slice_def pushStack_def slice_def Let_def xs_def n_def nat_diff_distrib min_def)
    moreover have "jq_get i s = aref xs (nat i)" using 1 by (simp add: jq_get_def xs_def)
    moreover have "\<not> i < n \<Longrightarrow> aref xs (nat i) = None" by (simp add: aref_def n_def)
    ultimately show ?thesis using one by simp
  next
    case 2
    have "?cut = (if n = 0 then [] else take 1 (drop (nat (n - 1)) xs))"
      using 2 n by (auto simp: jq_eq_def jq_slice_from_def pushStack_def slice_def Let_def xs_def n_def max_def)
    moreover have "jq_get i s = (if n = 0 then None else aref xs (nat (n - 1)))"
      using 2 by (simp add: jq_get_def xs_def n_def)
    ultimately show ?thesis using one by simp
  next
    case 3
    have "?cut = (if n + i < 0 then [] else take 1 (drop (nat (n + i)) xs))"
      using 3 n by (auto simp: jq_eq_def jq_slice_def pushStack_def slice_def Let_def xs_def n_def max_def)
    moreover have "jq_get i s = (if n + i < 0 then None else aref xs (nat (n + i)))"
      using 3 by (simp add: jq_get_def xs_def n_def Let_def)
    ultimately show ?thesis using one by simp
  qed
  then show ?thesis using e by simp
qed

section \<open>Arrays\<close>

lemma grep_loop_filter: "jq_grep_loop (\<lambda>x i. p x) inverted xs i = filter (\<lambda>x. inverted \<noteq> p x) xs"
  by (induction xs arbitrary: i) auto

lemma map_loop_values: "concat (map flat (jq_map_loop (\<lambda>x i. f x) xs i)) = concat (map (\<lambda>x. flat (f x)) xs)"
  by (induction xs arbitrary: i) (auto split: mapped.split)

lemma inArray_loop_index:
  "inArray_loop x xs i = (if x \<in> set xs then int (i + length (takeWhile (\<lambda>y. y \<noteq> x) xs)) else -1)"
  by (induction xs arbitrary: i) auto

lemma each_loop_until:
  "jq_each_loop (\<lambda>i x seen. (\<not> stop x, seen @ [x])) xs i seen
    = seen @ takeWhile (\<lambda>x. \<not> stop x) xs @ take 1 (dropWhile (\<lambda>x. \<not> stop x) xs)"
  by (induction xs arbitrary: i seen) auto

text \<open>
  The array functions are the list functions they stand for: \<open>grep\<close> filters (or filters out), \<open>map\<close>
  drops \<open>null\<close> and flattens one level, \<open>inArray\<close> is the position of the first equal element, and \<open>each\<close>
  visits the elements up to the first for which the callback returns \<open>false\<close>.
\<close>

theorem jq_arrays_reference:
  "jq_grep xs (\<lambda>x i. p x) inverted = filter (\<lambda>x. inverted \<noteq> p x) xs
   \<and> jq_map xs (\<lambda>x i. f x) = concat (map (\<lambda>x. flat (f x)) xs)
   \<and> inArray a xs = (if a \<in> set xs then int (length (takeWhile (\<lambda>y. y \<noteq> a) xs)) else -1)
   \<and> jq_each xs (\<lambda>i x seen. (\<not> stop x, seen @ [x])) [] = takeWhile (\<lambda>x. \<not> stop x) xs @ take 1 (dropWhile (\<lambda>x. \<not> stop x) xs)"
  by (simp add: jq_grep_def grep_loop_filter jq_map_def map_loop_values inArray_def inArray_loop_index jq_each_def each_loop_until)

end
