(* ===== verification/JqData.thy ===== *)
theory JqData
  imports QueryString JsValue
begin

text \<open>
  The data \<open>jquery.js\<close> keeps for elements (\<open>jQuery.data\<close>, \<open>_data\<close>, \<open>removeData\<close>, \<open>hasData\<close>): an identifier
  data_at on the element leads to an entry of a global cache, which holds the user's data and, in an
  object of its own inside it, the library's internal data.  Elements are nodes; plain objects, whose
  entry is kept on themselves, and elements that accept no data are told apart by an argument.
\<close>

section \<open>The cache\<close>

record cache_entry =
  user_data :: "js_value object"
  internal_data :: "js_value object option"

record jq_cache =
  uuid :: nat
  expando :: "nat \<Rightarrow> nat option"
  cache :: "nat \<Rightarrow> cache_entry option"

definition empty_cache :: jq_cache where
  "empty_cache = \<lparr>uuid = 0, expando = (\<lambda>e. None), cache = (\<lambda>i. None)\<rparr>"

datatype data_name = Whole | Key string | Pairs "js_value object"

datatype data_result = No_data | Data_value js_value | Data_object cache_entry | Internal_object "js_value object"

definition isEmptyDataObject :: "js_value object \<Rightarrow> bool" where
  "isEmptyDataObject obj \<longleftrightarrow> list_all (\<lambda>p. fst p = ''toJSON'') obj"

text \<open>The entry of an element, made with a new identifier when there is none.\<close>

definition entry_for :: "nat \<Rightarrow> jq_cache \<Rightarrow> nat \<times> jq_cache" where
  "entry_for e st =
     (let st1 = (case expando st e of Some i \<Rightarrow> st
          | None \<Rightarrow> st\<lparr>uuid := uuid st + 1, expando := (expando st)(e := Some (uuid st + 1))\<rparr>);
          i = the (expando st1 e)
      in (i, if cache st1 i = None then st1\<lparr>cache := (cache st1)(i := Some \<lparr>user_data = [], internal_data = None\<rparr>)\<rparr> else st1))"

definition put_part :: "bool \<Rightarrow> (js_value object \<Rightarrow> js_value object) \<Rightarrow> cache_entry \<Rightarrow> cache_entry" where
  "put_part pvt f en =
     (if pvt then en\<lparr>internal_data := Some (f (case internal_data en of Some o' \<Rightarrow> o' | None \<Rightarrow> []))\<rparr>
      else en\<lparr>user_data := f (user_data en)\<rparr>)"

text \<open>What is read: an undocumented way to the internal events stays open under the name \<open>events\<close>.\<close>

definition read_data :: "data_name \<Rightarrow> bool \<Rightarrow> cache_entry \<Rightarrow> data_result" where
  "read_data name pvt en =
     (let here = (if pvt then (case internal_data en of Some o' \<Rightarrow> o' | None \<Rightarrow> []) else user_data en);
          value_of = (\<lambda>obj k. case hash_get k obj of Some v \<Rightarrow> Data_value v | None \<Rightarrow> No_data)
      in case name of
           Key k \<Rightarrow>
             if k = ''events'' \<and> (case hash_get k here of Some v \<Rightarrow> \<not> truthy v | None \<Rightarrow> True)
             then (if pvt then No_data else (case internal_data en of Some o' \<Rightarrow> value_of o' ''events'' | None \<Rightarrow> No_data))
             else value_of here k
         | _ \<Rightarrow> if pvt then Internal_object here else Data_object en)"

definition jq_data :: "bool \<Rightarrow> nat \<Rightarrow> data_name \<Rightarrow> js_value option \<Rightarrow> bool \<Rightarrow> jq_cache \<Rightarrow> data_result \<times> jq_cache" where
  "jq_data accepts e name value pvt st =
     (if \<not> accepts then (No_data, st)
      else let data = (if value = Some Undefined then None else value);
               getByName = (case name of Key k \<Rightarrow> True | _ \<Rightarrow> False);
               lacks = (case expando st e of None \<Rightarrow> True
                 | Some i \<Rightarrow> pvt \<and> (case cache st i of Some en \<Rightarrow> internal_data en = None | None \<Rightarrow> True))
           in if lacks \<and> getByName \<and> data = None then (No_data, st)
              else case entry_for e st of (i, st1) \<Rightarrow>
                (let en0 = the (cache st1 i);
                     en1 = (case name of Pairs ps \<Rightarrow> put_part pvt (hash_update ps) en0 | _ \<Rightarrow> put_part pvt (\<lambda>obj. obj) en0);
                     en2 = (case (name, data) of (Key k, Some v) \<Rightarrow> put_part pvt (hash_set k v) en1 | _ \<Rightarrow> en1)
                 in (read_data name pvt en2, st1\<lparr>cache := (cache st1)(i := Some en2)\<rparr>)))"

text \<open>The element's entry goes, and with it the identifier on the element; internal data stay.\<close>

definition drop_entry :: "nat \<Rightarrow> nat \<Rightarrow> cache_entry \<Rightarrow> jq_cache \<Rightarrow> jq_cache" where
  "drop_entry e i en st =
     (case internal_data en of
        Some o' \<Rightarrow> st\<lparr>cache := (cache st)(i := Some \<lparr>user_data = [], internal_data = Some o'\<rparr>)\<rparr>
      | None \<Rightarrow> st\<lparr>cache := (cache st)(i := None), expando := (expando st)(e := None)\<rparr>)"

definition removeData :: "bool \<Rightarrow> nat \<Rightarrow> string option \<Rightarrow> bool \<Rightarrow> jq_cache \<Rightarrow> jq_cache" where
  "removeData accepts e name pvt st =
     (if \<not> accepts then st
      else case expando st e of None \<Rightarrow> st
        | Some i \<Rightarrow>
            (case cache st i of None \<Rightarrow> st
             | Some en \<Rightarrow>
                 (let k = (case name of Some k \<Rightarrow> k | None \<Rightarrow> []); named = (k \<noteq> []);
                      en1 = (if \<not> named then en
                             else if pvt then en\<lparr>internal_data := map_option (\<lambda>obj. snd (hash_unset k obj)) (internal_data en)\<rparr>
                             else en\<lparr>user_data := snd (hash_unset k (user_data en))\<rparr>);
                      st1 = st\<lparr>cache := (cache st)(i := Some en1)\<rparr>;
                      left_in_part = named \<and> (if pvt then (case internal_data en1 of Some obj \<Rightarrow> \<not> isEmptyDataObject obj | None \<Rightarrow> False)
                        else \<not> (isEmptyDataObject (user_data en1) \<and> internal_data en1 = None));
                      en2 = (if pvt then en1\<lparr>internal_data := None\<rparr> else en1)
                  in if left_in_part then st1
                     else if pvt \<and> \<not> isEmptyDataObject (user_data en2)
                     then st\<lparr>cache := (cache st)(i := Some en2)\<rparr>
                     else drop_entry e i en2 st)))"

definition hasData :: "nat \<Rightarrow> jq_cache \<Rightarrow> bool" where
  "hasData e st =
     (case expando st e of None \<Rightarrow> False
      | Some i \<Rightarrow> (case cache st i of None \<Rightarrow> False
          | Some en \<Rightarrow> \<not> (isEmptyDataObject (user_data en) \<and> internal_data en = None)))"

text \<open>
  A value found in the attribute \<open>data-key\<close> of an element is read as a constant, a number (\<open>number\<close>
  is \<open>parseFloat\<close> where the text is one) or JSON, stays a string when the parser throws, and is kept.
\<close>

definition braced :: "string \<Rightarrow> bool" where
  "braced s \<longleftrightarrow> s \<noteq> [] \<and> list_all (\<lambda>c. c \<noteq> CHR 0x0A \<and> c \<noteq> CHR 0x0D) s \<and> (hd s = CHR ''{'' \<and> last s = CHR ''}'' \<or> hd s = CHR ''['' \<and> last s = CHR '']'') \<and> 2 \<le> length s"

definition dataAttr :: "(string \<Rightarrow> js_value option) \<Rightarrow> (string \<Rightarrow> js_value option) \<Rightarrow> string option \<Rightarrow> nat \<Rightarrow> string \<Rightarrow> js_value option
    \<Rightarrow> jq_cache \<Rightarrow> js_value option \<times> jq_cache" where
  "dataAttr number json attribute e key data st =
     (case (data, attribute) of
        (None, Some s) \<Rightarrow>
          (let v = (if s = ''true'' then Boolean True else if s = ''false'' then Boolean False
                else if s = ''null'' then Null
                else case number s of Some v \<Rightarrow> v
                  | None \<Rightarrow> if braced s then (case json s of Some v \<Rightarrow> v | None \<Rightarrow> String s) else String s)
           in (Some v, snd (jq_data True e (Key key) (Some v) False st)))
      | _ \<Rightarrow> (data, st))"

section \<open>The two maps an element has\<close>

definition data_at :: "jq_cache \<Rightarrow> nat \<Rightarrow> bool \<Rightarrow> string \<Rightarrow> js_value option" where
  "data_at st e pvt k =
     (case expando st e of None \<Rightarrow> None
      | Some i \<Rightarrow> (case cache st i of None \<Rightarrow> None
          | Some en \<Rightarrow> hash_get k (if pvt then (case internal_data en of Some obj \<Rightarrow> obj | None \<Rightarrow> []) else user_data en)))"

text \<open>
  Identifiers are not shared and not larger than the counter, and lead to entries; no data is called
  \<open>toJSON\<close>, a name the emptiness tests skip.
\<close>

definition cache_ok :: "jq_cache \<Rightarrow> bool" where
  "cache_ok st \<longleftrightarrow>
     (\<forall>e i. expando st e = Some i \<longrightarrow> i \<le> uuid st \<and> cache st i \<noteq> None)
     \<and> (\<forall>e e' i. expando st e = Some i \<longrightarrow> expando st e' = Some i \<longrightarrow> e = e')
     \<and> (\<forall>i en. cache st i = Some en \<longrightarrow> i \<le> uuid st \<and> \<not> own ''toJSON'' (user_data en)
          \<and> (\<forall>obj. internal_data en = Some obj \<longrightarrow> \<not> own ''toJSON'' obj))"







lemma get_Nil [simp]: "hash_get k [] = None"
  by (simp add: hash_get_def)

lemma cache_okD:
  assumes "cache_ok st"
  shows "expando st e = Some i \<Longrightarrow> i \<le> uuid st" "expando st e = Some i \<Longrightarrow> cache st i \<noteq> None"
    "expando st e = Some i \<Longrightarrow> expando st e' = Some i \<Longrightarrow> e = e'"
    "cache st i = Some en \<Longrightarrow> i \<le> uuid st" "cache st i = Some en \<Longrightarrow> \<not> own ''toJSON'' (user_data en)"
    "cache st i = Some en \<Longrightarrow> internal_data en = Some obj \<Longrightarrow> \<not> own ''toJSON'' obj"
  using assms unfolding cache_ok_def by blast+


text \<open>Replacing the entry of an element.\<close>

definition entry_part :: "bool \<Rightarrow> cache_entry \<Rightarrow> js_value object" where
  "entry_part pvt en = (if pvt then (case internal_data en of Some obj \<Rightarrow> obj | None \<Rightarrow> []) else user_data en)"


lemma part_put [simp]:
  "entry_part p (put_part pvt f en) = (if p = pvt then f (entry_part pvt en) else entry_part p en)"
  by (simp add: entry_part_def put_part_def split: option.split)












section \<open>Sequences of operations\<close>







lemma empty_cache_facts: "cache_ok empty_cache" "data_at empty_cache = (\<lambda>e p k. None)"
  by (simp_all add: cache_ok_def empty_cache_def data_at_def fun_eq_iff)



text \<open>
  An element's identifier goes with the last of its data: after the removal of the only name, the element has no
  entry left in the global cache, so nothing is kept for elements whose data were removed.
\<close>

theorem last_data_frees_entry:
  assumes "cache_ok st" and "expando st e = None" and "k \<noteq> []" and "k \<noteq> ''toJSON''" and "v \<noteq> Undefined"
  shows "expando (removeData True e (Some k) pvt (snd (jq_data True e (Key k) (Some v) pvt st))) = expando st
    \<and> cache (removeData True e (Some k) pvt (snd (jq_data True e (Key k) (Some v) pvt st))) = cache st"
proof -
  have fresh: "cache st (uuid st + 1) = None"
    using cache_okD(4) [OF assms(1), of "uuid st + 1"] by (cases "cache st (uuid st + 1)") simp_all
  show ?thesis
    using assms(2-5) fresh
    by (cases pvt) (auto simp: jq_data_def entry_for_def Let_def put_part_def removeData_def drop_entry_def
        isEmptyDataObject_def hash_unset_def fun_eq_iff)
qed

theorem last_data_frees_entry_witness:
  "expando (removeData True 1 (Some ''a'') True (snd (jq_data True 1 (Key ''a'') (Some Null) True empty_cache))) 1 = None"
  using last_data_frees_entry [OF empty_cache_facts(1), of 1 "''a''" Null True] by (simp add: empty_cache_def)

end
