(* ===== verification/DragDrop.thy ===== *)
theory DragDrop
  imports Prelude Complex_Main
begin

text \<open>
  Dragging and dropping, \<open>dragdrop.js\<close>: the places things can be dropped on (\<open>Droppables\<close>), the register of
  things that can be dragged (\<open>Draggables\<close>) and the draggable things themselves (\<open>Draggable\<close>), as one state
  changed by the events of the page.  Elements are numbers.  What the page looks like when an event arrives
  is a record given with the event.  Callbacks of the client are recorded, and do not act on the state.
\<close>

section \<open>The page\<close>

type_synonym place = "int \<times> int"

text \<open>
  \<open>ancestors\<close> is the chain of \<open>parentNode\<close> from the inside out; \<open>box\<close> gives offset and size; \<open>layout\<close> is the
  cumulative offset of a positioned element with the given \<open>left\<close> and \<open>top\<close>; \<open>absolutized\<close> and \<open>relativized\<close> are
  the \<open>left\<close> and \<open>top\<close> that \<open>Position.absolutize\<close> and \<open>Position.relativize\<close> write.
\<close>

record drag_page =
  ancestors :: "nat \<Rightarrow> nat list"
  treeNode :: "nat \<Rightarrow> nat option"
  className :: "nat \<Rightarrow> string list"
  element_text :: "nat \<Rightarrow> string"
  box :: "nat \<Rightarrow> place \<times> place"
  layout :: "nat \<Rightarrow> rat \<times> rat \<Rightarrow> place"
  realOffset :: "nat \<Rightarrow> place"
  position_delta :: place
  page_position :: "nat \<Rightarrow> place"
  absolutized :: "nat \<Rightarrow> rat \<times> rat"
  relativized :: "nat \<Rightarrow> rat \<times> rat"
  is_absolute :: "nat \<Rightarrow> bool"
  window_size :: place
  scroll_size :: "nat \<Rightarrow> place"
  settle :: "rat \<Rightarrow> int"
  now :: int

text \<open>\<open>Element.isParent(child, element)\<close>, climbing from the child.\<close>

fun climb :: "nat \<Rightarrow> nat list \<Rightarrow> nat \<Rightarrow> bool" where
  "climb child [] element = False"
| "climb child (p # ps) element = (if child = element then False else if p = element then True else climb p ps element)"

definition isParent :: "drag_page \<Rightarrow> nat \<Rightarrow> nat \<Rightarrow> bool" where
  "isParent pg child element = climb child (ancestors pg child) element"

definition position_within :: "drag_page \<Rightarrow> nat \<Rightarrow> place option \<Rightarrow> bool" where
  "position_within pg e pt = (case (pt, box pg e) of
     (Some (x, y), ((l, t), (w, h))) \<Rightarrow> t \<le> y \<and> y < t + h \<and> l \<le> x \<and> x < l + w
   | _ \<Rightarrow> False)"

datatype drag_axis = Vertical | Horizontal

text \<open>\<open>Position.overlap\<close>: how much of the element lies behind the point, after \<open>Position.within\<close> for the same element.\<close>

definition position_overlap :: "drag_page \<Rightarrow> drag_axis option \<Rightarrow> nat \<Rightarrow> place \<Rightarrow> rat" where
  "position_overlap pg mode e pt = (case (mode, pt, box pg e) of
     (None, _, _) \<Rightarrow> 0
   | (Some Vertical, (x, y), ((l, t), (w, h))) \<Rightarrow> of_int (t + h - y) / of_int h
   | (Some Horizontal, (x, y), ((l, t), (w, h))) \<Rightarrow> of_int (l + w - x) / of_int w)"

section \<open>State\<close>

record droppable =
  drop_id :: nat
  drop_element :: nat
  accept :: "string list option"
  containers :: "nat list option"
  drop_tree :: bool
  hoverclass :: "string option"
  drop_overlap :: "drag_axis option"
  has_onHover :: bool
  has_onDrop :: bool

datatype notification = OnStart | OnEnd | OnDrag

record drag_observer =
  observer_element :: nat
  handles :: "notification \<Rightarrow> bool"

datatype revert = No_revert | Do_revert | On_failure

datatype drag_effect = No_effect | Default_effect | Client_effect

datatype scroller = No_scroll | Window_scroll | Element_scroll nat

datatype snap = No_snap | Snap_both int | Snap_each int int | Snap_call "rat \<Rightarrow> rat \<Rightarrow> rat \<times> rat"

text \<open>The options of a draggable, a scrolling element among them being given by its id; \<open>revert\<close> is asked with the element, a constant where the client gave no function.\<close>

record drag_options =
  reverteffect :: drag_effect
  starteffect :: drag_effect
  endeffect :: drag_effect
  revert_of :: "nat \<Rightarrow> revert"
  zindex :: int
  quiet :: bool
  ghosting :: bool
  scroll_option :: scroller
  scrollSensitivity :: int
  scrollSpeed :: int
  snap_option :: snap
  constraint :: "drag_axis option"
  drag_delay :: nat
  has_change :: bool
  has_onDropped :: bool
  option_handles :: "notification \<Rightarrow> bool"

record draggable =
  element :: nat
  drag_opts :: drag_options
  mousedown_on :: bool
  dragging :: bool
  delta :: "place option"
  grip :: place
  originalZ :: "int option"
  originallyAbsolute :: bool
  cloned :: bool
  originalScroll :: place
  isScrollChild :: bool
  scrollInterval :: "(int \<times> int) option"
  lastScrolled :: int

datatype drag_note = Notified notification nat | Observer_called nat notification nat | Option_called notification nat
  | Hovered nat nat rat | Dropped nat nat | On_dropped nat | Changed nat
  | Class_added nat string | Class_removed nat string
  | Start_effect nat drag_effect | End_effect nat drag_effect | Revert_effect nat int int drag_effect

text \<open>
  \<open>flagged\<close> is \<open>Draggable._dragging\<close>, whose keys are elements turned into texts; \<open>scrolled\<close> are the scroll
  positions; \<open>timers\<close> are the delayed starts that have not run.
\<close>

record dragdrop =
  drops :: "droppable list"
  last_active :: "droppable option"
  next_drop :: nat
  drags :: "nat list"
  store :: "draggable list"
  activeDraggable :: "nat option"
  lastPointer :: "place option"
  lastScrollPointer :: "(rat \<times> rat) option"
  timeout :: "nat option"
  timers :: "(nat \<times> nat) list"
  next_timer :: nat
  drag_observers :: "drag_observer list"
  observer_count :: "notification \<Rightarrow> nat"
  listening :: bool
  flagged :: "string \<Rightarrow> bool"
  left_top :: "nat \<Rightarrow> rat \<times> rat"
  zIndex :: "nat \<Rightarrow> int option"
  hidden :: "nat \<Rightarrow> bool"
  scrolled :: "scroller \<Rightarrow> place"
  notes_made :: "drag_note list"

definition drag_start_state :: dragdrop where
  "drag_start_state = \<lparr>drops = [], last_active = None, next_drop = 0, drags = [], store = [], activeDraggable = None,
     lastPointer = None, lastScrollPointer = None, timeout = None, timers = [], next_timer = 0, drag_observers = [],
     observer_count = (\<lambda>n. 0), listening = False, flagged = (\<lambda>s. False), left_top = (\<lambda>e. (0, 0)),
     zIndex = (\<lambda>e. None), hidden = (\<lambda>e. False), scrolled = (\<lambda>s. (0, 0)), notes_made = []\<rparr>"

definition say :: "drag_note list \<Rightarrow> dragdrop \<Rightarrow> dragdrop" where
  "say ns st = st\<lparr>notes_made := notes_made st @ ns\<rparr>"

definition upd_drag :: "nat \<Rightarrow> (draggable \<Rightarrow> draggable) \<Rightarrow> dragdrop \<Rightarrow> dragdrop" where
  "upd_drag i f st = st\<lparr>store := (store st)[i := f (store st ! i)]\<rparr>"

section \<open>Droppables\<close>

definition Droppables_remove :: "nat \<Rightarrow> dragdrop \<Rightarrow> dragdrop" where
  "Droppables_remove e st = st\<lparr>drops := filter (\<lambda>d. drop_element d \<noteq> e) (drops st)\<rparr>"

definition Droppables_add :: "nat \<Rightarrow> droppable \<Rightarrow> dragdrop \<Rightarrow> dragdrop" where
  "Droppables_add e options st =
     st\<lparr>drops := drops st @ [options\<lparr>drop_element := e, drop_id := next_drop st\<rparr>], next_drop := next_drop st + 1\<rparr>"

fun findDeepestChild :: "drag_page \<Rightarrow> droppable \<Rightarrow> droppable list \<Rightarrow> droppable" where
  "findDeepestChild pg deepest [] = deepest"
| "findDeepestChild pg deepest (d # ds) =
     findDeepestChild pg (if isParent pg (drop_element d) (drop_element deepest) then d else deepest) ds"

definition isContained :: "drag_page \<Rightarrow> nat \<Rightarrow> droppable \<Rightarrow> nat list \<Rightarrow> bool" where
  "isContained pg e spot cs =
     (case (if drop_tree spot then treeNode pg e else (case ancestors pg e of [] \<Rightarrow> None | p # ps \<Rightarrow> Some p)) of
        None \<Rightarrow> False | Some n \<Rightarrow> n \<in> set cs)"

definition concerns :: "drag_page \<Rightarrow> nat \<Rightarrow> droppable \<Rightarrow> bool" where
  "concerns pg e spot \<longleftrightarrow>
     drop_element spot \<noteq> e
     \<and> (case containers spot of None \<Rightarrow> True | Some cs \<Rightarrow> isContained pg e spot cs)
     \<and> (case accept spot of None \<Rightarrow> True | Some as \<Rightarrow> list_ex (\<lambda>v. v \<in> set as) (className pg e))"

definition isAffected :: "drag_page \<Rightarrow> place option \<Rightarrow> nat \<Rightarrow> droppable \<Rightarrow> bool" where
  "isAffected pg pt e spot \<longleftrightarrow> concerns pg e spot \<and> position_within pg (drop_element spot) pt"

definition Droppables_deactivate :: "droppable \<Rightarrow> dragdrop \<Rightarrow> dragdrop" where
  "Droppables_deactivate d st =
     (say (case hoverclass d of None \<Rightarrow> [] | Some c \<Rightarrow> [Class_removed (drop_element d) c]) st)\<lparr>last_active := None\<rparr>"

definition Droppables_activate :: "droppable \<Rightarrow> dragdrop \<Rightarrow> dragdrop" where
  "Droppables_activate d st =
     (say (case hoverclass d of None \<Rightarrow> [] | Some c \<Rightarrow> [Class_added (drop_element d) c]) st)\<lparr>last_active := Some d\<rparr>"

definition Droppables_show :: "drag_page \<Rightarrow> place option \<Rightarrow> nat \<Rightarrow> dragdrop \<Rightarrow> dragdrop" where
  "Droppables_show pg pt e st =
     (if drops st = [] then st
      else let spot = (case filter (isAffected pg pt e) (drops st) of [] \<Rightarrow> None | d # ds \<Rightarrow> Some (findDeepestChild pg d ds));
               st1 = (case last_active st of None \<Rightarrow> st
                 | Some l \<Rightarrow> if map_option drop_id spot \<noteq> Some (drop_id l) then Droppables_deactivate l st else st)
           in case spot of None \<Rightarrow> st1
              | Some d \<Rightarrow>
                  (let st2 = (if has_onHover d
                       then say [Hovered e (drop_element d) (position_overlap pg (drop_overlap d) (drop_element d) (the pt))] st1 else st1)
                   in if map_option drop_id (last_active st2) \<noteq> Some (drop_id d) then Droppables_activate d st2 else st2))"

definition Droppables_fire :: "drag_page \<Rightarrow> place \<Rightarrow> nat \<Rightarrow> dragdrop \<Rightarrow> bool \<times> dragdrop" where
  "Droppables_fire pg pt e st =
     (case last_active st of None \<Rightarrow> (False, st)
      | Some d \<Rightarrow> if isAffected pg (Some pt) e d \<and> has_onDrop d then (True, say [Dropped e (drop_element d)] st) else (False, st))"

definition Droppables_reset :: "dragdrop \<Rightarrow> dragdrop" where
  "Droppables_reset st = (case last_active st of None \<Rightarrow> st | Some d \<Rightarrow> Droppables_deactivate d st)"

section \<open>Draggables\<close>

definition Draggables_register :: "nat \<Rightarrow> dragdrop \<Rightarrow> dragdrop" where
  "Draggables_register i st = (if drags st = [] then st\<lparr>listening := True\<rparr> else st)\<lparr>drags := drags st @ [i]\<rparr>"

definition Draggables_unregister :: "nat \<Rightarrow> dragdrop \<Rightarrow> dragdrop" where
  "Draggables_unregister i st =
     (let ds = filter (\<lambda>d. d \<noteq> i) (drags st)
      in if ds = [] then st\<lparr>drags := ds, listening := False\<rparr> else st\<lparr>drags := ds\<rparr>)"

definition Draggables_activate :: "nat \<Rightarrow> dragdrop \<Rightarrow> dragdrop" where
  "Draggables_activate i st =
     (if drag_delay (drag_opts (store st ! i)) > 0
      then st\<lparr>timeout := Some (next_timer st), timers := timers st @ [(next_timer st, i)], next_timer := next_timer st + 1\<rparr>
      else st\<lparr>activeDraggable := Some i\<rparr>)"

text \<open>The delayed start.\<close>

definition delayed_start :: "nat \<Rightarrow> dragdrop \<Rightarrow> dragdrop" where
  "delayed_start t st =
     (case map_of (timers st) t of None \<Rightarrow> st
      | Some i \<Rightarrow> st\<lparr>timers := filter (\<lambda>p. fst p \<noteq> t) (timers st), timeout := None, activeDraggable := Some i\<rparr>)"

definition Draggables_deactivate :: "dragdrop \<Rightarrow> dragdrop" where
  "Draggables_deactivate st = st\<lparr>activeDraggable := None\<rparr>"

definition cacheObserverCallbacks :: "dragdrop \<Rightarrow> dragdrop" where
  "cacheObserverCallbacks st = st\<lparr>observer_count := (\<lambda>n. length (filter (\<lambda>o'. handles o' n) (drag_observers st)))\<rparr>"

definition addObserver :: "drag_observer \<Rightarrow> dragdrop \<Rightarrow> dragdrop" where
  "addObserver obs st = cacheObserverCallbacks (st\<lparr>drag_observers := drag_observers st @ [obs]\<rparr>)"

definition removeObserver :: "nat \<Rightarrow> dragdrop \<Rightarrow> dragdrop" where
  "removeObserver e st =
     cacheObserverCallbacks (st\<lparr>drag_observers := filter (\<lambda>o'. observer_element o' \<noteq> e) (drag_observers st)\<rparr>)"

definition notify_drag :: "notification \<Rightarrow> nat \<Rightarrow> dragdrop \<Rightarrow> dragdrop" where
  "notify_drag n i st =
     say (Notified n i
       # (if observer_count st n > 0
          then map (\<lambda>o'. Observer_called (observer_element o') n i) (filter (\<lambda>o'. handles o' n) (drag_observers st)) else [])
       @ (if option_handles (drag_opts (store st ! i)) n then [Option_called n i] else [])) st"

section \<open>Draggable\<close>

definition parse_px :: "rat \<Rightarrow> int" where
  "parse_px r = (if r < 0 then - \<lfloor>- r\<rfloor> else \<lfloor>r\<rfloor>)"

definition currentDelta :: "nat \<Rightarrow> dragdrop \<Rightarrow> place" where
  "currentDelta e st = (case left_top st e of (l, t) \<Rightarrow> (parse_px l, parse_px t))"

definition form_tag :: "string \<Rightarrow> bool" where
  "form_tag tag \<longleftrightarrow> tag \<in> {''INPUT'', ''SELECT'', ''OPTION'', ''BUTTON'', ''TEXTAREA''}"

definition initDrag :: "drag_page \<Rightarrow> nat \<Rightarrow> place \<Rightarrow> string \<Rightarrow> bool \<Rightarrow> dragdrop \<Rightarrow> dragdrop" where
  "initDrag pg i pointer tag left_click st =
     (let e = element (store st ! i)
      in if flagged st (element_text pg e) then st
         else if left_click \<and> \<not> form_tag tag
         then (let pos = layout pg e (left_top st e)
               in Draggables_activate i (upd_drag i (\<lambda>d. d\<lparr>grip := (fst pointer - fst pos, snd pointer - snd pos)\<rparr>) st))
         else st)"

definition startDrag :: "drag_page \<Rightarrow> nat \<Rightarrow> dragdrop \<Rightarrow> dragdrop" where
  "startDrag pg i st =
     (let d = store st ! i; e = element d; opts = drag_opts d;
          st1 = upd_drag i (\<lambda>d. d\<lparr>dragging := True, delta := (case delta d of None \<Rightarrow> Some (currentDelta e st) | some \<Rightarrow> some)\<rparr>) st;
          st2 = (if zindex opts \<noteq> 0
            then (upd_drag i (\<lambda>d. d\<lparr>originalZ := Some (case zIndex st1 e of None \<Rightarrow> 0 | Some z \<Rightarrow> z)\<rparr>) st1)
                   \<lparr>zIndex := (zIndex st1)(e := Some (zindex opts))\<rparr>
            else st1);
          st3 = (if ghosting opts
            then (let st' = upd_drag i (\<lambda>d. d\<lparr>cloned := True, originallyAbsolute := is_absolute pg e\<rparr>) st2
                  in if is_absolute pg e then st' else st'\<lparr>left_top := (left_top st')(e := absolutized pg e)\<rparr>)
            else st2);
          st4 = (if scroll_option opts \<noteq> No_scroll
            then upd_drag i (\<lambda>d. d\<lparr>originalScroll := scrolled st3 (scroll_option opts)\<rparr>) st3 else st3);
          st5 = notify_drag OnStart i st4
      in case starteffect opts of No_effect \<Rightarrow> st5
         | Default_effect \<Rightarrow> (say [Start_effect e Default_effect] st5)\<lparr>flagged := (flagged st5)(element_text pg e := True)\<rparr>
         | Client_effect \<Rightarrow> say [Start_effect e Client_effect] st5)"

definition snapped :: "int \<Rightarrow> rat \<Rightarrow> rat" where
  "snapped s v = of_int (\<lfloor>v / of_int s + 1 / 2\<rfloor> * s)"

definition snap_point :: "snap \<Rightarrow> rat \<times> rat \<Rightarrow> rat \<times> rat" where
  "snap_point s p = (case s of No_snap \<Rightarrow> p | Snap_both k \<Rightarrow> (snapped k (fst p), snapped k (snd p))
     | Snap_each a b \<Rightarrow> (snapped a (fst p), snapped b (snd p)) | Snap_call f \<Rightarrow> f (fst p) (snd p))"

definition draw :: "drag_page \<Rightarrow> nat \<Rightarrow> rat \<times> rat \<Rightarrow> dragdrop \<Rightarrow> dragdrop" where
  "draw pg i pt st =
     (let d = store st ! i; e = element d; opts = drag_opts d;
          pos = layout pg e (left_top st e);
          pos1 = (if ghosting opts
            then (fst pos + fst (realOffset pg e) - fst (position_delta pg), snd pos + snd (realOffset pg e) - snd (position_delta pg))
            else pos);
          cd = currentDelta e st;
          pos2 = (fst pos1 - fst cd, snd pos1 - snd cd);
          sc = scrolled st (scroll_option opts);
          pos3 = (case scroll_option opts of
              Element_scroll s \<Rightarrow> (if isScrollChild d
                then (fst pos2 - (fst sc - fst (originalScroll d)), snd pos2 - (snd sc - snd (originalScroll d))) else pos2)
            | _ \<Rightarrow> pos2);
          p = snap_point (snap_option opts)
                (fst pt - of_int (fst pos3) - of_int (fst (grip d)), snd pt - of_int (snd pos3) - of_int (snd (grip d)));
          old = left_top st e;
          new = (if constraint opts \<noteq> Some Vertical then fst p else fst old, if constraint opts \<noteq> Some Horizontal then snd p else snd old)
      in st\<lparr>left_top := (left_top st)(e := new), hidden := (hidden st)(e := False)\<rparr>)"

definition stopScrolling :: "nat \<Rightarrow> dragdrop \<Rightarrow> dragdrop" where
  "stopScrolling i st =
     (if scrollInterval (store st ! i) \<noteq> None
      then (upd_drag i (\<lambda>d. d\<lparr>scrollInterval := None\<rparr>) st)\<lparr>lastScrollPointer := None\<rparr> else st)"

definition startScrolling :: "drag_page \<Rightarrow> nat \<Rightarrow> int \<times> int \<Rightarrow> dragdrop \<Rightarrow> dragdrop" where
  "startScrolling pg i speed st =
     (if speed = (0, 0) then st
      else let k = scrollSpeed (drag_opts (store st ! i))
           in upd_drag i (\<lambda>d. d\<lparr>scrollInterval := Some (fst speed * k, snd speed * k), lastScrolled := now pg\<rparr>) st)"

text \<open>The edges of what scrolls, and how far the pointer is behind them.\<close>

definition scroll_edges :: "drag_page \<Rightarrow> scroller \<Rightarrow> dragdrop \<Rightarrow> int \<times> int \<times> int \<times> int" where
  "scroll_edges pg s st =
     (case (s, scrolled st s) of
        (Element_scroll n, (sl, tp)) \<Rightarrow>
          (let a = fst (page_position pg n) + sl + fst (position_delta pg);
               b = snd (page_position pg n) + tp + snd (position_delta pg)
           in (a, b, a + fst (scroll_size pg n), b + snd (scroll_size pg n)))
      | (_, (sl, tp)) \<Rightarrow> (sl, tp, sl + fst (window_size pg), tp + snd (window_size pg)))"

definition edge_speed :: "int \<Rightarrow> int \<Rightarrow> int \<Rightarrow> int \<Rightarrow> int" where
  "edge_speed x low high sens =
     (let v = (if x < low + sens then x - (low + sens) else 0) in if x > high - sens then x - (high - sens) else v)"

definition scroll_speed :: "drag_page \<Rightarrow> nat \<Rightarrow> place \<Rightarrow> dragdrop \<Rightarrow> int \<times> int" where
  "scroll_speed pg i pointer st =
     (let opts = drag_opts (store st ! i); sens = scrollSensitivity opts
      in case scroll_edges pg (scroll_option opts) st of (a, b, c, d) \<Rightarrow>
           (edge_speed (fst pointer) a c sens, edge_speed (snd pointer) b d sens))"

definition updateDrag :: "drag_page \<Rightarrow> nat \<Rightarrow> place \<Rightarrow> dragdrop \<Rightarrow> dragdrop" where
  "updateDrag pg i pointer st =
     (let opts = drag_opts (store st ! i); e = element (store st ! i);
          st1 = (if dragging (store st ! i) then st else startDrag pg i st);
          st2 = (if quiet opts then st1 else Droppables_show pg (Some pointer) e st1);
          st3 = notify_drag OnDrag i st2;
          st4 = draw pg i (of_int (fst pointer), of_int (snd pointer)) st3;
          st5 = (if has_change opts then say [Changed i] st4 else st4)
      in if scroll_option opts = No_scroll then st5
         else (let st6 = stopScrolling i st5 in startScrolling pg i (scroll_speed pg i pointer st6) st6))"

definition restore_z :: "nat \<Rightarrow> nat \<Rightarrow> drag_options \<Rightarrow> dragdrop \<Rightarrow> dragdrop" where
  "restore_z i e opts st =
     (if zindex opts \<noteq> 0
      then (case originalZ (store st ! i) of Some z \<Rightarrow> st\<lparr>zIndex := (zIndex st)(e := Some z)\<rparr> | None \<Rightarrow> st) else st)"

text \<open>The end of a drag: first up to the notification, then the way back, where a drag that never started fails.\<close>

definition drag_over :: "drag_page \<Rightarrow> nat \<Rightarrow> place \<Rightarrow> bool \<Rightarrow> dragdrop \<Rightarrow> bool \<times> dragdrop" where
  "drag_over pg i pointer success st =
     (let e = element (store st ! i); opts = drag_opts (store st ! i);
          st1 = upd_drag i (\<lambda>d. d\<lparr>dragging := False\<rparr>) st;
          st2 = (if quiet opts then Droppables_show pg (Some pointer) e st1 else st1);
          st3 = (if ghosting opts
            then (let st' = (if originallyAbsolute (store st2 ! i) then st2
                    else st2\<lparr>left_top := (left_top st2)(e := relativized pg e)\<rparr>)
                  in upd_drag i (\<lambda>d. d\<lparr>originallyAbsolute := False, cloned := False\<rparr>) st')
            else st2);
          r = (if success then Droppables_fire pg pointer e st3 else (False, st3))
      in (fst r, notify_drag OnEnd i (if fst r \<and> has_onDropped opts then say [On_dropped e] (snd r) else snd r)))"

definition drag_settled :: "nat \<Rightarrow> bool \<Rightarrow> drag_options \<Rightarrow> nat \<Rightarrow> dragdrop \<Rightarrow> bool \<times> dragdrop" where
  "drag_settled i dropped opts e st6 =
     (let rv = revert_of opts e; d = currentDelta e st6;
          reverted = (if rv \<noteq> No_revert \<and> reverteffect opts \<noteq> No_effect
            then if \<not> dropped \<or> rv \<noteq> On_failure
              then (case delta (store st6 ! i) of None \<Rightarrow> None
                | Some dl \<Rightarrow> Some (say [Revert_effect e (snd d - snd dl) (fst d - fst dl) (reverteffect opts)] st6))
              else Some st6
            else Some (upd_drag i (\<lambda>x. x\<lparr>delta := Some d\<rparr>) st6))
      in case reverted of None \<Rightarrow> (False, st6)
         | Some st7 \<Rightarrow>
             (let st8 = restore_z i e opts st7;
                  st9 = (if endeffect opts = No_effect then st8 else say [End_effect e (endeffect opts)] st8)
              in (True, Droppables_reset (Draggables_deactivate st9))))"

definition finishDrag :: "drag_page \<Rightarrow> nat \<Rightarrow> place \<Rightarrow> bool \<Rightarrow> dragdrop \<Rightarrow> bool \<times> dragdrop" where
  "finishDrag pg i pointer success st =
     (case drag_over pg i pointer success st of (dropped, st6) \<Rightarrow>
        drag_settled i dropped (drag_opts (store st ! i)) (element (store st ! i)) st6)"

definition Draggable_keyPress :: "drag_page \<Rightarrow> nat \<Rightarrow> place \<Rightarrow> nat \<Rightarrow> dragdrop \<Rightarrow> dragdrop" where
  "Draggable_keyPress pg i pointer keyCode st = (if keyCode \<noteq> 27 then st else snd (finishDrag pg i pointer False st))"

definition Draggable_endDrag :: "drag_page \<Rightarrow> nat \<Rightarrow> place \<Rightarrow> dragdrop \<Rightarrow> bool \<times> dragdrop" where
  "Draggable_endDrag pg i pointer st =
     (if dragging (store st ! i) then finishDrag pg i pointer True (stopScrolling i st) else (True, st))"

text \<open>One tick of the scrolling interval.\<close>

definition scroll_tick :: "drag_page \<Rightarrow> nat \<Rightarrow> dragdrop \<Rightarrow> dragdrop" where
  "scroll_tick pg i st =
     (case scrollInterval (store st ! i) of None \<Rightarrow> st
      | Some (sx, sy) \<Rightarrow>
          (let opts = drag_opts (store st ! i); e = element (store st ! i); s = scroll_option opts;
               dt = of_int (now pg - lastScrolled (store st ! i)) :: rat;
               dx = of_int sx * dt / 1000; dy = of_int sy * dt / 1000;
               st1 = upd_drag i (\<lambda>d. d\<lparr>lastScrolled := now pg\<rparr>) st;
               st2 = st1\<lparr>scrolled := (scrolled st1)
                      (s := (settle pg (of_int (fst (scrolled st1 s)) + dx), settle pg (of_int (snd (scrolled st1 s)) + dy)))\<rparr>
           in if lastPointer st2 = None \<and> list_ex (concerns pg e) (drops st2) then st2
              else (let st3 = notify_drag OnDrag i (Droppables_show pg (lastPointer st2) e st2);
                        st4 = (if isScrollChild (store st3 ! i)
                          then case (lastScrollPointer st3, lastPointer st3) of
                              (None, None) \<Rightarrow> st3
                            | (lsp, lp) \<Rightarrow>
                                (let q = (case lsp of Some q \<Rightarrow> q | None \<Rightarrow> (of_int (fst (the lp)), of_int (snd (the lp))));
                                     q1 = (max 0 (fst q + dx), max 0 (snd q + dy))
                                 in draw pg i q1 (st3\<lparr>lastScrollPointer := Some q1\<rparr>))
                          else st3)
                    in if has_change opts then say [Changed i] st4 else st4)))"

section \<open>The register's event handlers\<close>

definition Draggables_updateDrag :: "drag_page \<Rightarrow> place \<Rightarrow> dragdrop \<Rightarrow> dragdrop" where
  "Draggables_updateDrag pg pointer st =
     (case activeDraggable st of None \<Rightarrow> st
      | Some i \<Rightarrow> if lastPointer st = Some pointer then st else updateDrag pg i pointer (st\<lparr>lastPointer := Some pointer\<rparr>))"

definition Draggables_endDrag :: "drag_page \<Rightarrow> place \<Rightarrow> dragdrop \<Rightarrow> dragdrop" where
  "Draggables_endDrag pg pointer st =
     (let st1 = (case timeout st of None \<Rightarrow> st
            | Some t \<Rightarrow> st\<lparr>timers := filter (\<lambda>p. fst p \<noteq> t) (timers st), timeout := None\<rparr>)
      in case activeDraggable st1 of None \<Rightarrow> st1
         | Some i \<Rightarrow>
             (case Draggable_endDrag pg i pointer (st1\<lparr>lastPointer := None\<rparr>) of
                (True, st2) \<Rightarrow> st2\<lparr>activeDraggable := None\<rparr> | (False, st2) \<Rightarrow> st2))"

definition Draggables_keyPress :: "drag_page \<Rightarrow> place \<Rightarrow> nat \<Rightarrow> dragdrop \<Rightarrow> dragdrop" where
  "Draggables_keyPress pg pointer keyCode st =
     (case activeDraggable st of None \<Rightarrow> st | Some i \<Rightarrow> Draggable_keyPress pg i pointer keyCode st)"

section \<open>Making draggables\<close>

datatype given = Not_given | Given_none | Given_call

definition effect_of :: "drag_effect \<Rightarrow> given \<Rightarrow> drag_effect" where
  "effect_of usual g = (case g of Not_given \<Rightarrow> usual | Given_none \<Rightarrow> No_effect | Given_call \<Rightarrow> Client_effect)"

text \<open>A client that brings an end effect gets no start effect by default.\<close>

definition with_effects :: "given \<Rightarrow> given \<Rightarrow> given \<Rightarrow> drag_options \<Rightarrow> drag_options" where
  "with_effects start_given end_given revert_given opts =
     opts\<lparr>starteffect := effect_of (if end_given = Not_given then Default_effect else No_effect) start_given,
       endeffect := effect_of Default_effect end_given, reverteffect := effect_of Default_effect revert_given\<rparr>"

definition default_drag_options :: drag_options where
  "default_drag_options = \<lparr>reverteffect = Default_effect, starteffect = Default_effect, endeffect = Default_effect,
     revert_of = (\<lambda>e. No_revert), zindex = 1000, quiet = False, ghosting = False, scroll_option = No_scroll,
     scrollSensitivity = 20, scrollSpeed = 15, snap_option = No_snap, constraint = None, drag_delay = 0,
     has_change = False, has_onDropped = False, option_handles = (\<lambda>n. False)\<rparr>"

definition new_draggable :: "drag_page \<Rightarrow> nat \<Rightarrow> drag_options \<Rightarrow> dragdrop \<Rightarrow> dragdrop" where
  "new_draggable pg e opts st =
     (let child = (case scroll_option opts of Element_scroll s \<Rightarrow> s \<in> set (ancestors pg e) | _ \<Rightarrow> False);
          d = \<lparr>element = e, drag_opts = opts, mousedown_on = True, dragging = False, delta = None, grip = (0, 0),
            originalZ = None, originallyAbsolute = False, cloned = False, originalScroll = (0, 0), isScrollChild = child,
            scrollInterval = None, lastScrolled = 0\<rparr>
      in Draggables_register (length (store st)) (st\<lparr>store := store st @ [d]\<rparr>))"

definition Draggable_destroy :: "nat \<Rightarrow> dragdrop \<Rightarrow> dragdrop" where
  "Draggable_destroy i st = Draggables_unregister i (upd_drag i (\<lambda>d. d\<lparr>mousedown_on := False\<rparr>) st)"

text \<open>The default end effect ends by taking the mark off.\<close>

definition end_effect_finished :: "drag_page \<Rightarrow> nat \<Rightarrow> dragdrop \<Rightarrow> dragdrop" where
  "end_effect_finished pg e st = st\<lparr>flagged := (flagged st)(element_text pg e := False)\<rparr>"

section \<open>What the page can do\<close>

datatype drag_event = Press nat place string bool | Move place | Release place | Key_press place nat
  | Timer_ends nat | Scroll_interval nat | Effect_ends nat
  | Create nat drag_options | Destroy nat | Add_drop nat droppable | Remove_drop nat
  | Add_observer drag_observer | Remove_observer nat

fun drag_step :: "drag_page \<Rightarrow> drag_event \<Rightarrow> dragdrop \<Rightarrow> dragdrop" where
  "drag_step pg (Press i pt tag left_click) st =
     (if i < length (store st) \<and> mousedown_on (store st ! i) then initDrag pg i pt tag left_click st else st)"
| "drag_step pg (Move pt) st = (if listening st then Draggables_updateDrag pg pt st else st)"
| "drag_step pg (Release pt) st = (if listening st then Draggables_endDrag pg pt st else st)"
| "drag_step pg (Key_press pt code) st = (if listening st then Draggables_keyPress pg pt code st else st)"
| "drag_step pg (Timer_ends t) st = delayed_start t st"
| "drag_step pg (Scroll_interval i) st = (if i < length (store st) then scroll_tick pg i st else st)"
| "drag_step pg (Effect_ends e) st = end_effect_finished pg e st"
| "drag_step pg (Create e opts) st = new_draggable pg e opts st"
| "drag_step pg (Destroy i) st = (if i < length (store st) then Draggable_destroy i st else st)"
| "drag_step pg (Add_drop e d) st = Droppables_add e d st"
| "drag_step pg (Remove_drop e) st = Droppables_remove e st"
| "drag_step pg (Add_observer obs) st = addObserver obs st"
| "drag_step pg (Remove_observer e) st = removeObserver e st"

section \<open>What operations leave alone\<close>

lemma say_frame [simp]:
  "store (say ns st) = store st" "drags (say ns st) = drags st" "listening (say ns st) = listening st"
  "timers (say ns st) = timers st" "timeout (say ns st) = timeout st" "activeDraggable (say ns st) = activeDraggable st"
  "last_active (say ns st) = last_active st" "notes_made (say ns st) = notes_made st @ ns" "drops (say ns st) = drops st"
  "lastPointer (say ns st) = lastPointer st" "left_top (say ns st) = left_top st" "zIndex (say ns st) = zIndex st"
  "observer_count (say ns st) = observer_count st" "drag_observers (say ns st) = drag_observers st"
  "flagged (say ns st) = flagged st" "scrolled (say ns st) = scrolled st" "lastScrollPointer (say ns st) = lastScrollPointer st"
  by (simp_all add: say_def)

lemma upd_drag_frame [simp]:
  "store (upd_drag i f st) = (store st)[i := f (store st ! i)]" "drags (upd_drag i f st) = drags st"
  "listening (upd_drag i f st) = listening st" "timers (upd_drag i f st) = timers st" "timeout (upd_drag i f st) = timeout st"
  "activeDraggable (upd_drag i f st) = activeDraggable st" "last_active (upd_drag i f st) = last_active st"
  "notes_made (upd_drag i f st) = notes_made st" "drops (upd_drag i f st) = drops st"
  "lastPointer (upd_drag i f st) = lastPointer st" "left_top (upd_drag i f st) = left_top st" "zIndex (upd_drag i f st) = zIndex st"
  "observer_count (upd_drag i f st) = observer_count st" "drag_observers (upd_drag i f st) = drag_observers st"
  "flagged (upd_drag i f st) = flagged st" "scrolled (upd_drag i f st) = scrolled st"
  "lastScrollPointer (upd_drag i f st) = lastScrollPointer st"
  by (simp_all add: upd_drag_def)

lemma deactivate_frame [simp]:
  "store (Droppables_deactivate d st) = store st" "drags (Droppables_deactivate d st) = drags st"
  "listening (Droppables_deactivate d st) = listening st" "timers (Droppables_deactivate d st) = timers st"
  "timeout (Droppables_deactivate d st) = timeout st" "activeDraggable (Droppables_deactivate d st) = activeDraggable st"
  "last_active (Droppables_deactivate d st) = None" "left_top (Droppables_deactivate d st) = left_top st"
  "drag_observers (Droppables_deactivate d st) = drag_observers st" "observer_count (Droppables_deactivate d st) = observer_count st"
  "lastPointer (Droppables_deactivate d st) = lastPointer st" "scrolled (Droppables_deactivate d st) = scrolled st"
  "drops (Droppables_deactivate d st) = drops st"
  by (simp_all add: Droppables_deactivate_def)

lemma activate_frame [simp]:
  "store (Droppables_activate d st) = store st" "drags (Droppables_activate d st) = drags st"
  "listening (Droppables_activate d st) = listening st" "timers (Droppables_activate d st) = timers st"
  "timeout (Droppables_activate d st) = timeout st" "activeDraggable (Droppables_activate d st) = activeDraggable st"
  "last_active (Droppables_activate d st) = Some d" "left_top (Droppables_activate d st) = left_top st"
  "drag_observers (Droppables_activate d st) = drag_observers st" "observer_count (Droppables_activate d st) = observer_count st"
  "lastPointer (Droppables_activate d st) = lastPointer st" "scrolled (Droppables_activate d st) = scrolled st"
  "drops (Droppables_activate d st) = drops st"
  by (simp_all add: Droppables_activate_def)

lemma lit_frame [simp]:
  "store (Droppables_show pg pt e st) = store st" "drags (Droppables_show pg pt e st) = drags st"
  "listening (Droppables_show pg pt e st) = listening st" "timers (Droppables_show pg pt e st) = timers st"
  "timeout (Droppables_show pg pt e st) = timeout st" "activeDraggable (Droppables_show pg pt e st) = activeDraggable st"
  "left_top (Droppables_show pg pt e st) = left_top st" "drag_observers (Droppables_show pg pt e st) = drag_observers st"
  "observer_count (Droppables_show pg pt e st) = observer_count st" "lastPointer (Droppables_show pg pt e st) = lastPointer st"
  "scrolled (Droppables_show pg pt e st) = scrolled st" "drops (Droppables_show pg pt e st) = drops st"
  by (simp_all add: Droppables_show_def Let_def split: option.split list.split)

lemma fire_frame [simp]:
  "store (snd (Droppables_fire pg pt e st)) = store st" "drags (snd (Droppables_fire pg pt e st)) = drags st"
  "listening (snd (Droppables_fire pg pt e st)) = listening st" "timers (snd (Droppables_fire pg pt e st)) = timers st"
  "timeout (snd (Droppables_fire pg pt e st)) = timeout st" "activeDraggable (snd (Droppables_fire pg pt e st)) = activeDraggable st"
  "left_top (snd (Droppables_fire pg pt e st)) = left_top st" "last_active (snd (Droppables_fire pg pt e st)) = last_active st"
  by (simp_all add: Droppables_fire_def split: option.split)

lemma reset_frame [simp]:
  "store (Droppables_reset st) = store st" "drags (Droppables_reset st) = drags st" "listening (Droppables_reset st) = listening st"
  "timers (Droppables_reset st) = timers st" "timeout (Droppables_reset st) = timeout st"
  "activeDraggable (Droppables_reset st) = activeDraggable st" "last_active (Droppables_reset st) = None"
  "left_top (Droppables_reset st) = left_top st"
  by (simp_all add: Droppables_reset_def split: option.split)

lemma notify_drag_frame [simp]:
  "store (notify_drag n i st) = store st" "drags (notify_drag n i st) = drags st" "listening (notify_drag n i st) = listening st"
  "timers (notify_drag n i st) = timers st" "timeout (notify_drag n i st) = timeout st" "activeDraggable (notify_drag n i st) = activeDraggable st"
  "last_active (notify_drag n i st) = last_active st" "left_top (notify_drag n i st) = left_top st"
  "lastPointer (notify_drag n i st) = lastPointer st" "lastScrollPointer (notify_drag n i st) = lastScrollPointer st"
  "scrolled (notify_drag n i st) = scrolled st" "drops (notify_drag n i st) = drops st" "flagged (notify_drag n i st) = flagged st"
  by (simp_all add: notify_drag_def)

lemma draw_frame [simp]:
  "store (draw pg i pt st) = store st" "drags (draw pg i pt st) = drags st" "listening (draw pg i pt st) = listening st"
  "timers (draw pg i pt st) = timers st" "timeout (draw pg i pt st) = timeout st" "activeDraggable (draw pg i pt st) = activeDraggable st"
  "last_active (draw pg i pt st) = last_active st" "notes_made (draw pg i pt st) = notes_made st"
  by (simp_all add: draw_def Let_def)

lemma scrolling_frame [simp]:
  "drags (stopScrolling i st) = drags st" "listening (stopScrolling i st) = listening st" "timers (stopScrolling i st) = timers st"
  "timeout (stopScrolling i st) = timeout st" "activeDraggable (stopScrolling i st) = activeDraggable st"
  "last_active (stopScrolling i st) = last_active st" "notes_made (stopScrolling i st) = notes_made st"
  "drags (startScrolling pg i v st) = drags st" "listening (startScrolling pg i v st) = listening st"
  "timers (startScrolling pg i v st) = timers st" "timeout (startScrolling pg i v st) = timeout st"
  "activeDraggable (startScrolling pg i v st) = activeDraggable st" "last_active (startScrolling pg i v st) = last_active st"
  "notes_made (startScrolling pg i v st) = notes_made st" "left_top (stopScrolling i st) = left_top st"
  "left_top (startScrolling pg i v st) = left_top st"
  by (simp_all add: stopScrolling_def startScrolling_def Let_def)

lemma startDrag_frame [simp]:
  "drags (startDrag pg i st) = drags st" "listening (startDrag pg i st) = listening st" "timers (startDrag pg i st) = timers st"
  "timeout (startDrag pg i st) = timeout st" "activeDraggable (startDrag pg i st) = activeDraggable st"
  "last_active (startDrag pg i st) = last_active st" "length (store (startDrag pg i st)) = length (store st)"
  by (simp_all add: startDrag_def Let_def split: drag_effect.split)

section \<open>The order of notifications\<close>

text \<open>
  What may follow what: a drag starts when none is under way, goes on and ends as the same drag, and
  droppables are hovered over, lit and dropped on only during a drag.
\<close>

fun follow :: "nat option option \<Rightarrow> drag_note \<Rightarrow> nat option option" where
  "follow None n = None"
| "follow (Some q) (Notified OnStart i) = (if q = None then Some (Some i) else None)"
| "follow (Some q) (Notified OnDrag i) = (if q = Some i then Some q else None)"
| "follow (Some q) (Notified OnEnd i) = (if q = Some i then Some None else None)"
| "follow (Some q) (Hovered e t r) = (if q = None then None else Some q)"
| "follow (Some q) (Dropped e t) = (if q = None then None else Some q)"
| "follow (Some q) (Class_added e c) = (if q = None then None else Some q)"
| "follow (Some q) n = Some q"

abbreviation protocol :: "nat option \<Rightarrow> drag_note list \<Rightarrow> nat option option" where
  "protocol q ns \<equiv> foldl follow (Some q) ns"

lemma follow_calls [simp]:
  "foldl follow q (map (\<lambda>o'. Observer_called (f o') n i) obs) = q"
proof -
  have "follow q (Observer_called e n i) = q" for q e by (cases q) simp_all
  then show ?thesis by (induction obs arbitrary: q) simp_all
qed

lemma notify_drag_protocol:
  "foldl follow q (notes_made (notify_drag n i st)) = follow (foldl follow q (notes_made st)) (Notified n i)"
proof -
  have "follow q (Option_called n i) = q" for q by (cases q) simp_all
  then show ?thesis by (simp add: notify_drag_def)
qed

lemma deactivate_protocol [simp]:
  "foldl follow q (notes_made (Droppables_deactivate d st)) = foldl follow q (notes_made st)"
proof -
  have "follow q (Class_removed e c) = q" for q e c by (cases q) simp_all
  then show ?thesis by (simp add: Droppables_deactivate_def split: option.split)
qed

lemma show_protocol:
  "foldl follow q (notes_made st) = Some (Some i) \<Longrightarrow> foldl follow q (notes_made (Droppables_show pg pt e st)) = Some (Some i)"
  by (simp add: Droppables_show_def Let_def Droppables_activate_def split: option.split list.split)

lemma fire_protocol:
  "foldl follow q (notes_made st) = Some (Some i) \<Longrightarrow> foldl follow q (notes_made (snd (Droppables_fire pg pt e st))) = Some (Some i)"
  by (simp add: Droppables_fire_def split: option.split)

lemma reset_protocol [simp]: "foldl follow q (notes_made (Droppables_reset st)) = foldl follow q (notes_made st)"
  by (simp add: Droppables_reset_def split: option.split)

text \<open>Parts of a draggable that its drags leave alone.\<close>

definition same_thing :: "draggable \<Rightarrow> draggable \<Rightarrow> bool" where
  "same_thing d d' \<longleftrightarrow> element d' = element d \<and> drag_opts d' = drag_opts d \<and> mousedown_on d' = mousedown_on d
     \<and> grip d' = grip d \<and> isScrollChild d' = isScrollChild d"

lemma startDrag_drag:
  assumes "i < length (store st)"
  shows "\<exists>d'. store (startDrag pg i st) = (store st)[i := d'] \<and> dragging d' \<and> delta d' \<noteq> None
    \<and> scrollInterval d' = scrollInterval (store st ! i) \<and> same_thing (store st ! i) d'
    \<and> (delta (store st ! i) = None \<longrightarrow> delta d' = Some (currentDelta (element (store st ! i)) st))"
  using assms by (auto simp: startDrag_def Let_def same_thing_def split: drag_effect.split option.split)

lemma startDrag_protocol:
  "foldl follow q (notes_made st) = Some None \<Longrightarrow> foldl follow q (notes_made (startDrag pg i st)) = Some (Some i)"
  by (simp add: startDrag_def Let_def notify_drag_protocol split: drag_effect.split)

lemma scrolling_drag:
  "i < length (store st) \<Longrightarrow> \<exists>d'. store (stopScrolling i st) = (store st)[i := d'] \<and> dragging d' = dragging (store st ! i)
    \<and> delta d' = delta (store st ! i) \<and> scrollInterval d' = None \<and> same_thing (store st ! i) d'"
  by (cases "scrollInterval (store st ! i)")
    (auto simp: stopScrolling_def same_thing_def intro: exI [of _ "store st ! i"])

lemma start_scrolling_drag:
  "i < length (store st) \<Longrightarrow> \<exists>d'. store (startScrolling pg i v st) = (store st)[i := d'] \<and> dragging d' = dragging (store st ! i)
    \<and> delta d' = delta (store st ! i) \<and> same_thing (store st ! i) d'"
  by (auto simp: startScrolling_def same_thing_def Let_def intro: exI [of _ "store st ! i"])

text \<open>A drag goes on.\<close>

lemma updateDrag_frame [simp]:
  "drags (updateDrag pg i pt st) = drags st" "listening (updateDrag pg i pt st) = listening st"
  "timers (updateDrag pg i pt st) = timers st" "timeout (updateDrag pg i pt st) = timeout st"
  "activeDraggable (updateDrag pg i pt st) = activeDraggable st"
  by (simp_all add: updateDrag_def Let_def)

lemma updateDrag_drag:
  assumes i: "i < length (store st)" and d: "dragging (store st ! i) \<longrightarrow> delta (store st ! i) \<noteq> None"
  shows "\<exists>d'. store (updateDrag pg i pt st) = (store st)[i := d'] \<and> dragging d' \<and> delta d' \<noteq> None \<and> same_thing (store st ! i) d'"
proof -
  let ?st1 = "if dragging (store st ! i) then st else startDrag pg i st"
  obtain d1 where d1: "store ?st1 = (store st)[i := d1]" "dragging d1" "delta d1 \<noteq> None" "same_thing (store st ! i) d1"
  proof (cases "dragging (store st ! i)")
    case True
    then show ?thesis using d that [of "store st ! i"] by (simp add: same_thing_def)
  next
    case False
    then show ?thesis using startDrag_drag [OF i, of pg] that by auto
  qed
  define st5 where "st5 = (let st2 = (if quiet (drag_opts (store st ! i)) then ?st1 else Droppables_show pg (Some pt) (element (store st ! i)) ?st1);
      st4 = draw pg i (of_int (fst pt), of_int (snd pt)) (notify_drag OnDrag i st2)
    in if has_change (drag_opts (store st ! i)) then say [Changed i] st4 else st4)"
  have s5: "store st5 = (store st)[i := d1]" by (simp add: st5_def Let_def d1(1))
  have u: "updateDrag pg i pt st = (if scroll_option (drag_opts (store st ! i)) = No_scroll then st5
      else startScrolling pg i (scroll_speed pg i pt (stopScrolling i st5)) (stopScrolling i st5))"
    by (simp add: updateDrag_def st5_def Let_def)
  have len: "i < length (store st5)" using i by (simp add: s5)
  show ?thesis
  proof (cases "scroll_option (drag_opts (store st ! i)) = No_scroll")
    case True
    then show ?thesis using u s5 d1 by auto
  next
    case False
    obtain d2 where d2: "store (stopScrolling i st5) = (store st5)[i := d2]" "dragging d2 = dragging d1" "delta d2 = delta d1"
      "same_thing d1 d2"
      using scrolling_drag [OF len] i by (auto simp: s5)
    let ?v = "scroll_speed pg i pt (stopScrolling i st5)"
    have "i < length (store (stopScrolling i st5))" using i by (simp add: d2 s5)
    from start_scrolling_drag [OF this, of pg ?v] obtain d3 where
      "store (startScrolling pg i ?v (stopScrolling i st5)) = (store (stopScrolling i st5))[i := d3]"
      "dragging d3 = dragging d2" "delta d3 = delta d2" "same_thing d2 d3"
      using i by (auto simp: d2 s5)
    then show ?thesis using False u d1 d2 by (auto simp: s5 same_thing_def intro!: exI [of _ d3])
  qed
qed

lemma updateDrag_protocol:
  assumes "foldl follow q (notes_made st) = Some (if dragging (store st ! i) then Some i else None)"
  shows "foldl follow q (notes_made (updateDrag pg i pt st)) = Some (Some i)"
proof -
  let ?st1 = "if dragging (store st ! i) then st else startDrag pg i st"
  have "foldl follow q (notes_made ?st1) = Some (Some i)" using assms startDrag_protocol by simp
  from this show_protocol [OF this]
  have "foldl follow q (notes_made (notify_drag OnDrag i (if quiet (drag_opts (store st ! i)) then ?st1
      else Droppables_show pg (Some pt) (element (store st ! i)) ?st1))) = Some (Some i)"
    by (simp add: notify_drag_protocol)
  then show ?thesis by (simp add: updateDrag_def Let_def)
qed

lemma drag_over_frame [simp]:
  "drags (snd (drag_over pg i pt s st)) = drags st" "listening (snd (drag_over pg i pt s st)) = listening st"
  "timers (snd (drag_over pg i pt s st)) = timers st" "timeout (snd (drag_over pg i pt s st)) = timeout st"
  by (simp_all add: drag_over_def Let_def)

lemma drag_over_drag:
  assumes "i < length (store st)"
  shows "\<exists>d'. store (snd (drag_over pg i pt s st)) = (store st)[i := d'] \<and> \<not> dragging d' \<and> delta d' = delta (store st ! i)
    \<and> scrollInterval d' = scrollInterval (store st ! i) \<and> same_thing (store st ! i) d'"
  using assms by (auto simp: drag_over_def Let_def same_thing_def)

lemma drag_over_protocol:
  assumes "foldl follow q (notes_made st) = Some (Some i)"
  shows "foldl follow q (notes_made (snd (drag_over pg i pt s st))) = Some None"
proof -
  have 1: "foldl follow q (notes_made (upd_drag i f st)) = Some (Some i)" for f using assms by simp
  have 2: "notes_made (st'\<lparr>left_top := u\<rparr>) = notes_made st'" for st' u by simp
  show ?thesis
    using 1 show_protocol [OF 1] by (simp add: drag_over_def Let_def notify_drag_protocol fire_protocol)
qed

lemma restore_z_frame [simp]:
  "drags (restore_z i e opts st) = drags st" "listening (restore_z i e opts st) = listening st"
  "timers (restore_z i e opts st) = timers st" "timeout (restore_z i e opts st) = timeout st"
  "store (restore_z i e opts st) = store st" "notes_made (restore_z i e opts st) = notes_made st"
  "left_top (restore_z i e opts st) = left_top st"
  by (simp_all add: restore_z_def split: option.split)

lemma drag_settled_frame [simp]:
  "drags (snd (drag_settled i dr opts e st)) = drags st" "listening (snd (drag_settled i dr opts e st)) = listening st"
  "timers (snd (drag_settled i dr opts e st)) = timers st" "timeout (snd (drag_settled i dr opts e st)) = timeout st"
  by (simp_all add: drag_settled_def Let_def Draggables_deactivate_def split: option.split)

lemma drag_settled_drag:
  assumes "i < length (store st)" "delta (store st ! i) \<noteq> None"
  shows "\<exists>d'. store (snd (drag_settled i dr opts e st)) = (store st)[i := d'] \<and> dragging d' = dragging (store st ! i) \<and> delta d' \<noteq> None
    \<and> scrollInterval d' = scrollInterval (store st ! i) \<and> same_thing (store st ! i) d'"
    "fst (drag_settled i dr opts e st)" "activeDraggable (snd (drag_settled i dr opts e st)) = None"
    "last_active (snd (drag_settled i dr opts e st)) = None"
  using assms
  by (auto simp: drag_settled_def Let_def Draggables_deactivate_def same_thing_def split: option.split intro: exI [of _ "store st ! i"])

lemma drag_settled_protocol:
  assumes "foldl follow q (notes_made st) = Some None"
  shows "foldl follow q (notes_made (snd (drag_settled i dr opts e st))) = Some None"
  using assms by (auto simp: drag_settled_def Let_def Draggables_deactivate_def split: option.split)

lemma finishDrag_drag:
  assumes i: "i < length (store st)" and d: "delta (store st ! i) \<noteq> None"
  shows "\<exists>d'. store (snd (finishDrag pg i pt s st)) = (store st)[i := d'] \<and> \<not> dragging d' \<and> delta d' \<noteq> None
    \<and> scrollInterval d' = scrollInterval (store st ! i) \<and> same_thing (store st ! i) d'"
    "fst (finishDrag pg i pt s st)" "activeDraggable (snd (finishDrag pg i pt s st)) = None"
    "last_active (snd (finishDrag pg i pt s st)) = None"
proof -
  obtain d1 where d1: "store (snd (drag_over pg i pt s st)) = (store st)[i := d1]" "\<not> dragging d1" "delta d1 = delta (store st ! i)"
    "scrollInterval d1 = scrollInterval (store st ! i)" "same_thing (store st ! i) d1"
    using drag_over_drag [OF i, of pg pt s] by blast
  have "i < length (store (snd (drag_over pg i pt s st)))" "delta (store (snd (drag_over pg i pt s st)) ! i) \<noteq> None"
    using i d by (simp_all add: d1)
  note s = drag_settled_drag [OF this]
  show "\<exists>d'. store (snd (finishDrag pg i pt s st)) = (store st)[i := d'] \<and> \<not> dragging d' \<and> delta d' \<noteq> None
    \<and> scrollInterval d' = scrollInterval (store st ! i) \<and> same_thing (store st ! i) d'"
    using s(1) [of "fst (drag_over pg i pt s st)" "drag_opts (store st ! i)" "element (store st ! i)"] d1 i
    by (auto simp: finishDrag_def case_prod_unfold same_thing_def)
  show "fst (finishDrag pg i pt s st)" "activeDraggable (snd (finishDrag pg i pt s st)) = None"
    "last_active (snd (finishDrag pg i pt s st)) = None"
    using s(2-4) by (simp_all add: finishDrag_def case_prod_unfold)
qed

lemma finishDrag_frame [simp]:
  "drags (snd (finishDrag pg i pt s st)) = drags st" "listening (snd (finishDrag pg i pt s st)) = listening st"
  "timers (snd (finishDrag pg i pt s st)) = timers st" "timeout (snd (finishDrag pg i pt s st)) = timeout st"
  by (simp_all add: finishDrag_def case_prod_unfold)

lemma finishDrag_protocol:
  assumes "foldl follow q (notes_made st) = Some (Some i)"
  shows "foldl follow q (notes_made (snd (finishDrag pg i pt s st))) = Some None"
  by (simp add: finishDrag_def case_prod_unfold drag_settled_protocol [OF drag_over_protocol [OF assms]])

section \<open>One drag at a time\<close>

definition dragged :: "dragdrop \<Rightarrow> nat option" where
  "dragged st = (case activeDraggable st of Some i \<Rightarrow> if dragging (store st ! i) then Some i else None | None \<Rightarrow> None)"

text \<open>\<open>down\<close>: the mouse button is held.\<close>

definition drag_core :: "dragdrop \<Rightarrow> bool" where
  "drag_core st \<longleftrightarrow>
     (listening st \<longleftrightarrow> drags st \<noteq> [])
     \<and> (\<forall>i < length (store st). mousedown_on (store st ! i) \<longrightarrow> i \<in> set (drags st))
     \<and> (\<forall>i < length (store st). dragging (store st ! i) \<longrightarrow> activeDraggable st = Some i \<and> delta (store st ! i) \<noteq> None)
     \<and> (\<forall>i < length (store st). scrollInterval (store st ! i) \<noteq> None \<longrightarrow> dragging (store st ! i))
     \<and> (last_active st \<noteq> None \<longrightarrow> dragged st \<noteq> None)
     \<and> protocol None (notes_made st) = Some (dragged st)"

definition hand_ok :: "bool \<Rightarrow> dragdrop \<Rightarrow> bool" where
  "hand_ok down st \<longleftrightarrow>
     (\<forall>i. activeDraggable st = Some i \<longrightarrow> i < length (store st) \<and> i \<in> set (drags st) \<and> down \<and> timers st = [])
     \<and> (timers st = [] \<and> timeout st = None
        \<or> (\<exists>t i. timers st = [(t, i)] \<and> timeout st = Some t \<and> i < length (store st) \<and> i \<in> set (drags st) \<and> down))"

definition drag_inv :: "bool \<Rightarrow> dragdrop \<Rightarrow> bool" where
  "drag_inv down st \<longleftrightarrow> drag_core st \<and> hand_ok down st"

fun allowed :: "bool \<Rightarrow> drag_event \<Rightarrow> dragdrop \<Rightarrow> bool" where
  "allowed down (Press i pt tag left_click) st \<longleftrightarrow> \<not> down"
| "allowed down (Destroy i) st \<longleftrightarrow> \<not> down"
| "allowed down (Key_press pt code) st \<longleftrightarrow> code \<noteq> 27 \<or>
     (case activeDraggable st of None \<Rightarrow> True | Some i \<Rightarrow> dragging (store st ! i) \<and> scrollInterval (store st ! i) = None)"
| "allowed down ev st \<longleftrightarrow> True"

fun button :: "bool \<Rightarrow> drag_event \<Rightarrow> bool" where
  "button down (Press i pt tag left_click) = True"
| "button down (Release pt) = False"
| "button down ev = down"

fun drag_run :: "dragdrop \<Rightarrow> (drag_page \<times> drag_event) list \<Rightarrow> dragdrop" where
  "drag_run st [] = st"
| "drag_run st ((pg, ev) # evs) = drag_run (drag_step pg ev st) evs"

fun orderly :: "bool \<Rightarrow> dragdrop \<Rightarrow> (drag_page \<times> drag_event) list \<Rightarrow> bool" where
  "orderly down st [] \<longleftrightarrow> True"
| "orderly down st ((pg, ev) # evs) \<longleftrightarrow> allowed down ev st \<and> orderly (button down ev) (drag_step pg ev st) evs"

lemma drag_invD:
  assumes "drag_inv down st"
  shows "listening st \<longleftrightarrow> drags st \<noteq> []"
    "i < length (store st) \<Longrightarrow> mousedown_on (store st ! i) \<Longrightarrow> i \<in> set (drags st)"
    "i < length (store st) \<Longrightarrow> dragging (store st ! i) \<Longrightarrow> activeDraggable st = Some i"
    "i < length (store st) \<Longrightarrow> dragging (store st ! i) \<Longrightarrow> delta (store st ! i) \<noteq> None"
    "i < length (store st) \<Longrightarrow> scrollInterval (store st ! i) \<noteq> None \<Longrightarrow> dragging (store st ! i)"
    "activeDraggable st = Some i \<Longrightarrow> i < length (store st)"
    "activeDraggable st = Some i \<Longrightarrow> i \<in> set (drags st)"
    "activeDraggable st = Some i \<Longrightarrow> down"
    "activeDraggable st = Some i \<Longrightarrow> timers st = []"
    "timers st = [] \<and> timeout st = None
        \<or> (\<exists>t i. timers st = [(t, i)] \<and> timeout st = Some t \<and> i < length (store st) \<and> i \<in> set (drags st) \<and> down)"
    "last_active st \<noteq> None \<Longrightarrow> dragged st \<noteq> None"
    "protocol None (notes_made st) = Some (dragged st)"
    "i < length (store st) \<Longrightarrow> \<not> dragging (store st ! i) \<Longrightarrow> scrollInterval (store st ! i) = None"
  using assms unfolding drag_inv_def drag_core_def hand_ok_def by blast+

text \<open>The invariant of what is not the draggable at hand.\<close>

lemma drag_inv_change:
  assumes inv: "drag_inv down st" and i: "i < length (store st)" "activeDraggable st = Some i"
    and st': "store st' = (store st)[i := d']" "drags st' = drags st" "listening st' = listening st"
      "timers st' = timers st" "timeout st' = timeout st"
    and d': "mousedown_on d' = mousedown_on (store st ! i)" "dragging d' \<Longrightarrow> delta d' \<noteq> None"
      "scrollInterval d' \<noteq> None \<Longrightarrow> dragging d'"
    and act: "activeDraggable st' = Some i \<or> activeDraggable st' = None \<and> \<not> dragging d' \<and> last_active st' = None"
    and last: "last_active st' \<noteq> None \<Longrightarrow> dragging d'"
    and told: "protocol None (notes_made st') = Some (if dragging d' then Some i else None)"
  shows "drag_inv down st'"
proof -
  note D = drag_invD [OF inv]
  have dr: "dragged st' = (if dragging d' then Some i else None)"
    using act i(1) by (auto simp: dragged_def st'(1))
  have other: "j < length (store st) \<Longrightarrow> j \<noteq> i \<Longrightarrow> \<not> dragging (store st ! j)" for j
    using D(3) [of j] i(2) by auto
  have "drag_core st'"
    unfolding drag_core_def dr
  proof (intro conjI allI impI, goal_cases)
    case 1 show ?case using D(1) by (simp add: st')
  next
    case (2 j) then show ?case using D(2) [of j] d'(1) i(1) by (cases "j = i") (simp_all add: st')
  next
    case (3 j) then show ?case using other [of j] act i(1) by (cases "j = i") (auto simp: st'(1))
  next
    case (4 j) then show ?case using other [of j] d'(2) i(1) by (cases "j = i") (auto simp: st'(1))
  next
    case (5 j) then show ?case using other [of j] D(5) [of j] d'(3) i(1) by (cases "j = i") (auto simp: st'(1))
  next
    case 6 then show ?case using last by simp
  next
    case 7 show ?case using told .
  qed
  moreover have "hand_ok down st'"
    unfolding hand_ok_def using i act D(7) [OF i(2)] D(8) [OF i(2)] D(9) [OF i(2)] D(10) by (auto simp: st')
  ultimately show ?thesis by (simp add: drag_inv_def)
qed

text \<open>Changes outside the draggables, the register and the notes.\<close>

lemma drag_inv_aside:
  assumes "drag_inv down st" "store st' = store st" "drags st' = drags st" "listening st' = listening st" "timers st' = timers st"
    "timeout st' = timeout st" "activeDraggable st' = activeDraggable st" "last_active st' = last_active st" "notes_made st' = notes_made st"
  shows "drag_inv down st'"
  using assms(1) unfolding drag_inv_def drag_core_def hand_ok_def dragged_def assms(2-9) .

lemma updateDrag_inv:
  assumes "drag_inv down st" "activeDraggable st = Some i"
  shows "drag_inv down (updateDrag pg i pt st)"
proof -
  note D = drag_invD [OF assms(1)]
  have i: "i < length (store st)" using D(6) [OF assms(2)] .
  obtain d' where d': "store (updateDrag pg i pt st) = (store st)[i := d']" "dragging d'" "delta d' \<noteq> None" "same_thing (store st ! i) d'"
    using updateDrag_drag [OF i, of pg pt] D(4) [OF i] by blast
  have "protocol None (notes_made st) = Some (if dragging (store st ! i) then Some i else None)"
    using D(12) assms(2) by (simp add: dragged_def)
  from updateDrag_protocol [OF this, of pg pt]
  show ?thesis using d' assms(2)
    by (intro drag_inv_change [OF assms(1) i assms(2) d'(1)]) (simp_all add: same_thing_def)
qed

lemma finishDrag_inv:
  assumes "drag_inv down st" "activeDraggable st = Some i" "dragging (store st ! i)" "scrollInterval (store st ! i) = None"
  shows "drag_inv down (snd (finishDrag pg i pt s st))"
proof -
  note D = drag_invD [OF assms(1)]
  have i: "i < length (store st)" using D(6) [OF assms(2)] .
  note f = finishDrag_drag [OF i D(4) [OF i assms(3)], of pg pt s]
  obtain d' where d': "store (snd (finishDrag pg i pt s st)) = (store st)[i := d']" "\<not> dragging d'" "scrollInterval d' = None"
    "same_thing (store st ! i) d'"
    using f(1) assms(4) by auto
  have "protocol None (notes_made st) = Some (Some i)" using D(12) assms(2,3) by (simp add: dragged_def)
  from finishDrag_protocol [OF this, of pg pt s]
  show ?thesis using d' f
    by (intro drag_inv_change [OF assms(1) i assms(2) d'(1)]) (simp_all add: same_thing_def)
qed

text \<open>Without an active draggable and without a delayed start the button does not matter.\<close>

lemma drag_inv_idle:
  assumes "drag_inv down st" "activeDraggable st = None" "timers st = []"
  shows "drag_inv down' st"
proof -
  have "timeout st = None" using drag_invD(10) [OF assms(1)] assms(3) by auto
  then have "hand_ok down' st" using assms(2,3) by (simp add: hand_ok_def)
  then show ?thesis using assms(1) by (simp add: drag_inv_def)
qed

lemma drag_inv_no_timer:
  assumes "drag_inv down st"
  shows "drag_inv down (st\<lparr>timers := [], timeout := None\<rparr>)"
proof -
  have dr: "dragged (st\<lparr>timers := [], timeout := None\<rparr>) = dragged st" by (simp add: dragged_def split: option.split)
  have "drag_core (st\<lparr>timers := [], timeout := None\<rparr>)"
    using assms unfolding drag_inv_def drag_core_def dr by simp
  moreover have "hand_ok down (st\<lparr>timers := [], timeout := None\<rparr>)"
    using assms unfolding drag_inv_def hand_ok_def by simp
  ultimately show ?thesis by (simp add: drag_inv_def)
qed

lemma drag_inv_given_up:
  assumes "drag_inv down st" "activeDraggable st = Some i" "\<not> dragging (store st ! i)" "timers st = []"
  shows "drag_inv False (st\<lparr>activeDraggable := None\<rparr>)"
proof -
  note D = drag_invD [OF assms(1)]
  have no: "dragged st = None" using assms(2,3) by (simp add: dragged_def)
  have "last_active st = None" using D(11) no by (cases "last_active st") simp_all
  moreover have "j < length (store st) \<Longrightarrow> \<not> dragging (store st ! j)" for j using D(3) [of j] assms(2,3) by auto
  moreover have "j < length (store st) \<Longrightarrow> scrollInterval (store st ! j) = None" for j using D(3) [of j] D(13) [of j] assms(2,3) by auto
  moreover have "timeout st = None" using D(10) assms(4) by auto
  ultimately show ?thesis
    using D(1,2,12) no assms(4) by (simp add: drag_inv_def drag_core_def hand_ok_def dragged_def)
qed

lemma stopScrolling_inv:
  assumes "drag_inv down st" "activeDraggable st = Some i" "dragging (store st ! i)"
  shows "drag_inv down (stopScrolling i st)" "activeDraggable (stopScrolling i st) = Some i"
    "dragging (store (stopScrolling i st) ! i)" "scrollInterval (store (stopScrolling i st) ! i) = None"
proof -
  note D = drag_invD [OF assms(1)]
  have i: "i < length (store st)" using D(6) [OF assms(2)] .
  obtain d' where d': "store (stopScrolling i st) = (store st)[i := d']" "dragging d' = dragging (store st ! i)"
    "delta d' = delta (store st ! i)" "scrollInterval d' = None" "same_thing (store st ! i) d'"
    using scrolling_drag [OF i] by blast
  have "protocol None (notes_made st) = Some (Some i)" using D(12) assms(2,3) by (simp add: dragged_def)
  then show "drag_inv down (stopScrolling i st)"
    using d' assms(2,3) D(4) [OF i] by (intro drag_inv_change [OF assms(1) i assms(2) d'(1)]) (simp_all add: same_thing_def)
  show "activeDraggable (stopScrolling i st) = Some i" "dragging (store (stopScrolling i st) ! i)"
    "scrollInterval (store (stopScrolling i st) ! i) = None"
    using d' assms(2,3) i by simp_all
qed

lemma scroll_tick_frame [simp]:
  "drags (scroll_tick pg i st) = drags st" "listening (scroll_tick pg i st) = listening st" "timers (scroll_tick pg i st) = timers st"
  "timeout (scroll_tick pg i st) = timeout st" "activeDraggable (scroll_tick pg i st) = activeDraggable st"
  "store (scroll_tick pg i st) = (if scrollInterval (store st ! i) = None then store st
     else (store st)[i := (store st ! i)\<lparr>lastScrolled := now pg\<rparr>])"
  by (auto simp: scroll_tick_def Let_def split: option.split)

lemma scroll_tick_protocol:
  assumes "foldl follow q (notes_made st) = Some (Some i)"
  shows "foldl follow q (notes_made (scroll_tick pg i st)) = Some (Some i)"
proof -
  have 1: "foldl follow q (notes_made (notify_drag OnDrag i (Droppables_show pg pt e (st'\<lparr>scrolled := u\<rparr>)))) = Some (Some i)"
    if "notes_made st' = notes_made st" for pt e st' u
    using assms that by (simp add: notify_drag_protocol show_protocol)
  show ?thesis using assms 1 by (auto simp: scroll_tick_def Let_def split: option.split)
qed

lemma scroll_tick_inv:
  assumes "drag_inv down st" "i < length (store st)"
  shows "drag_inv down (scroll_tick pg i st)"
proof (cases "scrollInterval (store st ! i) = None")
  case True
  then show ?thesis using assms(1) by (simp add: scroll_tick_def)
next
  case False
  then obtain v where v: "scrollInterval (store st ! i) = Some v" by auto
  note D = drag_invD [OF assms(1)]
  have d: "dragging (store st ! i)" using D(5) [OF assms(2) False] .
  have a: "activeDraggable st = Some i" using D(3) [OF assms(2) d] .
  have "protocol None (notes_made st) = Some (Some i)" using D(12) a d by (simp add: dragged_def)
  then show ?thesis
    using v d a D(4) [OF assms(2) d] scroll_tick_protocol [of "Some None" st i pg]
    by (intro drag_inv_change [OF assms a, where d' = "(store st ! i)\<lparr>lastScrolled := now pg\<rparr>"]) simp_all
qed

lemma initDrag_inv:
  assumes "drag_inv False st" "i < length (store st)" "mousedown_on (store st ! i)"
  shows "drag_inv True (initDrag pg i pt tag l st)"
proof -
  note D = drag_invD [OF assms(1)]
  have a: "activeDraggable st = None" using D(8) by (cases "activeDraggable st") simp_all
  then have dr: "dragged st = None" by (simp add: dragged_def)
  have none: "activeDraggable st = None" "timers st = []" "timeout st = None" "dragged st = None" "last_active st = None"
    using a dr D(10) D(11) by (auto simp del: not_None_eq)
  have up: "drag_inv True st" by (rule drag_inv_idle [OF assms(1) none(1,2)])
  define st1 where "st1 = upd_drag i (\<lambda>d. d\<lparr>grip := (fst pt - fst (layout pg (element (store st ! i)) (left_top st (element (store st ! i)))),
    snd pt - snd (layout pg (element (store st ! i)) (left_top st (element (store st ! i)))))\<rparr>) st"
  have idle: "j < length (store st) \<Longrightarrow> \<not> dragging (store st ! j) \<and> scrollInterval (store st ! j) = None" for j
    using D(3) [of j] D(13) [of j] none(1) by auto
  have idle1: "j < length (store st1) \<Longrightarrow> \<not> dragging (store st1 ! j) \<and> scrollInterval (store st1 ! j) = None" for j
    using idle [of j] by (cases "j = i") (simp_all add: st1_def)
  have in_drags: "j < length (store st1) \<Longrightarrow> mousedown_on (store st1 ! j) \<Longrightarrow> j \<in> set (drags st1)" for j
    using D(2) [of j] assms(2) by (cases "j = i") (simp_all add: st1_def)
  have same: "drags st1 = drags st" "listening st1 = listening st" "timers st1 = []" "timeout st1 = None" "activeDraggable st1 = None"
    "last_active st1 = None" "length (store st1) = length (store st)" "notes_made st1 = notes_made st"
    using none by (simp_all add: st1_def)
  have "drag_inv True (Draggables_activate i st1)"
    unfolding drag_inv_def drag_core_def hand_ok_def Draggables_activate_def
    using D(1) D(2) [OF assms(2,3)] D(12) none(4) idle1 in_drags assms(2) by (auto simp: same dragged_def)
  then show ?thesis using up by (auto simp: initDrag_def Let_def st1_def)
qed

lemma endDrag_inv:
  assumes "drag_inv down st"
  shows "drag_inv False (Draggables_endDrag pg pt st) \<and> activeDraggable (Draggables_endDrag pg pt st) = None"
proof -
  let ?st1 = "st\<lparr>timers := [], timeout := None\<rparr>"
  have st1: "(case timeout st of None \<Rightarrow> st
    | Some t \<Rightarrow> st\<lparr>timers := filter (\<lambda>p. fst p \<noteq> t) (timers st), timeout := None\<rparr>) = ?st1"
    using drag_invD(10) [OF assms] by auto
  have inv1: "drag_inv down ?st1" by (rule drag_inv_no_timer [OF assms])
  show ?thesis
  proof (cases "activeDraggable st")
    case None
    then show ?thesis using drag_inv_idle [OF inv1] by (simp add: Draggables_endDrag_def st1)
  next
    case (Some i)
    let ?st2 = "?st1\<lparr>lastPointer := None\<rparr>"
    have inv2: "drag_inv down ?st2" by (rule drag_inv_aside [OF inv1]) simp_all
    have a2: "activeDraggable ?st2 = Some i" using Some by simp
    show ?thesis
    proof (cases "dragging (store ?st2 ! i)")
      case False
      show ?thesis
        using drag_inv_given_up [OF inv2 a2 False] Some False by (simp add: Draggables_endDrag_def st1 Draggable_endDrag_def)
    next
      case True
      note s = stopScrolling_inv [OF inv2 a2 True]
      note f = finishDrag_inv [OF s(1,2,3,4), of pg pt True]
      have i: "i < length (store (stopScrolling i ?st2))" using drag_invD(6) [OF s(1) s(2)] .
      note g = finishDrag_drag [OF i drag_invD(4) [OF s(1) i s(3)], of pg pt True]
      have e: "Draggables_endDrag pg pt st = (snd (finishDrag pg i pt True (stopScrolling i ?st2)))\<lparr>activeDraggable := None\<rparr>"
        using Some True g(2) by (simp add: Draggables_endDrag_def st1 Draggable_endDrag_def case_prod_unfold)
      have e2: "s\<lparr>activeDraggable := None\<rparr> = s" if "activeDraggable s = None" for s :: dragdrop using that by simp
      show ?thesis unfolding e e2 [OF g(3)] using drag_inv_idle [OF f g(3)] g(3) by simp
    qed
  qed
qed

lemma delayed_start_inv:
  assumes "drag_inv down st"
  shows "drag_inv down (delayed_start t st)"
proof (cases "map_of (timers st) t")
  case None
  then show ?thesis using assms by (simp add: delayed_start_def)
next
  case (Some i)
  note D = drag_invD [OF assms]
  from Some D(10) have t: "timers st = [(t, i)]" "i < length (store st)" "i \<in> set (drags st)" "down"
    by (auto split: if_splits)
  have none: "activeDraggable st = None" using D(9) t(1) by (cases "activeDraggable st") simp_all
  have idle: "j < length (store st) \<Longrightarrow> \<not> dragging (store st ! j)" for j using D(3) [of j] none by auto
  have dr: "dragged st = None" using none by (simp add: dragged_def)
  have l: "last_active st = None" using D(11) dr by (cases "last_active st") simp_all
  have e: "delayed_start t st = st\<lparr>timers := [], timeout := None, activeDraggable := Some i\<rparr>" using Some t(1) by (simp add: delayed_start_def)
  show ?thesis
    unfolding e drag_inv_def drag_core_def hand_ok_def
    using D(1,2,12) idle D(13) t(2-4) dr l by (simp add: dragged_def)
qed

lemma new_draggable_inv:
  assumes "drag_inv down st"
  shows "drag_inv down (new_draggable pg e opts st)"
proof -
  note D = drag_invD [OF assms]
  define d where "d = \<lparr>element = e, drag_opts = opts, mousedown_on = True, dragging = False, delta = None, grip = (0, 0),
      originalZ = None, originallyAbsolute = False, cloned = False, originalScroll = (0, 0),
      isScrollChild = (case scroll_option opts of Element_scroll s \<Rightarrow> s \<in> set (ancestors pg e) | _ \<Rightarrow> False),
      scrollInterval = None, lastScrolled = 0\<rparr>"
  define st' where "st' = new_draggable pg e opts st"
  have s: "store st' = store st @ [d]" "drags st' = drags st @ [length (store st)]" "listening st'" "timers st' = timers st"
    "timeout st' = timeout st" "activeDraggable st' = activeDraggable st" "last_active st' = last_active st" "notes_made st' = notes_made st"
    using D(1) by (simp_all add: st'_def new_draggable_def Let_def Draggables_register_def d_def)
  have dr: "dragged st' = dragged st" using D(6) by (auto simp: dragged_def s nth_append split: option.split)
  have split: "j < length (store st') \<Longrightarrow> j < length (store st) \<or> j = length (store st)" for j by (auto simp: s)
  have "drag_core st'"
    unfolding drag_core_def dr
  proof (intro conjI allI impI, goal_cases)
    case 1 show ?case by (simp add: s)
  next
    case (2 j) then show ?case using split [of j] D(2) [of j] by (auto simp: s nth_append)
  next
    case (3 j) then show ?case using split [of j] D(3) [of j] by (auto simp: s nth_append d_def)
  next
    case (4 j) then show ?case using split [of j] D(4) [of j] by (auto simp: s nth_append d_def)
  next
    case (5 j) then show ?case using split [of j] D(5) [of j] by (auto simp: s nth_append d_def)
  next
    case 6 then show ?case using D(11) by (simp add: s)
  next
    case 7 show ?case using D(12) by (simp add: s)
  qed
  moreover have "hand_ok down st'" using D(6-10) unfolding hand_ok_def by (auto simp: s)
  ultimately show ?thesis by (simp add: drag_inv_def st'_def)
qed

lemma destroy_inv:
  assumes "drag_inv False st" "i < length (store st)"
  shows "drag_inv False (Draggable_destroy i st)"
proof -
  note D = drag_invD [OF assms(1)]
  have none: "activeDraggable st = None" using D(8) by (cases "activeDraggable st") simp_all
  have tm: "timers st = []" "timeout st = None" using D(10) by simp_all
  have dr: "dragged st = None" using none by (simp add: dragged_def)
  have l: "last_active st = None" using D(11) dr by (cases "last_active st") simp_all
  have idle: "j < length (store st) \<Longrightarrow> \<not> dragging (store st ! j) \<and> scrollInterval (store st ! j) = None" for j
    using D(3) [of j] D(13) [of j] none by auto
  define st' where "st' = Draggable_destroy i st"
  have s: "store st' = (store st)[i := (store st ! i)\<lparr>mousedown_on := False\<rparr>]" "drags st' = filter (\<lambda>d. d \<noteq> i) (drags st)"
    "listening st' \<longleftrightarrow> drags st' \<noteq> []" "timers st' = []" "timeout st' = None" "activeDraggable st' = None" "last_active st' = None"
    "notes_made st' = notes_made st"
    using D(1) none tm l by (auto simp: st'_def Draggable_destroy_def Draggables_unregister_def Let_def filter_empty_conv)
  have dr': "dragged st' = None" by (simp add: dragged_def s)
  have len: "length (store st') = length (store st)" by (simp add: s)
  have idle': "\<not> dragging (store st' ! j) \<and> scrollInterval (store st' ! j) = None" if "j < length (store st')" for j
    using idle [of j] that by (cases "j = i") (simp_all add: s)
  have in': "j \<in> set (drags st')" if "j < length (store st')" "mousedown_on (store st' ! j)" for j
    using D(2) [of j] that by (cases "j = i") (simp_all add: s)
  have "drag_core st'"
    unfolding drag_core_def dr' using s(3,7,8) D(12) dr idle' in' by (simp add: len)
  then show ?thesis by (simp add: drag_inv_def hand_ok_def s st'_def [symmetric])
qed

lemma drag_step_inv:
  assumes "drag_inv down st" "allowed down ev st"
  shows "drag_inv (button down ev) (drag_step pg ev st)"
proof (cases ev)
  case (Press i pt tag l)
  have i: "drag_inv False st" using assms Press by simp
  have "drag_inv True st"
  proof (rule drag_inv_idle [OF i])
    show "activeDraggable st = None" using drag_invD(8) [OF i] by (cases "activeDraggable st") simp_all
    show "timers st = []" using drag_invD(10) [OF i] by simp
  qed
  then show ?thesis using Press initDrag_inv [OF i] by simp
next
  case (Move pt)
  have "drag_inv down (st\<lparr>lastPointer := Some pt\<rparr>)" by (rule drag_inv_aside [OF assms(1)]) simp_all
  then show ?thesis using Move assms(1) updateDrag_inv [of down "st\<lparr>lastPointer := Some pt\<rparr>"]
    by (auto simp: Draggables_updateDrag_def split: option.split)
next
  case (Release pt)
  show ?thesis
  proof (cases "listening st")
    case True
    then show ?thesis using Release endDrag_inv [OF assms(1)] by simp
  next
    case False
    then have "drags st = []" using drag_invD(1) [OF assms(1)] by simp
    then have "activeDraggable st = None" "timers st = []"
      using drag_invD(7,10) [OF assms(1)] by (cases "activeDraggable st"; auto)+
    then show ?thesis using Release False drag_inv_idle [OF assms(1)] by simp
  qed
next
  case (Key_press pt code)
  then show ?thesis using assms finishDrag_inv [OF assms(1)]
    by (auto simp: Draggables_keyPress_def Draggable_keyPress_def split: option.splits)
next
  case (Timer_ends t)
  then show ?thesis using delayed_start_inv [OF assms(1)] by simp
next
  case (Scroll_interval i)
  then show ?thesis using scroll_tick_inv [OF assms(1)] assms(1) by simp
next
  case (Effect_ends e)
  have "drag_inv down (end_effect_finished pg e st)" by (rule drag_inv_aside [OF assms(1)]) (simp_all add: end_effect_finished_def)
  then show ?thesis using Effect_ends by simp
next
  case (Create e opts)
  then show ?thesis using new_draggable_inv [OF assms(1)] by simp
next
  case (Destroy i)
  then show ?thesis using assms destroy_inv by auto
next
  case (Add_drop e d)
  have "drag_inv down (Droppables_add e d st)" by (rule drag_inv_aside [OF assms(1)]) (simp_all add: Droppables_add_def)
  then show ?thesis using Add_drop by simp
next
  case (Remove_drop e)
  have "drag_inv down (Droppables_remove e st)" by (rule drag_inv_aside [OF assms(1)]) (simp_all add: Droppables_remove_def)
  then show ?thesis using Remove_drop by simp
next
  case (Add_observer obs)
  have "drag_inv down (addObserver obs st)"
    by (rule drag_inv_aside [OF assms(1)]) (simp_all add: addObserver_def cacheObserverCallbacks_def)
  then show ?thesis using Add_observer by simp
next
  case (Remove_observer e)
  have "drag_inv down (removeObserver e st)"
    by (rule drag_inv_aside [OF assms(1)]) (simp_all add: removeObserver_def cacheObserverCallbacks_def)
  then show ?thesis using Remove_observer by simp
qed

lemma drag_run_inv:
  "drag_inv down st \<Longrightarrow> orderly down st evs \<Longrightarrow> \<exists>down'. drag_inv down' (drag_run st evs)"
proof (induction evs arbitrary: down st)
  case (Cons p evs)
  obtain pg ev where p: "p = (pg, ev)" by (rule prod.exhaust)
  from Cons.prems have "allowed down ev st" "orderly (button down ev) (drag_step pg ev st) evs" by (simp_all add: p)
  from Cons.IH [OF drag_step_inv [OF Cons.prems(1) this(1)] this(2)] show ?case by (simp add: p)
qed auto

lemma drag_start_inv: "drag_inv False drag_start_state"
  by (simp add: drag_inv_def drag_core_def hand_ok_def drag_start_state_def dragged_def)

text \<open>
  C11: In every run in which the button is not pressed again before it is released, no draggable is destroyed while
  it is held, and escape comes only during a drag that is not scrolling, drags do not overlap: the notifications
  start, go on and end one drag after the other, droppables are lit, hovered over and dropped on only during a drag,
  only the active draggable is dragging, and when it is not, no droppable is active.
\<close>

theorem drags_do_not_overlap:
  assumes "orderly False drag_start_state evs" and "st = drag_run drag_start_state evs"
  shows "protocol None (notes_made st) = Some (dragged st)
    \<and> (\<forall>i < length (store st). dragging (store st ! i) \<longrightarrow> activeDraggable st = Some i)
    \<and> (dragged st = None \<longrightarrow> last_active st = None)"
proof -
  obtain down where "drag_inv down st" using drag_run_inv [OF drag_start_inv assms(1)] assms(2) by blast
  then show ?thesis using drag_invD(3,11,12) by blast
qed

definition demo_page :: drag_page where
  "demo_page = \<lparr>ancestors = (\<lambda>e. if e = 2 then [1] else []), treeNode = (\<lambda>e. None), className = (\<lambda>e. []),
     element_text = (\<lambda>e. ''[object HTMLDivElement]''), box = (\<lambda>e. ((90, 90), (20, 20))),
     layout = (\<lambda>e p. (parse_px (fst p), parse_px (snd p))), realOffset = (\<lambda>e. (0, 0)), position_delta = (0, 0),
     page_position = (\<lambda>e. (0, 0)), absolutized = (\<lambda>e. (0, 0)), relativized = (\<lambda>e. (0, 0)), is_absolute = (\<lambda>e. False),
     window_size = (800, 600), scroll_size = (\<lambda>e. (0, 0)), settle = floor, now = 0\<rparr>"

definition demo_drop :: droppable where
  "demo_drop = \<lparr>drop_id = 0, drop_element = 1, accept = None, containers = None, drop_tree = False, hoverclass = Some ''on'',
     drop_overlap = None, has_onHover = False, has_onDrop = True\<rparr>"

definition plain_options :: "(nat \<Rightarrow> revert) \<Rightarrow> drag_options" where
  "plain_options rv = default_drag_options\<lparr>revert_of := rv, starteffect := No_effect, endeffect := No_effect, reverteffect := Client_effect\<rparr>"

theorem drags_do_not_overlap_witness:
  "notes_made (drag_run drag_start_state (map (Pair demo_page)
      [Create 0 (plain_options (\<lambda>e. No_revert)), Add_drop 1 demo_drop, Press 0 (5, 5) ''DIV'' True, Move (100, 100), Release (100, 100)]))
    = [Notified OnStart 0, Class_added 1 ''on'', Notified OnDrag 0, Dropped 0 1, Notified OnEnd 0, Class_removed 1 ''on'']
  \<and> protocol None (notes_made (drag_run drag_start_state (map (Pair demo_page)
      [Create 0 (plain_options (\<lambda>e. No_revert)), Add_drop 1 demo_drop, Press 0 (5, 5) ''DIV'' True, Move (100, 100), Release (100, 100)])))
    = Some None"
proof -
  let ?evs = "map (Pair demo_page) [Create 0 (plain_options (\<lambda>e. No_revert)), Add_drop 1 demo_drop, Press 0 (5, 5) ''DIV'' True,
    Move (100, 100), Release (100, 100)]"
  have o: "orderly False drag_start_state ?evs" by code_simp
  have d: "dragged (drag_run drag_start_state ?evs) = None" by code_simp
  have n: "notes_made (drag_run drag_start_state ?evs)
    = [Notified OnStart 0, Class_added 1 ''on'', Notified OnDrag 0, Dropped 0 1, Notified OnEnd 0, Class_removed 1 ''on'']" by code_simp
  show ?thesis using drags_do_not_overlap [OF o refl] d n by simp
qed

section \<open>The droppable lit\<close>








section \<open>Where the dragged element goes\<close>

lemma parse_px_int [simp]: "parse_px (of_int n) = n"
  by (simp add: parse_px_def flip: of_int_minus)



lemma draw_only_left_top: "left_top st = left_top st' \<Longrightarrow> store st = store st' \<Longrightarrow> scrolled st = scrolled st' \<Longrightarrow>
    left_top (draw pg i pt st) = left_top (draw pg i pt st')"
  by (simp add: draw_def Let_def currentDelta_def)




section \<open>Snapping\<close>

text \<open>
  A place snapped to a grid is on the grid, and at most half a cell from where the pointer has it.
\<close>

theorem snapped_near:
  assumes "s > 0"
  shows "(\<exists>k. snapped s v = of_int (k * s)) \<and> \<bar>snapped s v - v\<bar> \<le> of_int s / 2"
proof -
  define f where "f = \<lfloor>v / of_int s + 1 / 2\<rfloor>"
  have s: "(0 :: rat) < of_int s" using assms by simp
  have "of_int f \<le> v / of_int s + 1 / 2" "v / of_int s + 1 / 2 < of_int f + 1"
    using floor_correct [of "v / of_int s + 1 / 2"] by (simp_all add: f_def)
  then have "of_int f * of_int s \<le> (v / of_int s + 1 / 2) * of_int s" "(v / of_int s + 1 / 2) * of_int s \<le> (of_int f + 1) * of_int s"
    using s by (simp_all only: mult_right_mono less_imp_le)
  then have "of_int f * of_int s \<le> v + of_int s / 2" "v + of_int s / 2 \<le> of_int f * of_int s + of_int s"
    using s by (simp_all add: distrib_right)
  then have "\<bar>of_int f * of_int s - v\<bar> \<le> of_int s / 2" unfolding abs_le_iff by linarith
  then show ?thesis by (auto simp: snapped_def f_def)
qed

theorem snapped_near_witness: "snapped 20 31 = 40 \<and> \<bar>snapped 20 31 - 31\<bar> \<le> of_int 20 / 2"
proof -
  have "snapped 20 31 = 40" by code_simp
  then show ?thesis using snapped_near [of 20 31] by simp
qed

section \<open>What goes wrong\<close>



text \<open>
  Escape during a drag that scrolls ends the drag and leaves the scrolling interval running: the page goes on
  scrolling, and every tick reports a drag that is over.
\<close>

theorem escape_leaves_scrolling:
  assumes "activeDraggable st = Some i" "i < length (store st)" "delta (store st ! i) \<noteq> None"
  shows "scrollInterval (store (Draggables_keyPress pg pt 27 st) ! i) = scrollInterval (store st ! i)
    \<and> activeDraggable (Draggables_keyPress pg pt 27 st) = None"
proof -
  note f = finishDrag_drag [OF assms(2,3), of pg pt False]
  have "scrollInterval (store (snd (finishDrag pg i pt False st)) ! i) = scrollInterval (store st ! i)"
    using f(1) assms(2) by auto
  then show ?thesis using f(3) assms(1) by (simp add: Draggables_keyPress_def Draggable_keyPress_def)
qed

theorem escape_leaves_scrolling_witness:
  "case drag_run drag_start_state (map (Pair demo_page)
     [Create 0 ((plain_options (\<lambda>e. No_revert))\<lparr>scroll_option := Window_scroll\<rparr>), Press 0 (5, 5) ''DIV'' True, Move (795, 300)])
   of st \<Rightarrow> scrollInterval (store (Draggables_keyPress demo_page (795, 300) 27 st) ! 0) = Some (225, 0)"
proof -
  define st where "st = drag_run drag_start_state (map (Pair demo_page)
     [Create 0 ((plain_options (\<lambda>e. No_revert))\<lparr>scroll_option := Window_scroll\<rparr>), Press 0 (5, 5) ''DIV'' True, Move (795, 300)])"
  have "activeDraggable st = Some 0" "0 < length (store st)" "delta (store st ! 0) \<noteq> None" "scrollInterval (store st ! 0) = Some (225, 0)"
    unfolding st_def by code_simp+
  then show ?thesis unfolding st_def [symmetric] using escape_leaves_scrolling [of st 0 demo_page "(795, 300)"] by simp
qed

text \<open>
  When the release is lost, outside the window, the next press starts a second drag, and the first is never ended.
\<close>

theorem lost_release_two_drags:
  "map dragging (store (drag_run drag_start_state (map (Pair demo_page)
     [Create 0 (plain_options (\<lambda>e. No_revert)), Create 1 (plain_options (\<lambda>e. No_revert)), Press 0 (5, 5) ''DIV'' True, Move (9, 9),
      Press 1 (6, 6) ''DIV'' True, Move (10, 10), Release (10, 10)]))) = [True, False]"
  by code_simp

text \<open>
  With \<open>revert: 'failure'\<close> a successful drop leaves \<open>delta\<close> where it was, so that the next failing drag goes back
  not to where it started, \<open>(95, 95)\<close>, but to where the drag before it had started.
\<close>

theorem failed_drag_goes_back_too_far:
  "let st = drag_run drag_start_state (map (Pair demo_page)
       [Create 0 (plain_options (\<lambda>e. On_failure)), Add_drop 1 demo_drop, Press 0 (5, 5) ''DIV'' True, Move (100, 100), Release (100, 100),
        Press 0 (100, 100) ''DIV'' True, Move (500, 400), Release (500, 400)])
   in currentDelta 0 st = (495, 395) \<and> last (notes_made st) = Revert_effect 0 395 495 Client_effect"
  by code_simp

text \<open>A draggable destroyed while it is held goes on being dragged by the next draggable's listeners.\<close>

theorem destroyed_draggable_dragged:
  "map dragging (store (drag_run drag_start_state (map (Pair demo_page)
     [Create 0 (plain_options (\<lambda>e. No_revert)), Press 0 (5, 5) ''DIV'' True, Destroy 0, Release (5, 5),
      Create 1 (plain_options (\<lambda>e. No_revert)), Move (9, 9)]))) = [True, False]"
  by code_simp

end
