(* ===== verification/Sortable.thy ===== *)
theory Sortable
  imports DragDrop QueryString "HOL-Library.Multiset"
begin

text \<open>
  Sortable lists, the last part of \<open>dragdrop.js\<close>: lists whose items are draggable and droppable and are
  put in order while one of them is dragged over the others.  The page is a list of trees, the document and
  what has been taken out of it; nodes are numbered, and the draggables and droppables of a list are those of
  \<open>DragDrop\<close>.  Callbacks of the client are recorded.
\<close>

section \<open>The page\<close>

text \<open>A node without a tag is a text.  Its extent is \<open>offsetWidth\<close> and \<open>offsetHeight\<close>.\<close>

datatype node = Node (node_key: nat) (node_tag: string) (node_id: string) (node_classes: "string list")
  (node_extent: "rat \<times> rat") (kids: "node list")

type_synonym forest = "node list"

fun all_nodes :: "node \<Rightarrow> node list" where
  "all_nodes (Node k t i cs ex ns) = Node k t i cs ex ns # concat (map all_nodes ns)"

definition nodes_of :: "forest \<Rightarrow> node list" where
  "nodes_of f = concat (map all_nodes f)"


definition node_at :: "nat \<Rightarrow> forest \<Rightarrow> node option" where
  "node_at k f = List.find (\<lambda>n. node_key n = k) (nodes_of f)"

definition parentNode :: "nat \<Rightarrow> forest \<Rightarrow> node option" where
  "parentNode k f = List.find (\<lambda>n. k \<in> set (map node_key (kids n))) (nodes_of f)"

fun path_in :: "nat \<Rightarrow> node \<Rightarrow> node list option" where
  "path_in k (Node k' t i cs ex ns) =
     (if k' = k then Some [Node k' t i cs ex ns]
      else case List.find (\<lambda>p. p \<noteq> None) (map (path_in k) ns) of
        Some (Some p) \<Rightarrow> Some (p @ [Node k' t i cs ex ns]) | _ \<Rightarrow> None)"

text \<open>A node and what it is in, from the inside out.\<close>

definition climb_from :: "nat \<Rightarrow> forest \<Rightarrow> node list" where
  "climb_from k f = (case List.find (\<lambda>p. p \<noteq> None) (map (path_in k) f) of Some (Some p) \<Rightarrow> p | _ \<Rightarrow> [])"

fun without_key :: "nat \<Rightarrow> node \<Rightarrow> node" where
  "without_key k (Node k' t i cs ex ns) = Node k' t i cs ex (map (without_key k) (filter (\<lambda>n. node_key n \<noteq> k) ns))"

definition take_out :: "nat \<Rightarrow> forest \<Rightarrow> forest" where
  "take_out k f = map (without_key k) (filter (\<lambda>n. node_key n \<noteq> k) f)"

text \<open>\<open>insertBefore\<close> with no reference adds at the end.\<close>

fun insert_kid :: "node \<Rightarrow> nat option \<Rightarrow> node list \<Rightarrow> node list" where
  "insert_kid n ref [] = [n]"
| "insert_kid n ref (m # ms) = (if ref = Some (node_key m) then n # m # ms else m # insert_kid n ref ms)"

fun put_in :: "nat \<Rightarrow> node \<Rightarrow> nat option \<Rightarrow> node \<Rightarrow> node" where
  "put_in p n ref (Node k t i cs ex ns) =
     Node k t i cs ex (if k = p then insert_kid n ref ns else map (put_in p n ref) ns)"

fun next_key :: "nat \<Rightarrow> node list \<Rightarrow> nat option" where
  "next_key k [] = None"
| "next_key k [n] = None"
| "next_key k (n # m # ms) = (if node_key n = k then Some (node_key m) else next_key k (m # ms))"

fun prev_key :: "nat \<Rightarrow> node list \<Rightarrow> nat option" where
  "prev_key k [] = None"
| "prev_key k [n] = None"
| "prev_key k (n # m # ms) = (if node_key m = k then Some (node_key n) else prev_key k (m # ms))"

definition nextSibling :: "nat \<Rightarrow> forest \<Rightarrow> nat option" where
  "nextSibling k f = (case parentNode k f of None \<Rightarrow> None | Some p \<Rightarrow> next_key k (kids p))"

definition previousSibling :: "nat \<Rightarrow> forest \<Rightarrow> nat option" where
  "previousSibling k f = (case parentNode k f of None \<Rightarrow> None | Some p \<Rightarrow> prev_key k (kids p))"

definition insertBefore :: "nat \<Rightarrow> nat \<Rightarrow> nat option \<Rightarrow> forest \<Rightarrow> forest" where
  "insertBefore p k ref f =
     (case node_at k f of None \<Rightarrow> f
      | Some n \<Rightarrow> (let ref' = (if ref = Some k then nextSibling k f else ref) in map (put_in p n ref') (take_out k f)))"

definition removeChild :: "nat \<Rightarrow> forest \<Rightarrow> forest" where
  "removeChild k f = (case node_at k f of None \<Rightarrow> f | Some n \<Rightarrow> take_out k f @ [n])"

definition has_tag :: "string \<Rightarrow> node \<Rightarrow> bool" where
  "has_tag tagName n \<longleftrightarrow> node_tag n \<noteq> [] \<and> to_lower (node_tag n) = to_lower tagName"

definition picked :: "string list option \<Rightarrow> string \<Rightarrow> node \<Rightarrow> bool" where
  "picked only tagName n \<longleftrightarrow>
     has_tag tagName n \<and> (case only of None \<Rightarrow> True | Some cs \<Rightarrow> list_ex (\<lambda>v. v \<in> set cs) (node_classes n))"

text \<open>\<open>null\<close> for an element without contents.\<close>

fun findChildren :: "string list option \<Rightarrow> bool \<Rightarrow> string \<Rightarrow> node \<Rightarrow> node list option" where
  "findChildren only recursive tagName (Node k t i cs ex ns) =
     (if ns = [] then None
      else Some (concat (map (\<lambda>e. (if picked only tagName e then [e] else [])
        @ (if recursive then (case findChildren only recursive tagName e of None \<Rightarrow> [] | Some es \<Rightarrow> es) else [])) ns)))"

definition down :: "string \<Rightarrow> node \<Rightarrow> node option" where
  "down tagName n = List.find (has_tag tagName) (nodes_of (kids n))"

definition offsetSize :: "node \<Rightarrow> string \<Rightarrow> rat" where
  "offsetSize n type = (if type = ''vertical'' \<or> type = ''height'' then snd (node_extent n) else fst (node_extent n))"

section \<open>Sortable lists\<close>

text \<open>\<open>SERIALIZE_RULE\<close>: what follows the last underscore of the name's beginning.\<close>

definition id_char :: "char \<Rightarrow> bool" where
  "id_char c \<longleftrightarrow>
     (let n = of_char c :: nat
      in (48 \<le> n \<and> n \<le> 57) \<or> (65 \<le> n \<and> n \<le> 90) \<or> (97 \<le> n \<and> n \<le> 122) \<or> n = 45 \<or> n = 95)"

definition serialize_rule :: "string \<Rightarrow> string option" where
  "serialize_rule s =
     (case s of [] \<Rightarrow> None
      | c # t \<Rightarrow>
          (let word = takeWhile id_char t;
               rest = rev (takeWhile (\<lambda>x. x \<noteq> CHR ''_'') (rev word)) @ dropWhile id_char t
           in if c = CHR ''_'' \<or> c = CHR ''-'' \<or> CHR ''_'' \<notin> set word \<or> list_ex line_end rest then None else Some rest))"

record sortable_options =
  so_element :: nat
  so_tag :: string
  dropOnEmpty :: bool
  so_tree :: bool
  treeTag :: string
  so_overlap :: string
  so_constraint :: "drag_axis option"
  containment :: "nat list option"
  so_only :: "string list option"
  so_delay :: nat
  so_hoverclass :: "string option"
  so_ghosting :: bool
  so_quiet :: bool
  so_scroll :: scroller
  so_scrollSensitivity :: int
  so_scrollSpeed :: int
  so_format :: "string \<Rightarrow> string option"
  so_elements :: "nat list option"
  so_starteffect :: bool
  so_reverteffect :: bool
  so_endeffect :: bool
  so_zindex :: int
  draggables :: "nat list"
  droppables :: "nat list"

definition default_sortable_options :: "nat \<Rightarrow> sortable_options" where
  "default_sortable_options e =
     \<lparr>so_element = e, so_tag = ''li'', dropOnEmpty = False, so_tree = False, treeTag = ''ul'', so_overlap = ''vertical'',
       so_constraint = Some Vertical, containment = Some [e], so_only = None, so_delay = 0, so_hoverclass = None,
       so_ghosting = False, so_quiet = False, so_scroll = No_scroll, so_scrollSensitivity = 20, so_scrollSpeed = 15,
       so_format = serialize_rule, so_elements = None, so_starteffect = False, so_reverteffect = False,
       so_endeffect = False, so_zindex = 0, draggables = [], droppables = []\<rparr>"

datatype sort_note = Change_called nat nat | Update_called nat

record sort_state =
  page :: forest
  sortables :: "string \<Rightarrow> sortable_options option"
  observers :: "(nat \<times> string) list"
  marker :: "(int \<times> int) \<times> bool"
  drag_part :: dragdrop
  sort_notes :: "sort_note list"

text \<open>Climbing out of the document is an error.\<close>

fun root_element :: "(string \<Rightarrow> sortable_options option) \<Rightarrow> node list \<Rightarrow> node option js" where
  "root_element sorts [] = raise TypeError"
| "root_element sorts (n # ns) =
     (if to_lower (node_tag n) = ''body'' then ok None
      else if node_id n \<noteq> [] \<and> \<not> Option.is_none (sorts (node_id n)) then ok (Some n) else root_element sorts ns)"

definition findRootElement :: "nat \<Rightarrow> sort_state \<Rightarrow> node option js" where
  "findRootElement k st = root_element (sortables st) (climb_from k (page st))"

definition Sortable_options :: "nat \<Rightarrow> sort_state \<Rightarrow> sortable_options option js" where
  "Sortable_options k st =
     js_bind (findRootElement k st) (\<lambda>r. ok (case r of None \<Rightarrow> None | Some n \<Rightarrow> sortables st (node_id n)))"

definition findElements :: "node \<Rightarrow> sortable_options \<Rightarrow> node list option" where
  "findElements n opts = findChildren (so_only opts) (so_tree opts) (so_tag opts) n"

definition findTreeElements :: "node \<Rightarrow> sortable_options \<Rightarrow> node list option" where
  "findTreeElements n opts = findChildren (so_only opts) (so_tree opts) (treeTag opts) n"

text \<open>What an operation leaves behind, and the error it ends with, if any.\<close>

type_synonym sort_result = "sort_state \<times> js_error option"

definition and_after :: "sort_result \<Rightarrow> (sort_state \<Rightarrow> sort_result) \<Rightarrow> sort_result" where
  "and_after r f = (case snd r of None \<Rightarrow> f (fst r) | Some e \<Rightarrow> r)"

definition with_options :: "nat \<Rightarrow> (sortable_options \<Rightarrow> sort_result) \<Rightarrow> sort_state \<Rightarrow> sort_result" where
  "with_options k f st =
     (case Sortable_options k st of Inl e \<Rightarrow> (st, Some e) | Inr None \<Rightarrow> (st, Some TypeError) | Inr (Some opts) \<Rightarrow> f opts)"

definition call_onChange :: "nat \<Rightarrow> nat \<Rightarrow> sort_state \<Rightarrow> sort_result" where
  "call_onChange k e st =
     with_options k (\<lambda>opts. (st\<lparr>sort_notes := sort_notes st @ [Change_called (so_element opts) e]\<rparr>, None)) st"

section \<open>Moving items about\<close>

record sort_geometry =
  cumulative_offset :: "nat \<Rightarrow> int \<times> int"
  client_size :: "nat \<Rightarrow> int \<times> int"

definition unmark :: "sort_state \<Rightarrow> sort_state" where
  "unmark st = st\<lparr>marker := (fst (marker st), False)\<rparr>"

text \<open>The marker is for ghosting only; outside every sortable list it is placed, and then there are no options to ask.\<close>

definition mark :: "sort_geometry \<Rightarrow> nat \<Rightarrow> bool \<Rightarrow> sort_state \<Rightarrow> sort_result" where
  "mark geo dropon behind st =
     (case parentNode dropon (page st) of None \<Rightarrow> (st, Some TypeError)
      | Some p \<Rightarrow>
          (let (x, y) = cumulative_offset geo dropon
           in case Sortable_options (node_key p) st of
                Inl e \<Rightarrow> (st, Some e)
              | Inr None \<Rightarrow> if behind then (st\<lparr>marker := ((x, y), snd (marker st))\<rparr>, Some TypeError) else (st\<lparr>marker := ((x, y), True)\<rparr>, None)
              | Inr (Some opts) \<Rightarrow>
                  if \<not> so_ghosting opts then (st, None)
                  else (st\<lparr>marker := ((if behind \<and> so_overlap opts = ''horizontal'' then x + fst (client_size geo dropon) else x,
                           if behind \<and> so_overlap opts \<noteq> ''horizontal'' then y + snd (client_size geo dropon) else y), True)\<rparr>, None)))"

definition is_parent :: "nat \<Rightarrow> nat \<Rightarrow> forest \<Rightarrow> bool" where
  "is_parent child e f \<longleftrightarrow> climb child (map node_key (tl (climb_from child f))) e"

definition move_item :: "nat \<Rightarrow> nat \<Rightarrow> nat option \<Rightarrow> sort_state \<Rightarrow> sort_result" where
  "move_item e dropon ref st =
     (case (parentNode dropon (page st), parentNode e (page st)) of
        (Some p, Some old) \<Rightarrow>
          (let st1 = st\<lparr>page := insertBefore (node_key p) e ref (page st)\<rparr>
           in and_after (if node_key p \<noteq> node_key old then call_onChange (node_key old) e st1 else (st1, None)) (call_onChange (node_key p) e))
      | (None, _) \<Rightarrow> (st, Some TypeError)
      | (Some p, None) \<Rightarrow> (st\<lparr>page := insertBefore (node_key p) e ref (page st)\<rparr>, Some TypeError))"

definition hover_place :: "sort_geometry \<Rightarrow> nat \<Rightarrow> nat \<Rightarrow> rat \<Rightarrow> sort_state \<Rightarrow> sort_result" where
  "hover_place geo e dropon overlap st =
     (if overlap > 1 / 2
      then and_after (mark geo dropon False st) (\<lambda>st1.
        if previousSibling dropon (page st1) \<noteq> Some e then move_item e dropon (Some dropon) st1 else (st1, None))
      else and_after (mark geo dropon True st) (\<lambda>st1.
        if nextSibling dropon (page st1) \<noteq> Some e then move_item e dropon (nextSibling dropon (page st1)) st1 else (st1, None)))"

definition Sortable_onHover :: "sort_geometry \<Rightarrow> nat \<Rightarrow> nat \<Rightarrow> rat \<Rightarrow> sort_state \<Rightarrow> sort_result" where
  "Sortable_onHover geo e dropon overlap st =
     (if is_parent dropon e (page st) then (st, None)
      else if 33 / 100 < overlap \<and> overlap < 66 / 100
      then with_options dropon (\<lambda>opts. if so_tree opts then (st, None) else hover_place geo e dropon overlap st) st
      else hover_place geo e dropon overlap st)"

text \<open>Which of the items of a list the offset comes before; each is given with its size.\<close>

fun empty_slot :: "rat \<Rightarrow> (nat \<times> rat) list \<Rightarrow> nat option" where
  "empty_slot offset [] = None"
| "empty_slot offset ((k, sz) # cs) =
     (if offset - sz \<ge> 0 then empty_slot (offset - sz) cs
      else if offset - sz / 2 \<ge> 0 then (case cs of [] \<Rightarrow> None | c # cs' \<Rightarrow> Some (fst c))
      else Some k)"

definition onEmptyHover :: "nat \<Rightarrow> nat \<Rightarrow> rat \<Rightarrow> sort_state \<Rightarrow> sort_result" where
  "onEmptyHover e dropon overlap st =
     (case Sortable_options dropon st of
        Inl err \<Rightarrow> (st, Some err)
      | Inr droponOptions \<Rightarrow>
          if is_parent dropon e (page st) then (st, None)
          else case (droponOptions, node_at dropon (page st)) of
            (Some opts, Some d) \<Rightarrow>
              (let children = (case findChildren (so_only opts) False (so_tag opts) d of None \<Rightarrow> [] | Some cs \<Rightarrow> cs);
                   slot = empty_slot (offsetSize d (so_overlap opts) * (1 - overlap)) (map (\<lambda>c. (node_key c, offsetSize c (so_overlap opts))) children);
                   st1 = st\<lparr>page := insertBefore dropon e slot (page st)\<rparr>
               in and_after (case parentNode e (page st) of None \<Rightarrow> (st1, Some TypeError) | Some old \<Rightarrow> call_onChange (node_key old) e st1)
                    (\<lambda>st2. (st2\<lparr>sort_notes := sort_notes st2 @ [Change_called (so_element opts) e]\<rparr>, None)))
          | _ \<Rightarrow> (st, Some TypeError))"

section \<open>Reading and setting the order\<close>

text \<open>The properties a client can bring as the last argument.\<close>

record sort_args =
  arg_tag :: "string option"
  arg_treeTag :: "string option"
  arg_only :: "string list option option"
  arg_tree :: "bool option"
  arg_format :: "(string \<Rightarrow> string option) option"
  arg_name :: "string option"

definition no_args :: sort_args where
  "no_args = \<lparr>arg_tag = None, arg_treeTag = None, arg_only = None, arg_tree = None, arg_format = None, arg_name = None\<rparr>"

definition given_or :: "'a option \<Rightarrow> 'a \<Rightarrow> 'a" where
  "given_or a d = (case a of None \<Rightarrow> d | Some v \<Rightarrow> v)"

definition extend_options :: "sort_args \<Rightarrow> sortable_options \<Rightarrow> sortable_options" where
  "extend_options args opts =
     opts\<lparr>so_tag := given_or (arg_tag args) (so_tag opts), treeTag := given_or (arg_treeTag args) (treeTag opts),
       so_only := given_or (arg_only args) (so_only opts), so_tree := given_or (arg_tree args) (so_tree opts),
       so_format := given_or (arg_format args) (so_format opts)\<rparr>"

text \<open>The arguments are written into the options of the list, where they stay.\<close>

definition extended :: "nat \<Rightarrow> sort_args \<Rightarrow> sort_state \<Rightarrow> (sortable_options \<times> sort_state) js" where
  "extended k args st =
     js_bind (findRootElement k st) (\<lambda>r. case r of None \<Rightarrow> raise TypeError
       | Some n \<Rightarrow>
           (case sortables st (node_id n) of None \<Rightarrow> raise TypeError
            | Some opts \<Rightarrow>
                (let opts' = extend_options args opts
                 in ok (opts', st\<lparr>sortables := (sortables st)(node_id n := Some opts')\<rparr>))))"

definition items_in :: "nat \<Rightarrow> sortable_options \<Rightarrow> sort_state \<Rightarrow> node list option" where
  "items_in k opts st = (case node_at k (page st) of None \<Rightarrow> None | Some n \<Rightarrow> findElements n opts)"

definition sequence :: "nat \<Rightarrow> sort_args \<Rightarrow> sort_state \<Rightarrow> (string list \<times> sort_state) js" where
  "sequence k args st =
     js_bind (extended k args st) (\<lambda>(opts, st1).
       ok (map (\<lambda>item. case so_format opts (node_id item) of Some m \<Rightarrow> m | None \<Rightarrow> [])
             (case items_in k opts st1 of None \<Rightarrow> [] | Some items \<Rightarrow> items), st1))"

datatype sort_item = Sort_item string "sort_item list"

lemma kid_smaller: "c \<in> set ns \<Longrightarrow> size c < size (Node k t i cs ex ns)"
  using size_list_estimation' [of c ns "size c" size] by simp

definition findings :: "string list option \<Rightarrow> bool \<Rightarrow> string \<Rightarrow> node \<Rightarrow> node list" where
  "findings only recursive tagName e =
     (if picked only tagName e then [e] else [])
     @ (if recursive then (case findChildren only recursive tagName e of None \<Rightarrow> [] | Some es \<Rightarrow> es) else [])"

lemma findChildren_kids: "kids n \<noteq> [] \<Longrightarrow> findChildren only recursive tagName n = Some (concat (map (findings only recursive tagName) (kids n)))"
  unfolding findings_def [abs_def] by (cases n) simp

lemma findChildren_None: "findChildren only recursive tagName n = None \<longleftrightarrow> kids n = []"
  by (cases n) simp

lemma findings_cases:
  assumes "e \<in> set (findings only recursive tagName m)"
  shows "e = m \<or> (\<exists>es. findChildren only recursive tagName m = Some es \<and> e \<in> set es)"
  using assms unfolding findings_def by (cases "picked only tagName m"; cases recursive; cases "findChildren only recursive tagName m") simp_all

lemma findChildren_smaller:
  "\<lbrakk>findChildren only recursive tagName n = Some es; e \<in> set es\<rbrakk> \<Longrightarrow> size e < size n"
proof (induction n arbitrary: es)
  case (Node k t i cs ex ns)
  have "kids (Node k t i cs ex ns) \<noteq> []" using Node.prems(1) findChildren_None by (metis option.distinct(1))
  from findChildren_kids [OF this, of only recursive tagName]
  obtain m where m: "m \<in> set ns" "e \<in> set (findings only recursive tagName m)" using Node.prems by auto
  have "size e \<le> size m" using findings_cases [OF m(2)] Node.IH [OF m(1)] by (auto intro: less_imp_le)
  then show ?case using kid_smaller [OF m(1)] by (rule le_less_trans)
qed

lemma all_nodes_size: "m \<in> set (all_nodes n) \<Longrightarrow> size m \<le> size n"
proof (induction n rule: all_nodes.induct)
  case (1 k t i cs ex ns)
  show ?case
  proof (cases "m = Node k t i cs ex ns")
    case False
    then obtain c where c: "c \<in> set ns" "m \<in> set (all_nodes c)" using 1(2) by auto
    then have "size m \<le> size c" using 1(1) by blast
    also have "size c \<le> size_list size ns" using c(1) by (simp add: size_list_estimation')
    finally show ?thesis by simp
  qed simp
qed

lemma down_smaller: "down tg n = Some d \<Longrightarrow> size d < size n"
proof (cases n)
  case (Node k t i cs ex ns)
  assume "down tg n = Some d"
  then have "d \<in> set (nodes_of ns)" unfolding down_def Node by (auto simp: find_Some_iff in_set_conv_nth)
  then obtain c where c: "c \<in> set ns" "d \<in> set (all_nodes c)" by (auto simp: nodes_of_def)
  then have "size d \<le> size_list size ns" using all_nodes_size [OF c(2)] by (meson size_list_estimation')
  then show ?thesis by (simp add: Node)
qed

text \<open>The items of an element that carry a name, each with the items of the list inside it.\<close>

function tree_items :: "sortable_options \<Rightarrow> node \<Rightarrow> sort_item list" where
  "tree_items opts n =
     concat (map (\<lambda>c. case so_format opts (node_id c) of None \<Rightarrow> []
         | Some i \<Rightarrow> [Sort_item (encodeURIComponent i) (case down (treeTag opts) c of None \<Rightarrow> [] | Some d \<Rightarrow> tree_items opts d)])
       (case findElements n opts of None \<Rightarrow> [] | Some es \<Rightarrow> es))"
  by pat_completeness auto
termination
  by (relation "measure (\<lambda>(opts, n). size n)")
    (auto simp: findElements_def split: option.splits dest!: findChildren_smaller [OF sym] down_smaller intro: less_trans)

declare tree_items.simps [simp del]

text \<open>\<open>Sortable.tree\<close> makes options of its own from those of the list.\<close>

definition sort_tree_of :: "nat \<Rightarrow> sort_args \<Rightarrow> sort_state \<Rightarrow> sort_item list js" where
  "sort_tree_of k args st =
     js_bind (Sortable_options k st) (\<lambda>o1. case (o1, node_at k (page st)) of
         (Some opts, Some n) \<Rightarrow> ok (tree_items (extend_options args (opts\<lparr>so_tree := False\<rparr>)) n)
       | _ \<Rightarrow> raise TypeError)"

text \<open>The lines of a tree; \<open>ix\<close> is what \<open>_constructIndex\<close> makes of the nodes above, of which those without a name do not count.\<close>

fun item_lines :: "string \<Rightarrow> string \<Rightarrow> nat \<Rightarrow> sort_item \<Rightarrow> string list"
  and items_lines :: "string \<Rightarrow> string \<Rightarrow> nat \<Rightarrow> sort_item list \<Rightarrow> string list" where
  "item_lines name ix pos (Sort_item i cs) =
     (let ix' = (if i = [] then ix else ix @ ''['' @ show_nat pos @ '']'')
      in (name @ ix' @ ''[id]='' @ encodeURIComponent i) # items_lines name ix' 0 cs)"
| "items_lines name ix pos [] = []"
| "items_lines name ix pos (c # cs) = item_lines name ix pos c @ items_lines name ix (Suc pos) cs"

definition list_name :: "nat \<Rightarrow> sort_args \<Rightarrow> sort_state \<Rightarrow> string" where
  "list_name k args st =
     encodeURIComponent (case arg_name args of
         Some (c # s) \<Rightarrow> c # s
       | _ \<Rightarrow> (case node_at k (page st) of Some n \<Rightarrow> node_id n | None \<Rightarrow> []))"

definition serialize_items :: "string \<Rightarrow> string list \<Rightarrow> string" where
  "serialize_items name seq = join_with ''&'' (map (\<lambda>item. name @ ''[]='' @ encodeURIComponent item) seq)"

definition Sortable_serialize :: "nat \<Rightarrow> sort_args \<Rightarrow> sort_state \<Rightarrow> (string \<times> sort_state) js" where
  "Sortable_serialize k args st =
     js_bind (extended k args st) (\<lambda>(opts, st1).
       if so_tree opts
       then js_bind (sort_tree_of k args st1) (\<lambda>items. ok (join_with ''&'' (items_lines (list_name k args st1) [] 0 items), st1))
       else js_bind (sequence k args st1) (\<lambda>(seq, st2). ok (serialize_items (list_name k args st1) seq, st2)))"

text \<open>All items are taken out, and those named by the new sequence put back at the end of where they were.\<close>

fun collect_items :: "sortable_options \<Rightarrow> node list \<Rightarrow> (nat \<times> nat) object \<Rightarrow> forest \<Rightarrow> ((nat \<times> nat) object \<times> forest) js" where
  "collect_items opts [] nodeMap f = ok (nodeMap, f)"
| "collect_items opts (n # ns) nodeMap f =
     (case parentNode (node_key n) f of None \<Rightarrow> raise TypeError
      | Some p \<Rightarrow>
          collect_items opts ns
            (case so_format opts (node_id n) of Some m \<Rightarrow> hash_set m (node_key n, node_key p) nodeMap | None \<Rightarrow> nodeMap)
            (removeChild (node_key n) f))"

fun put_back :: "string list \<Rightarrow> (nat \<times> nat) object \<Rightarrow> forest \<Rightarrow> forest js" where
  "put_back [] nodeMap f = ok f"
| "put_back (ident # idents) nodeMap f =
     (case hash_get ident nodeMap of
        Some (n, p) \<Rightarrow> put_back idents (snd (hash_unset ident nodeMap)) (insertBefore p n None f)
      | None \<Rightarrow> if ident \<in> set inherited_names then raise TypeError else put_back idents nodeMap f)"

definition setSequence :: "nat \<Rightarrow> string list \<Rightarrow> sort_args \<Rightarrow> sort_state \<Rightarrow> sort_state js" where
  "setSequence k new_sequence args st =
     js_bind (extended k args st) (\<lambda>(opts, st1).
       case items_in k opts st1 of None \<Rightarrow> raise TypeError
       | Some items \<Rightarrow>
           js_bind (collect_items opts items [] (page st1)) (\<lambda>(nodeMap, f).
           js_bind (put_back new_sequence nodeMap f) (\<lambda>f'. ok (st1\<lparr>page := f'\<rparr>))))"

section \<open>The observer of a list\<close>

text \<open>It compares the order when a drag ends with the order when it started.\<close>

definition new_observer :: "nat \<Rightarrow> sort_state \<Rightarrow> sort_result" where
  "new_observer k st =
     (case Sortable_serialize k no_args st of Inl e \<Rightarrow> (st, Some e)
      | Inr (text, st1) \<Rightarrow>
          (st1\<lparr>observers := observers st1 @ [(k, text)],
             drag_part := addObserver \<lparr>observer_element = k, handles = (\<lambda>n. n \<noteq> OnDrag)\<rparr> (drag_part st1)\<rparr>, None))"

definition observer_onStart :: "nat \<Rightarrow> sort_state \<Rightarrow> sort_result" where
  "observer_onStart i st =
     (case Sortable_serialize (fst (observers st ! i)) no_args st of Inl e \<Rightarrow> (st, Some e)
      | Inr (text, st1) \<Rightarrow> (st1\<lparr>observers := (observers st1)[i := (fst (observers st1 ! i), text)]\<rparr>, None))"

definition observer_onEnd :: "nat \<Rightarrow> sort_state \<Rightarrow> sort_result" where
  "observer_onEnd i st =
     (let st1 = unmark st
      in case Sortable_serialize (fst (observers st1 ! i)) no_args st1 of Inl e \<Rightarrow> (st1, Some e)
         | Inr (text, st2) \<Rightarrow>
             (if snd (observers st1 ! i) \<noteq> text
              then (st2\<lparr>sort_notes := sort_notes st2 @ [Update_called (fst (observers st1 ! i))]\<rparr>, None) else (st2, None)))"

section \<open>Making and destroying sortable lists\<close>

definition Sortable_destroy :: "nat \<Rightarrow> sort_state \<Rightarrow> sort_state" where
  "Sortable_destroy k st =
     (case node_at k (page st) of None \<Rightarrow> st
      | Some n \<Rightarrow>
          (case sortables st (node_id n) of None \<Rightarrow> st
           | Some s \<Rightarrow>
               st\<lparr>observers := filter (\<lambda>p. fst p \<noteq> so_element s) (observers st),
                 drag_part := foldl (\<lambda>d i. Draggable_destroy i d)
                     (foldl (\<lambda>d e. Droppables_remove e d) (removeObserver (so_element s) (drag_part st)) (droppables s)) (draggables s),
                 sortables := (sortables st)
                   ((case node_at (so_element s) (page st) of Some m \<Rightarrow> node_id m | None \<Rightarrow> node_id n) := None)\<rparr>))"

definition drag_options_for :: "sortable_options \<Rightarrow> drag_options" where
  "drag_options_for opts =
     with_effects (if so_starteffect opts then Given_call else Not_given) (if so_endeffect opts then Given_call else Not_given)
       (if so_reverteffect opts \<or> so_ghosting opts then Given_call else Not_given)
       (default_drag_options\<lparr>revert_of := (\<lambda>e. Do_revert), quiet := so_quiet opts, scroll_option := so_scroll opts,
          scrollSpeed := so_scrollSpeed opts, scrollSensitivity := so_scrollSensitivity opts, drag_delay := so_delay opts,
          ghosting := so_ghosting opts, constraint := so_constraint opts,
          zindex := (if so_zindex opts \<noteq> 0 then so_zindex opts else zindex default_drag_options)\<rparr>)"

definition overlap_axis :: "string \<Rightarrow> drag_axis option" where
  "overlap_axis s = (if s = ''vertical'' then Some Vertical else if s = ''horizontal'' then Some Horizontal else None)"

definition drop_options_for :: "bool \<Rightarrow> sortable_options \<Rightarrow> droppable" where
  "drop_options_for for_tree opts =
     \<lparr>drop_id = 0, drop_element = 0, accept = None, containers = containment opts, drop_tree = (if for_tree then False else so_tree opts),
       hoverclass = so_hoverclass opts, drop_overlap = overlap_axis (so_overlap opts), has_onHover = True, has_onDrop = False\<rparr>"

definition is_blank :: "node \<Rightarrow> bool" where
  "is_blank n \<longleftrightarrow> node_tag n = [] \<and> list_all is_space (node_id n)"

text \<open>\<open>Element.cleanWhitespace\<close>; the characters of a text are its \<open>node_id\<close>.\<close>

fun clean_in :: "nat \<Rightarrow> node \<Rightarrow> node" where
  "clean_in e (Node k t i cs ex ns) =
     Node k t i cs ex (if k = e then filter (\<lambda>n. \<not> is_blank n) ns else map (clean_in e) ns)"

text \<open>The items become draggables, and they and the lists inside them droppables.\<close>

definition make_item :: "drag_page \<Rightarrow> sortable_options \<Rightarrow> sortable_options \<times> dragdrop \<Rightarrow> nat \<Rightarrow> sortable_options \<times> dragdrop" where
  "make_item pg given r e = (case r of (opts, d) \<Rightarrow>
     (opts\<lparr>draggables := draggables opts @ [length (store d)], droppables := droppables opts @ [e]\<rparr>,
      Droppables_add e (drop_options_for False given) (new_draggable pg e (drag_options_for given) d)))"

definition make_drop :: "sortable_options \<Rightarrow> sortable_options \<times> dragdrop \<Rightarrow> nat \<Rightarrow> sortable_options \<times> dragdrop" where
  "make_drop given r e = (case r of (opts, d) \<Rightarrow>
     (opts\<lparr>droppables := droppables opts @ [e]\<rparr>, Droppables_add e (drop_options_for True given) d))"

definition register_items :: "drag_page \<Rightarrow> nat \<Rightarrow> sortable_options \<Rightarrow> node \<Rightarrow> dragdrop \<Rightarrow> sortable_options \<times> dragdrop" where
  "register_items pg k given n d =
     (let r0 = (given\<lparr>draggables := [], droppables := []\<rparr>, d);
          r1 = (if dropOnEmpty given \<or> so_tree given then make_drop given r0 k else r0);
          es = (case so_elements given of Some es \<Rightarrow> es
            | None \<Rightarrow> (case findElements n given of Some es \<Rightarrow> map node_key es | None \<Rightarrow> []));
          r2 = foldl (make_item pg given) r1 es;
          ts = (if so_tree given then (case findTreeElements n given of Some es \<Rightarrow> map node_key es | None \<Rightarrow> []) else [])
      in foldl (make_drop given) r2 ts)"

definition Sortable_create :: "drag_page \<Rightarrow> nat \<Rightarrow> sortable_options \<Rightarrow> sort_state \<Rightarrow> sort_result" where
  "Sortable_create pg k given st =
     (let st0 = Sortable_destroy k st;
          st1 = st0\<lparr>page := map (clean_in k) (page st0)\<rparr>
      in case node_at k (page st1) of None \<Rightarrow> (st1, Some TypeError)
         | Some n \<Rightarrow>
             (case register_items pg k (given\<lparr>so_element := k\<rparr>) n (drag_part st1) of (opts, d) \<Rightarrow>
                new_observer k (st1\<lparr>drag_part := d, sortables := (sortables st1)(node_id n := Some opts)\<rparr>)))"

section \<open>Where an item goes in a list\<close>

fun middles :: "rat \<Rightarrow> (nat \<times> rat) list \<Rightarrow> rat list" where
  "middles from [] = []"
| "middles from ((k, s) # cs) = (from + s / 2) # middles (from + s) cs"

lemma middles_shift: "filter (\<lambda>m. m \<le> off) (middles (a + b) cs) = map ((+) b) (filter (\<lambda>m. m \<le> off - b) (middles a cs))"
proof (induction cs arbitrary: a)
  case (Cons c cs)
  show ?case using Cons.IH [of "a + snd c"] by (cases c) (simp add: algebra_simps)
qed simp

lemma middles_behind: "\<lbrakk>list_all (\<lambda>c. 0 \<le> snd c) cs; off < a\<rbrakk> \<Longrightarrow> filter (\<lambda>m. m \<le> off) (middles a cs) = []"
proof (induction cs arbitrary: a)
  case (Cons c cs)
  obtain k s where c: "c = (k, s)" by (rule prod.exhaust)
  have s: "0 \<le> s" "off < a + s" using Cons.prems c by auto
  have "filter (\<lambda>m. m \<le> off) (middles (a + s) cs) = []" using Cons.prems s(2) by (intro Cons.IH) auto
  then show ?case using c s(1) Cons.prems(2) by simp
qed simp

text \<open>
  An item dropped into a list comes before the first item whose middle lies behind the pointer, and at
  the end when there is none.
\<close>

theorem slot_by_middles:
  assumes "list_all (\<lambda>c. 0 \<le> snd c) cs"
  shows "empty_slot off cs =
    (let i = length (filter (\<lambda>m. m \<le> off) (middles 0 cs)) in if i < length cs then Some (fst (cs ! i)) else None)"
  using assms
proof (induction off cs rule: empty_slot.induct)
  case (2 off k s cs)
  have s: "0 \<le> s" "list_all (\<lambda>c. 0 \<le> snd c) cs" using 2(2) by auto
  consider "s \<le> off" | "off < s" "s / 2 \<le> off" | "off < s / 2" by linarith
  then show ?case
  proof cases
    case 1
    have "length (filter (\<lambda>m. m \<le> off) (middles s cs)) = length (filter (\<lambda>m. m \<le> off - s) (middles 0 cs))"
      using middles_shift [of off 0 s cs] by simp
    moreover have "s / 2 \<le> off" using 1 s(1) by simp
    ultimately show ?thesis using 1 2(1) s(2) by (simp add: Let_def)
  next
    case 2
    then show ?thesis using middles_behind [OF s(2), of off s] by (cases cs) simp_all
  next
    case 3
    then have "\<not> s \<le> off" using s(1) by simp
    then show ?thesis using 3 s(1) middles_behind [OF s(2), of off s] by simp
  qed
qed simp

theorem slot_by_middles_witness: "empty_slot 25 [(1, 20), (2, 20), (3, 20)] = Some 2"
  using slot_by_middles [of "[(1, 20), (2, 20), (3, 20)]" 25] by simp

section \<open>Reading a serialized order back\<close>

lemma decode_encode_append: "decodeURIComponent (encodeURIComponent s @ t) = map_option ((@) s) (decodeURIComponent t)"
proof (induction s)
  case Nil
  then show ?case by (simp add: encodeURIComponent_def option.map_id0 [unfolded id_def])
next
  case (Cons c s)
  have "encodeURIComponent (c # s) @ t = encode_char c @ (encodeURIComponent s @ t)" by (simp add: encodeURIComponent_def)
  then show ?case using Cons by (simp add: decode_encode_char option.map_comp comp_def)
qed

definition item_line :: "string \<Rightarrow> string \<Rightarrow> string" where
  "item_line name item = encodeURIComponent name @ ''[]='' @ encodeURIComponent item"

lemma read_item:
  "read_pair (item_line name item) = Some (Some (name @ ''[]'', QText item))"
proof -
  have "CHR ''='' \<notin> set (encodeURIComponent name @ ''[]'')" using encode_no_eq [of name] by simp
  from split_on_append_sep [OF this, of "encodeURIComponent item"]
  have "split_on (CHR ''='') (encodeURIComponent name @ ''[]='' @ encodeURIComponent item)
    = [encodeURIComponent name @ ''[]'', encodeURIComponent item]"
    by (simp add: split_on_single encode_no_eq)
  moreover have "decodeURIComponent (encodeURIComponent name @ ''[]'') = Some (name @ ''[]'')"
    by (simp add: decode_encode_append)
  ultimately show ?thesis by (simp add: read_pair_def decode_encode item_line_def)
qed

lemma list_key_fresh: "name @ ''[]'' \<notin> set inherited_names"
proof
  assume "name @ ''[]'' \<in> set inherited_names"
  then have "last (name @ ''[]'') \<in> last ` set inherited_names" by (rule imageI)
  then show False by (simp add: inherited_names_def)
qed

lemma read_items:
  "read_pairs (map (item_line name) seq) [(name @ ''[]'', QArray vs)] = Some [(name @ ''[]'', QArray (vs @ map QText seq))]"
proof (induction seq arbitrary: vs)
  case (Cons item seq)
  have "add_param (name @ ''[]'') (QText item) [(name @ ''[]'', QArray vs)] = [(name @ ''[]'', QArray (vs @ [QText item]))]"
    by (simp add: add_param_def own_def hash_get_def)
  then show ?case using Cons.IH [of "vs @ [QText item]"] by (simp add: read_item)
qed simp

definition item_values :: "string list \<Rightarrow> qvalue" where
  "item_values seq = (case seq of [item] \<Rightarrow> QText item | _ \<Rightarrow> QArray (map QText seq))"

lemma read_sequence:
  assumes "seq \<noteq> []"
  shows "read_pairs (map (item_line name) seq) [] = Some [(name @ ''[]'', item_values seq)]"
proof -
  obtain a rest where seq: "seq = a # rest" using assms by (cases seq) auto
  have a: "add_param (name @ ''[]'') (QText a) [] = [(name @ ''[]'', QText a)]"
    using list_key_fresh by (simp add: add_param_def own_def)
  show ?thesis
  proof (cases rest)
    case Nil
    then show ?thesis using a by (simp add: seq read_item item_values_def)
  next
    case (Cons b bs)
    have "add_param (name @ ''[]'') (QText b) [(name @ ''[]'', QText a)] = [(name @ ''[]'', QArray [QText a, QText b])]"
      by (simp add: add_param_def own_def hash_get_def)
    then show ?thesis using a read_items [of name bs "[QText a, QText b]"]
      by (simp add: seq Cons read_item item_values_def)
  qed
qed

lemma item_line_chars: "c \<in> set (item_line name item) \<Longrightarrow> encoded_char c \<or> c \<in> set ''[]=''"
  using encode_encoded [of name] encode_encoded [of item] by (auto simp: item_line_def list_all_iff)

lemma serialize_lines: "serialize_items (encodeURIComponent name) seq = join_with ''&'' (map (item_line name) seq)"
  by (simp add: serialize_items_def item_line_def [abs_def])

lemma serialized_read_back:
  assumes "seq \<noteq> []"
  shows "toQueryParams (CHR ''&'') (serialize_items (encodeURIComponent name) seq) = Some [(name @ ''[]'', item_values seq)]"
proof -
  let ?s = "serialize_items (encodeURIComponent name) seq"
  have plain: "\<not> is_space c \<and> \<not> is_delim c" if "c \<in> set ?s" for c
  proof -
    have "c \<in> set ''&'' \<union> (\<Union>w \<in> set (map (item_line name) seq). set w)"
      using that unfolding serialize_lines using set_join_with by blast
    then have "encoded_char c \<or> c \<in> set ''[]=&''" using item_line_chars by fastforce
    then show ?thesis using encoded_plain [of c] by (auto simp: is_space_def is_delim_def)
  qed
  have "query_part (trim ?s) = ?s" using plain by (simp add: trim_plain query_part_plain)
  moreover have "split_on (CHR ''&'') ?s = map (item_line name) seq"
    unfolding serialize_lines
  proof (rule split_join)
    show "map (item_line name) seq \<noteq> []" using assms by simp
    show "\<forall>w \<in> set (map (item_line name) seq). CHR ''&'' \<notin> set w"
      using item_line_chars encoded_plain(3) by fastforce
  qed
  ultimately show ?thesis using read_sequence [OF assms] by (simp add: toQueryParams_def)
qed

definition order_of :: "nat \<Rightarrow> sortable_options \<Rightarrow> sort_state \<Rightarrow> string list" where
  "order_of k opts st =
     map (\<lambda>item. case so_format opts (node_id item) of Some m \<Rightarrow> m | None \<Rightarrow> [])
       (case items_in k opts st of None \<Rightarrow> [] | Some items \<Rightarrow> items)"

lemma extend_no_args [simp]: "extend_options no_args opts = opts"
  by (simp add: extend_options_def no_args_def given_or_def)

lemma extended_no_args:
  assumes "Sortable_options k st = ok (Some opts)"
  shows "extended k no_args st = ok (opts, st)"
proof -
  obtain n where n: "findRootElement k st = ok (Some n)" "sortables st (node_id n) = Some opts"
    using assms by (auto simp: Sortable_options_def js_bind_eq_Inr split: option.splits)
  have "st\<lparr>sortables := (sortables st)(node_id n := Some opts)\<rparr> = st" using n(2) by (simp add: fun_upd_idem)
  then show ?thesis using n by (simp add: extended_def)
qed

lemma sequence_no_args: "Sortable_options k st = ok (Some opts) \<Longrightarrow> sequence k no_args st = ok (order_of k opts st, st)"
  by (simp add: sequence_def extended_no_args order_of_def)

lemma serialize_flat:
  "\<lbrakk>Sortable_options k st = ok (Some opts); \<not> so_tree opts\<rbrakk> \<Longrightarrow>
    Sortable_serialize k no_args st = ok (serialize_items (list_name k no_args st) (order_of k opts st), st)"
  by (simp add: Sortable_serialize_def extended_no_args sequence_no_args)

lemma list_name_id: "node_at k (page st) = Some n \<Longrightarrow> list_name k no_args st = encodeURIComponent (node_id n)"
  by (simp add: list_name_def no_args_def)

text \<open>
  What \<open>Sortable.serialize\<close> makes of a plain list is read back by \<open>toQueryParams\<close> as its order, under the
  name of the list followed by brackets, whatever characters the names hold.
\<close>

theorem sortable_reads_back:
  assumes "Sortable_options k st = ok (Some opts)" and "\<not> so_tree opts" and "node_at k (page st) = Some n"
    and "sequence k no_args st = ok (seq, st1)" and "seq \<noteq> []"
  shows "\<exists>text. Sortable_serialize k no_args st = ok (text, st) \<and>
    toQueryParams (CHR ''&'') text = Some [(node_id n @ ''[]'', item_values seq)]"
proof -
  have "order_of k opts st = seq" using sequence_no_args [OF assms(1)] assms(4) by simp
  then show ?thesis using serialized_read_back [OF assms(5), of "node_id n"]
    by (simp add: serialize_flat [OF assms(1,2)] list_name_id [OF assms(3)])
qed

definition sample_list :: sort_state where
  "sample_list =
     \<lparr>page = [Node 0 ''BODY'' [] [] (0, 0) [Node 1 ''UL'' ''files'' [] (100, 60)
        [Node 2 ''LI'' ''file_a b'' [] (100, 20) [], Node 3 ''LI'' ''file_c'' [] (100, 20) [], Node 4 ''LI'' ''file_d'' [] (100, 20) []]]],
       sortables = (\<lambda>i. if i = ''files'' then Some (default_sortable_options 1) else None), observers = [(1, ''files[]=a%20b&files[]=c&files[]=d'')],
       marker = ((0, 0), False), drag_part = drag_start_state, sort_notes = []\<rparr>"

lemma sample_options: "Sortable_options 1 sample_list = ok (Some (default_sortable_options 1))"
  by (simp add: Sortable_options_def findRootElement_def sample_list_def climb_from_def default_sortable_options_def to_lower_def lower_char_def)

lemma sample_order: "sequence 1 no_args sample_list = ok ([''a b'', ''c'', ''d''], sample_list)"
proof -
  have "order_of 1 (default_sortable_options 1) sample_list = [''a b'', ''c'', ''d'']" by code_simp
  then show ?thesis using sequence_no_args [OF sample_options] by simp
qed

theorem sortable_reads_back_witness:
  "\<exists>text. Sortable_serialize 1 no_args sample_list = ok (text, sample_list) \<and>
    toQueryParams (CHR ''&'') text = Some [(''files[]'', QArray [QText ''a b'', QText ''c'', QText ''d''])]"
proof -
  have t: "\<not> so_tree (default_sortable_options 1)" by (simp add: default_sortable_options_def)
  have "map_option node_id (node_at 1 (page sample_list)) = Some ''files''" by code_simp
  then obtain n where n: "node_at 1 (page sample_list) = Some n" "node_id n = ''files''" by auto
  show ?thesis using sortable_reads_back [OF sample_options t n(1) sample_order] n(2) by (simp add: item_values_def)
qed

lemma serialize_items_inject:
  assumes "serialize_items (encodeURIComponent name) seq = serialize_items (encodeURIComponent name) seq'"
  shows "seq = seq'"
proof -
  have empty: "serialize_items (encodeURIComponent name) s = [] \<longleftrightarrow> s = []" for s
    by (cases s; cases "tl s") (auto simp: serialize_lines item_line_def)
  have vals: "item_values s = item_values s' \<longleftrightarrow> s = s'" if "s \<noteq> []" "s' \<noteq> []" for s s'
    using that by (auto simp: item_values_def split: list.splits dest: map_injective [OF _ injI])
  show ?thesis
  proof (cases "seq = []")
    case False
    then have ne: "seq' \<noteq> []" using empty assms by metis
    have "item_values seq = item_values seq'"
      using serialized_read_back [OF False, of name] serialized_read_back [OF ne, of name] assms by simp
    then show ?thesis using vals [OF False ne] by simp
  qed (use empty assms in metis)
qed

lemma unmark_frame [simp]:
  "page (unmark st) = page st" "sortables (unmark st) = sortables st" "observers (unmark st) = observers st"
  "sort_notes (unmark st) = sort_notes st"
  by (simp_all add: unmark_def)

lemma unmark_reads [simp]: "Sortable_options k (unmark st) = Sortable_options k st" "order_of k opts (unmark st) = order_of k opts st"
  unfolding Sortable_options_def findRootElement_def order_of_def items_in_def unmark_frame by (rule refl)+

text \<open>
  When a drag ends, the client of a plain list hears of an update exactly when the order is not the one the list
  had when the drag started.
\<close>

theorem update_iff_reordered:
  assumes "observers st ! i = (k, text)" and "i < length (observers st)"
    and "Sortable_options k st = ok (Some opts)" and "\<not> so_tree opts" and "node_at k (page st) = Some n"
    and "observer_onStart i st = (st1, None)"
    and "observers st2 = observers st1" and "Sortable_options k st2 = ok (Some opts)"
    and "node_at k (page st2) = Some n2" and "node_id n2 = node_id n"
  shows "observer_onEnd i st2 =
    ((unmark st2)\<lparr>sort_notes := sort_notes st2 @ (if order_of k opts st = order_of k opts st2 then [] else [Update_called k])\<rparr>, None)"
proof -
  let ?t = "serialize_items (encodeURIComponent (node_id n))"
  have "observer_onStart i st = (st\<lparr>observers := (observers st)[i := (k, ?t (order_of k opts st))]\<rparr>, None)"
    unfolding observer_onStart_def assms(1) fst_conv serialize_flat [OF assms(3,4)] list_name_id [OF assms(5)] sum.case prod.case ..
  then have "st1 = st\<lparr>observers := (observers st)[i := (k, ?t (order_of k opts st))]\<rparr>" unfolding assms(6) prod.inject by (rule conjunct1)
  then have "observers st1 = (observers st)[i := (k, ?t (order_of k opts st))]" by simp
  then have o: "observers st2 ! i = (k, ?t (order_of k opts st))" using assms(2,7) by simp
  have u: "Sortable_options k (unmark st2) = ok (Some opts)" "node_at k (page (unmark st2)) = Some n2"
    "order_of k opts (unmark st2) = order_of k opts st2" "observers (unmark st2) = observers st2" "sort_notes (unmark st2) = sort_notes st2"
    using assms(8,9) by simp_all
  have s: "Sortable_serialize k no_args (unmark st2) = ok (?t (order_of k opts st2), unmark st2)"
    unfolding serialize_flat [OF u(1) assms(4)] list_name_id [OF u(2)] assms(10) u(3) ..
  have e: "?t (order_of k opts st) = ?t (order_of k opts st2) \<longleftrightarrow> order_of k opts st = order_of k opts st2"
    by (rule iffI [OF serialize_items_inject arg_cong])
  show ?thesis
    unfolding observer_onEnd_def Let_def unmark_frame o fst_conv snd_conv s sum.case prod.case e
    by (cases "order_of k opts st = order_of k opts st2") simp_all
qed

definition sample_moved :: sort_state where
  "sample_moved = sample_list\<lparr>page := insertBefore 1 4 (Some 2) (page sample_list)\<rparr>"

theorem update_iff_reordered_witness:
  "sort_notes (fst (observer_onEnd 0 sample_moved)) = [Update_called 1]"
proof -
  let ?o = "default_sortable_options 1"
  have t: "\<not> so_tree ?o" by (simp add: default_sortable_options_def)
  have m: "Sortable_options 1 sample_moved = ok (Some ?o)"
    by (simp add: sample_moved_def Sortable_options_def findRootElement_def sample_list_def climb_from_def default_sortable_options_def
        to_lower_def lower_char_def insertBefore_def node_at_def nodes_of_def take_out_def)
  have n: "map_option node_id (node_at 1 (page sample_list)) = Some ''files''" "map_option node_id (node_at 1 (page sample_moved)) = Some ''files''"
    by code_simp+
  obtain n1 n2 where n12: "node_at 1 (page sample_list) = Some n1" "node_at 1 (page sample_moved) = Some n2" "node_id n1 = ''files''" "node_id n2 = ''files''"
    using n by auto
  have ob: "observers sample_list ! 0 = (1, ''files[]=a%20b&files[]=c&files[]=d'')" "0 < length (observers sample_list)"
    by (simp_all add: sample_list_def)
  have lists: "order_of 1 ?o sample_list = [''a b'', ''c'', ''d'']" "order_of 1 ?o sample_moved = [''d'', ''a b'', ''c'']" by code_simp+
  have line: "serialize_items (encodeURIComponent ''files'') [''a b'', ''c'', ''d''] = ''files[]=a%20b&files[]=c&files[]=d''" by code_simp
  have start: "observer_onStart 0 sample_list = (sample_list, None)"
    unfolding observer_onStart_def ob fst_conv serialize_flat [OF sample_options t] list_name_id [OF n12(1)] n12(3) lists line
    by (simp add: sample_list_def)
  have "observers sample_moved = observers sample_list" "node_id n2 = node_id n1" "sort_notes sample_moved = []"
    by (simp_all add: sample_moved_def n12 sample_list_def)
  then show ?thesis
    using update_iff_reordered [OF ob sample_options t n12(1) start _ m n12(2)] lists by simp
qed

section \<open>Taking nodes out and putting them in\<close>


lemma nodes_of_simps [simp]: "nodes_of [] = []" "nodes_of (n # f) = all_nodes n @ nodes_of f" "nodes_of (f @ g) = nodes_of f @ nodes_of g"
  by (simp_all add: nodes_of_def)

















lemma key_put_in [simp]: "node_key (put_in p nd ref n) = node_key n"
  by (cases n) simp








section \<open>Hovering puts an item in its place\<close>









lemma with_options_page: "with_options k f st = (st', None) \<Longrightarrow> \<exists>opts. Sortable_options k st = ok (Some opts) \<and> f opts = (st', None)"
  by (auto simp: with_options_def split: sum.splits option.splits)









section \<open>Destroying a list undoes making it\<close>

text \<open>What a list has put on the registers of \<open>DragDrop\<close>.\<close>

definition registered_by :: "dragdrop \<Rightarrow> sortable_options \<Rightarrow> dragdrop \<Rightarrow> bool" where
  "registered_by d opts d' \<longleftrightarrow>
     (\<exists>ds. drops d' = drops d @ ds \<and> map drop_element ds = droppables opts)
     \<and> drags d' = drags d @ draggables opts \<and> drag_observers d' = drag_observers d
     \<and> length (store d) \<le> length (store d') \<and> list_all (\<lambda>i. length (store d) \<le> i) (draggables opts)"

lemma new_draggable_frame [simp]:
  "drops (new_draggable pg e opts d) = drops d" "drag_observers (new_draggable pg e opts d) = drag_observers d"
  "drags (new_draggable pg e opts d) = drags d @ [length (store d)]" "length (store (new_draggable pg e opts d)) = Suc (length (store d))"
  by (simp_all add: new_draggable_def Let_def Draggables_register_def)

lemma added_item: "registered_by d opts d' \<Longrightarrow> make_item pg given (opts, d') e = (opts', d2) \<Longrightarrow> registered_by d opts' d2"
  by (auto simp: registered_by_def make_item_def Droppables_add_def)

lemma added_drop: "registered_by d opts d' \<Longrightarrow> make_drop given (opts, d') e = (opts', d2) \<Longrightarrow> registered_by d opts' d2"
  by (auto simp: registered_by_def make_drop_def Droppables_add_def)

lemma added_items: "registered_by d (fst r) (snd r) \<Longrightarrow> registered_by d (fst (foldl (make_item pg given) r es)) (snd (foldl (make_item pg given) r es))"
proof (induction es arbitrary: r)
  case (Cons e es)
  have "registered_by d (fst (make_item pg given r e)) (snd (make_item pg given r e))"
    by (rule added_item [of d "fst r" "snd r" pg given e]) (use Cons.prems in simp_all)
  then show ?case using Cons.IH by simp
qed simp

lemma added_drops: "registered_by d (fst r) (snd r) \<Longrightarrow> registered_by d (fst (foldl (make_drop given) r es)) (snd (foldl (make_drop given) r es))"
proof (induction es arbitrary: r)
  case (Cons e es)
  have "registered_by d (fst (make_drop given r e)) (snd (make_drop given r e))"
    by (rule added_drop [of d "fst r" "snd r" given e]) (use Cons.prems in simp_all)
  then show ?case using Cons.IH by simp
qed simp

lemma register_items_added: "register_items pg k given n d = (opts, d') \<Longrightarrow> registered_by d opts d'"
proof -
  assume r: "register_items pg k given n d = (opts, d')"
  let ?r0 = "(given\<lparr>draggables := [], droppables := []\<rparr>, d)"
  have "registered_by d (fst ?r0) (snd ?r0)" by (simp add: registered_by_def)
  moreover from added_drops [OF this, of given "[k]"]
  have "registered_by d (fst (make_drop given ?r0 k)) (snd (make_drop given ?r0 k))" by simp
  ultimately have "registered_by d (fst r1) (snd r1)" if "r1 = (if dropOnEmpty given \<or> so_tree given then make_drop given ?r0 k else ?r0)" for r1
    using that by simp
  from added_drops [OF added_items [OF this [OF refl]]] show ?thesis
    using r unfolding register_items_def Let_def by (metis fst_conv snd_conv)
qed

lemma remove_drops_frame [simp]:
  "drops (foldl (\<lambda>d e. Droppables_remove e d) d es) = filter (\<lambda>x. drop_element x \<notin> set es) (drops d)"
  "drags (foldl (\<lambda>d e. Droppables_remove e d) d es) = drags d"
  "drag_observers (foldl (\<lambda>d e. Droppables_remove e d) d es) = drag_observers d"
  by (induction es arbitrary: d) (auto simp: Droppables_remove_def intro: filter_cong)

lemma destroy_drags_frame [simp]:
  "drags (foldl (\<lambda>d i. Draggable_destroy i d) d is) = filter (\<lambda>i. i \<notin> set is) (drags d)"
  "drops (foldl (\<lambda>d i. Draggable_destroy i d) d is) = drops d"
  "drag_observers (foldl (\<lambda>d i. Draggable_destroy i d) d is) = drag_observers d"
proof -
  have one: "drags (Draggable_destroy i d) = filter (\<lambda>j. j \<noteq> i) (drags d)" "drops (Draggable_destroy i d) = drops d"
    "drag_observers (Draggable_destroy i d) = drag_observers d" for i d
    by (auto simp: Draggable_destroy_def Draggables_unregister_def Let_def upd_drag_def)
  show "drags (foldl (\<lambda>d i. Draggable_destroy i d) d is) = filter (\<lambda>i. i \<notin> set is) (drags d)"
    "drops (foldl (\<lambda>d i. Draggable_destroy i d) d is) = drops d"
    "drag_observers (foldl (\<lambda>d i. Draggable_destroy i d) d is) = drag_observers d"
    by (induction "is" arbitrary: d) (auto simp: one intro: filter_cong)
qed

lemma serialize_keeps:
  assumes "Sortable_serialize k no_args st = ok (line, st')"
  shows "st' = st"
proof -
  obtain opts st1 where e: "extended k no_args st = ok (opts, st1)" using assms by (auto simp: Sortable_serialize_def js_bind_eq_Inr)
  then obtain n where "sortables st (node_id n) = Some opts" "st1 = st\<lparr>sortables := (sortables st)(node_id n := Some opts)\<rparr>"
    by (auto simp: extended_def js_bind_eq_Inr Let_def split: option.splits)
  then have st1: "st1 = st" by (simp add: fun_upd_idem)
  then show ?thesis using assms e
    by (auto simp: Sortable_serialize_def sequence_def js_bind_eq_Inr split: if_splits)
qed

lemma make_keeps_element: "so_element (fst (make_item pg given r e)) = so_element (fst r)" "so_element (fst (make_drop given r e)) = so_element (fst r)"
  by (simp_all add: make_item_def make_drop_def case_prod_unfold)

lemma register_items_element: "register_items pg k given n d = (opts, d') \<Longrightarrow> so_element opts = so_element given"
proof -
  assume r: "register_items pg k given n d = (opts, d')"
  have f: "so_element (fst (foldl (make_item pg given) r es)) = so_element (fst r)" "so_element (fst (foldl (make_drop given) r es)) = so_element (fst r)" for r es
    by (induction es arbitrary: r) (simp_all add: make_keeps_element)
  have "so_element (fst (register_items pg k given n d)) = so_element given"
    by (simp add: register_items_def Let_def f make_keeps_element)
  then show ?thesis by (simp add: r)
qed

lemma addObserver_frame [simp]:
  "drops (addObserver obs d) = drops d" "drags (addObserver obs d) = drags d" "drag_observers (addObserver obs d) = drag_observers d @ [obs]"
  "drops (removeObserver k d) = drops d" "drags (removeObserver k d) = drags d"
  "drag_observers (removeObserver k d) = filter (\<lambda>x. observer_element x \<noteq> k) (drag_observers d)"
  by (simp_all add: addObserver_def removeObserver_def cacheObserverCallbacks_def)

text \<open>
  Destroying a list that was just made takes off the registers of droppables, draggables and observers
  all it had put on them and nothing else, given that nothing was registered for its elements before.
\<close>

theorem destroy_undoes_create:
  assumes "Sortable_destroy k st = st" and "Sortable_create pg k given st = (st', None)"
    and "node_at k (page st') = Some n" and "sortables st' (node_id n) = Some opts"
    and "list_all (\<lambda>x. drop_element x \<notin> set (droppables opts)) (drops (drag_part st))"
    and "list_all (\<lambda>i. i < length (store (drag_part st))) (drags (drag_part st))"
    and "list_all (\<lambda>x. observer_element x \<noteq> k) (drag_observers (drag_part st))"
  shows "drops (drag_part (Sortable_destroy k st')) = drops (drag_part st)
    \<and> drags (drag_part (Sortable_destroy k st')) = drags (drag_part st)
    \<and> drag_observers (drag_part (Sortable_destroy k st')) = drag_observers (drag_part st)"
proof -
  let ?st1 = "st\<lparr>page := map (clean_in k) (page st)\<rparr>"
  obtain m where m: "node_at k (page ?st1) = Some m"
    using assms(2) by (cases "node_at k (page ?st1)") (auto simp: Sortable_create_def assms(1) Let_def)
  obtain opts' d where d: "register_items pg k (given\<lparr>so_element := k\<rparr>) m (drag_part st) = (opts', d)" by (rule prod.exhaust)
  let ?st2 = "st\<lparr>page := map (clean_in k) (page st), drag_part := d, sortables := (sortables st)(node_id m := Some opts')\<rparr>"
  have o: "new_observer k ?st2 = (st', None)" using assms(2) m d by (simp add: Sortable_create_def assms(1) Let_def)
  then obtain line st3 where s: "Sortable_serialize k no_args ?st2 = ok (line, st3)" by (auto simp: new_observer_def split: sum.splits)
  have st': "st' = ?st2\<lparr>observers := observers st @ [(k, line)], drag_part := addObserver \<lparr>observer_element = k, handles = (\<lambda>n. n \<noteq> OnDrag)\<rparr> d\<rparr>"
    using o s serialize_keeps [OF s] by (simp add: new_observer_def)
  have "n = m" using assms(3) m by (simp add: st')
  then have opts: "opts = opts'" using assms(4) by (simp add: st')
  have e: "so_element opts = k" using register_items_element [OF d] by (simp add: opts)
  have a: "registered_by (drag_part st) opts d" using register_items_added [OF d] by (simp add: opts)
  then obtain ds where ds: "drops d = drops (drag_part st) @ ds" "map drop_element ds = droppables opts" by (auto simp: registered_by_def)
  have "\<forall>x \<in> set ds. drop_element x \<in> set (droppables opts)" unfolding ds(2) [symmetric] by simp
  moreover have "\<forall>i \<in> set (drags (drag_part st)). i \<notin> set (draggables opts)"
    using a assms(6) by (fastforce simp: registered_by_def list_all_iff)
  moreover have "drags d = drags (drag_part st) @ draggables opts" "drag_observers d = drag_observers (drag_part st)"
    using a by (simp_all add: registered_by_def)
  moreover have "drag_part (Sortable_destroy k st') = foldl (\<lambda>d i. Draggable_destroy i d)
      (foldl (\<lambda>d e. Droppables_remove e d) (removeObserver k (drag_part st')) (droppables opts)) (draggables opts)"
    by (simp add: Sortable_destroy_def assms(3,4) e)
  ultimately show ?thesis using assms(5,7)
    by (simp add: st' ds(1) list_all_iff filter_id_conv filter_empty_conv)
qed

theorem destroy_undoes_create_witness:
  "drags (drag_part (fst (Sortable_create demo_page 1 (default_sortable_options 1) (sample_list\<lparr>sortables := \<lambda>i. None\<rparr>)))) = [0, 1, 2]
   \<and> drags (drag_part (Sortable_destroy 1 (fst (Sortable_create demo_page 1 (default_sortable_options 1) (sample_list\<lparr>sortables := \<lambda>i. None\<rparr>))))) = []"
proof -
  let ?st = "sample_list\<lparr>sortables := \<lambda>i. None\<rparr>"
  let ?r = "Sortable_create demo_page 1 (default_sortable_options 1) ?st"
  have a: "Sortable_destroy 1 ?st = ?st" by (simp add: Sortable_destroy_def split: option.split)
  have "Option.is_none (snd ?r)" by code_simp
  then obtain st' where b: "?r = (st', None)" by (cases ?r) (auto simp: Option.is_none_def)
  have "map_option node_id (node_at 1 (page (fst ?r))) = Some ''files''" by code_simp
  then obtain n where n: "node_at 1 (page st') = Some n" "node_id n = ''files''" using b by auto
  have "\<not> Option.is_none (sortables (fst ?r) ''files'')" by code_simp
  then obtain opts where o: "sortables st' (node_id n) = Some opts" using b n(2) by (auto simp: Option.is_none_def)
  have e: "drops (drag_part sample_list) = []" "drags (drag_part sample_list) = []" "drag_observers (drag_part sample_list) = []"
    by (simp_all add: sample_list_def drag_start_state_def)
  have "drags (drag_part (fst ?r)) = [0, 1, 2]" by code_simp
  moreover have "drags (drag_part (Sortable_destroy 1 (fst ?r))) = []"
    unfolding b fst_conv using destroy_undoes_create [OF a b n(1) o] by (simp add: e)
  ultimately show ?thesis by blast
qed

section \<open>What goes wrong\<close>

text \<open>Items the new sequence does not name are taken off the page.\<close>

theorem unnamed_items_taken_off:
  "(case setSequence 1 [''d'', ''a b''] no_args sample_list of
      Inr st \<Rightarrow> map (map node_key \<circ> kids) (filter (\<lambda>n. node_key n = 1) (nodes_of (page st))) = [[4, 2]]
        \<and> map node_key (page st) = [0, 3]
    | Inl e \<Rightarrow> False)"
  by code_simp

text \<open>A sequence with the name of an inherited property throws, after all items have been taken off.\<close>

theorem inherited_name_in_sequence: "setSequence 1 [''valueOf''] no_args sample_list = raise TypeError"
proof -
  have "(case setSequence 1 [''valueOf''] no_args sample_list of Inl e \<Rightarrow> e = TypeError | Inr st \<Rightarrow> False)" by code_simp
  then show ?thesis by (simp split: sum.splits)
qed

text \<open>
  In a tree the names are encoded twice: a space is sent as \<open>%2520\<close>.  The arguments of one call stay in the
  options of the list.
\<close>

definition tree_args :: sort_args where
  "tree_args = no_args\<lparr>arg_tree := Some True\<rparr>"

theorem tree_names_encoded_twice:
  "(case Sortable_serialize 1 tree_args sample_list of
      Inr (line, st) \<Rightarrow> take 20 line = ''files[0][id]=a%2520b'' \<and> (case sortables st ''files'' of Some opts \<Rightarrow> so_tree opts | None \<Rightarrow> False)
    | Inl e \<Rightarrow> False)"
  by code_simp

end
