(* ===== verification/CanvasColor.thy ===== *)
theory CanvasColor
  imports JsValue ProtoText
begin

text \<open>
  How \<open>excanvas.js\<close> reads colours: names, hexadecimal codes, and the functional notations \<open>rgb\<close>, \<open>rgba\<close>,
  \<open>hsl\<close> and \<open>hsla\<close>.  Numbers are exact rationals, \<open>None\<close> standing for \<open>NaN\<close>.
\<close>

section \<open>Numbers\<close>

type_synonym num_opt = "rat option"

definition signed_decimal :: "string \<Rightarrow> rat option" where
  "signed_decimal s =
     (case s of [] \<Rightarrow> None
      | c # r \<Rightarrow> if c = CHR ''-'' then map_option uminus (unsigned_number r)
          else if c = CHR ''+'' then unsigned_number r else unsigned_number s)"

text \<open>\<open>parseFloat\<close>: the longest beginning that is a number.\<close>

definition parseFloat :: "string \<Rightarrow> rat option" where
  "parseFloat str =
     (let t = ltrim str
      in case List.find (\<lambda>k. signed_decimal (take k t) \<noteq> None) (rev [1 ..< Suc (length t)]) of
           Some k \<Rightarrow> signed_decimal (take k t) | None \<Rightarrow> None)"

definition percent :: "string \<Rightarrow> num_opt" where
  "percent s = map_option (\<lambda>v. v / 100) (parseFloat s)"

definition clamp_to :: "num_opt \<Rightarrow> rat \<Rightarrow> rat \<Rightarrow> num_opt" where
  "clamp_to v low high = map_option (\<lambda>x. min high (max low x)) v"

text \<open>\<open>decToHex[n]\<close> put behind a text: the table has entries for the whole numbers from 0 to 255 only.\<close>

definition decToHex :: "num_opt \<Rightarrow> string" where
  "decToHex n =
     (case n of None \<Rightarrow> ''undefined''
      | Some v \<Rightarrow> if of_int \<lfloor>v\<rfloor> = v \<and> 0 \<le> v \<and> v \<le> 255
          then [hex_digit (nat \<lfloor>v\<rfloor> div 16), hex_digit (nat \<lfloor>v\<rfloor> mod 16)] else ''undefined'')"

definition js_remainder :: "rat \<Rightarrow> rat \<Rightarrow> rat" where
  "js_remainder a b = (let q = a / b in a - b * of_int (if q < 0 then - \<lfloor>- q\<rfloor> else \<lfloor>q\<rfloor>))"

section \<open>Functional notation\<close>

text \<open>The parts between the brackets, and the opacity: the fourth part of \<open>rgba\<close> and \<open>hsla\<close>, else 1.\<close>

definition getRgbHslContent :: "string \<Rightarrow> string list \<times> js_value" where
  "getRgbHslContent styleString =
     (let start = indexOf styleString ''('' 3;
          end_at = indexOf styleString '')'' (start + 1);
          parts = split_on (CHR '','') (substring styleString (start + 1) end_at)
      in if length parts = 4 \<and> substr styleString 3 1 = ''a'' then (parts, String (parts ! 3)) else (parts, Number 1))"

definition hueToRgb :: "rat \<Rightarrow> rat \<Rightarrow> num_opt \<Rightarrow> rat" where
  "hueToRgb m1 m2 hue =
     (case hue of None \<Rightarrow> m1
      | Some h0 \<Rightarrow>
          (let h1 = (if h0 < 0 then h0 + 1 else h0); h = (if h1 > 1 then h1 - 1 else h1)
           in if 6 * h < 1 then m1 + (m2 - m1) * 6 * h
              else if 2 * h < 1 then m2
              else if 3 * h < 2 then m1 + (m2 - m1) * (2 / 3 - h) * 6
              else m1))"

definition floor255 :: "rat \<Rightarrow> num_opt" where
  "floor255 r = Some (of_int \<lfloor>r * 255\<rfloor>)"

definition hsl_hue :: "string \<Rightarrow> num_opt" where
  "hsl_hue s = map_option (\<lambda>v. let h = js_remainder (v / 360) 360 in if h < 0 then h + 1 else h) (parseFloat s)"

text \<open>Of hue, saturation and lightness, the last two from 0 to 1.\<close>

definition hsl_color :: "num_opt \<Rightarrow> num_opt \<Rightarrow> num_opt \<Rightarrow> string" where
  "hsl_color h sat light =
     (case (sat, light) of
        (Some s, Some l) \<Rightarrow>
          (if s = 0 then ''#'' @ decToHex (floor255 l) @ decToHex (floor255 l) @ decToHex (floor255 l)
           else (let q = (if l < 1 / 2 then l * (1 + s) else l + s - l * s); p = 2 * l - q
                 in ''#'' @ decToHex (floor255 (hueToRgb p q (map_option (\<lambda>x. x + 1 / 3) h)))
                      @ decToHex (floor255 (hueToRgb p q h))
                      @ decToHex (floor255 (hueToRgb p q (map_option (\<lambda>x. x - 1 / 3) h)))))
      | _ \<Rightarrow> ''#'' @ decToHex None @ decToHex None @ decToHex None)"

definition hslToRgb :: "string list \<Rightarrow> string" where
  "hslToRgb parts =
     (let part = (\<lambda>i. case aref parts i of Some s \<Rightarrow> s | None \<Rightarrow> [])
      in hsl_color (hsl_hue (part 0)) (clamp_to (percent (part 1)) 0 1) (clamp_to (percent (part 2)) 0 1))"

definition rgb_part :: "string \<Rightarrow> string" where
  "rgb_part s =
     decToHex (clamp_to (if indexOf s ''%'' 0 \<noteq> -1 then map_option (\<lambda>v. of_int \<lfloor>v * 255\<rfloor>) (percent s) else string_number s) 0 255)"

definition rgb_color :: "string list \<Rightarrow> string js" where
  "rgb_color parts =
     (case parts of r # g # b # rest \<Rightarrow> ok (''#'' @ rgb_part r @ rgb_part g @ rgb_part b) | _ \<Rightarrow> raise TypeError)"

section \<open>Names\<close>

definition colorData :: "(string \<times> string) list" where
  "colorData =
    [(''aliceblue'', ''#F0F8FF''), (''antiquewhite'', ''#FAEBD7''), (''aquamarine'', ''#7FFFD4''),
     (''azure'', ''#F0FFFF''), (''beige'', ''#F5F5DC''), (''bisque'', ''#FFE4C4''), (''black'', ''#000000''),
     (''blanchedalmond'', ''#FFEBCD''), (''blueviolet'', ''#8A2BE2''), (''brown'', ''#A52A2A''),
     (''burlywood'', ''#DEB887''), (''cadetblue'', ''#5F9EA0''), (''chartreuse'', ''#7FFF00''),
     (''chocolate'', ''#D2691E''), (''coral'', ''#FF7F50''), (''cornflowerblue'', ''#6495ED''),
     (''cornsilk'', ''#FFF8DC''), (''crimson'', ''#DC143C''), (''cyan'', ''#00FFFF''),
     (''darkblue'', ''#00008B''), (''darkcyan'', ''#008B8B''), (''darkgoldenrod'', ''#B8860B''),
     (''darkgray'', ''#A9A9A9''), (''darkgreen'', ''#006400''), (''darkgrey'', ''#A9A9A9''),
     (''darkkhaki'', ''#BDB76B''), (''darkmagenta'', ''#8B008B''), (''darkolivegreen'', ''#556B2F''),
     (''darkorange'', ''#FF8C00''), (''darkorchid'', ''#9932CC''), (''darkred'', ''#8B0000''),
     (''darksalmon'', ''#E9967A''), (''darkseagreen'', ''#8FBC8F''), (''darkslateblue'', ''#483D8B''),
     (''darkslategray'', ''#2F4F4F''), (''darkslategrey'', ''#2F4F4F''), (''darkturquoise'', ''#00CED1''),
     (''darkviolet'', ''#9400D3''), (''deeppink'', ''#FF1493''), (''deepskyblue'', ''#00BFFF''),
     (''dimgray'', ''#696969''), (''dimgrey'', ''#696969''), (''dodgerblue'', ''#1E90FF''),
     (''firebrick'', ''#B22222''), (''floralwhite'', ''#FFFAF0''), (''forestgreen'', ''#228B22''),
     (''gainsboro'', ''#DCDCDC''), (''ghostwhite'', ''#F8F8FF''), (''gold'', ''#FFD700''),
     (''goldenrod'', ''#DAA520''), (''grey'', ''#808080''), (''greenyellow'', ''#ADFF2F''),
     (''honeydew'', ''#F0FFF0''), (''hotpink'', ''#FF69B4''), (''indianred'', ''#CD5C5C''),
     (''indigo'', ''#4B0082''), (''ivory'', ''#FFFFF0''), (''khaki'', ''#F0E68C''),
     (''lavender'', ''#E6E6FA''), (''lavenderblush'', ''#FFF0F5''), (''lawngreen'', ''#7CFC00''),
     (''lemonchiffon'', ''#FFFACD''), (''lightblue'', ''#ADD8E6''), (''lightcoral'', ''#F08080''),
     (''lightcyan'', ''#E0FFFF''), (''lightgoldenrodyellow'', ''#FAFAD2''), (''lightgreen'', ''#90EE90''),
     (''lightgrey'', ''#D3D3D3''), (''lightpink'', ''#FFB6C1''), (''lightsalmon'', ''#FFA07A''),
     (''lightseagreen'', ''#20B2AA''), (''lightskyblue'', ''#87CEFA''), (''lightslategray'', ''#778899''),
     (''lightslategrey'', ''#778899''), (''lightsteelblue'', ''#B0C4DE''), (''lightyellow'', ''#FFFFE0''),
     (''limegreen'', ''#32CD32''), (''linen'', ''#FAF0E6''), (''magenta'', ''#FF00FF''),
     (''mediumaquamarine'', ''#66CDAA''), (''mediumblue'', ''#0000CD''), (''mediumorchid'', ''#BA55D3''),
     (''mediumpurple'', ''#9370DB''), (''mediumseagreen'', ''#3CB371''), (''mediumslateblue'', ''#7B68EE''),
     (''mediumspringgreen'', ''#00FA9A''), (''mediumturquoise'', ''#48D1CC''),
     (''mediumvioletred'', ''#C71585''), (''midnightblue'', ''#191970''), (''mintcream'', ''#F5FFFA''),
     (''mistyrose'', ''#FFE4E1''), (''moccasin'', ''#FFE4B5''), (''navajowhite'', ''#FFDEAD''),
     (''oldlace'', ''#FDF5E6''), (''olivedrab'', ''#6B8E23''), (''orange'', ''#FFA500''),
     (''orangered'', ''#FF4500''), (''orchid'', ''#DA70D6''), (''palegoldenrod'', ''#EEE8AA''),
     (''palegreen'', ''#98FB98''), (''paleturquoise'', ''#AFEEEE''), (''palevioletred'', ''#DB7093''),
     (''papayawhip'', ''#FFEFD5''), (''peachpuff'', ''#FFDAB9''), (''peru'', ''#CD853F''),
     (''pink'', ''#FFC0CB''), (''plum'', ''#DDA0DD''), (''powderblue'', ''#B0E0E6''),
     (''rosybrown'', ''#BC8F8F''), (''royalblue'', ''#4169E1''), (''saddlebrown'', ''#8B4513''),
     (''salmon'', ''#FA8072''), (''sandybrown'', ''#F4A460''), (''seagreen'', ''#2E8B57''),
     (''seashell'', ''#FFF5EE''), (''sienna'', ''#A0522D''), (''skyblue'', ''#87CEEB''),
     (''slateblue'', ''#6A5ACD''), (''slategray'', ''#708090''), (''slategrey'', ''#708090''),
     (''snow'', ''#FFFAFA''), (''springgreen'', ''#00FF7F''), (''steelblue'', ''#4682B4''),
     (''tan'', ''#D2B48C''), (''thistle'', ''#D8BFD8''), (''tomato'', ''#FF6347''),
     (''turquoise'', ''#40E0D0''), (''violet'', ''#EE82EE''), (''wheat'', ''#F5DEB3''),
     (''whitesmoke'', ''#F5F5F5''), (''yellowgreen'', ''#9ACD32'')]"

text \<open>The colour and the opacity of a style.  A text that is no colour is left as it is.\<close>

definition processStyle :: "string \<Rightarrow> (string \<times> js_value) js" where
  "processStyle styleString =
     (if char_at styleString 0 = ''#'' then ok (styleString, Number 1)
      else if prefix ''rgb'' styleString
      then (case getRgbHslContent styleString of (parts, alpha) \<Rightarrow> js_bind (rgb_color parts) (\<lambda>str. ok (str, alpha)))
      else if prefix ''hsl'' styleString
      then (case getRgbHslContent styleString of (parts, alpha) \<Rightarrow> ok (hslToRgb parts, alpha))
      else ok (case map_of colorData styleString of Some c \<Rightarrow> c | None \<Rightarrow> styleString, Number 1))"

section \<open>Hexadecimal colours\<close>

definition hex_color :: "string \<Rightarrow> bool" where
  "hex_color s \<longleftrightarrow> length s = 7 \<and> hd s = CHR ''#'' \<and> read_hex 0 (tl s) \<noteq> None"

lemma string_number_show: "string_number (show_nat n) = Some (of_nat n)"
proof -
  have d: "\<forall>c \<in> set (show_nat n). is_digit c" by (rule show_nat_digits)
  have sp: "is_digit c \<Longrightarrow> \<not> is_space c" for c by (auto simp: is_digit_def is_space_def)
  have t: "trim (show_nat n) = show_nat n"
  proof -
    have 1: "ltrim (show_nat n) = show_nat n" using d sp by (cases "show_nat n") (auto simp: ltrim_def)
    have "last (show_nat n) \<in> set (show_nat n)" by simp
    then have "\<not> is_space (last (show_nat n))" using d sp by blast
    then have "rtrim (show_nat n) = show_nat n"
      by (cases "show_nat n" rule: rev_cases) (auto simp: rtrim_def)
    then show ?thesis using 1 by (simp add: trim_def)
  qed
  obtain c r where cr: "show_nat n = c # r" by (cases "show_nat n") (use show_nat_not_Nil [of n] in auto)
  have c: "is_digit c" "\<forall>x \<in> set r. is_digit x" using d by (simp_all add: cr)
  have e: "is_digit x \<Longrightarrow> \<not> is_e x" for x by (auto simp: is_digit_def is_e_def)
  have no_e: "takeWhile (\<lambda>c. \<not> is_e c) (c # r) = c # r" "dropWhile (\<lambda>c. \<not> is_e c) (c # r) = []"
    using c e by (auto simp: takeWhile_eq_all_conv dropWhile_eq_Nil_conv)
  have dig: "takeWhile is_digit (c # r) = c # r" "dropWhile is_digit (c # r) = []"
    using c by (auto simp: takeWhile_eq_all_conv dropWhile_eq_Nil_conv)
  have u: "unsigned_number (c # r) = Some (of_nat n)"
    unfolding unsigned_number_def no_e Let_def mantissa_def dig
    using read_show_nat [of n] by (simp add: fraction_value_def cr)
  have not_x: "\<not> (r \<noteq> [] \<and> (hd r = CHR ''x'' \<or> hd r = CHR ''X''))"
    using c(2) by (cases r) (auto simp: is_digit_def)
  have "c \<noteq> CHR ''-''" "c \<noteq> CHR ''+''" using c(1) by (auto simp: is_digit_def)
  then show ?thesis unfolding string_number_def t using u not_x by (auto simp: cr)
qed

lemma sub_at_one: "sub_at [c] s j \<longleftrightarrow> j < length s \<and> s ! j = c"
  by (auto simp: sub_at_def take_Suc_conv_app_nth)

text \<open>A character looked for behind a beginning: the first one after it.\<close>

lemma indexOf_behind:
  assumes "c \<notin> set w"
  shows "indexOf (u @ w @ c # v) [c] (int (length u)) = int (length u + length w)"
proof -
  let ?s = "u @ w @ c # v"
  have hit: "sub_at [c] ?s (length u + length w)" by (simp add: sub_at_one nth_append)
  have miss: "\<not> sub_at [c] ?s j" if "length u \<le> j" "j < length u + length w" for j
  proof -
    have "w ! (j - length u) \<in> set w" using that by simp
    then have "w ! (j - length u) \<noteq> c" using assms by auto
    then show ?thesis using that by (simp add: sub_at_one nth_append)
  qed
  have "indexOf ?s [c] (int (length u)) \<noteq> -1"
    unfolding indexOf_miss using hit by (auto intro!: exI [of _ "length u + length w"])
  then have "0 \<le> indexOf ?s [c] (int (length u))"
    using indexOf_range [of ?s "[c]" "int (length u)"] by linarith
  then obtain i where i: "indexOf ?s [c] (int (length u)) = int i" by (rule nonneg_int_cases)
  note h = indexOf_hit [OF i]
  have "\<not> i < length u + length w" using h(1,2) miss [of i] by auto
  moreover have "\<not> length u + length w < i" using h(3) hit by auto
  ultimately show ?thesis using i by simp
qed

section \<open>What is read\<close>

lemma digits_free: "c \<in> set (show_nat n) \<Longrightarrow> c \<noteq> CHR '','' \<and> c \<noteq> CHR '')'' \<and> c \<noteq> CHR ''%''"
  using show_nat_digits [of n] by (auto simp: is_digit_def)

lemma decToHex_nat: "n < 256 \<Longrightarrow> decToHex (Some (of_nat n)) = [hex_digit (n div 16), hex_digit (n mod 16)]"
  by (simp add: decToHex_def)

lemma hex_val_digit: "n < 16 \<Longrightarrow> hex_val (hex_digit n) = Some n"
  by (cases "n < 10") (simp_all add: hex_val_def hex_digit_def is_digit_def)

lemma read_hex_byte:
  "n < 256 \<Longrightarrow> read_hex a ([hex_digit (n div 16), hex_digit (n mod 16)] @ s) = read_hex (256 * a + n) s"
proof -
  assume n: "n < 256"
  then have "n div 16 < 16" "n mod 16 < 16" by auto
  moreover have "16 * (16 * a + n div 16) + n mod 16 = 256 * a + n" using div_mult_mod_eq [of n 16] by simp
  ultimately show ?thesis by (simp add: hex_val_digit add.commute)
qed

lemma rgb_part_nat: "n < 256 \<Longrightarrow> rgb_part (show_nat n) = [hex_digit (n div 16), hex_digit (n mod 16)]"
proof -
  assume n: "n < 256"
  have "\<not> sub_at ''%'' (show_nat n) i" for i
    using digits_free [of _ n] by (auto simp: sub_at_one)
  then have "indexOf (show_nat n) ''%'' 0 = -1" by (simp add: indexOf_miss)
  moreover have "(of_nat n :: rat) \<le> 255" using n of_nat_le_iff [of n 255, where 'a = rat] by simp
  ultimately have "rgb_part (show_nat n) = decToHex (Some (of_nat n))"
    by (simp add: rgb_part_def clamp_to_def string_number_show min_def max_def)
  then show ?thesis using decToHex_nat [OF n] by simp
qed

lemma join_chars: "c \<in> set (join_with s ws) \<Longrightarrow> c \<in> set s \<or> (\<exists>w \<in> set ws. c \<in> set w)"
  by (induction s ws rule: join_with.induct) auto

lemma rgb_content:
  assumes w: "w = join_with '','' (map show_nat ns)" "ns \<noteq> []"
  shows "fst (getRgbHslContent (''rgb('' @ w @ '')'')) = map show_nat ns"
    "snd (getRgbHslContent (''rgb('' @ w @ '')'')) = Number 1"
proof -
  have no: "CHR '')'' \<notin> set w" using join_chars [of "CHR '')''" "'',''" "map show_nat ns"] digits_free by (auto simp: w)
  have i1: "indexOf (''rgb('' @ w @ '')'') ''('' 3 = 3"
    using indexOf_behind [of "CHR ''(''" "[]" "''rgb''" "w @ '')''"] by simp
  have i2: "indexOf (''rgb('' @ w @ '')'') '')'' 4 = 4 + int (length w)"
    using indexOf_behind [OF no, of "''rgb(''" "[]"] by simp
  have cut: "substring (''rgb('' @ w @ '')'') 4 (4 + int (length w)) = w"
    by (simp add: substring_def Let_def nat_add_distrib)
  have parts: "split_on (CHR '','') w = map show_nat ns"
    unfolding w by (rule split_join) (use w(2) digits_free in auto)
  have "substr (''rgb('' @ w @ '')'') 3 1 \<noteq> ''a''" by (simp add: substr_def Let_def)
  then show "fst (getRgbHslContent (''rgb('' @ w @ '')'')) = map show_nat ns"
    "snd (getRgbHslContent (''rgb('' @ w @ '')'')) = Number 1"
    using i1 i2 cut parts by (simp_all add: getRgbHslContent_def)
qed

text \<open>
  A colour written as \<open>rgb(r,g,b)\<close> with parts up to 255 is read as an opaque hexadecimal colour whose value has
  those parts as its bytes.
\<close>

theorem rgb_reads_back:
  assumes "r < 256" "g < 256" "b < 256"
  shows "case processStyle (''rgb('' @ join_with '','' (map show_nat [r, g, b]) @ '')'') of
      Inr (color, alpha) \<Rightarrow> hd color = CHR ''#'' \<and> length color = 7 \<and> read_hex 0 (tl color) = Some ((r * 256 + g) * 256 + b) \<and> alpha = Number 1
    | Inl e \<Rightarrow> False"
proof -
  let ?w = "join_with '','' (map show_nat [r, g, b])"
  note c = rgb_content [of ?w "[r, g, b]", OF refl]
  have p: "char_at (''rgb('' @ ?w @ '')'') 0 = ''r''" "prefix ''rgb'' (''rgb('' @ ?w @ '')'')" by (simp_all add: char_at_def)
  have "processStyle (''rgb('' @ ?w @ '')'') = js_bind (rgb_color (map show_nat [r, g, b])) (\<lambda>str. ok (str, Number 1))"
    unfolding processStyle_def using p c by (simp add: case_prod_unfold del: join_with.simps)
  also have "\<dots> = ok (''#'' @ [hex_digit (r div 16), hex_digit (r mod 16)] @ [hex_digit (g div 16), hex_digit (g mod 16)]
      @ [hex_digit (b div 16), hex_digit (b mod 16)], Number 1)"
    using assms by (simp add: rgb_color_def rgb_part_nat)
  finally have e: "processStyle (''rgb('' @ ?w @ '')'') = ok (''#'' @ [hex_digit (r div 16), hex_digit (r mod 16)] @ [hex_digit (g div 16), hex_digit (g mod 16)]
      @ [hex_digit (b div 16), hex_digit (b mod 16)] @ [], Number 1)" by simp
  have "read_hex 0 ([hex_digit (r div 16), hex_digit (r mod 16)] @ [hex_digit (g div 16), hex_digit (g mod 16)]
      @ [hex_digit (b div 16), hex_digit (b mod 16)] @ []) = Some ((r * 256 + g) * 256 + b)"
    unfolding read_hex_byte [OF assms(1)] read_hex_byte [OF assms(2)] read_hex_byte [OF assms(3)] by simp
  then show ?thesis unfolding e by simp
qed

theorem rgb_reads_back_witness: "processStyle ''rgb(255,128,0)'' = ok (''#ff8000'', Number 1)"
proof -
  have w: "''rgb('' @ join_with '','' (map show_nat [255, 128, 0]) @ '')'' = ''rgb(255,128,0)''" by code_simp
  have "processStyle ''rgb(255,128,0)'' = ok (''#ff8000'', Number 1)" by code_simp
  with rgb_reads_back [of 255 128 0, unfolded w] show ?thesis by simp
qed

section \<open>Hue, saturation and lightness\<close>

lemma decToHex_byte:
  assumes "0 \<le> r" "r \<le> 1"
  shows "\<exists>n < 256. decToHex (floor255 r) = [hex_digit (n div 16), hex_digit (n mod 16)]"
proof -
  have f: "0 \<le> \<lfloor>r * 255\<rfloor>" "\<lfloor>r * 255\<rfloor> \<le> 255" using assms by (simp_all add: floor_le_iff)
  then have "of_int \<lfloor>r * 255\<rfloor> \<le> (255 :: rat)" by linarith
  then show ?thesis using f by (intro exI [of _ "nat \<lfloor>r * 255\<rfloor>"]) (simp add: floor255_def decToHex_def nat_less_iff)
qed

lemma three_bytes_hex:
  assumes "\<exists>n < 256. a = [hex_digit (n div 16), hex_digit (n mod 16)]" "\<exists>n < 256. b = [hex_digit (n div 16), hex_digit (n mod 16)]"
    "\<exists>n < 256. c = [hex_digit (n div 16), hex_digit (n mod 16)]"
  shows "hex_color (''#'' @ a @ b @ c)"
proof -
  obtain i j k where n: "i < 256" "a = [hex_digit (i div 16), hex_digit (i mod 16)]" "j < 256" "b = [hex_digit (j div 16), hex_digit (j mod 16)]"
    "k < 256" "c = [hex_digit (k div 16), hex_digit (k mod 16)]"
    using assms by blast
  have "read_hex 0 (a @ b @ c @ []) = Some ((256 * i + j) * 256 + k)"
    unfolding n(2,4,6) read_hex_byte [OF n(1)] read_hex_byte [OF n(3)] read_hex_byte [OF n(5)] by simp
  then show ?thesis using n by (simp add: hex_color_def)
qed

lemma hue_between:
  assumes "p \<le> q" "-1 \<le> h" "h \<le> 2"
  shows "p \<le> hueToRgb p q (Some h) \<and> hueToRgb p q (Some h) \<le> q"
proof -
  define h1 where "h1 = (if h < 0 then h + 1 else h)"
  define h' where "h' = (if h1 > 1 then h1 - 1 else h1)"
  have r: "0 \<le> h'" "h' \<le> 1" using assms by (auto simp: h'_def h1_def)
  have part: "p \<le> p + (q - p) * t \<and> p + (q - p) * t \<le> q" if "0 \<le> t" "t \<le> 1" for t
    using that assms(1) mult_left_le [of t "q - p"] by simp
  have "hueToRgb p q (Some h) = (if 6 * h' < 1 then p + (q - p) * 6 * h' else if 2 * h' < 1 then q
      else if 3 * h' < 2 then p + (q - p) * (2 / 3 - h') * 6 else p)"
    by (simp only: hueToRgb_def Let_def h1_def h'_def option.case)
  then have e: "hueToRgb p q (Some h) = (if 6 * h' < 1 then p + (q - p) * (6 * h') else if 2 * h' < 1 then q
      else if 3 * h' < 2 then p + (q - p) * ((2 / 3 - h') * 6) else p)"
    by (simp only: mult.assoc)
  show ?thesis unfolding e
    using r assms(1) part [of "6 * h'"] part [of "(2 / 3 - h') * 6"] by (auto simp: field_simps)
qed

lemma hsl_ends:
  fixes s l :: rat
  assumes "0 \<le> s" "s \<le> 1" "0 \<le> l" "l \<le> 1" and "q = (if l < 1 / 2 then l * (1 + s) else l + s - l * s)"
  shows "0 \<le> 2 * l - q" "2 * l - q \<le> q" "q \<le> 1"
proof -
  have m: "0 \<le> l * s" "l * s \<le> l" "l * s \<le> s"
    using assms(1-4) by (simp_all add: mult_right_le_one_le mult_left_le_one_le)
  have n: "s * (1 - l) \<le> 1 - l" "0 \<le> s * (1 - l)" using assms(1-4) by (simp_all add: mult_left_le_one_le)
  show "0 \<le> 2 * l - q" "2 * l - q \<le> q" "q \<le> 1"
    using m n assms by (auto simp: algebra_simps split: if_splits)
qed

lemma clamp_to_range: "clamp_to v 0 1 = Some x \<Longrightarrow> 0 \<le> x \<and> x \<le> 1"
  by (cases v) (auto simp: clamp_to_def)

lemma hsl_hue_range:
  assumes "parseFloat s = Some v" "-600 \<le> v" "v \<le> 600"
  shows "\<exists>h. hsl_hue s = Some h \<and> - (2 / 3) \<le> h \<and> h \<le> 5 / 3"
proof -
  define q where "q = v / 360 / 360"
  have "- 1 < q" "q < 1" using assms by (simp_all add: q_def field_simps)
  then have "(if q < 0 then - \<lfloor>- q\<rfloor> else \<lfloor>q\<rfloor>) = 0" by (simp add: floor_eq_iff)
  then have "js_remainder (v / 360) 360 = v / 360"
    by (simp only: js_remainder_def Let_def q_def [symmetric] of_int_0 mult_zero_right diff_zero)
  then have "hsl_hue s = Some (if v / 360 < 0 then v / 360 + 1 else v / 360)" using assms(1) by (simp add: hsl_hue_def Let_def)
  then show ?thesis using assms(2,3) by (auto simp: field_simps)
qed

text \<open>
  For every hue from -600 to 600 degrees and readable saturation and lightness, whatever their size, the colour computed
  is a hexadecimal colour of six digits.
\<close>

theorem hsl_gives_hex_color:
  assumes "parts = [h, s, l]" "parseFloat h = Some v" "-600 \<le> v" "v \<le> 600" "parseFloat s \<noteq> None" "parseFloat l \<noteq> None"
  shows "hex_color (hslToRgb parts)"
proof -
  obtain x where x: "hsl_hue h = Some x" "- (2 / 3) \<le> x" "x \<le> 5 / 3" using hsl_hue_range [OF assms(2-4)] by blast
  have "clamp_to (percent s) 0 1 \<noteq> None" using assms(5) by (simp add: clamp_to_def percent_def)
  then obtain s' where s': "clamp_to (percent s) 0 1 = Some s'" by blast
  have "clamp_to (percent l) 0 1 \<noteq> None" using assms(6) by (simp add: clamp_to_def percent_def)
  then obtain l' where l': "clamp_to (percent l) 0 1 = Some l'" by blast
  note sr = clamp_to_range [OF s'] and lr = clamp_to_range [OF l']
  define q where "q = (if l' < 1 / 2 then l' * (1 + s') else l' + s' - l' * s')"
  note e = hsl_ends [OF conjunct1 [OF sr] conjunct2 [OF sr] conjunct1 [OF lr] conjunct2 [OF lr] q_def]
  have b: "\<exists>n < 256. decToHex (floor255 (hueToRgb (2 * l' - q) q (Some y))) = [hex_digit (n div 16), hex_digit (n mod 16)]"
    if "-1 \<le> y" "y \<le> 2" for y
    using hue_between [OF e(2) that] e by (intro decToHex_byte) auto
  have "hslToRgb parts = hsl_color (Some x) (Some s') (Some l')"
    by (simp add: hslToRgb_def assms(1) x(1) s' l' Let_def)
  also have "hex_color \<dots>"
  proof (cases "s' = 0")
    case True
    then show ?thesis using three_bytes_hex [of "decToHex (floor255 l')" "decToHex (floor255 l')" "decToHex (floor255 l')"]
        decToHex_byte [of l'] lr by (simp add: hsl_color_def)
  next
    case False
    then have "hsl_color (Some x) (Some s') (Some l') = ''#'' @ decToHex (floor255 (hueToRgb (2 * l' - q) q (Some (x + 1 / 3))))
        @ decToHex (floor255 (hueToRgb (2 * l' - q) q (Some x))) @ decToHex (floor255 (hueToRgb (2 * l' - q) q (Some (x - 1 / 3))))"
      by (simp only: hsl_color_def prod.case option.case option.map Let_def q_def [symmetric] if_False)
    then show ?thesis using three_bytes_hex [OF b [of "x + 1 / 3"] b [of x] b [of "x - 1 / 3"]] x(2,3) by simp
  qed
  finally show ?thesis .
qed

theorem hsl_gives_hex_color_witness: "hslToRgb [''120'', ''100%'', ''25%''] = ''#007f00'' \<and> hex_color (hslToRgb [''120'', ''100%'', ''25%''])"
proof -
  have "parseFloat ''120'' = Some 120" "parseFloat ''100%'' \<noteq> None" "parseFloat ''25%'' \<noteq> None" by code_simp+
  moreover have "hslToRgb [''120'', ''100%'', ''25%''] = ''#007f00''" by code_simp
  ultimately show ?thesis using hsl_gives_hex_color [OF refl, of "''120''" 120 "''100%''" "''25%''"] by simp
qed

text \<open>
  A hue is divided by 360 before the remainder by 360 is taken, so that hues beyond one turn are wrong; parts that are not whole numbers give none either.
\<close>

theorem hue_beyond_a_turn_black:
  "hslToRgb [''0'', ''100%'', ''50%''] = ''#ff0000'' \<and> hslToRgb [''720'', ''100%'', ''50%''] = ''#000000''"
proof -
  have h: "hsl_hue ''0'' = Some 0" "hsl_hue ''720'' = Some 2" by code_simp+
  have c: "clamp_to (percent ''100%'') 0 1 = Some 1" "clamp_to (percent ''50%'') 0 1 = Some (1 / 2)" by code_simp+
  have r: "hsl_color (Some 0) (Some 1) (Some (1 / 2)) = ''#ff0000''" "hsl_color (Some 2) (Some 1) (Some (1 / 2)) = ''#000000''" by code_simp+
  have p: "aref [a, b, d] 0 = Some a" "aref [a, b, d] 1 = Some b" "aref [a, b, d] 2 = Some d" for a b d :: string by (simp_all add: aref_def)
  show ?thesis unfolding hslToRgb_def Let_def p option.case h c r by simp
qed

theorem fractional_part_undefined:
  "rgb_part ''1.5'' = ''undefined''"
  by code_simp

end
