(* ===== verification/Canvas.thy ===== *)
theory Canvas
  imports CanvasColor
begin

text \<open>
  The drawing context of \<open>excanvas.js\<close>, which draws on a canvas by adding VML elements to the page: the
  matrix and the stack of states, the current path, and the shapes, images and lines of text made from them.
  Coordinates are exact rationals; elements are records of their attributes, not texts.  \<open>Math.sqrt\<close>,
  the trigonometric functions and the font of the page are arguments.
\<close>

section \<open>Matrices\<close>

definition nadd :: "num_opt \<Rightarrow> num_opt \<Rightarrow> num_opt" where
  "nadd a b = (case (a, b) of (Some x, Some y) \<Rightarrow> Some (x + y) | _ \<Rightarrow> None)"

definition nmul :: "num_opt \<Rightarrow> num_opt \<Rightarrow> num_opt" where
  "nmul a b = (case (a, b) of (Some x, Some y) \<Rightarrow> Some (x * y) | _ \<Rightarrow> None)"

definition ndiv :: "rat \<Rightarrow> rat \<Rightarrow> num_opt" where
  "ndiv a b = (if b = 0 then None else Some (a / b))"

type_synonym matrix = "rat list list"

definition createMatrixIdentity :: matrix where
  "createMatrixIdentity = [[1, 0, 0], [0, 1, 0], [0, 0, 1]]"

definition lift_matrix :: "matrix \<Rightarrow> num_opt list list" where
  "lift_matrix m = map (map Some) m"

text \<open>An entry that is not finite makes what is computed from it not finite.\<close>

definition matrixMultiply :: "num_opt list list \<Rightarrow> num_opt list list \<Rightarrow> num_opt list list" where
  "matrixMultiply m1 m2 =
     map (\<lambda>x. map (\<lambda>y. foldl (\<lambda>sum z. nadd sum (nmul (m1 ! x ! z) (m2 ! z ! y))) (Some 0) [0, 1, 2]) [0, 1, 2]) [0, 1, 2]"

definition matrixIsFinite :: "num_opt list list \<Rightarrow> bool" where
  "matrixIsFinite m \<longleftrightarrow> m ! 0 ! 0 \<noteq> None \<and> m ! 0 ! 1 \<noteq> None \<and> m ! 1 ! 0 \<noteq> None \<and> m ! 1 ! 1 \<noteq> None
     \<and> m ! 2 ! 0 \<noteq> None \<and> m ! 2 ! 1 \<noteq> None"

section \<open>The context\<close>

text \<open>A gradient is referred to by its place, for color stops are added to it later and it is sorted where it is.\<close>

datatype paint = Paint_text string | Paint_gradient nat | Paint_pattern string

record drawing_style =
  fillStyle :: paint
  lineCap :: string
  lineJoin :: string
  lineWidth :: rat
  miterLimit :: rat
  shadowBlur :: num_opt
  shadowColor :: "string option"
  shadowOffsetX :: num_opt
  shadowOffsetY :: num_opt
  strokeStyle :: paint
  globalAlpha :: rat
  font :: string
  textAlign :: string
  textBaseline :: string
  arcScaleX :: rat
  arcScaleY :: rat
  lineScale :: rat

datatype path_item = Move_item rat rat | Line_item rat rat | Close_item
  | Bezier_item num_opt num_opt num_opt num_opt rat rat
  | Arc_item bool rat rat rat rat rat rat rat

record gradient =
  radial :: bool
  grad_from :: "rat \<times> rat \<times> rat"
  grad_to :: "rat \<times> rat \<times> rat"
  color_stops :: "(rat \<times> string \<times> js_value) list"

datatype vml_path = VMove "int option" "int option" | VLine int int | VClose
  | VCurve "int option" "int option" "int option" "int option" int int
  | VArc bool int int int int int int int int

datatype vml_paint =
    Stroke_with num_opt string rat string rat string
  | Fill_color string num_opt
  | Fill_gradient bool string string "(num_opt \<times> string) list" num_opt num_opt num_opt "num_opt \<times> num_opt"
  | Fill_tile num_opt num_opt string
  | Fill_nothing

datatype image_place = Top_left int int | Filtered "rat list" int int int int

datatype vml = Shape bool "vml_path list" vml_paint
  | Image image_place string rat rat "num_opt list"
  | Text_line rat rat bool vml_paint "rat list" "int option \<times> int option" string string "string \<times> string \<times> string \<times> num_opt \<times> string"

record canvas_context = drawing_style +
  matrix_of :: matrix
  mStack :: "matrix list"
  aStack :: "drawing_style list"
  currentPath :: "path_item list"
  current_point :: "(rat \<times> rat) option"
  markup :: "vml list"
  gradients :: "gradient list"

record math_functions =
  m_sqrt :: "rat \<Rightarrow> rat"
  m_cos :: "rat \<Rightarrow> rat"
  m_sin :: "rat \<Rightarrow> rat"
  m_atan2_degrees :: "rat \<Rightarrow> rat \<Rightarrow> rat"

definition new_context :: canvas_context where
  "new_context = \<lparr>fillStyle = Paint_text ''#000'', lineCap = ''butt'', lineJoin = ''miter'', lineWidth = 1, miterLimit = 10,
     shadowBlur = None, shadowColor = None, shadowOffsetX = None, shadowOffsetY = None, strokeStyle = Paint_text ''#000'',
     globalAlpha = 1, font = ''10px sans-serif'', textAlign = ''left'', textBaseline = ''alphabetic'',
     arcScaleX = 1, arcScaleY = 1, lineScale = 1, matrix_of = createMatrixIdentity, mStack = [], aStack = [], currentPath = [],
     current_point = None, markup = [], gradients = []\<rparr>"

section \<open>States and transformations\<close>

definition copyState :: "'a drawing_style_scheme \<Rightarrow> 'b drawing_style_scheme \<Rightarrow> 'b drawing_style_scheme" where
  "copyState o1 o2 = o2\<lparr>fillStyle := fillStyle o1, lineCap := lineCap o1, lineJoin := lineJoin o1, lineWidth := lineWidth o1,
     miterLimit := miterLimit o1, shadowBlur := shadowBlur o1, shadowColor := shadowColor o1, shadowOffsetX := shadowOffsetX o1,
     shadowOffsetY := shadowOffsetY o1, strokeStyle := strokeStyle o1, globalAlpha := globalAlpha o1, font := font o1,
     textAlign := textAlign o1, textBaseline := textBaseline o1, arcScaleX := arcScaleX o1, arcScaleY := arcScaleY o1,
     lineScale := lineScale o1\<rparr>"

definition save :: "canvas_context \<Rightarrow> canvas_context" where
  "save c = c\<lparr>aStack := aStack c @ [copyState c (drawing_style.truncate new_context)], mStack := mStack c @ [matrix_of c],
     matrix_of := map (map the) (matrixMultiply (lift_matrix createMatrixIdentity) (lift_matrix (matrix_of c)))\<rparr>"

definition restore :: "canvas_context \<Rightarrow> canvas_context" where
  "restore c =
     (if aStack c = [] then c
      else (copyState (last (aStack c)) (c\<lparr>aStack := butlast (aStack c)\<rparr>))\<lparr>matrix_of := last (mStack c), mStack := butlast (mStack c)\<rparr>)"

definition setM :: "math_functions \<Rightarrow> num_opt list list \<Rightarrow> bool \<Rightarrow> canvas_context \<Rightarrow> canvas_context" where
  "setM fns m updateLineScale c =
     (if \<not> matrixIsFinite m then c
      else let c1 = c\<lparr>matrix_of := map (map the) m\<rparr>
           in if updateLineScale
              then c1\<lparr>lineScale := m_sqrt fns \<bar>matrix_of c1 ! 0 ! 0 * matrix_of c1 ! 1 ! 1 - matrix_of c1 ! 0 ! 1 * matrix_of c1 ! 1 ! 0\<bar>\<rparr> else c1)"

definition affine :: "num_opt \<Rightarrow> num_opt \<Rightarrow> num_opt \<Rightarrow> num_opt \<Rightarrow> num_opt \<Rightarrow> num_opt \<Rightarrow> num_opt list list" where
  "affine m11 m12 m21 m22 dx dy = [[m11, m12, Some 0], [m21, m22, Some 0], [dx, dy, Some 1]]"

definition translate :: "math_functions \<Rightarrow> num_opt \<Rightarrow> num_opt \<Rightarrow> canvas_context \<Rightarrow> canvas_context" where
  "translate fns aX aY c =
     setM fns (matrixMultiply (affine (Some 1) (Some 0) (Some 0) (Some 1) aX aY) (lift_matrix (matrix_of c))) False c"

definition rotate_canvas :: "math_functions \<Rightarrow> rat \<Rightarrow> canvas_context \<Rightarrow> canvas_context" where
  "rotate_canvas fns aRot c =
     (let cs = m_cos fns aRot; sn = m_sin fns aRot
      in setM fns (matrixMultiply (affine (Some cs) (Some sn) (Some (- sn)) (Some cs) (Some 0) (Some 0)) (lift_matrix (matrix_of c))) False c)"

definition scale_canvas :: "math_functions \<Rightarrow> rat \<Rightarrow> rat \<Rightarrow> canvas_context \<Rightarrow> canvas_context" where
  "scale_canvas fns aX aY c =
     (let c1 = c\<lparr>arcScaleX := arcScaleX c * aX, arcScaleY := arcScaleY c * aY\<rparr>
      in setM fns (matrixMultiply (affine (Some aX) (Some 0) (Some 0) (Some aY) (Some 0) (Some 0)) (lift_matrix (matrix_of c1))) True c1)"

definition transform :: "math_functions \<Rightarrow> num_opt \<Rightarrow> num_opt \<Rightarrow> num_opt \<Rightarrow> num_opt \<Rightarrow> num_opt \<Rightarrow> num_opt \<Rightarrow> canvas_context \<Rightarrow> canvas_context" where
  "transform fns m11 m12 m21 m22 dx dy c = setM fns (matrixMultiply (affine m11 m12 m21 m22 dx dy) (lift_matrix (matrix_of c))) True c"

definition setTransform :: "math_functions \<Rightarrow> num_opt \<Rightarrow> num_opt \<Rightarrow> num_opt \<Rightarrow> num_opt \<Rightarrow> num_opt \<Rightarrow> num_opt \<Rightarrow> canvas_context \<Rightarrow> canvas_context" where
  "setTransform fns m11 m12 m21 m22 dx dy c = setM fns (affine m11 m12 m21 m22 dx dy) True c"

section \<open>Paths\<close>

text \<open>Ten units are a pixel.\<close>

definition getCoords :: "canvas_context \<Rightarrow> rat \<Rightarrow> rat \<Rightarrow> rat \<times> rat" where
  "getCoords c aX aY =
     (let m = matrix_of c in (10 * (aX * m ! 0 ! 0 + aY * m ! 1 ! 0 + m ! 2 ! 0) - 5, 10 * (aX * m ! 0 ! 1 + aY * m ! 1 ! 1 + m ! 2 ! 1) - 5))"

definition beginPath :: "canvas_context \<Rightarrow> canvas_context" where
  "beginPath c = c\<lparr>currentPath := []\<rparr>"

definition moveTo :: "rat \<Rightarrow> rat \<Rightarrow> canvas_context \<Rightarrow> canvas_context" where
  "moveTo aX aY c =
     (let p = getCoords c aX aY in c\<lparr>currentPath := currentPath c @ [Move_item (fst p) (snd p)], current_point := Some p\<rparr>)"

definition lineTo :: "rat \<Rightarrow> rat \<Rightarrow> canvas_context \<Rightarrow> canvas_context" where
  "lineTo aX aY c =
     (let p = getCoords c aX aY in c\<lparr>currentPath := currentPath c @ [Line_item (fst p) (snd p)], current_point := Some p\<rparr>)"

definition bezier_item_to :: "num_opt \<times> num_opt \<Rightarrow> num_opt \<times> num_opt \<Rightarrow> rat \<times> rat \<Rightarrow> canvas_context \<Rightarrow> canvas_context" where
  "bezier_item_to cp1 cp2 p c =
     c\<lparr>currentPath := currentPath c @ [Bezier_item (fst cp1) (snd cp1) (fst cp2) (snd cp2) (fst p) (snd p)], current_point := Some p\<rparr>"

definition bezierCurveTo :: "rat \<times> rat \<Rightarrow> rat \<times> rat \<Rightarrow> rat \<times> rat \<Rightarrow> canvas_context \<Rightarrow> canvas_context" where
  "bezierCurveTo a b e c =
     bezier_item_to (map_prod Some Some (getCoords c (fst a) (snd a))) (map_prod Some Some (getCoords c (fst b) (snd b)))
       (getCoords c (fst e) (snd e)) c"

text \<open>Without a current point the control points are \<open>NaN\<close>.\<close>

definition quadraticCurveTo :: "rat \<times> rat \<Rightarrow> rat \<times> rat \<Rightarrow> canvas_context \<Rightarrow> canvas_context" where
  "quadraticCurveTo a e c =
     (let cp = getCoords c (fst a) (snd a); p = getCoords c (fst e) (snd e)
      in case current_point c of
           None \<Rightarrow> bezier_item_to (None, None) (None, None) p c
         | Some (x, y) \<Rightarrow>
             (let x1 = x + 2 / 3 * (fst cp - x); y1 = y + 2 / 3 * (snd cp - y)
              in bezier_item_to (Some x1, Some y1) (Some (x1 + (fst p - x) / 3), Some (y1 + (snd p - y) / 3)) p c))"

text \<open>An arc leaves the current point where it was.\<close>

definition arc :: "math_functions \<Rightarrow> rat \<Rightarrow> rat \<Rightarrow> rat \<Rightarrow> rat \<Rightarrow> rat \<Rightarrow> bool \<Rightarrow> canvas_context \<Rightarrow> canvas_context" where
  "arc fns aX aY radius startAngle endAngle aClockwise c =
     (let r = radius * 10;
          xs = aX + m_cos fns startAngle * r - 5; ys = aY + m_sin fns startAngle * r - 5;
          xe = aX + m_cos fns endAngle * r - 5; ye = aY + m_sin fns endAngle * r - 5;
          xs' = (if xs = xe \<and> \<not> aClockwise then xs + 1 / 8 else xs);
          p = getCoords c aX aY; ps = getCoords c xs' ys; pe = getCoords c xe ye
      in c\<lparr>currentPath := currentPath c @ [Arc_item aClockwise (fst p) (snd p) r (fst ps) (snd ps) (fst pe) (snd pe)]\<rparr>)"

definition closePath :: "canvas_context \<Rightarrow> canvas_context" where
  "closePath c = c\<lparr>currentPath := currentPath c @ [Close_item]\<rparr>"

definition rect :: "rat \<Rightarrow> rat \<Rightarrow> rat \<Rightarrow> rat \<Rightarrow> canvas_context \<Rightarrow> canvas_context" where
  "rect aX aY w h c =
     closePath (lineTo aX (aY + h) (lineTo (aX + w) (aY + h) (lineTo (aX + w) aY (moveTo aX aY c))))"

section \<open>Shapes\<close>

definition mr :: "rat \<Rightarrow> int" where
  "mr x = \<lfloor>x + 1 / 2\<rfloor>"

text \<open>The point an item ends at, read from it as \<open>x\<close> and \<open>y\<close>.\<close>

fun item_point :: "path_item \<Rightarrow> (rat \<times> rat) option" where
  "item_point (Move_item x y) = Some (x, y)"
| "item_point (Line_item x y) = Some (x, y)"
| "item_point Close_item = None"
| "item_point (Bezier_item a b d e x y) = Some (x, y)"
| "item_point (Arc_item cw x y r xs ys xe ye) = Some (x, y)"

fun vml_item :: "rat \<Rightarrow> rat \<Rightarrow> path_item \<Rightarrow> vml_path" where
  "vml_item sx sy (Move_item x y) = VMove (Some (mr x)) (Some (mr y))"
| "vml_item sx sy (Line_item x y) = VLine (mr x) (mr y)"
| "vml_item sx sy Close_item = VClose"
| "vml_item sx sy (Bezier_item a b d e x y) =
     VCurve (map_option mr a) (map_option mr b) (map_option mr d) (map_option mr e) (mr x) (mr y)"
| "vml_item sx sy (Arc_item cw x y r xs ys xe ye) =
     VArc cw (mr (x - sx * r)) (mr (y - sy * r)) (mr (x + sx * r)) (mr (y + sy * r)) (mr xs) (mr ys) (mr xe) (mr ye)"

text \<open>Smallest and largest x and y so far.\<close>

type_synonym path_bounds = "(rat \<times> rat \<times> rat \<times> rat) option"

definition widen_path :: "path_bounds \<Rightarrow> path_item \<Rightarrow> path_bounds" where
  "widen_path b item =
     (case item_point item of None \<Rightarrow> b
      | Some (x, y) \<Rightarrow> (case b of None \<Rightarrow> Some (x, x, y, y)
          | Some (lx, hx, ly, hy) \<Rightarrow>
              Some (if x < lx then x else lx, if x > hx then x else hx, if y < ly then y else ly, if y > hy then y else hy)))"

definition processLineCap :: "string \<Rightarrow> string" where
  "processLineCap cap = (if cap = ''butt'' then ''flat'' else if cap = ''round'' then ''round'' else ''square'')"

definition paint_name :: "paint \<Rightarrow> string" where
  "paint_name p = (case p of Paint_text s \<Rightarrow> s | _ \<Rightarrow> ''[object Object]'')"

definition times_alpha :: "js_value \<Rightarrow> rat \<Rightarrow> num_opt" where
  "times_alpha alpha a = map_option (\<lambda>v. v * a) (number_of alpha)"

definition appendStroke :: "canvas_context \<Rightarrow> vml_paint js" where
  "appendStroke c =
     js_bind (processStyle (paint_name (strokeStyle c))) (\<lambda>(color, alpha).
       let w = lineScale c * lineWidth c; o1 = times_alpha alpha (globalAlpha c);
           o2 = (if w < 1 then map_option (\<lambda>v. v * w) o1 else o1)
       in ok (Stroke_with o2 (lineJoin c) (miterLimit c) (processLineCap (lineCap c)) w color))"

text \<open>The angle of a linear gradient; a scale of 0 leaves it undetermined.\<close>

definition gradient_angle :: "math_functions \<Rightarrow> gradient \<Rightarrow> canvas_context \<Rightarrow> num_opt" where
  "gradient_angle fns g c =
     (if arcScaleX c = 0 \<or> arcScaleY c = 0 then None
      else case (grad_from g, grad_to g) of ((x0, y0, r0), (x1, y1, r1)) \<Rightarrow>
        (let p0 = getCoords c (x0 / arcScaleX c) (y0 / arcScaleY c); p1 = getCoords c (x1 / arcScaleX c) (y1 / arcScaleY c);
             a = m_atan2_degrees fns (fst p1 - fst p0) (snd p1 - snd p0); a1 = (if a < 0 then a + 360 else a)
         in Some (if a1 < 1 / 1000000 then 0 else a1)))"

text \<open>Left, top, width and height of what is filled; a text of unknown size has no height.\<close>

type_synonym extent = "rat \<times> rat \<times> rat \<times> num_opt"

definition path_size :: "path_bounds \<Rightarrow> extent" where
  "path_size b = (case b of None \<Rightarrow> (0, 0, 0, Some 0) | Some (lx, hx, ly, hy) \<Rightarrow> (lx, ly, hx - lx, Some (hy - ly)))"

text \<open>A radius as a part of the larger dimension; a scale of 0 makes a dimension infinite, or not a number when it was 0.\<close>

definition radius_part :: "rat \<Rightarrow> rat \<Rightarrow> num_opt \<Rightarrow> canvas_context \<Rightarrow> num_opt" where
  "radius_part r w height c =
     (case height of None \<Rightarrow> None
      | Some h \<Rightarrow>
          if (arcScaleX c = 0 \<and> w = 0) \<or> (arcScaleY c = 0 \<and> h = 0) then None
          else if arcScaleX c = 0 \<or> arcScaleY c = 0 then Some 0
          else ndiv (2 * r) (max (w / (arcScaleX c * 10)) (h / (arcScaleY c * 10))))"

text \<open>The color stops are sorted where they are; a gradient without stops is an error.\<close>

definition fill_gradient :: "math_functions \<Rightarrow> nat \<Rightarrow> extent \<Rightarrow> canvas_context \<Rightarrow> (vml_paint \<times> canvas_context) js" where
  "fill_gradient fns i ext c =
     (let g = gradients c ! i; stops = sort_key fst (color_stops g);
          c1 = c\<lparr>gradients := (gradients c)[i := g\<lparr>color_stops := stops\<rparr>]\<rparr>
      in if stops = [] then raise TypeError
         else case (hd stops, last stops, ext, grad_from g, grad_to g) of
           ((o1, color1, alpha1), (o2, color2, alpha2), (lx, ly, w, h), (x0, y0, r0), (x1, y1, r1)) \<Rightarrow>
             (let p0 = getCoords c x0 y0;
                  shift = (if radial g then radius_part r0 w h c else Some 0);
                  expansion = (if radial g then nadd (radius_part r1 w h c) (map_option uminus shift) else Some 1)
              in ok (Fill_gradient (radial g) color1 color2
                       (map (\<lambda>(os, col, al). (nadd (nmul (Some os) expansion) shift, col)) stops)
                       (times_alpha alpha2 (globalAlpha c)) (times_alpha alpha1 (globalAlpha c))
                       (if radial g then Some 0 else gradient_angle fns g c)
                       (if radial g then (ndiv (fst p0 - lx) w, case h of None \<Rightarrow> None | Some v \<Rightarrow> ndiv (snd p0 - ly) v) else (Some 0, Some 0)), c1)))"

definition appendFill :: "math_functions \<Rightarrow> extent \<Rightarrow> canvas_context \<Rightarrow> (vml_paint \<times> canvas_context) js" where
  "appendFill fns ext c =
     (case fillStyle c of
        Paint_gradient i \<Rightarrow> fill_gradient fns i ext c
      | Paint_pattern src \<Rightarrow>
          (case ext of (lx, ly, w, h) \<Rightarrow>
             ok (case h of None \<Rightarrow> Fill_nothing
                 | Some v \<Rightarrow>
                     if w \<noteq> 0 \<and> v \<noteq> 0
                     then Fill_tile (Some (- lx / w * arcScaleX c * arcScaleX c)) (Some (- ly / v * arcScaleY c * arcScaleY c)) src
                     else Fill_nothing, c))
      | Paint_text s \<Rightarrow>
          js_bind (processStyle s) (\<lambda>(color, alpha). ok (Fill_color color (times_alpha alpha (globalAlpha c)), c)))"

text \<open>A shape takes 5000 items; the next one goes on from the item before, which has no point when it closes the path.\<close>

definition chunk_path :: "canvas_context \<Rightarrow> path_item option \<Rightarrow> path_item list \<Rightarrow> vml_path list" where
  "chunk_path c before items =
     (case before of None \<Rightarrow> []
      | Some it \<Rightarrow> (case item_point it of Some (x, y) \<Rightarrow> [VMove (Some (mr x)) (Some (mr y))] | None \<Rightarrow> [VMove None None]))
     @ map (vml_item (arcScaleX c) (arcScaleY c)) items"

definition add_markup :: "vml \<Rightarrow> canvas_context \<Rightarrow> canvas_context" where
  "add_markup v c = c\<lparr>markup := markup c @ [v]\<rparr>"

function stroke_loop :: "math_functions \<Rightarrow> bool \<Rightarrow> path_item option \<Rightarrow> path_bounds \<Rightarrow> path_item list \<Rightarrow> canvas_context \<Rightarrow> canvas_context js" where
  "stroke_loop fns aFill before b rest c =
     (if rest = [] then ok c
      else let items = take 5000 rest; b1 = foldl widen_path b items; path = chunk_path c before items
           in js_bind (if aFill then appendFill fns (path_size b1) c else js_bind (appendStroke c) (\<lambda>p. ok (p, c))) (\<lambda>(p, c1).
                stroke_loop fns aFill (Some (last items)) b1 (drop 5000 rest) (add_markup (Shape aFill path p) c1)))"
  by pat_completeness auto
termination
  by (relation "measure (\<lambda>(fns, f, before, b, rest, c). length rest)") auto

declare stroke_loop.simps [simp del]

definition stroke :: "math_functions \<Rightarrow> bool \<Rightarrow> canvas_context \<Rightarrow> canvas_context js" where
  "stroke fns aFill c = stroke_loop fns aFill None None (currentPath c) c"

definition fill :: "math_functions \<Rightarrow> canvas_context \<Rightarrow> canvas_context js" where
  "fill fns c = stroke fns True c"

definition paint_rect :: "math_functions \<Rightarrow> bool \<Rightarrow> rat \<Rightarrow> rat \<Rightarrow> rat \<Rightarrow> rat \<Rightarrow> canvas_context \<Rightarrow> canvas_context js" where
  "paint_rect fns aFill aX aY w h c =
     js_bind (stroke fns aFill (rect aX aY w h (beginPath c))) (\<lambda>c1. ok (c1\<lparr>currentPath := currentPath c\<rparr>))"

definition strokeRect :: "math_functions \<Rightarrow> rat \<Rightarrow> rat \<Rightarrow> rat \<Rightarrow> rat \<Rightarrow> canvas_context \<Rightarrow> canvas_context js" where
  "strokeRect fns aX aY w h c = paint_rect fns False aX aY w h c"

definition fillRect :: "math_functions \<Rightarrow> rat \<Rightarrow> rat \<Rightarrow> rat \<Rightarrow> rat \<Rightarrow> canvas_context \<Rightarrow> canvas_context js" where
  "fillRect fns aX aY w h c = paint_rect fns True aX aY w h c"

definition clearRect :: "canvas_context \<Rightarrow> canvas_context" where
  "clearRect c = c\<lparr>markup := []\<rparr>"

section \<open>Gradients, patterns and images\<close>

definition createGradient :: "bool \<Rightarrow> rat \<times> rat \<times> rat \<Rightarrow> rat \<times> rat \<times> rat \<Rightarrow> canvas_context \<Rightarrow> nat \<times> canvas_context" where
  "createGradient is_radial a b c =
     (length (gradients c), c\<lparr>gradients := gradients c @ [\<lparr>radial = is_radial, grad_from = a, grad_to = b, color_stops = []\<rparr>]\<rparr>)"

definition createLinearGradient :: "rat \<Rightarrow> rat \<Rightarrow> rat \<Rightarrow> rat \<Rightarrow> canvas_context \<Rightarrow> nat \<times> canvas_context" where
  "createLinearGradient x0 y0 x1 y1 c = createGradient False (x0, y0, 0) (x1, y1, 0) c"

definition createRadialGradient :: "rat \<Rightarrow> rat \<Rightarrow> rat \<Rightarrow> rat \<Rightarrow> rat \<Rightarrow> rat \<Rightarrow> canvas_context \<Rightarrow> nat \<times> canvas_context" where
  "createRadialGradient x0 y0 r0 x1 y1 r1 c = createGradient True (x0, y0, r0) (x1, y1, r1) c"

definition addColorStop :: "nat \<Rightarrow> rat \<Rightarrow> string \<Rightarrow> canvas_context \<Rightarrow> canvas_context js" where
  "addColorStop i os color c =
     js_bind (processStyle color) (\<lambda>(col, alpha).
       let g = gradients c ! i
       in ok (c\<lparr>gradients := (gradients c)[i := g\<lparr>color_stops := color_stops g @ [(os, col, alpha)]\<rparr>]\<rparr>))"

record page_image =
  is_img :: bool
  complete :: bool
  image_src :: string
  image_size :: "rat \<times> rat"

definition dom_codes :: "(string \<times> nat) list" where
  "dom_codes =
     [(''INDEX_SIZE_ERR'', 1), (''DOMSTRING_SIZE_ERR'', 2), (''HIERARCHY_REQUEST_ERR'', 3), (''WRONG_DOCUMENT_ERR'', 4),
      (''INVALID_CHARACTER_ERR'', 5), (''NO_DATA_ALLOWED_ERR'', 6), (''NO_MODIFICATION_ALLOWED_ERR'', 7), (''NOT_FOUND_ERR'', 8),
      (''NOT_SUPPORTED_ERR'', 9), (''INUSE_ATTRIBUTE_ERR'', 10), (''INVALID_STATE_ERR'', 11), (''SYNTAX_ERR'', 12),
      (''INVALID_MODIFICATION_ERR'', 13), (''NAMESPACE_ERR'', 14), (''INVALID_ACCESS_ERR'', 15), (''VALIDATION_ERR'', 16),
      (''TYPE_MISMATCH_ERR'', 17)]"

definition throwException :: "string \<Rightarrow> 'a js" where
  "throwException s =
     raise (Thrown (s @ '': DOM Exception '' @ (case map_of dom_codes s of Some code \<Rightarrow> show_nat code | None \<Rightarrow> ''undefined'')))"

definition assertImageIsValid :: "page_image option \<Rightarrow> page_image js" where
  "assertImageIsValid img =
     (case img of None \<Rightarrow> throwException ''TYPE_MISMATCH_ERR''
      | Some i \<Rightarrow> if \<not> is_img i then throwException ''TYPE_MISMATCH_ERR''
          else if \<not> complete i then throwException ''INVALID_STATE_ERR'' else ok i)"

definition createPattern :: "page_image option \<Rightarrow> string option \<Rightarrow> paint js" where
  "createPattern img repetition =
     js_bind (assertImageIsValid img) (\<lambda>i.
       let rep = (case repetition of None \<Rightarrow> [] | Some r \<Rightarrow> r)
       in if rep \<in> {[], ''repeat'', ''repeat-x'', ''repeat-y'', ''no-repeat''} then ok (Paint_pattern (image_src i))
          else throwException ''SYNTAX_ERR'')"

definition draw_image_at :: "page_image \<Rightarrow> rat \<Rightarrow> rat \<Rightarrow> rat \<Rightarrow> rat \<Rightarrow> rat \<Rightarrow> rat \<Rightarrow> rat \<Rightarrow> rat \<Rightarrow> canvas_context \<Rightarrow> canvas_context" where
  "draw_image_at img sx sy sw sh dx dy dw dh c =
     (let (w, h) = image_size img; m = matrix_of c; d = getCoords c dx dy;
          c2 = getCoords c (dx + dw) dy; c3 = getCoords c dx (dy + dh); c4 = getCoords c (dx + dw) (dy + dh);
          where_at = (if m ! 0 ! 0 \<noteq> 1 \<or> m ! 0 ! 1 \<noteq> 0 \<or> m ! 1 ! 1 \<noteq> 1 \<or> m ! 1 ! 0 \<noteq> 0
            then Filtered [m ! 0 ! 0, m ! 1 ! 0, m ! 0 ! 1, m ! 1 ! 1] (mr (fst d / 10)) (mr (snd d / 10))
                   (mr (max (max (fst d) (fst c2)) (max (fst c3) (fst c4)) / 10)) (mr (max (max (snd d) (snd c2)) (max (snd c3) (snd c4)) / 10))
            else Top_left (mr (snd d / 10)) (mr (fst d / 10)))
      in add_markup (Image where_at (image_src img) (10 * dw) (10 * dh)
           [ndiv sx w, ndiv sy h, ndiv (w - sx - sw) w, ndiv (h - sy - sh) h]) c)"

text \<open>The arguments after the image: where to, where to and how large, or from where to where.\<close>

definition drawImage :: "page_image \<Rightarrow> rat list \<Rightarrow> canvas_context \<Rightarrow> canvas_context js" where
  "drawImage img args c =
     (let (w, h) = image_size img
      in case args of
           [dx, dy] \<Rightarrow> ok (draw_image_at img 0 0 w h dx dy w h c)
         | [dx, dy, dw, dh] \<Rightarrow> ok (draw_image_at img 0 0 w h dx dy dw dh c)
         | [sx, sy, sw, sh, dx, dy, dw, dh] \<Rightarrow> ok (draw_image_at img sx sy sw sh dx dy dw dh c)
         | _ \<Rightarrow> raise (Thrown ''Invalid number of arguments''))"

section \<open>Text\<close>

datatype font_size = Size_number rat | Size_text string

record font_parts =
  f_style :: string
  f_variant :: string
  f_weight :: string
  f_size :: font_size
  f_family :: string

text \<open>What the browser makes of the font, with defaults for what is missing.\<close>

definition processFontStyle :: "(string \<Rightarrow> string \<times> string \<times> string \<times> string \<times> string) \<Rightarrow> string \<Rightarrow> font_parts" where
  "processFontStyle browser_font s =
     (case browser_font s of (st, va, we, si, fa) \<Rightarrow>
        \<lparr>f_style = (if st = [] then ''normal'' else st), f_variant = (if va = [] then ''normal'' else va),
          f_weight = (if we = [] then ''normal'' else we), f_size = (if si = [] then Size_number 10 else Size_text si),
          f_family = (if fa = [] then ''sans-serif'' else fa)\<rparr>)"

definition computed_size :: "num_opt \<Rightarrow> font_size \<Rightarrow> num_opt" where
  "computed_size canvasFontSize fsize =
     map_option (\<lambda>v. v * 981 / 1000)
       (case fsize of Size_number r \<Rightarrow> Some r
        | Size_text s \<Rightarrow>
            if indexOf s ''px'' 0 \<noteq> -1 then parseFloat s
            else if indexOf s ''em'' 0 \<noteq> -1 then nmul canvasFontSize (parseFloat s)
            else if indexOf s ''%'' 0 \<noteq> -1 then nmul (map_option (\<lambda>v. v / 100) canvasFontSize) (parseFloat s)
            else if indexOf s ''pt'' 0 \<noteq> -1 then map_option (\<lambda>v. v * 4 / 3) (parseFloat s)
            else canvasFontSize)"

definition encodeHtmlAttribute :: "string \<Rightarrow> string" where
  "encodeHtmlAttribute s =
     concat (map (\<lambda>ch. if ch = CHR ''&'' then ''&amp;'' else if ch = char_of (34 :: nat) then ''&quot;'' else [ch]) s)"

definition align_of_text :: "bool \<Rightarrow> string \<Rightarrow> string" where
  "align_of_text rtl align =
     (let a = to_lower align
      in if a \<in> {''left'', ''center'', ''right''} then a
         else if a = ''end'' then (if rtl then ''left'' else ''right'')
         else if a = ''start'' then (if rtl then ''right'' else ''left'')
         else ''left'')"

definition baseline_offset :: "string \<Rightarrow> num_opt \<Rightarrow> num_opt" where
  "baseline_offset baseline fsize =
     (if baseline = ''hanging'' \<or> baseline = ''top'' then map_option (\<lambda>v. v * 4 / 7) fsize
      else if baseline = ''middle'' then Some 0 else map_option (\<lambda>v. - v * 4 / 9) fsize)"

definition text_ends :: "string \<Rightarrow> rat \<times> rat" where
  "text_ends align = (if align = ''right'' then (1000, 1 / 20) else if align = ''center'' then (500, 500) else (0, 1000))"

definition drawText :: "math_functions \<Rightarrow> (string \<Rightarrow> string \<times> string \<times> string \<times> string \<times> string) \<Rightarrow> num_opt \<Rightarrow> bool
    \<Rightarrow> string \<Rightarrow> rat \<Rightarrow> rat \<Rightarrow> bool \<Rightarrow> canvas_context \<Rightarrow> canvas_context js" where
  "drawText fns browser_font canvasFontSize rtl txt x y is_stroke c =
     (let fp = processFontStyle browser_font (font c); fsize = computed_size canvasFontSize (f_size fp);
          align = align_of_text rtl (textAlign c); (left, right) = text_ends align;
          place = (case baseline_offset (textBaseline c) fsize of None \<Rightarrow> (None, None)
            | Some oy \<Rightarrow> (let d = getCoords c x (y + oy) in (Some (mr (fst d / 10)), Some (mr (snd d / 10)))));
          m = matrix_of c
      in js_bind (if is_stroke then js_bind (appendStroke c) (\<lambda>p. ok (p, c))
                  else appendFill fns (- left, 0, right + left, fsize) c) (\<lambda>(p, c1).
           ok (add_markup (Text_line (- left) right is_stroke p [m ! 0 ! 0, m ! 1 ! 0, m ! 0 ! 1, m ! 1 ! 1] place
                 (encodeHtmlAttribute txt) align (f_style fp, f_variant fp, f_weight fp, fsize, f_family fp)) c1)))"

definition fillText :: "math_functions \<Rightarrow> (string \<Rightarrow> string \<times> string \<times> string \<times> string \<times> string) \<Rightarrow> num_opt \<Rightarrow> bool
    \<Rightarrow> string \<Rightarrow> rat \<Rightarrow> rat \<Rightarrow> canvas_context \<Rightarrow> canvas_context js" where
  "fillText fns browser_font canvasFontSize rtl txt x y c = drawText fns browser_font canvasFontSize rtl txt x y False c"

definition strokeText :: "math_functions \<Rightarrow> (string \<Rightarrow> string \<times> string \<times> string \<times> string \<times> string) \<Rightarrow> num_opt \<Rightarrow> bool
    \<Rightarrow> string \<Rightarrow> rat \<Rightarrow> rat \<Rightarrow> canvas_context \<Rightarrow> canvas_context js" where
  "strokeText fns browser_font canvasFontSize rtl txt x y c = drawText fns browser_font canvasFontSize rtl txt x y True c"

section \<open>Transformations compose\<close>

definition affine_matrix :: "matrix \<Rightarrow> bool" where
  "affine_matrix m \<longleftrightarrow> m = [[m ! 0 ! 0, m ! 0 ! 1, 0], [m ! 1 ! 0, m ! 1 ! 1, 0], [m ! 2 ! 0, m ! 2 ! 1, 1]]"

lemma affine_matrixE:
  assumes "affine_matrix m"
  obtains a b c d e f where "m = [[a, b, 0], [c, d, 0], [e, f, 1]]"
  using assms unfolding affine_matrix_def by blast

lemma affine_matrixI [simp]: "affine_matrix [[a, b, 0], [c, d, 0], [e, f, 1]]"
  by (simp add: affine_matrix_def)

lemma nums [simp]:
  "nadd (Some x) (Some y) = Some (x + y)" "nmul (Some x) (Some y) = Some (x * y)" "nadd None a = None" "nadd a None = None"
  "nmul None a = None" "nmul a None = None"
  by (simp_all add: nadd_def nmul_def split: option.split)

lemma multiply_affine:
  "matrixMultiply (affine (Some a) (Some b) (Some c) (Some d) (Some e) (Some f)) (lift_matrix [[a', b', 0], [c', d', 0], [e', f', 1]])
    = lift_matrix [[a * a' + b * c', a * b' + b * d', 0], [c * a' + d * c', c * b' + d * d', 0],
        [e * a' + f * c' + e', e * b' + f * d' + f', 1]]"
  by (simp add: matrixMultiply_def affine_def lift_matrix_def)

lemma multiply_identity: "affine_matrix m \<Longrightarrow> matrixMultiply (lift_matrix createMatrixIdentity) (lift_matrix m) = lift_matrix m"
  by (erule affine_matrixE) (simp add: matrixMultiply_def createMatrixIdentity_def lift_matrix_def)

lemma the_lift [simp]: "map (map the) (lift_matrix m) = m"
  by (simp add: lift_matrix_def comp_def)

lemma finite_lift [simp]: "matrixIsFinite (lift_matrix [[a, b, c], [d, e, f], [g, h, i]])"
  by (simp add: matrixIsFinite_def lift_matrix_def)

lemma setM_matrix [simp]: "matrix_of (setM fns (lift_matrix [[a, b, c], [d, e, f], [g, h, i]]) u ctx) = [[a, b, c], [d, e, f], [g, h, i]]"
  by (simp add: setM_def Let_def)

text \<open>
  Under \<open>transform\<close>, \<open>translate\<close>, \<open>scale\<close> and \<open>rotate\<close> a point is drawn where the context before drew its image: the
  new transformation comes before the ones already made.
\<close>

theorem transformations_compose:
  assumes "affine_matrix (matrix_of c)"
  shows "getCoords (transform fns (Some m11) (Some m12) (Some m21) (Some m22) (Some dx) (Some dy) c) x y
      = getCoords c (m11 * x + m21 * y + dx) (m12 * x + m22 * y + dy)
    \<and> getCoords (translate fns (Some dx) (Some dy) c) x y = getCoords c (x + dx) (y + dy)
    \<and> getCoords (scale_canvas fns sx sy c) x y = getCoords c (sx * x) (sy * y)
    \<and> getCoords (rotate_canvas fns r c) x y
      = getCoords c (m_cos fns r * x - m_sin fns r * y) (m_sin fns r * x + m_cos fns r * y)"
proof -
  obtain a b e d u v where m: "matrix_of c = [[a, b, 0], [e, d, 0], [u, v, 1]]" using affine_matrixE [OF assms] by blast
  show ?thesis
    by (simp add: transform_def translate_def scale_canvas_def rotate_canvas_def Let_def m multiply_affine getCoords_def algebra_simps)
qed

theorem transformations_compose_witness:
  "getCoords (translate \<lparr>m_sqrt = id, m_cos = id, m_sin = id, m_atan2_degrees = \<lambda>x y. 0\<rparr> (Some 3) (Some 4)
     (scale_canvas \<lparr>m_sqrt = id, m_cos = id, m_sin = id, m_atan2_degrees = \<lambda>x y. 0\<rparr> 2 2 new_context)) 1 1 = (75, 95)"
proof -
  let ?f = "\<lparr>m_sqrt = id, m_cos = id, m_sin = id, m_atan2_degrees = \<lambda>x y. 0\<rparr> :: math_functions"
  have n: "matrix_of new_context = [[1, 0, 0], [0, 1, 0], [0, 0, 1]]" by (simp add: new_context_def createMatrixIdentity_def)
  have s: "affine_matrix (matrix_of (scale_canvas ?f 2 2 new_context))"
    by (simp add: scale_canvas_def Let_def n multiply_affine)
  have "getCoords (translate ?f (Some 3) (Some 4) (scale_canvas ?f 2 2 new_context)) 1 1
    = getCoords (scale_canvas ?f 2 2 new_context) (1 + 3) (1 + 4)"
    using transformations_compose [OF s] by blast
  then show ?thesis by (simp add: scale_canvas_def Let_def n multiply_affine getCoords_def)
qed

text \<open>A transformation one of whose numbers is not finite is ignored.\<close>

theorem infinite_transformation_ignored:
  assumes "None \<in> {m11, m12, m21, m22, dx, dy}" and "affine_matrix (matrix_of c)"
  shows "transform fns m11 m12 m21 m22 dx dy c = c"
proof -
  obtain a b e d u v where m: "matrix_of c = [[a, b, 0], [e, d, 0], [u, v, 1]]" using affine_matrixE [OF assms(2)] by blast
  have "\<not> matrixIsFinite (matrixMultiply (affine m11 m12 m21 m22 dx dy) (lift_matrix (matrix_of c)))"
    using assms(1) by (auto simp: m matrixMultiply_def affine_def lift_matrix_def matrixIsFinite_def)
  then show ?thesis by (simp add: transform_def setM_def)
qed

theorem infinite_transformation_ignored_witness:
  "transform \<lparr>m_sqrt = id, m_cos = id, m_sin = id, m_atan2_degrees = \<lambda>x y. 0\<rparr> (Some 1) None (Some 0) (Some 1) (Some 0) (Some 0) new_context = new_context"
  by (rule infinite_transformation_ignored) (simp_all add: new_context_def createMatrixIdentity_def)

section \<open>Programs\<close>

datatype canvas_op = Save | Restore | Translate num_opt num_opt | Rotate rat | Scale rat rat
  | Transform num_opt num_opt num_opt num_opt num_opt num_opt | Set_transform num_opt num_opt num_opt num_opt num_opt num_opt
  | Assign "drawing_style \<Rightarrow> drawing_style" | Begin_path | Move_to rat rat | Line_to rat rat
  | Bezier_to "rat \<times> rat" "rat \<times> rat" "rat \<times> rat" | Quadratic_to "rat \<times> rat" "rat \<times> rat" | Arc_to rat rat rat rat rat bool
  | Close_path | Rect rat rat rat rat | Stroke | Fill | Stroke_rect rat rat rat rat | Fill_rect rat rat rat rat | Clear_rect
  | Add_stop nat rat string | Draw_image page_image "rat list"

fun canvas_step :: "math_functions \<Rightarrow> canvas_op \<Rightarrow> canvas_context \<Rightarrow> canvas_context js" where
  "canvas_step fns Save c = ok (save c)"
| "canvas_step fns Restore c = ok (restore c)"
| "canvas_step fns (Translate x y) c = ok (translate fns x y c)"
| "canvas_step fns (Rotate r) c = ok (rotate_canvas fns r c)"
| "canvas_step fns (Scale x y) c = ok (scale_canvas fns x y c)"
| "canvas_step fns (Transform a b d e u v) c = ok (transform fns a b d e u v c)"
| "canvas_step fns (Set_transform a b d e u v) c = ok (setTransform fns a b d e u v c)"
| "canvas_step fns (Assign f) c = ok (copyState (f (drawing_style.truncate c)) c)"
| "canvas_step fns Begin_path c = ok (beginPath c)"
| "canvas_step fns (Move_to x y) c = ok (moveTo x y c)"
| "canvas_step fns (Line_to x y) c = ok (lineTo x y c)"
| "canvas_step fns (Bezier_to p q r) c = ok (bezierCurveTo p q r c)"
| "canvas_step fns (Quadratic_to p q) c = ok (quadraticCurveTo p q c)"
| "canvas_step fns (Arc_to x y r a b cw) c = ok (arc fns x y r a b cw c)"
| "canvas_step fns Close_path c = ok (closePath c)"
| "canvas_step fns (Rect x y w h) c = ok (rect x y w h c)"
| "canvas_step fns Stroke c = stroke fns False c"
| "canvas_step fns Fill c = fill fns c"
| "canvas_step fns (Stroke_rect x y w h) c = strokeRect fns x y w h c"
| "canvas_step fns (Fill_rect x y w h) c = fillRect fns x y w h c"
| "canvas_step fns Clear_rect c = ok (clearRect c)"
| "canvas_step fns (Add_stop i os color) c = addColorStop i os color c"
| "canvas_step fns (Draw_image img args) c = drawImage img args c"

fun canvas_run :: "math_functions \<Rightarrow> canvas_op list \<Rightarrow> canvas_context \<Rightarrow> canvas_context js" where
  "canvas_run fns [] c = ok c"
| "canvas_run fns (p # ps) c = js_bind (canvas_step fns p c) (canvas_run fns ps)"



section \<open>Saving and restoring\<close>

lemma appendFill_frame: "appendFill fns b c = ok (p, c1) \<Longrightarrow> \<exists>gs. c1 = c\<lparr>gradients := gs\<rparr>"
  by (cases "fillStyle c")
    (auto simp: appendFill_def fill_gradient_def Let_def js_bind_eq_Inr case_prod_unfold split: if_splits intro: exI [of _ "gradients c"])

lemma paint_step_frame:
  assumes "(if aFill then appendFill fns ext c else js_bind (appendStroke c) (\<lambda>p. ok (p, c))) = ok (p, c1)"
  shows "\<exists>gs. c1 = c\<lparr>gradients := gs\<rparr>"
proof (cases aFill)
  case True
  then show ?thesis using assms appendFill_frame by simp
next
  case False
  then have "c1 = c" using assms by (auto simp: js_bind_eq_Inr)
  then show ?thesis by (intro exI [of _ "gradients c"]) simp
qed

lemma stroke_loop_frame: "stroke_loop fns aFill before b rest c = ok c' \<Longrightarrow> \<exists>gs mk. c' = c\<lparr>markup := mk, gradients := gs\<rparr>"
proof (induction fns aFill before b rest c arbitrary: c' rule: stroke_loop.induct)
  case (1 fns aFill before b rest c)
  show ?case
  proof (cases "rest = []")
    case True
    then have "c' = c" using 1(2) by (simp add: stroke_loop.simps)
    then show ?thesis by (intro exI [of _ "gradients c"] exI [of _ "markup c"]) simp
  next
    case False
    let ?items = "take 5000 rest"
    let ?b1 = "foldl widen_path b ?items"
    obtain p c1 where p: "(if aFill then appendFill fns (path_size ?b1) c else js_bind (appendStroke c) (\<lambda>p. ok (p, c))) = ok (p, c1)"
      and r: "stroke_loop fns aFill (Some (last ?items)) ?b1 (drop 5000 rest) (add_markup (Shape aFill (chunk_path c before ?items) p) c1) = ok c'"
      using 1(2) False by (subst (asm) stroke_loop.simps) (auto simp: Let_def js_bind_eq_Inr simp del: take_eq_Nil drop_eq_Nil)
    have c1: "\<exists>gs. c1 = c\<lparr>gradients := gs\<rparr>" using paint_step_frame [OF p] .
    obtain gs mk where "c' = (add_markup (Shape aFill (chunk_path c before ?items) p) c1)\<lparr>markup := mk, gradients := gs\<rparr>"
      using 1(1) [OF False refl refl refl r] by blast
    moreover obtain g0 where "c1 = c\<lparr>gradients := g0\<rparr>" using c1 by blast
    ultimately show ?thesis by (intro exI [of _ gs] exI [of _ mk]) (simp add: add_markup_def)
  qed
qed

lemma stroke_frame: "stroke fns aFill c = ok c' \<Longrightarrow> \<exists>gs mk. c' = c\<lparr>markup := mk, gradients := gs\<rparr>"
  unfolding stroke_def by (rule stroke_loop_frame)

lemma stacks_simps [simp]:
  "mStack (setM fns m u c) = mStack c" "aStack (setM fns m u c) = aStack c"
  "mStack (translate fns a b c) = mStack c" "aStack (translate fns a b c) = aStack c"
  "mStack (rotate_canvas fns r c) = mStack c" "aStack (rotate_canvas fns r c) = aStack c"
  "mStack (scale_canvas fns x y c) = mStack c" "aStack (scale_canvas fns x y c) = aStack c"
  "mStack (transform fns m11 m12 m21 m22 dx dy c) = mStack c" "aStack (transform fns m11 m12 m21 m22 dx dy c) = aStack c"
  "mStack (setTransform fns m11 m12 m21 m22 dx dy c) = mStack c" "aStack (setTransform fns m11 m12 m21 m22 dx dy c) = aStack c"
  "mStack (copyState s c) = mStack c" "aStack (copyState s c) = aStack c" "matrix_of (copyState s c) = matrix_of c"
  by (simp_all add: setM_def Let_def translate_def rotate_canvas_def scale_canvas_def transform_def setTransform_def copyState_def)

lemma path_simps [simp]:
  "mStack (beginPath c) = mStack c" "aStack (beginPath c) = aStack c" "matrix_of (beginPath c) = matrix_of c"
  "mStack (moveTo x y c) = mStack c" "aStack (moveTo x y c) = aStack c" "matrix_of (moveTo x y c) = matrix_of c"
  "mStack (lineTo x y c) = mStack c" "aStack (lineTo x y c) = aStack c" "matrix_of (lineTo x y c) = matrix_of c"
  "mStack (bezier_item_to q1 q2 q c) = mStack c" "aStack (bezier_item_to q1 q2 q c) = aStack c" "matrix_of (bezier_item_to q1 q2 q c) = matrix_of c"
  "mStack (bezierCurveTo p1 p2 p c) = mStack c" "aStack (bezierCurveTo p1 p2 p c) = aStack c" "matrix_of (bezierCurveTo p1 p2 p c) = matrix_of c"
  "mStack (quadraticCurveTo p1 p c) = mStack c" "aStack (quadraticCurveTo p1 p c) = aStack c" "matrix_of (quadraticCurveTo p1 p c) = matrix_of c"
  "mStack (arc fns x y r a b cw c) = mStack c" "aStack (arc fns x y r a b cw c) = aStack c" "matrix_of (arc fns x y r a b cw c) = matrix_of c"
  "mStack (closePath c) = mStack c" "aStack (closePath c) = aStack c" "matrix_of (closePath c) = matrix_of c"
  "mStack (rect x y w h c) = mStack c" "aStack (rect x y w h c) = aStack c" "matrix_of (rect x y w h c) = matrix_of c"
  "mStack (clearRect c) = mStack c" "aStack (clearRect c) = aStack c" "matrix_of (clearRect c) = matrix_of c"
  by (simp_all add: beginPath_def moveTo_def lineTo_def bezier_item_to_def bezierCurveTo_def quadraticCurveTo_def arc_def closePath_def
      rect_def clearRect_def Let_def split: option.split)

text \<open>Steps that neither save nor restore leave the stacks alone.\<close>

lemma paint_rect_frame:
  assumes "paint_rect fns aFill x y w h c = ok c'"
  shows "mStack c' = mStack c \<and> aStack c' = aStack c \<and> matrix_of c' = matrix_of c"
proof -
  obtain c1 where "stroke fns aFill (rect x y w h (beginPath c)) = ok c1" "c' = c1\<lparr>currentPath := currentPath c\<rparr>"
    using assms by (auto simp: paint_rect_def js_bind_eq_Inr)
  then show ?thesis using stroke_frame [of fns aFill "rect x y w h (beginPath c)" c1] by auto
qed

lemma step_stacks:
  assumes "canvas_step fns p c = ok c'" "p \<noteq> Save" "p \<noteq> Restore"
  shows "mStack c' = mStack c \<and> aStack c' = aStack c"
proof (cases p)
  case Stroke
  then show ?thesis using assms(1) stroke_frame [of fns False c c'] by auto
next
  case Fill
  then show ?thesis using assms(1) stroke_frame [of fns True c c'] by (auto simp: fill_def)
next
  case (Stroke_rect x y w h)
  then show ?thesis using assms(1) paint_rect_frame by (simp add: strokeRect_def)
next
  case (Fill_rect x y w h)
  then show ?thesis using assms(1) paint_rect_frame by (simp add: fillRect_def)
next
  case (Add_stop i os color)
  then show ?thesis using assms(1) by (auto simp: addColorStop_def js_bind_eq_Inr Let_def)
next
  case (Draw_image img args)
  then show ?thesis using assms(1)
    by (auto simp: drawImage_def draw_image_at_def add_markup_def Let_def case_prod_unfold split: list.splits)
qed (use assms in auto)



lemma copy_same: "copyState (copyState a b) c = copyState a c"
  by (simp add: copyState_def)



section \<open>Every program keeps the context well formed\<close>

definition context_ok :: "canvas_context \<Rightarrow> bool" where
  "context_ok c \<longleftrightarrow> affine_matrix (matrix_of c) \<and> list_all affine_matrix (mStack c) \<and> length (mStack c) = length (aStack c)"

lemma setM_multiply_affine:
  assumes "affine_matrix (matrix_of c)"
  shows "affine_matrix (matrix_of (setM fns (matrixMultiply (affine m11 m12 m21 m22 dx dy) (lift_matrix (matrix_of c))) u c))"
proof (cases "None \<in> {m11, m12, m21, m22, dx, dy}")
  case True
  obtain a b e d v w where m: "matrix_of c = [[a, b, 0], [e, d, 0], [v, w, 1]]" using affine_matrixE [OF assms] by blast
  have "\<not> matrixIsFinite (matrixMultiply (affine m11 m12 m21 m22 dx dy) (lift_matrix (matrix_of c)))"
    using True by (auto simp: m matrixMultiply_def affine_def lift_matrix_def matrixIsFinite_def)
  then show ?thesis using assms by (simp add: setM_def)
next
  case False
  obtain a b e d v w where m: "matrix_of c = [[a, b, 0], [e, d, 0], [v, w, 1]]" using affine_matrixE [OF assms] by blast
  obtain n1 n2 n3 n4 n5 n6 where "m11 = Some n1" "m12 = Some n2" "m21 = Some n3" "m22 = Some n4" "dx = Some n5" "dy = Some n6"
    using False by (cases m11; cases m12; cases m21; cases m22; cases dx; cases dy) auto
  then show ?thesis by (simp add: m multiply_affine)
qed

lemma setM_affine:
  assumes "affine_matrix (matrix_of c)"
  shows "affine_matrix (matrix_of (setM fns (affine m11 m12 m21 m22 dx dy) u c))"
  using assms by (auto simp: setM_def affine_def matrixIsFinite_def Let_def)

lemma affine_steps [simp]:
  assumes "affine_matrix (matrix_of c)"
  shows "affine_matrix (matrix_of (translate fns x y c))" "affine_matrix (matrix_of (rotate_canvas fns r c))"
    "affine_matrix (matrix_of (scale_canvas fns sx sy c))" "affine_matrix (matrix_of (transform fns m11 m12 m21 m22 dx dy c))"
    "affine_matrix (matrix_of (setTransform fns m11 m12 m21 m22 dx dy c))"
  using assms setM_multiply_affine [of c] setM_multiply_affine [of "c\<lparr>arcScaleX := arcScaleX c * sx, arcScaleY := arcScaleY c * sy\<rparr>"] setM_affine [of c]
  by (simp_all add: translate_def rotate_canvas_def scale_canvas_def transform_def setTransform_def Let_def)

lemma stroke_matrix: "stroke fns aFill c = ok c' \<Longrightarrow> matrix_of c' = matrix_of c"
  using stroke_frame [of fns aFill c c'] by auto

lemma step_matrix:
  assumes "canvas_step fns p c = ok c'" "p \<noteq> Save" "p \<noteq> Restore" "affine_matrix (matrix_of c)"
  shows "affine_matrix (matrix_of c')"
proof (cases p)
  case Stroke
  then show ?thesis using assms stroke_matrix by simp
next
  case Fill
  then show ?thesis using assms stroke_matrix by (simp add: fill_def)
next
  case (Stroke_rect x y w h)
  then show ?thesis using assms paint_rect_frame by (simp add: strokeRect_def)
next
  case (Fill_rect x y w h)
  then show ?thesis using assms paint_rect_frame by (simp add: fillRect_def)
next
  case (Add_stop i os color)
  then show ?thesis using assms by (auto simp: addColorStop_def js_bind_eq_Inr Let_def)
next
  case (Draw_image img args)
  then show ?thesis using assms
    by (auto simp: drawImage_def draw_image_at_def add_markup_def Let_def case_prod_unfold split: list.splits)
qed (use assms in auto)

lemma save_ok:
  assumes "context_ok c"
  shows "context_ok (save c)"
  using assms by (simp add: context_ok_def save_def multiply_identity)

lemma restore_ok:
  assumes "context_ok c"
  shows "context_ok (restore c)"
proof (cases "aStack c = []")
  case False
  then have "mStack c \<noteq> []" using assms by (auto simp: context_ok_def)
  then have "affine_matrix (last (mStack c))" "list_all affine_matrix (butlast (mStack c))"
    using assms by (auto simp: context_ok_def list_all_iff dest: in_set_butlastD)
  then show ?thesis using assms False by (simp add: context_ok_def restore_def copyState_def)
qed (use assms in \<open>simp add: restore_def\<close>)

lemma step_ok:
  assumes "canvas_step fns p c = ok c'" "context_ok c"
  shows "context_ok c'"
proof -
  consider (save) "p = Save" | (restore) "p = Restore" | (other) "p \<noteq> Save" "p \<noteq> Restore" by blast
  then show ?thesis
  proof cases
    case save
    then have "c' = save c" using assms(1) by simp
    then show ?thesis using save_ok assms(2) by simp
  next
    case restore
    then have "c' = restore c" using assms(1) by simp
    then show ?thesis using restore_ok assms(2) by simp
  next
    case other
    then show ?thesis using step_stacks [OF assms(1) other] step_matrix [OF assms(1) other] assms(2) by (simp add: context_ok_def)
  qed
qed

text \<open>
  Whatever a program does with a context, every matrix it uses or has saved stays that of an affine map of the
  plane with finite entries, and there are as many saved matrices as saved styles, so that \<open>restore\<close> always finds both.
\<close>

theorem program_keeps_context:
  assumes "canvas_run fns ps c = ok c'" and "context_ok c"
  shows "context_ok c'"
  using assms by (induction ps arbitrary: c) (auto simp: js_bind_eq_Inr intro: step_ok)

theorem program_keeps_context_witness:
  "case canvas_run \<lparr>m_sqrt = id, m_cos = id, m_sin = id, m_atan2_degrees = \<lambda>x y. 0\<rparr>
     [Save, Rotate 2, Restore, Restore, Scale 2 3, Save, Set_transform (Some 0) None (Some 0) (Some 0) (Some 0) (Some 0)] new_context of
   Inr c' \<Rightarrow> context_ok c' | Inl e \<Rightarrow> False"
proof -
  let ?f = "\<lparr>m_sqrt = id, m_cos = id, m_sin = id, m_atan2_degrees = \<lambda>x y. 0\<rparr> :: math_functions"
  let ?ps = "[Save, Rotate 2, Restore, Restore, Scale 2 3, Save, Set_transform (Some 0) None (Some 0) (Some 0) (Some 0) (Some 0)]"
  obtain c' where c': "canvas_run ?f ?ps new_context = ok c'" by simp
  have "context_ok new_context" by (simp add: context_ok_def new_context_def createMatrixIdentity_def)
  from program_keeps_context [OF c' this] show ?thesis unfolding c' by simp
qed

section \<open>Shapes of long paths and their extent\<close>

lemma chunk_path_more [simp]: "chunk_path (c\<lparr>markup := mk, gradients := gs\<rparr>) before items = chunk_path c before items"
  by (simp add: chunk_path_def)

definition shape_count :: "nat \<Rightarrow> nat" where
  "shape_count n = (n + 4999) div 5000"

lemma shape_count_step: "n \<noteq> 0 \<Longrightarrow> shape_count n = Suc (shape_count (n - 5000))"
  unfolding shape_count_def by (cases "n \<le> 5000") auto

definition shape_of :: "canvas_context \<Rightarrow> bool \<Rightarrow> path_item option \<Rightarrow> path_item list \<Rightarrow> vml_paint list \<Rightarrow> nat \<Rightarrow> vml" where
  "shape_of c aFill before items ps k =
     Shape aFill (chunk_path c (if k = 0 then before else Some (items ! (5000 * k - 1))) (take 5000 (drop (5000 * k) items))) (ps ! k)"

lemma shape_of_Suc:
  assumes "k < shape_count (length rest - 5000)"
  shows "shape_of c aFill before rest (p # ps) (Suc k) = shape_of c aFill (Some (last (take 5000 rest))) (drop 5000 rest) ps k"
proof -
  have l: "5000 < length rest" using assms by (auto simp: shape_count_def)
  then have "take 5000 rest \<noteq> []" by auto
  then have "last (take 5000 rest) = rest ! 4999" using l by (simp add: last_conv_nth)
  then show ?thesis using l by (simp add: shape_of_def add.commute nth_append)
qed

lemma stroke_loop_shapes:
  "stroke_loop fns aFill before b rest c = ok c' \<Longrightarrow>
    \<exists>ps. length ps = shape_count (length rest) \<and> markup c' = markup c @ map (shape_of c aFill before rest ps) [0..<length ps]"
proof (induction fns aFill before b rest c arbitrary: c' rule: stroke_loop.induct)
  case (1 fns aFill before b rest c)
  show ?case
  proof (cases "rest = []")
    case True
    then show ?thesis using 1(2) by (simp add: stroke_loop.simps shape_count_def)
  next
    case False
    let ?items = "take 5000 rest"
    let ?b1 = "foldl widen_path b ?items"
    obtain p c1 where p: "(if aFill then appendFill fns (path_size ?b1) c else js_bind (appendStroke c) (\<lambda>p. ok (p, c))) = ok (p, c1)"
      and r: "stroke_loop fns aFill (Some (last ?items)) ?b1 (drop 5000 rest) (add_markup (Shape aFill (chunk_path c before ?items) p) c1) = ok c'"
      using 1(2) False by (subst (asm) stroke_loop.simps) (auto simp: Let_def js_bind_eq_Inr simp del: take_eq_Nil drop_eq_Nil)
    obtain gs where c1: "c1 = c\<lparr>gradients := gs\<rparr>" using paint_step_frame [OF p] by blast
    obtain ps where ps: "length ps = shape_count (length rest - 5000)"
      "markup c' = markup c @ Shape aFill (chunk_path c before ?items) p # map (shape_of c aFill (Some (last ?items)) (drop 5000 rest) ps) [0..<length ps]"
      using 1(1) [OF False refl refl refl r] by (auto simp: c1 add_markup_def shape_of_def chunk_path_def)
    have "map (shape_of c aFill before rest (p # ps)) [0..<length (p # ps)]
      = Shape aFill (chunk_path c before ?items) p # map (shape_of c aFill (Some (last ?items)) (drop 5000 rest) ps) [0..<length ps]"
      using shape_of_Suc [of _ rest c aFill before p ps] by (simp add: map_upt_Suc ps(1) shape_of_def [of c aFill before rest "p # ps" 0] del: upt_Suc)
    then show ?thesis using ps False by (intro exI [of _ "p # ps"]) (simp add: shape_count_step)
  qed
qed

text \<open>
  Painting a path adds one shape for every 5000 of its items, in order, and each but the first starts by
  moving to the item before it, so that the line is not broken; the path itself stays as it is.
\<close>

theorem path_painted_in_chunks:
  assumes "stroke fns aFill c = ok c'"
  shows "currentPath c' = currentPath c \<and>
    (\<exists>ps. length ps = (length (currentPath c) + 4999) div 5000 \<and>
      markup c' = markup c @ map (\<lambda>k. Shape aFill
        (chunk_path c (if k = 0 then None else Some (currentPath c ! (5000 * k - 1))) (take 5000 (drop (5000 * k) (currentPath c)))) (ps ! k))
        [0..<length ps])"
proof
  show "currentPath c' = currentPath c" using stroke_frame [OF assms] by auto
  obtain ps where "length ps = shape_count (length (currentPath c))"
    "markup c' = markup c @ map (shape_of c aFill None (currentPath c) ps) [0..<length ps]"
    using stroke_loop_shapes assms unfolding stroke_def by blast
  then show "\<exists>ps. length ps = (length (currentPath c) + 4999) div 5000 \<and>
      markup c' = markup c @ map (\<lambda>k. Shape aFill
        (chunk_path c (if k = 0 then None else Some (currentPath c ! (5000 * k - 1))) (take 5000 (drop (5000 * k) (currentPath c)))) (ps ! k))
        [0..<length ps]"
    unfolding shape_of_def [abs_def] shape_count_def by blast
qed

lemma appendStroke_more [simp]: "appendStroke (c\<lparr>markup := mk\<rparr>) = appendStroke c" "appendStroke (c\<lparr>currentPath := pt\<rparr>) = appendStroke c"
  by (simp_all add: appendStroke_def)

lemma stroke_loop_succeeds:
  "\<lbrakk>\<not> aFill; appendStroke c = ok p\<rbrakk> \<Longrightarrow> \<exists>c'. stroke_loop fns aFill before b rest c = ok c'"
proof (induction fns aFill before b rest c rule: stroke_loop.induct)
  case (1 fns aFill before b rest c)
  show ?case
  proof (cases "rest = []")
    case False
    let ?path = "chunk_path c before (take 5000 rest)"
    have "appendStroke (add_markup (Shape aFill ?path p) c) = ok p" using 1(3) by (simp add: add_markup_def)
    from 1(1) [OF False refl refl refl 1(2) this]
    show ?thesis using 1(2,3) False by (subst stroke_loop.simps) (simp add: Let_def js_bind_def)
  qed (simp add: stroke_loop.simps)
qed

theorem path_painted_in_chunks_witness:
  "\<exists>c'. stroke \<lparr>m_sqrt = id, m_cos = id, m_sin = id, m_atan2_degrees = \<lambda>x y. 0\<rparr> False
     (new_context\<lparr>currentPath := replicate 6000 (Line_item 1 2)\<rparr>) = ok c' \<and> length (markup c') = 2"
proof -
  let ?f = "\<lparr>m_sqrt = id, m_cos = id, m_sin = id, m_atan2_degrees = \<lambda>x y. 0\<rparr> :: math_functions"
  let ?c = "new_context\<lparr>currentPath := replicate 6000 (Line_item 1 2)\<rparr>"
  have "\<exists>p. appendStroke ?c = ok p"
    by (simp add: appendStroke_def new_context_def paint_name_def processStyle_def js_bind_def)
  then obtain c' where c': "stroke ?f False ?c = ok c'" using stroke_loop_succeeds unfolding stroke_def by blast
  from path_painted_in_chunks [OF this] have "length (markup c') = 2" by (auto simp: new_context_def)
  then show ?thesis using c' by blast
qed

text \<open>The extent an area is filled over.\<close>

fun path_points :: "path_item list \<Rightarrow> (rat \<times> rat) list" where
  "path_points [] = []"
| "path_points (it # items) = (case item_point it of None \<Rightarrow> path_points items | Some p \<Rightarrow> p # path_points items)"

definition bounds_of :: "(rat \<times> rat) list \<Rightarrow> path_bounds \<Rightarrow> bool" where
  "bounds_of pts b \<longleftrightarrow>
     (case b of None \<Rightarrow> pts = []
      | Some (lx, hx, ly, hy) \<Rightarrow> list_all (\<lambda>(x, y). lx \<le> x \<and> x \<le> hx \<and> ly \<le> y \<and> y \<le> hy) pts
          \<and> lx \<in> set (map fst pts) \<and> hx \<in> set (map fst pts) \<and> ly \<in> set (map snd pts) \<and> hy \<in> set (map snd pts))"

lemma bounds_of_widen: "bounds_of pts b \<Longrightarrow> bounds_of (pts @ path_points [it]) (widen_path b it)"
  by (auto simp: bounds_of_def widen_path_def list_all_iff split: option.splits)

lemma path_points_append: "path_points (xs @ ys) = path_points xs @ path_points ys"
  by (induction xs) (auto split: option.split)

lemma bounds_of_fold: "bounds_of pts b \<Longrightarrow> bounds_of (pts @ path_points items) (foldl widen_path b items)"
proof (induction items arbitrary: pts b)
  case (Cons it items)
  from Cons.IH [OF bounds_of_widen [OF Cons.prems, of it]] show ?case
    using path_points_append [of "[it]" items] by simp
qed simp

text \<open>
  The box a gradient or a pattern is stretched over is the smallest one around the points of the path: every
  point lies in it, and its sides touch points.  A path without points has the empty box at the origin.
\<close>

theorem extent_is_smallest_box:
  "case path_size (foldl widen_path None items) of
     (x0, y0, wd, ht) \<Rightarrow>
       (if path_points items = [] then x0 = 0 \<and> y0 = 0 \<and> wd = 0 \<and> ht = Some 0
        else \<exists>h. ht = Some h
          \<and> list_all (\<lambda>(x, y). x0 \<le> x \<and> x \<le> x0 + wd \<and> y0 \<le> y \<and> y \<le> y0 + h) (path_points items)
          \<and> x0 \<in> set (map fst (path_points items)) \<and> x0 + wd \<in> set (map fst (path_points items))
          \<and> y0 \<in> set (map snd (path_points items)) \<and> y0 + h \<in> set (map snd (path_points items)))"
proof -
  have "bounds_of (path_points items) (foldl widen_path None items)"
    using bounds_of_fold [of "[]" None items] by (simp add: bounds_of_def)
  then show ?thesis by (auto simp: bounds_of_def path_size_def split: option.splits)
qed

text \<open>Filling a path with a gradient that has no color stops throws.\<close>

theorem gradient_without_stops_fails:
  assumes "currentPath c \<noteq> []" and "fillStyle c = Paint_gradient i" and "color_stops (gradients c ! i) = []"
  shows "fill fns c = raise TypeError"
  using assms by (simp add: fill_def stroke_def stroke_loop.simps [of fns True] appendFill_def fill_gradient_def js_bind_def)

theorem gradient_without_stops_fails_witness:
  "fill \<lparr>m_sqrt = id, m_cos = id, m_sin = id, m_atan2_degrees = \<lambda>x y. 0\<rparr>
     (lineTo 1 1 (case createLinearGradient 0 0 1 1 new_context of (i, c) \<Rightarrow> c\<lparr>fillStyle := Paint_gradient i\<rparr>)) = raise TypeError"
  by (rule gradient_without_stops_fails [where i = 0])
    (simp_all add: createLinearGradient_def createGradient_def lineTo_def Let_def new_context_def)

text \<open>
  Filling a rectangle with a color adds one shape, the closed outline of its four corners, and leaves the path
  that was begun as it was; but the current point becomes the lower left corner.
\<close>

theorem fillRect_draws_one_shape:
  assumes "fillStyle c = Paint_text s" and "processStyle s = ok (color, alpha)"
  shows "fillRect fns x y w h c =
    ok (c\<lparr>current_point := Some (getCoords c x (y + h)),
          markup := markup c @ [Shape True
            [VMove (Some (mr (fst (getCoords c x y)))) (Some (mr (snd (getCoords c x y)))),
             VLine (mr (fst (getCoords c (x + w) y))) (mr (snd (getCoords c (x + w) y))),
             VLine (mr (fst (getCoords c (x + w) (y + h)))) (mr (snd (getCoords c (x + w) (y + h)))),
             VLine (mr (fst (getCoords c x (y + h)))) (mr (snd (getCoords c x (y + h)))), VClose]
            (Fill_color color (times_alpha alpha (globalAlpha c)))]\<rparr>)"
proof -
  have g: "getCoords (c\<lparr>currentPath := p, current_point := q\<rparr>) a b = getCoords c a b"
    "getCoords (c\<lparr>currentPath := p\<rparr>) a b = getCoords c a b" for p q a b
    by (simp_all add: getCoords_def Let_def)
  show ?thesis
    by (simp add: fillRect_def paint_rect_def stroke_def stroke_loop.simps appendFill_def assms js_bind_def rect_def beginPath_def
        moveTo_def lineTo_def closePath_def Let_def g chunk_path_def add_markup_def)
qed

theorem fillRect_draws_one_shape_witness:
  "case fillRect \<lparr>m_sqrt = id, m_cos = id, m_sin = id, m_atan2_degrees = \<lambda>x y. 0\<rparr> 2 3 10 20 new_context of
     Inr c' \<Rightarrow> markup c' = [Shape True [VMove (Some 15) (Some 25), VLine 115 25, VLine 115 225, VLine 15 225, VClose] (Fill_color ''#000'' (Some 1))]
   | Inl e \<Rightarrow> False"
proof -
  let ?f = "\<lparr>m_sqrt = id, m_cos = id, m_sin = id, m_atan2_degrees = \<lambda>x y. 0\<rparr> :: math_functions"
  have p: "processStyle ''#000'' = ok (''#000'', Number 1)" by (simp add: processStyle_def char_at_def)
  have f: "fillStyle new_context = Paint_text ''#000''" by (simp add: new_context_def)
  show ?thesis
    unfolding fillRect_draws_one_shape [OF f p, of ?f 2 3 10 20]
    by (simp add: new_context_def getCoords_def createMatrixIdentity_def mr_def times_alpha_def floor_eq_iff)
qed

end
