(* ===== verification/Enumerable.thy ===== *)
theory Enumerable
  imports JsValue "HOL-Library.Multiset"
begin

text \<open>
  The collection library of \<open>prototype.js\<close>: \<open>Enumerable\<close>, the additions to \<open>Array\<close>, ranges.
  An iterator returns a value, throws \<open>$break\<close>, or throws something else; what a loop writes before
  an iterator throws is kept, so the accumulator of \<open>each\<close> is threaded as a state.
\<close>

section \<open>Iterating\<close>

datatype 'b outcome = Value 'b | Break | Throws js_error

text \<open>The body of a loop: the element, its index and the state.\<close>

type_synonym ('v, 's) body = "'v \<Rightarrow> nat \<Rightarrow> 's \<Rightarrow> 's \<times> unit outcome"

text \<open>\<open>Array.prototype._each\<close>.\<close>

fun array_each :: "'v list \<Rightarrow> ('v \<Rightarrow> 'a \<Rightarrow> 'a \<times> unit outcome) \<Rightarrow> 'a \<Rightarrow> 'a \<times> unit outcome" where
  "array_each [] f a = (a, Value ())"
| "array_each (x # xs) f a = (case f x a of (a', Value u) \<Rightarrow> array_each xs f a' | r \<Rightarrow> r)"

text \<open>\<open>each\<close> over the \<open>_each\<close> of a collection: the index is counted, \<open>$break\<close> is caught.\<close>

definition each_of :: "(('v \<Rightarrow> nat \<times> 's \<Rightarrow> (nat \<times> 's) \<times> unit outcome) \<Rightarrow> nat \<times> 's \<Rightarrow> (nat \<times> 's) \<times> unit outcome)
    \<Rightarrow> ('v, 's) body \<Rightarrow> 's \<Rightarrow> 's js" where
  "each_of raw body s =
     (case raw (\<lambda>v (i, s). let (s', r) = body v i s in ((Suc i, s'), r)) (0, s) of
        ((i, s'), Throws e) \<Rightarrow> raise e
      | ((i, s'), _) \<Rightarrow> ok s')"

definition each :: "('v, 's) body \<Rightarrow> 'v list \<Rightarrow> 's \<Rightarrow> 's js" where
  "each body vs s = each_of (array_each vs) body s"

text \<open>A call of an iterator inside a body.\<close>

definition call_then :: "'b outcome \<Rightarrow> 's \<Rightarrow> ('b \<Rightarrow> 's \<times> unit outcome) \<Rightarrow> 's \<times> unit outcome" where
  "call_then r s k = (case r of Value b \<Rightarrow> k b | Break \<Rightarrow> (s, Break) | Throws e \<Rightarrow> (s, Throws e))"

type_synonym ('v, 'b) iterator = "'v \<Rightarrow> nat \<Rightarrow> 'b outcome"

section \<open>Methods of Enumerable\<close>

definition all_of :: "('v, js_value) iterator \<Rightarrow> 'v list \<Rightarrow> bool js" where
  "all_of it vs =
     each (\<lambda>v i result. if result then call_then (it v i) result (\<lambda>b. if truthy b then (True, Value ()) else (False, Break))
       else (False, Break)) vs True"

definition any_of :: "('v, js_value) iterator \<Rightarrow> 'v list \<Rightarrow> bool js" where
  "any_of it vs =
     each (\<lambda>v i result. call_then (it v i) result (\<lambda>b. (truthy b, if truthy b then Break else Value ()))) vs False"

definition collect :: "('v, 'b) iterator \<Rightarrow> 'v list \<Rightarrow> 'b list js" where
  "collect it vs = each (\<lambda>v i results. call_then (it v i) results (\<lambda>b. (results @ [b], Value ()))) vs []"

definition detect :: "('v, js_value) iterator \<Rightarrow> 'v list \<Rightarrow> 'v option js" where
  "detect it vs =
     each (\<lambda>v i result. call_then (it v i) result (\<lambda>b. if truthy b then (Some v, Break) else (result, Value ()))) vs None"

definition findAll :: "('v, js_value) iterator \<Rightarrow> 'v list \<Rightarrow> 'v list js" where
  "findAll it vs =
     each (\<lambda>v i results. call_then (it v i) results (\<lambda>b. (if truthy b then results @ [v] else results, Value ()))) vs []"

definition reject :: "('v, js_value) iterator \<Rightarrow> 'v list \<Rightarrow> 'v list js" where
  "reject it vs =
     each (\<lambda>v i results. call_then (it v i) results (\<lambda>b. (if \<not> truthy b then results @ [v] else results, Value ()))) vs []"

text \<open>\<open>grep\<close>, with the \<open>match\<close> of its filter.\<close>

definition grep :: "('v \<Rightarrow> bool) \<Rightarrow> ('v, 'b) iterator \<Rightarrow> 'v list \<Rightarrow> 'b list js" where
  "grep matches it vs =
     each (\<lambda>v i results. if matches v then call_then (it v i) results (\<lambda>b. (results @ [b], Value ()))
       else (results, Value ())) vs []"

definition inject :: "'s \<Rightarrow> ('s \<Rightarrow> 'v \<Rightarrow> nat \<Rightarrow> 's outcome) \<Rightarrow> 'v list \<Rightarrow> 's js" where
  "inject memo it vs = each (\<lambda>v i memo. call_then (it memo v i) memo (\<lambda>m. (m, Value ()))) vs memo"

definition invoke :: "('v \<Rightarrow> 'b outcome) \<Rightarrow> 'v list \<Rightarrow> 'b list js" where
  "invoke method vs = collect (\<lambda>v i. method v) vs"

definition pluck :: "('v \<Rightarrow> 'b) \<Rightarrow> 'v list \<Rightarrow> 'b list js" where
  "pluck property vs = each (\<lambda>v i results. (results @ [property v], Value ())) vs []"

text \<open>\<open>max\<close> and \<open>min\<close>; the result is \<open>undefined\<close> before the first value.\<close>

definition max_of :: "('v, js_value) iterator \<Rightarrow> 'v list \<Rightarrow> js_value js" where
  "max_of it vs =
     each (\<lambda>v i result. call_then (it v i) result
       (\<lambda>x. (if nullish result \<or> js_ge x result then x else result, Value ()))) vs Undefined"

definition min_of :: "('v, js_value) iterator \<Rightarrow> 'v list \<Rightarrow> js_value js" where
  "min_of it vs =
     each (\<lambda>v i result. call_then (it v i) result
       (\<lambda>x. (if nullish result \<or> js_less x result then x else result, Value ()))) vs Undefined"

definition partition_by :: "('v, js_value) iterator \<Rightarrow> 'v list \<Rightarrow> ('v list \<times> 'v list) js" where
  "partition_by it vs =
     each (\<lambda>v i (trues, falses). call_then (it v i) (trues, falses)
       (\<lambda>b. (if truthy b then (trues @ [v], falses) else (trues, falses @ [v]), Value ()))) vs ([], [])"

definition toArray :: "'v list \<Rightarrow> 'v list js" where
  "toArray vs = collect (\<lambda>v i. Value v) vs"

text \<open>\<open>sortBy\<close>, over the \<open>sort\<close> of the language, which takes a comparison.\<close>

definition sortBy :: "(('v \<times> js_value \<Rightarrow> 'v \<times> js_value \<Rightarrow> int) \<Rightarrow> ('v \<times> js_value) list \<Rightarrow> ('v \<times> js_value) list)
    \<Rightarrow> ('v, js_value) iterator \<Rightarrow> 'v list \<Rightarrow> 'v list js" where
  "sortBy sorter it vs =
     js_bind (collect (\<lambda>v i. case it v i of Value c \<Rightarrow> Value (v, c) | Break \<Rightarrow> Break | Throws e \<Rightarrow> Throws e) vs)
       (\<lambda>ps. pluck fst (sorter (\<lambda>l r. if js_less (snd l) (snd r) then -1 else if js_less (snd r) (snd l) then 1 else 0) ps))"

text \<open>The rows of \<open>zip\<close>: a shorter collection gives \<open>undefined\<close>.\<close>

definition zip_with :: "js_value list list \<Rightarrow> (js_value list \<Rightarrow> 'b outcome) \<Rightarrow> js_value list \<Rightarrow> 'b list js" where
  "zip_with args it vs =
     collect (\<lambda>v i. it (map (\<lambda>c. case aref c i of None \<Rightarrow> Undefined | Some x \<Rightarrow> x) (vs # args))) vs"

text \<open>\<open>eachSlice\<close>; a size below one gives the array itself.\<close>

function slices :: "nat \<Rightarrow> nat \<Rightarrow> 'v list \<Rightarrow> 'v list list" where
  "slices n i xs = (if 0 < n \<and> i < length xs then take n (drop i xs) # slices n (i + n) xs else [])"
  by auto
termination
  by (relation "measure (\<lambda>(n, i, xs). length xs - i)") auto

declare slices.simps [simp del]

definition eachSlice :: "int \<Rightarrow> ('v list, 'b) iterator \<Rightarrow> 'v list \<Rightarrow> ('v list + 'b list) js" where
  "eachSlice number it vs =
     (if number < 1 then ok (Inl vs)
      else js_bind (collect it (slices (nat number) 0 vs)) (\<lambda>rs. ok (Inr rs)))"

definition pad_to :: "nat \<Rightarrow> 'v \<Rightarrow> 'v list \<Rightarrow> 'v list" where
  "pad_to n fill row = row @ replicate (n - length row) fill"

definition inGroupsOf :: "int \<Rightarrow> 'v \<Rightarrow> 'v list \<Rightarrow> ('v list + 'v list list) js" where
  "inGroupsOf number fill vs = eachSlice number (\<lambda>row i. Value (pad_to (nat number) fill row)) vs"

section \<open>Arrays\<close>

fun index_loop :: "js_value \<Rightarrow> nat \<Rightarrow> js_value list \<Rightarrow> int" where
  "index_loop x i [] = -1"
| "index_loop x i (y # ys) = (if strict_equal y x then int i else index_loop x (Suc i) ys)"

definition index_of :: "js_value \<Rightarrow> int \<Rightarrow> js_value list \<Rightarrow> int" where
  "index_of x i vs =
     (let k = (if i < 0 then int (length vs) + i else i)
      in if k < 0 then (if strict_equal Undefined x then k else index_loop x 0 vs) else index_loop x (nat k) (drop (nat k) vs))"

definition last_index_of :: "js_value \<Rightarrow> int option \<Rightarrow> js_value list \<Rightarrow> int" where
  "last_index_of x start vs =
     (let i = (case start of None \<Rightarrow> int (length vs)
          | Some k \<Rightarrow> (if k < 0 then int (length vs) + k else k) + 1);
        n = index_of x 0 (rev (slice vs 0 i))
      in if n < 0 then n else i - n - 1)"

text \<open>\<open>include\<close>: first \<open>indexOf\<close>, then a search with the loose equality.\<close>

definition array_include :: "js_value \<Rightarrow> js_value list \<Rightarrow> bool" where
  "array_include x vs \<longleftrightarrow>
     (if index_of x 0 vs \<noteq> -1 then True
      else each (\<lambda>v i found. if loose_equal v x then (True, Break) else (found, Value ())) vs False = ok True)"

definition compact :: "js_value list \<Rightarrow> js_value list js" where
  "compact vs = findAll (\<lambda>v i. Value (Boolean (\<not> nullish v))) vs"

definition without :: "js_value list \<Rightarrow> js_value list \<Rightarrow> js_value list js" where
  "without vals vs = findAll (\<lambda>v i. Value (Boolean (\<not> array_include v vals))) vs"

definition uniq :: "bool \<Rightarrow> js_value list \<Rightarrow> js_value list js" where
  "uniq is_sorted vs =
     inject [] (\<lambda>array v i. Value (if i = 0 \<or> (if is_sorted then \<not> loose_equal (if array = [] then Undefined else last array) v
       else \<not> array_include v array) then array @ [v] else array)) vs"

text \<open>\<open>intersect\<close> keeps an item when \<open>detect\<close> returns it, and \<open>detect\<close> returns the item itself.\<close>

definition intersect :: "js_value list \<Rightarrow> js_value list \<Rightarrow> js_value list js" where
  "intersect array vs =
     js_bind (uniq False vs)
       (findAll (\<lambda>item i. case detect (\<lambda>v j. Value (Boolean (strict_equal item v))) array of
          Inl e \<Rightarrow> Throws e | Inr None \<Rightarrow> Value Undefined | Inr (Some v) \<Rightarrow> Value v))"

datatype 'a nested = Leaf 'a | Nest "'a nested list"

fun flatten :: "'a nested list \<Rightarrow> 'a list" where
  "flatten [] = []"
| "flatten (Leaf x # xs) = x # flatten xs"
| "flatten (Nest ys # xs) = flatten ys @ flatten xs"

section \<open>Ranges of numbers\<close>

definition range_include :: "int \<Rightarrow> int \<Rightarrow> bool \<Rightarrow> int \<Rightarrow> bool" where
  "range_include start stop exclusive v =
     (if v < start then False else if exclusive then v < stop else v \<le> stop)"

function range_loop :: "int \<Rightarrow> int \<Rightarrow> bool \<Rightarrow> int \<Rightarrow> (int \<Rightarrow> 'a \<Rightarrow> 'a \<times> unit outcome) \<Rightarrow> 'a \<Rightarrow> 'a \<times> unit outcome" where
  "range_loop start stop exclusive v f a =
     (if range_include start stop exclusive v
      then (case f v a of (a', Value u) \<Rightarrow> range_loop start stop exclusive (v + 1) f a' | r \<Rightarrow> r)
      else (a, Value ()))"
  by pat_completeness auto
termination
  by (relation "measure (\<lambda>(start, stop, exclusive, v, f, a). nat (stop + 1 - v))")
    (auto simp: range_include_def split: if_splits)

declare range_loop.simps [simp del]

definition range_each :: "int \<times> int \<times> bool \<Rightarrow> (int \<Rightarrow> 'a \<Rightarrow> 'a \<times> unit outcome) \<Rightarrow> 'a \<Rightarrow> 'a \<times> unit outcome" where
  "range_each r f a = (case r of (start, stop, exclusive) \<Rightarrow> range_loop start stop exclusive start f a)"

definition number_times :: "int \<Rightarrow> (int, 's) body \<Rightarrow> 's \<Rightarrow> 's js" where
  "number_times n body s = each_of (range_each (0, n, True)) body s"

section \<open>Collections and their elements\<close>

text \<open>
  What makes a type a collection: its \<open>_each\<close> visits a list of elements, in order, and stops at the
  first body that throws.  Then \<open>each\<close>, and with it every method, works on that list.
\<close>

locale enumerable =
  fixes raw :: "'c \<Rightarrow> ('v \<Rightarrow> nat \<times> 's \<Rightarrow> (nat \<times> 's) \<times> unit outcome) \<Rightarrow> nat \<times> 's \<Rightarrow> (nat \<times> 's) \<times> unit outcome"
    and elems :: "'c \<Rightarrow> 'v list"
  assumes visits: "raw c f a = array_each (elems c) f a"
begin

lemma each_elems: "each_of (raw c) body s = each body (elems c) s"
  unfolding each_def each_of_def visits ..

end

interpretation arrays: enumerable array_each "\<lambda>vs. vs"
  by unfold_locales simp

lemma range_loop_upto:
  assumes "start \<le> v"
  shows "range_loop start stop exclusive v f a = array_each [v..(if exclusive then stop - 1 else stop)] f a"
  using assms
proof (induction start stop exclusive v f a rule: range_loop.induct)
  case (1 start stop exclusive v f a)
  let ?last = "if exclusive then stop - 1 else stop"
  have inc: "range_include start stop exclusive v \<longleftrightarrow> v \<le> ?last" using 1(2) by (auto simp: range_include_def)
  show ?case
  proof (cases "v \<le> ?last")
    case False
    then show ?thesis using inc by (simp add: range_loop.simps [of _ _ _ v] del: range_include_def)
  next
    case True
    obtain a' r where fr: "f v a = (a', r)" by (rule prod.exhaust)
    have u: "[v..?last] = v # [v + 1..?last]" using True by (rule upto_rec1)
    show ?thesis
    proof (cases r)
      case (Value w)
      have i: "range_include start stop exclusive v" using True inc by blast
      have "range_loop start stop exclusive (v + 1) f a' = array_each [v + 1..?last] f a'"
        using 1(1) [OF i fr [symmetric] Value] 1(2) by simp
      then show ?thesis unfolding u range_loop.simps [of start stop exclusive v f a] using i fr Value by simp
    qed (use True inc fr u in \<open>simp_all add: range_loop.simps [of start stop exclusive v f a]\<close>)
  qed
qed

definition range_elems :: "int \<times> int \<times> bool \<Rightarrow> int list" where
  "range_elems r = (case r of (start, stop, exclusive) \<Rightarrow> [start..(if exclusive then stop - 1 else stop)])"

interpretation ranges: enumerable range_each range_elems
proof
  fix c f and a :: "nat \<times> 'a"
  show "range_each c f a = array_each (range_elems c) f a"
    by (cases c) (simp add: range_each_def range_elems_def range_loop_upto)
qed

section \<open>The loop as a recursion\<close>

fun each_loop :: "('v, 's) body \<Rightarrow> nat \<Rightarrow> 'v list \<Rightarrow> 's \<Rightarrow> 's js" where
  "each_loop body i [] s = ok s"
| "each_loop body i (v # vs) s =
     (case body v i s of (s', Value u) \<Rightarrow> each_loop body (Suc i) vs s' | (s', Break) \<Rightarrow> ok s' | (s', Throws e) \<Rightarrow> raise e)"

lemma array_each_loop:
  "(case array_each vs (\<lambda>v (i, s). let (s', r) = body v i s in ((Suc i, s'), r)) (i, s) of
      ((i, s'), Throws e) \<Rightarrow> raise e | ((i, s'), _) \<Rightarrow> ok s') = each_loop body i vs s"
proof (induction vs arbitrary: i s)
  case (Cons v vs)
  obtain s' r where b: "body v i s = (s', r)" by (rule prod.exhaust)
  show ?case using Cons [of "Suc i" s'] by (cases r) (simp_all add: b)
qed simp

lemma each_is_loop: "each body vs s = each_loop body 0 vs s"
  unfolding each_def each_of_def by (rule array_each_loop)

lemma call_then_simps [simp]:
  "call_then (Value b) s k = k b"
  "call_then Break s k = (s, Break)"
  "call_then (Throws e) s k = (s, Throws e)"
  by (simp_all add: call_then_def)

text \<open>A body that always goes on.\<close>

lemma each_loop_fold:
  "each_loop (\<lambda>v i s. (g v i s, Value ())) i vs s = ok (foldl (\<lambda>s (i, v). g v i s) s (List.enumerate i vs))"
  by (induction vs arbitrary: i s) simp_all

text \<open>The values an iterator gives up to the first that throws, and how it ends.\<close>

fun values_of :: "('v, 'b) iterator \<Rightarrow> nat \<Rightarrow> 'v list \<Rightarrow> 'b list \<times> unit outcome" where
  "values_of it i [] = ([], Value ())"
| "values_of it i (v # vs) =
     (case it v i of Value b \<Rightarrow> (let (bs, r) = values_of it (Suc i) vs in (b # bs, r))
      | Break \<Rightarrow> ([], Break) | Throws e \<Rightarrow> ([], Throws e))"

definition ends_with :: "'a \<Rightarrow> unit outcome \<Rightarrow> 'a js" where
  "ends_with x r = (case r of Throws e \<Rightarrow> raise e | _ \<Rightarrow> ok x)"

lemma collect_loop:
  "each_loop (\<lambda>v i results. call_then (it v i) results (\<lambda>b. (results @ [b], Value ()))) i vs acc =
   (let (bs, r) = values_of it i vs in ends_with (acc @ bs) r)"
proof (induction vs arbitrary: i acc)
  case (Cons v vs)
  obtain bs r where vs: "values_of it (Suc i) vs = (bs, r)" by (rule prod.exhaust)
  show ?case
    by (cases "it v i"; cases r) (simp_all add: ends_with_def vs Cons)
qed (simp add: ends_with_def)

lemma collect_values: "collect it vs = (let (bs, r) = values_of it 0 vs in ends_with bs r)"
  using collect_loop [of it 0 vs "[]"] by (simp add: collect_def each_is_loop)

lemma values_of_pure: "values_of (\<lambda>v i. Value (f v i)) i vs = (map (\<lambda>(i, v). f v i) (List.enumerate i vs), Value ())"
  by (induction vs arbitrary: i) simp_all

lemma collect_pure: "collect (\<lambda>v i. Value (f v i)) vs = ok (map (\<lambda>(i, v). f v i) (List.enumerate 0 vs))"
  by (simp add: collect_values values_of_pure ends_with_def)

lemma map_enumerate_snd: "map (\<lambda>(i, v). f v) (List.enumerate i vs) = map f vs"
  by (induction vs arbitrary: i) simp_all

lemma collect_map [simp]: "collect (\<lambda>v i. Value (f v)) vs = ok (map f vs)"
  by (simp add: collect_pure map_enumerate_snd)
section \<open>Methods with iterators that return\<close>

abbreviation decides :: "('v \<Rightarrow> bool) \<Rightarrow> ('v, js_value) iterator" where
  "decides p \<equiv> \<lambda>v i. Value (Boolean (p v))"

lemma findAll_loop:
  "each_loop (\<lambda>v i results. call_then (decides p v i) results (\<lambda>b. (if truthy b then results @ [v] else results, Value ()))) i vs acc
   = ok (acc @ filter p vs)"
  by (induction vs arbitrary: i acc) simp_all

lemma findAll_filter [simp]: "findAll (decides p) vs = ok (filter p vs)"
  using findAll_loop [of p 0 vs "[]"] by (simp add: findAll_def each_is_loop)

lemma findAll_values:
  "each_loop (\<lambda>v i results. call_then (Value (f v)) results (\<lambda>b. (if truthy b then results @ [v] else results, Value ()))) i vs acc
   = ok (acc @ filter (\<lambda>v. truthy (f v)) vs)"
  by (induction vs arbitrary: i acc) simp_all

lemma findAll_truthy: "findAll (\<lambda>v i. Value (f v)) vs = ok (filter (\<lambda>v. truthy (f v)) vs)"
  using findAll_values [of f 0 vs "[]"] by (simp add: findAll_def each_is_loop)

lemma reject_filter: "reject (decides p) vs = ok (filter (\<lambda>v. \<not> p v) vs)"
proof -
  have "each_loop (\<lambda>v i results. call_then (decides p v i) results (\<lambda>b. (if \<not> truthy b then results @ [v] else results, Value ()))) i vs acc
    = ok (acc @ filter (\<lambda>v. \<not> p v) vs)" for i acc
    by (induction vs arbitrary: i acc) simp_all
  from this [of 0 "[]"] show ?thesis by (simp add: reject_def each_is_loop)
qed

lemma all_of_list_all: "all_of (decides p) vs = ok (list_all p vs)"
proof -
  have "each_loop (\<lambda>v i result. if result then call_then (decides p v i) result (\<lambda>b. if truthy b then (True, Value ()) else (False, Break))
      else (False, Break)) i vs True = ok (list_all p vs)" for i
    by (induction vs arbitrary: i) simp_all
  then show ?thesis by (simp add: all_of_def each_is_loop)
qed

lemma any_of_list_ex: "any_of (decides p) vs = ok (list_ex p vs)"
proof -
  have "each_loop (\<lambda>v i result. call_then (decides p v i) result (\<lambda>b. (truthy b, if truthy b then Break else Value ()))) i vs False
      = ok (list_ex p vs)" for i
    by (induction vs arbitrary: i) simp_all
  then show ?thesis by (simp add: any_of_def each_is_loop)
qed

lemma detect_find [simp]: "detect (decides p) vs = ok (List.find p vs)"
proof -
  have "each_loop (\<lambda>v i result. call_then (decides p v i) result (\<lambda>b. if truthy b then (Some v, Break) else (result, Value ()))) i vs None
      = ok (List.find p vs)" for i
    by (induction vs arbitrary: i) simp_all
  then show ?thesis by (simp add: detect_def each_is_loop)
qed

lemma partition_filters: "partition_by (decides p) vs = ok (filter p vs, filter (\<lambda>v. \<not> p v) vs)"
proof -
  have "each_loop (\<lambda>v i (trues, falses). call_then (decides p v i) (trues, falses)
       (\<lambda>b. (if truthy b then (trues @ [v], falses) else (trues, falses @ [v]), Value ()))) i vs (ts, fs)
     = ok (ts @ filter p vs, fs @ filter (\<lambda>v. \<not> p v) vs)" for i ts fs
    by (induction vs arbitrary: i ts fs) simp_all
  from this [of 0 "[]" "[]"] show ?thesis by (simp add: partition_by_def each_is_loop)
qed

lemma inject_loop:
  "each_loop (\<lambda>v i memo. call_then (Value (f memo v i)) memo (\<lambda>m. (m, Value ()))) i vs m
   = ok (foldl (\<lambda>m (i, v). f m v i) m (List.enumerate i vs))"
  by (induction vs arbitrary: i m) simp_all

lemma inject_foldl: "inject m (\<lambda>m v i. Value (f m v)) vs = ok (foldl f m vs)"
proof -
  have "each_loop (\<lambda>v i memo. call_then (Value (f memo v)) memo (\<lambda>m. (m, Value ()))) i vs m = ok (foldl f m vs)" for i m
    by (induction vs arbitrary: i m) simp_all
  then show ?thesis by (simp add: inject_def each_is_loop)
qed

lemma pluck_map [simp]: "pluck f vs = ok (map f vs)"
proof -
  have "each_loop (\<lambda>v i results. (results @ [f v], Value ())) i vs acc = ok (acc @ map f vs)" for i acc
    by (induction vs arbitrary: i acc) simp_all
  from this [of 0 "[]"] show ?thesis by (simp add: pluck_def each_is_loop)
qed

lemma toArray_id: "toArray vs = ok vs"
  by (simp add: toArray_def)

lemma grep_filter: "grep p (\<lambda>v i. Value (f v)) vs = ok (map f (filter p vs))"
proof -
  have "each_loop (\<lambda>v i results. if p v then call_then (Value (f v)) results (\<lambda>b. (results @ [b], Value ())) else (results, Value ()))
      i vs acc = ok (acc @ map f (filter p vs))" for i acc
    by (induction vs arbitrary: i acc) simp_all
  from this [of 0 "[]"] show ?thesis by (simp add: grep_def each_is_loop)
qed

lemma max_of_loop:
  "each_loop (\<lambda>v i result. call_then (Value (Number (f v))) result
       (\<lambda>x. (if nullish result \<or> js_ge x result then x else result, Value ()))) i vs (Number m)
   = ok (Number (fold (\<lambda>v. max (f v)) vs m))"
proof (induction vs arbitrary: i m)
  case (Cons v vs)
  have "(if m \<le> f v then Number (f v) else Number m) = Number (max (f v) m)" by (simp add: max_def)
  then show ?case using Cons by simp
qed simp

lemma max_of_numbers: "max_of (\<lambda>v i. Value (Number (f v))) (v # vs) = ok (Number (Max (f ` set (v # vs))))"
proof -
  have "fold (\<lambda>v. max (f v)) vs m = Max (insert m (f ` set vs))" for m
    using Max.set_eq_fold [of m "map f vs"] by (simp add: fold_map comp_def)
  then show ?thesis using max_of_loop [of f "Suc 0" vs "f v"] by (simp add: max_of_def each_is_loop)
qed

lemma min_of_loop:
  "each_loop (\<lambda>v i result. call_then (Value (Number (f v))) result
       (\<lambda>x. (if nullish result \<or> js_less x result then x else result, Value ()))) i vs (Number m)
   = ok (Number (fold (\<lambda>v. min (f v)) vs m))"
proof (induction vs arbitrary: i m)
  case (Cons v vs)
  have "(if f v < m then Number (f v) else Number m) = Number (min (f v) m)" by (simp add: min_def)
  then show ?case using Cons by simp
qed simp

lemma min_of_numbers: "min_of (\<lambda>v i. Value (Number (f v))) (v # vs) = ok (Number (Min (f ` set (v # vs))))"
proof -
  have "fold (\<lambda>v. min (f v)) vs m = Min (insert m (f ` set vs))" for m
    using Min.set_eq_fold [of m "map f vs"] by (simp add: fold_map comp_def)
  then show ?thesis using min_of_loop [of f "Suc 0" vs "f v"] by (simp add: min_of_def each_is_loop)
qed

section \<open>Slices\<close>

lemma concat_slices: "0 < n \<Longrightarrow> concat (slices n i xs) = drop i xs"
proof (induction n i xs rule: slices.induct)
  case (1 n i xs)
  show ?case
  proof (cases "i < length xs")
    case True
    have "take n (drop i xs) @ drop (i + n) xs = drop i xs" by (metis append_take_drop_id drop_drop add.commute)
    then show ?thesis using 1 True by (simp add: slices.simps [of n i xs])
  qed (simp add: slices.simps [of n i xs])
qed

lemma slices_nth:
  "0 < n \<Longrightarrow> slices n i xs \<noteq> [] \<Longrightarrow> list_all (\<lambda>r. length r = n) (butlast (slices n i xs))
     \<and> 0 < length (last (slices n i xs)) \<and> length (last (slices n i xs)) \<le> n"
proof (induction n i xs rule: slices.induct)
  case (1 n i xs)
  then have i: "i < length xs" using slices.simps [of n i xs] by (auto split: if_splits)
  show ?case
  proof (cases "slices n (i + n) xs = []")
    case True
    then show ?thesis using 1(2) i by (simp add: slices.simps [of n i xs])
  next
    case False
    then have "i + n < length xs" using slices.simps [of n "i + n" xs] by (auto split: if_splits)
    then show ?thesis using 1 i False by (simp add: slices.simps [of n i xs])
  qed
qed
text \<open>
  \<open>inGroupsOf\<close> cuts an array into groups of exactly the given size: the groups in a row are the
  array followed by fill values, fewer than a group, and no group is missing or empty.
\<close>

theorem inGroupsOf_exact:
  assumes "1 \<le> n"
  shows "\<exists>groups k. inGroupsOf n fill vs = ok (Inr groups) \<and> list_all (\<lambda>g. length g = nat n) groups \<and>
    concat groups = vs @ replicate k fill \<and> k < nat n"
proof -
  define m where "m = nat n"
  have m: "0 < m" using assms by (simp add: m_def)
  let ?ss = "slices m 0 vs"
  have g: "inGroupsOf n fill vs = ok (Inr (map (pad_to m fill) ?ss))"
    using assms by (simp add: inGroupsOf_def eachSlice_def m_def)
  show ?thesis
  proof (cases "?ss = []")
    case True
    then have "vs = []" using concat_slices [OF m, of 0 vs] by simp
    then show ?thesis using g True m unfolding m_def by auto
  next
    case False
    then obtain b l where sp: "?ss = b @ [l]" by (metis append_butlast_last_id)
    have len: "list_all (\<lambda>r. length r = m) b" "0 < length l" "length l \<le> m"
      using slices_nth [OF m False] unfolding sp by simp_all
    have pb: "map (pad_to m fill) b = b"
      using len(1) by (intro map_idI) (simp add: list_all_iff pad_to_def)
    have c: "concat b @ l = vs" using concat_slices [OF m, of 0 vs] unfolding sp by simp
    have mp: "map (pad_to m fill) ?ss = b @ [pad_to m fill l]" unfolding sp by (simp add: pb)
    have "list_all (\<lambda>g. length g = m) (map (pad_to m fill) ?ss)"
      using len unfolding mp by (simp add: pad_to_def)
    moreover have "concat (map (pad_to m fill) ?ss) = vs @ replicate (m - length l) fill"
      unfolding mp using c by (simp add: pad_to_def)
    moreover have "m - length l < m" using len(2) m by simp
    ultimately show ?thesis using g unfolding m_def by blast
  qed
qed

theorem inGroupsOf_exact_witness:
  "\<exists>groups k. inGroupsOf 2 Null [Number 1, Number 2, Number 3] = ok (Inr groups) \<and> list_all (\<lambda>g. length g = nat 2) groups \<and>
    concat groups = [Number 1, Number 2, Number 3] @ replicate k Null \<and> k < nat 2"
  by (rule inGroupsOf_exact) simp

section \<open>Looking up and removing duplicates\<close>

lemma index_loop_first:
  "index_loop x i vs = -1 \<and> \<not> list_ex (\<lambda>v. strict_equal v x) vs \<or>
   (\<exists>k < length vs. index_loop x i vs = int (i + k) \<and> strict_equal (vs ! k) x \<and> (\<forall>j < k. \<not> strict_equal (vs ! j) x))"
proof (induction vs arbitrary: i)
  case (Cons v vs)
  show ?case
  proof (cases "strict_equal v x")
    case True
    then show ?thesis by (intro disjI2 exI [of _ 0]) simp
  next
    case False
    from Cons [of "Suc i"] show ?thesis
    proof (elim disjE exE conjE)
      fix k assume k: "k < length vs" "index_loop x (Suc i) vs = int (Suc i + k)" "strict_equal (vs ! k) x"
        "\<forall>j < k. \<not> strict_equal (vs ! j) x"
      have "\<not> strict_equal ((v # vs) ! j) x" if "j < Suc k" for j using k(4) that False by (cases j) simp_all
      then show ?thesis using k False by (intro disjI2 exI [of _ "Suc k"]) simp
    qed (use False in simp)
  qed
qed simp

lemma index_loop_miss: "index_loop x i vs = -1 \<longleftrightarrow> \<not> list_ex (\<lambda>v. strict_equal v x) vs"
  by (induction vs arbitrary: i) auto

lemma array_include_iff: "array_include x vs \<longleftrightarrow> list_ex (\<lambda>v. loose_equal v x) vs"
proof -
  have "each_loop (\<lambda>v i found. if loose_equal v x then (True, Break) else (found, Value ())) i vs False
      = ok (list_ex (\<lambda>v. loose_equal v x) vs)" for i
    by (induction vs arbitrary: i) simp_all
  moreover have "list_ex (\<lambda>v. loose_equal v x) vs" if "index_of x 0 vs \<noteq> -1"
    using that strict_imp_loose by (auto simp: index_of_def index_loop_miss list_ex_iff)
  ultimately show ?thesis by (auto simp: array_include_def each_is_loop)
qed

lemma compact_filter: "compact vs = ok (filter (\<lambda>v. \<not> nullish v) vs)"
  by (simp add: compact_def)

lemma without_filter: "without vals vs = ok (filter (\<lambda>v. \<not> list_ex (\<lambda>x. loose_equal x v) vals) vs)"
  by (simp add: without_def array_include_iff)

text \<open>The step of \<open>uniq\<close>.\<close>

definition add_new :: "js_value list \<Rightarrow> js_value \<Rightarrow> js_value list" where
  "add_new array v = (if list_ex (\<lambda>x. loose_equal x v) array then array else array @ [v])"

lemma uniq_loop:
  "each_loop (\<lambda>v i memo. call_then (Value (if i = 0 \<or> \<not> array_include v memo then memo @ [v] else memo)) memo (\<lambda>m. (m, Value ())))
     i vs acc = ok (foldl add_new acc vs)" if "i = 0 \<Longrightarrow> acc = []"
  using that
proof (induction vs arbitrary: i acc)
  case (Cons v vs)
  have "(if i = 0 \<or> \<not> array_include v acc then acc @ [v] else acc) = add_new acc v"
    using Cons.prems by (auto simp: add_new_def array_include_iff)
  then show ?case using Cons.IH [of "Suc i" "add_new acc v"] by simp
qed simp

lemma uniq_foldl: "uniq False vs = ok (foldl add_new [] vs)"
  using uniq_loop [of 0 "[]" vs] by (simp add: uniq_def inject_def each_is_loop)

text \<open>No element is loosely equal to an earlier one.\<close>

fun no_repeats :: "js_value list \<Rightarrow> bool" where
  "no_repeats [] = True"
| "no_repeats (v # vs) = (\<not> list_ex (loose_equal v) vs \<and> no_repeats vs)"

lemma no_repeats_append: "no_repeats (vs @ [v]) \<longleftrightarrow> no_repeats vs \<and> \<not> list_ex (\<lambda>x. loose_equal x v) vs"
  by (induction vs) auto

lemma add_new_no_repeats: "no_repeats acc \<Longrightarrow> no_repeats (foldl add_new acc vs)"
  by (induction vs arbitrary: acc) (auto simp: add_new_def no_repeats_append)

lemma add_new_keeps: "set acc \<subseteq> set (foldl add_new acc vs) \<and> set (foldl add_new acc vs) \<subseteq> set acc \<union> set vs"
proof (induction vs arbitrary: acc)
  case (Cons v vs)
  have "set acc \<subseteq> set (add_new acc v)" "set (add_new acc v) \<subseteq> insert v (set acc)" by (auto simp: add_new_def)
  with Cons [of "add_new acc v"] show ?case by auto
qed simp

lemma add_new_covers: "v \<in> set vs \<Longrightarrow> v \<in> set (foldl add_new acc vs) \<or> list_ex (\<lambda>x. loose_equal x v) (foldl add_new acc vs)"
proof (induction vs arbitrary: acc)
  case (Cons w vs)
  show ?case
  proof (cases "v = w")
    case True
    have "v \<in> set (add_new acc w) \<or> list_ex (\<lambda>x. loose_equal x v) (add_new acc w)" using True by (auto simp: add_new_def)
    then show ?thesis using add_new_keeps [of "add_new acc w" vs] by (auto simp: list_ex_iff)
  next
    case False
    then show ?thesis using Cons by simp
  qed
qed simp
text \<open>
  \<open>uniq\<close> keeps one representative: it returns, its result holds only elements of the array, no
  two of them loosely equal, and every element of the array is in the result or loosely equal to an
  element of it.
\<close>

theorem uniq_representatives:
  "\<exists>us. uniq False vs = ok us \<and> no_repeats us \<and> set us \<subseteq> set vs \<and>
     set vs \<subseteq> {v. v \<in> set us \<or> list_ex (\<lambda>x. loose_equal x v) us}"
proof -
  have "no_repeats (foldl add_new [] vs)" by (rule add_new_no_repeats) simp
  moreover have "set (foldl add_new [] vs) \<subseteq> set vs" using add_new_keeps [of "[]" vs] by simp
  moreover have "set vs \<subseteq> {v. v \<in> set (foldl add_new [] vs) \<or> list_ex (\<lambda>x. loose_equal x v) (foldl add_new [] vs)}"
    using add_new_covers by blast
  ultimately show ?thesis unfolding uniq_foldl by blast
qed

text \<open>The search of \<open>uniq (true)\<close> looks at the last element only.\<close>

definition add_changed :: "js_value list \<Rightarrow> js_value \<Rightarrow> js_value list" where
  "add_changed array v = (if array \<noteq> [] \<and> loose_equal (last array) v then array else array @ [v])"

lemma uniq_sorted_loop:
  "each_loop (\<lambda>v i memo. call_then (Value (if i = 0 \<or> \<not> loose_equal (if memo = [] then Undefined else last memo) v
       then memo @ [v] else memo)) memo (\<lambda>m. (m, Value ()))) i vs acc = ok (foldl add_changed acc vs)"
  if "i = 0 \<longleftrightarrow> acc = []"
  using that
proof (induction vs arbitrary: i acc)
  case (Cons v vs)
  have "(if i = 0 \<or> \<not> loose_equal (if acc = [] then Undefined else last acc) v then acc @ [v] else acc) = add_changed acc v"
    using Cons.prems by (auto simp: add_changed_def)
  then show ?case using Cons.IH [of "Suc i" "add_changed acc v"] by (simp add: add_changed_def)
qed simp

lemma uniq_sorted_foldl: "uniq True vs = ok (foldl add_changed [] vs)"
  using uniq_sorted_loop [of 0 "[]" vs] by (simp add: uniq_def inject_def each_is_loop)

lemma add_changed_new:
  assumes "sorted (rs @ [r])"
  shows "add_changed (map Number rs) (Number r) = add_new (map Number rs) (Number r)"
proof (cases "rs = []")
  case False
  have "list_ex (\<lambda>x. loose_equal x (Number r)) (map Number rs) \<longleftrightarrow> r \<in> set rs" by (auto simp: list_ex_iff)
  also have "\<dots> \<longleftrightarrow> last rs = r"
  proof
    assume r: "r \<in> set rs"
    have "x \<le> last rs" if "x \<in> set rs" for x
    proof -
      obtain i where "i < length rs" "x = rs ! i" using \<open>x \<in> set rs\<close> by (auto simp: in_set_conv_nth)
      then show ?thesis using assms by (simp add: last_conv_nth False sorted_append sorted_nth_mono)
    qed
    then have "r \<le> last rs" using r by blast
    moreover have "last rs \<le> r" using assms False by (simp add: sorted_append)
    ultimately show "last rs = r" by simp
  qed (use False in auto)
  finally show ?thesis using False by (simp add: add_changed_def add_new_def last_map)
qed (simp add: add_changed_def add_new_def)

lemma add_new_numbers: "\<exists>ss. foldl add_new (map Number qs) (map Number rs) = map Number ss" for qs rs :: "rat list"
proof (induction rs arbitrary: qs)
  case (Cons r rs)
  have "add_new (map Number qs) (Number r) = map Number (if r \<in> set qs then qs else qs @ [r])"
    by (auto simp: add_new_def list_ex_iff)
  with Cons show ?case by simp
qed auto

lemma uniq_sorted_numbers:
  "sorted (qs @ rs) \<Longrightarrow> foldl add_changed (map Number qs) (map Number rs) = foldl add_new (map Number qs) (map Number rs)"
proof (induction rs arbitrary: qs)
  case (Cons r rs)
  have s: "sorted (qs @ [r])" using Cons.prems by (simp add: sorted_append)
  define qs' where "qs' = (if r \<in> set qs then qs else qs @ [r])"
  have q: "add_new (map Number qs) (Number r) = map Number qs'"
    by (auto simp: add_new_def list_ex_iff qs'_def)
  have "sorted (qs' @ rs)" using Cons.prems by (auto simp: qs'_def sorted_append)
  from Cons.IH [OF this] show ?case using add_changed_new [OF s] q by simp
qed simp

text \<open>
  On sorted numbers \<open>uniq (true)\<close>, which compares with the last kept element only, gives the
  same array as the search through all of them.
\<close>

theorem uniq_sorted_equals_uniq:
  assumes "sorted rs"
  shows "uniq True (map Number rs) = uniq False (map Number rs)"
  using uniq_sorted_numbers [of "[]" rs] assms by (simp add: uniq_foldl uniq_sorted_foldl)

theorem uniq_sorted_equals_uniq_witness:
  "uniq True (map Number [1, 1, 2, 2, 5]) = ok (map Number [1, 2, 5]) \<and>
   uniq False (map Number [1, 1, 2, 2, 5]) = ok (map Number [1, 2, 5])"
proof -
  have "uniq False (map Number [1, 1, 2, 2, 5]) = ok (map Number [1, 2, 5])"
    by (simp add: uniq_foldl add_new_def)
  with uniq_sorted_equals_uniq [of "[1, 1, 2, 2, 5]"] show ?thesis by simp
qed

text \<open>
  \<open>intersect\<close> gives the truthy elements of \<open>uniq\<close> that are strictly equal to an element of the
  other array: common elements that are false as a condition (\<open>0\<close>, the empty string, \<open>null\<close>,
  \<open>false\<close>) are lost.
\<close>

theorem intersect_truthy_only:
  "intersect array vs = ok (filter (\<lambda>x. truthy x \<and> list_ex (strict_equal x) array) (foldl add_new [] vs))"
proof -
  have "(case List.find (strict_equal x) array of None \<Rightarrow> Value Undefined | Some v \<Rightarrow> Value v)
    = Value (case List.find (strict_equal x) array of None \<Rightarrow> Undefined | Some v \<Rightarrow> v)" for x
    by (simp split: option.split)
  moreover have "truthy (case List.find (strict_equal x) array of None \<Rightarrow> Undefined | Some v \<Rightarrow> v)
    \<longleftrightarrow> truthy x \<and> list_ex (strict_equal x) array" for x
  proof (cases "List.find (strict_equal x) array")
    case None
    then have "\<not> list_ex (strict_equal x) array" by (auto simp: find_None_iff list_ex_iff)
    then show ?thesis using None by simp
  next
    case (Some v)
    then have v: "v \<in> set array" "strict_equal x v" by (auto simp: find_Some_iff)
    from strict_equal_truthy [OF v(2)] have "truthy x \<longleftrightarrow> truthy v" .
    then show ?thesis using Some v by (auto simp: list_ex_iff)
  qed
  ultimately show ?thesis by (simp add: intersect_def uniq_foldl findAll_truthy)
qed
theorem intersect_drops_zero:
  "intersect [Number 0, Number 1] [Number 0, Number 1, Number 2] = ok [Number 1]"
  by (simp add: intersect_truthy_only add_new_def strict_equal_def)

section \<open>Sorting and zipping\<close>

text \<open>What the language promises of \<open>sort\<close> with a comparison that orders by numbers.\<close>

definition orders :: "('a \<Rightarrow> 'a \<Rightarrow> int) \<Rightarrow> 'a set \<Rightarrow> bool" where
  "orders cmp A \<longleftrightarrow> (\<forall>p \<in> A. \<forall>q \<in> A. (cmp p q < 0 \<longleftrightarrow> cmp q p > 0)) \<and>
     (\<forall>p \<in> A. \<forall>q \<in> A. \<forall>r \<in> A. cmp p q \<le> 0 \<longrightarrow> cmp q r \<le> 0 \<longrightarrow> cmp p r \<le> 0)"

definition sorts :: "(('a \<Rightarrow> 'a \<Rightarrow> int) \<Rightarrow> 'a list \<Rightarrow> 'a list) \<Rightarrow> bool" where
  "sorts sorter \<longleftrightarrow>
     (\<forall>cmp ps. mset (sorter cmp ps) = mset ps \<and> (orders cmp (set ps) \<longrightarrow> sorted_wrt (\<lambda>p q. cmp p q \<le> 0) (sorter cmp ps)))"

lemma sortBy_sorted:
  fixes f :: "'v \<Rightarrow> rat"
  assumes "sorts sorter"
  shows "\<exists>us. sortBy sorter (\<lambda>v i. Value (Number (f v))) vs = ok us \<and> mset us = mset vs \<and> sorted (map f us)"
proof -
  define cmp where "cmp = (\<lambda>(l :: 'v \<times> js_value) (r :: 'v \<times> js_value). if js_less (snd l) (snd r) then -1 else if js_less (snd r) (snd l) then 1 else 0 :: int)"
  define ps where "ps = map (\<lambda>v. (v, Number (f v))) vs"
  define us where "us = sorter cmp ps"
  have c: "(cmp p q \<le> 0 \<longleftrightarrow> f (fst p) \<le> f (fst q)) \<and> (cmp p q < 0 \<longleftrightarrow> f (fst p) < f (fst q)) \<and>
    (cmp q p > 0 \<longleftrightarrow> f (fst p) < f (fst q))"
    if "p \<in> set ps" "q \<in> set ps" for p q
  proof -
    have "snd p = Number (f (fst p))" "snd q = Number (f (fst q))" using that by (auto simp: ps_def)
    then show ?thesis by (simp add: cmp_def)
  qed
  have o: "orders cmp (set ps)"
    unfolding orders_def
  proof (intro conjI ballI impI)
    fix p q assume "p \<in> set ps" "q \<in> set ps"
    from c [OF this] show "cmp p q < 0 \<longleftrightarrow> cmp q p > 0" by (simp only:)
  next
    fix p q r assume "p \<in> set ps" "q \<in> set ps" "r \<in> set ps" "cmp p q \<le> 0" "cmp q r \<le> 0"
    with c [of p q] c [of q r] c [of p r] show "cmp p r \<le> 0" by linarith
  qed
  have a: "mset us = mset ps \<and> (orders cmp (set ps) \<longrightarrow> sorted_wrt (\<lambda>p q. cmp p q \<le> 0) us)"
    unfolding us_def by (rule assms [unfolded sorts_def, THEN spec, THEN spec])
  then have m: "mset us = mset ps" ..
  from a have w: "sorted_wrt (\<lambda>p q. cmp p q \<le> 0) us" using o by (elim conjE impE)
  have st: "set us = set ps" using m by (rule mset_eq_setD)
  have "sorted_wrt (\<lambda>p q. f (fst p) \<le> f (fst q)) us"
  proof (rule sorted_wrt_mono_rel [OF _ w])
    fix p q assume "p \<in> set us" "q \<in> set us" "cmp p q \<le> 0"
    with c [of p q] st show "f (fst p) \<le> f (fst q)" by blast
  qed
  then have s: "sorted (map f (map fst us))" by (simp add: sorted_wrt_map)
  have "mset (map fst us) = mset (map fst ps)" using m by (metis mset_map)
  also have "map fst ps = vs" by (simp add: ps_def comp_def)
  finally have "mset (map fst us) = mset vs" .
  moreover have "sortBy sorter (\<lambda>v i. Value (Number (f v))) vs = ok (map fst us)"
    by (simp add: sortBy_def us_def ps_def cmp_def)
  ultimately show ?thesis using s by blast
qed

lemma zip_with_rows:
  "zip_with args (\<lambda>row. Value row) vs =
   ok (map (\<lambda>i. map (\<lambda>c. if i < length c then c ! i else Undefined) (vs # args)) [0..<length vs])"
proof -
  have "(case aref c i of None \<Rightarrow> Undefined | Some x \<Rightarrow> x) = (if i < length c then c ! i else Undefined)" for c i
    by simp
  moreover have "map (\<lambda>(i, v). g i) (List.enumerate k xs) = map g [k..<k + length xs]"
    for g :: "nat \<Rightarrow> js_value list" and k and xs :: "js_value list"
    by (rule nth_equalityI) (simp_all add: nth_enumerate_eq)
  ultimately show ?thesis unfolding zip_with_def by (simp add: collect_pure)
qed

section \<open>Last positions\<close>

lemma last_index_of_last:
  assumes "last_index_of x None vs = int k"
  shows "k < length vs \<and> strict_equal (vs ! k) x \<and> (\<forall>j. k < j \<longrightarrow> j < length vs \<longrightarrow> \<not> strict_equal (vs ! j) x)"
proof -
  have sl: "slice vs 0 (int (length vs)) = vs" by (simp add: slice_def Let_def)
  define n where "n = index_of x 0 (rev vs)"
  have l: "last_index_of x None vs = (if n < 0 then n else int (length vs) - n - 1)"
    by (simp add: last_index_of_def sl n_def Let_def)
  from index_loop_first [of x 0 "rev vs"] show ?thesis
  proof (elim disjE exE conjE)
    assume "index_loop x 0 (rev vs) = -1"
    then show ?thesis using assms l by (simp add: n_def index_of_def)
  next
    fix i assume i: "i < length (rev vs)" "index_loop x 0 (rev vs) = int (0 + i)" "strict_equal (rev vs ! i) x"
      "\<forall>j < i. \<not> strict_equal (rev vs ! j) x"
    have k: "k = length vs - Suc i" using assms l i(1,2) by (simp add: n_def index_of_def)
    have "\<not> strict_equal (vs ! j) x" if "k < j" "j < length vs" for j
      using i(4) [rule_format, of "length vs - Suc j"] that k i(1) by (simp add: rev_nth)
    then show ?thesis using i k by (simp add: rev_nth)
  qed
qed

lemma number_times_loop: "number_times n body s = each body [0..n - 1] s"
  unfolding number_times_def ranges.each_elems by (simp add: range_elems_def)
text \<open>
  C28: With iterators that return, the methods of \<open>Enumerable\<close> are the list functions they stand
  for: each visits all elements in order, or stops at the first that decides the answer.
\<close>

theorem enumerable_reference:
  "all_of (decides p) vs = ok (list_all p vs) \<and>
   any_of (decides p) vs = ok (list_ex p vs) \<and>
   detect (decides p) vs = ok (List.find p vs) \<and>
   findAll (decides p) vs = ok (filter p vs) \<and>
   reject (decides p) vs = ok (filter (\<lambda>v. \<not> p v) vs) \<and>
   partition_by (decides p) vs = ok (filter p vs, filter (\<lambda>v. \<not> p v) vs) \<and>
   grep p (\<lambda>v i. Value (f v)) vs = ok (map f (filter p vs)) \<and>
   collect (\<lambda>v i. Value (g v i)) vs = ok (map2 g vs [0..<length vs]) \<and>
   inject m (\<lambda>m v i. Value (h m v)) vs = ok (foldl h m vs) \<and>
   max_of (\<lambda>v i. Value (Number (k v))) (v # vs) = ok (Number (Max (k ` set (v # vs)))) \<and>
   min_of (\<lambda>v i. Value (Number (k v))) (v # vs) = ok (Number (Min (k ` set (v # vs))))"
proof -
  have "map (\<lambda>(i, v). g v i) (List.enumerate 0 vs) = map2 g vs [0..<length vs]"
    by (rule nth_equalityI) (simp_all add: nth_enumerate_eq)
  then show ?thesis
    by (simp only: all_of_list_all any_of_list_ex detect_find findAll_filter reject_filter partition_filters
        grep_filter collect_pure inject_foldl max_of_numbers min_of_numbers simp_thms)
qed
end
