(* ===== verification/FlotBase.thy ===== *)
theory FlotBase
  imports JsString Complex_Main
begin

text \<open>
  The data model of the plotting library \<open>jquery.flot.js\<close> - colours, axes, series - and the
  choice of the series' colours and axes.  Numbers are exact rationals; the values \<open>NaN\<close> and
  the infinities occur only in the raw data, where they have constructors of their own.
  The axes are shared by the series: a series refers to its axes by number.
\<close>

section \<open>Colours\<close>

text \<open>The object \<open>$.color\<close> (the inlined colour helper).  The channels are integers once normalised.\<close>

record color =
  red :: int
  green :: int
  blue :: int
  alpha :: rat

text \<open>\<open>parseInt\<close> of a number drops the fraction.\<close>

definition trunc :: "rat \<Rightarrow> int" where
  "trunc x = (if 0 \<le> x then \<lfloor>x\<rfloor> else \<lceil>x\<rceil>)"

definition clamp :: "'a::linorder \<Rightarrow> 'a \<Rightarrow> 'a \<Rightarrow> 'a" where
  "clamp lo v hi = (if v < lo then lo else if v > hi then hi else v)"

definition color_make :: "rat \<Rightarrow> rat \<Rightarrow> rat \<Rightarrow> rat option \<Rightarrow> color" where
  "color_make r g b a = \<lparr>red = clamp 0 (trunc r) 255, green = clamp 0 (trunc g) 255,
     blue = clamp 0 (trunc b) 255, alpha = clamp 0 (case a of None \<Rightarrow> 1 | Some v \<Rightarrow> v) 1\<rparr>"

datatype channel = R | G | B | A

definition channel_value :: "channel \<Rightarrow> color \<Rightarrow> rat" where
  "channel_value ch c = (case ch of R \<Rightarrow> of_int (red c) | G \<Rightarrow> of_int (green c) | B \<Rightarrow> of_int (blue c) | A \<Rightarrow> alpha c)"

text \<open>\<open>scale\<close> and \<open>add\<close>: every channel named changes, then the colour is normalised.\<close>

definition color_update :: "(channel \<Rightarrow> rat \<Rightarrow> rat) \<Rightarrow> color \<Rightarrow> color" where
  "color_update f c = color_make (f R (of_int (red c))) (f G (of_int (green c))) (f B (of_int (blue c))) (Some (f A (alpha c)))"

definition color_scale :: "channel list \<Rightarrow> rat \<Rightarrow> color \<Rightarrow> color" where
  "color_scale chs factor = color_update (\<lambda>ch v. v * factor ^ count_list chs ch)"

definition color_add :: "channel list \<Rightarrow> rat \<Rightarrow> color \<Rightarrow> color" where
  "color_add chs d = color_update (\<lambda>ch v. v + of_nat (count_list chs ch) * d)"

text \<open>\<open>clone\<close> passes the channels to \<open>make\<close> in the order red, blue, green.\<close>

definition color_clone :: "color \<Rightarrow> color" where
  "color_clone c = color_make (of_int (red c)) (of_int (blue c)) (of_int (green c)) (Some (alpha c))"

definition color_ok :: "color \<Rightarrow> bool" where
  "color_ok c \<longleftrightarrow> 0 \<le> red c \<and> red c \<le> 255 \<and> 0 \<le> green c \<and> green c \<le> 255 \<and> 0 \<le> blue c \<and> blue c \<le> 255
     \<and> 0 \<le> alpha c \<and> alpha c \<le> 1"

lemma color_make_ok [simp]: "color_ok (color_make r g b a)"
  by (simp add: color_ok_def color_make_def clamp_def)

lemma color_update_ok [simp]: "color_ok (color_update f c)"
  by (simp add: color_update_def)

lemma trunc_of_int [simp]: "trunc (of_int i) = i"
  by (simp add: trunc_def)

lemma clamp_in [simp]: "lo \<le> v \<Longrightarrow> v \<le> hi \<Longrightarrow> clamp lo v hi = v"
  by (auto simp: clamp_def)

lemma color_clone_swaps: "color_ok c \<Longrightarrow> color_clone c = c\<lparr>green := blue c, blue := green c\<rparr>"
  by (cases c) (simp add: color_clone_def color_make_def color_ok_def)

section \<open>Axes\<close>

datatype dir = XDir | YDir

datatype side = BottomSide | TopSide | LeftSide | RightSide

datatype tick_length = FullLength | PxLength rat

datatype tick_item = TickValue rat | TickLabelled rat string

datatype tick_spec = TicksNull | TicksNumber rat | TicksList "tick_item list" | TicksFun "rat \<Rightarrow> rat \<Rightarrow> tick_item list"

record axis_options =
  show_opt :: "bool option"
  side_opt :: side
  min_opt :: "rat option"
  max_opt :: "rat option"
  autoscaleMargin :: "rat option"
  transform :: "(rat \<Rightarrow> rat) option"
  inverseTransform :: "(rat \<Rightarrow> rat) option"
  ticks_opt :: tick_spec
  tickDecimals_opt :: "int option"
  tickSize_opt :: "rat option"
  minTickSize :: "rat option"
  reserveSpace_opt :: bool
  tickLength_opt :: "tick_length option"
  labelWidth_opt :: "rat option"
  labelHeight_opt :: "rat option"

record box =
  box_left :: rat
  box_top :: rat
  box_width :: rat
  box_height :: rat
  box_padding :: rat

record axis =
  axis_n :: nat
  direction :: dir
  axis_opts :: axis_options
  used :: bool
  datamin :: "rat option"
  datamax :: "rat option"
  axis_min :: rat
  axis_max :: rat
  axis_show :: bool
  reserveSpace :: bool
  scale :: rat
  shift_m :: rat
  scale_s :: rat
  tickSize :: rat
  tickDecimals :: int
  axis_ticks :: "(rat \<times> string) list"
  labelWidth :: rat
  labelHeight :: rat
  axis_box :: box
  axis_side :: side
  tickLength :: tick_length
  innermost :: bool

text \<open>The entries of an axis list may be missing (\<open>undefined\<close>); an axis that exists carries its number.\<close>

type_synonym axes = "axis option list"

definition axis_slot :: "axes \<Rightarrow> nat \<Rightarrow> axis option" where
  "axis_slot axs number = (case aref axs (number - 1) of None \<Rightarrow> None | Some a \<Rightarrow> a)"

definition new_axis :: "dir \<Rightarrow> axis_options \<Rightarrow> nat \<Rightarrow> axis" where
  "new_axis d opts number = \<lparr>axis_n = number, direction = d, axis_opts = opts, used = False, datamin = None, datamax = None,
     axis_min = 0, axis_max = 0, axis_show = False, reserveSpace = False, scale = 0, shift_m = 0, scale_s = 0,
     tickSize = 0, tickDecimals = 0, axis_ticks = [], labelWidth = 0, labelHeight = 0, axis_box = \<lparr>box_left = 0,
     box_top = 0, box_width = 0, box_height = 0, box_padding = 0\<rparr>, axis_side = side_opt opts, tickLength = FullLength,
     innermost = False\<rparr>"

text \<open>Writing past the end of an array fills it up with \<open>undefined\<close>.\<close>

definition put_slot :: "nat \<Rightarrow> axis \<Rightarrow> axes \<Rightarrow> axes" where
  "put_slot i a axs = (axs @ replicate (Suc i - length axs) None)[i := Some a]"

definition getOrCreateAxis :: "dir \<Rightarrow> axis_options \<Rightarrow> axes \<Rightarrow> nat \<Rightarrow> axes" where
  "getOrCreateAxis d opts axs number =
     (case axis_slot axs number of Some a \<Rightarrow> axs | None \<Rightarrow> put_slot (number - 1) (new_axis d opts number) axs)"

definition update_axis_at :: "nat \<Rightarrow> (axis \<Rightarrow> axis) \<Rightarrow> axes \<Rightarrow> axes" where
  "update_axis_at number f axs = (case axis_slot axs number of None \<Rightarrow> axs | Some a \<Rightarrow> axs[number - 1 := Some (f a)])"

text \<open>The field \<open>xaxis\<close> or \<open>yaxis\<close> of a series or a point: an axis object, a number, or anything else.\<close>

datatype axis_ref = AxisObject nat | AxisNumber nat | AxisOther

fun axisNumber :: "axis_ref \<Rightarrow> nat" where
  "axisNumber (AxisObject k) = k"
| "axisNumber (AxisNumber k) = k"
| "axisNumber AxisOther = 1"

definition allAxes :: "axes \<Rightarrow> axes \<Rightarrow> axis list" where
  "allAxes xaxes yaxes = map the (filter (\<lambda>a. a \<noteq> None) (xaxes @ yaxes))"

text \<open>Every existing axis sits at the place its number says.\<close>

definition axes_ok :: "axes \<Rightarrow> bool" where
  "axes_ok axs \<longleftrightarrow> (\<forall>i < length axs. \<forall>a. axs ! i = Some a \<longrightarrow> axis_n a = Suc i)"

lemma axis_slot_put [simp]:
  "axis_slot (put_slot i a axs) number = (if number - 1 = i then Some a else axis_slot axs number)"
  by (auto simp: axis_slot_def put_slot_def aref_def nth_append nth_list_update)

lemma axis_slot_update:
  "axis_slot (update_axis_at k f axs) number
   = (if number - 1 = k - 1 then map_option f (axis_slot axs k) else axis_slot axs number)"
  by (auto simp: update_axis_at_def axis_slot_def aref_def nth_list_update split: option.split)

lemma getOrCreateAxis_exists: "\<exists>a. axis_slot (getOrCreateAxis d opts axs number) number = Some a"
  by (simp add: getOrCreateAxis_def split: option.split)

lemma getOrCreateAxis_keeps:
  "axis_slot axs k = Some a \<Longrightarrow> axis_slot (getOrCreateAxis d opts axs number) k = Some a"
proof -
  assume a: "axis_slot axs k = Some a"
  have "axis_slot axs number = axis_slot axs k" if "k - 1 = number - 1"
    using that by (simp add: axis_slot_def)
  with a show ?thesis by (auto simp: getOrCreateAxis_def split: option.split)
qed

lemma getOrCreateAxis_ok: "axes_ok axs \<Longrightarrow> 0 < number \<Longrightarrow> axes_ok (getOrCreateAxis d opts axs number)"
  by (auto simp: axes_ok_def getOrCreateAxis_def put_slot_def new_axis_def nth_append nth_list_update split: option.split)

section \<open>Series\<close>

text \<open>One coordinate of a raw data point, after the unary plus.\<close>

datatype raw = RawNull | RawNumber rat | RawNaN | RawInf | RawNegInf

type_synonym raw_point = "raw list option"

text \<open>How a coordinate of a point is read; every coordinate is converted to a number.\<close>

record coord_format =
  fmt_x :: bool
  fmt_y :: bool
  fmt_required :: bool
  fmt_default :: "rat option"

text \<open>
  \<open>datapoints\<close>: the array \<open>points\<close> is kept as the list of its points, each a list of
  \<open>pointsize\<close> coordinates; a missing point has \<open>null\<close> in every place.
\<close>

type_synonym point = "rat option list"

record datapoints =
  dp_format :: "coord_format list"
  dp_points :: "point list"

datatype series_color = ColorNull | ColorIndex int | ColorText string | ColorValue color

datatype fill_spec = FillOff | FillOn | FillAlpha rat

text \<open>A gradient stop: a colour, or a change of the series' colour by brightness and opacity.\<close>

datatype grad_stop = StopColor string | StopVaried "rat option" "rat option"

datatype fill_color = FillColorText string | FillGradient "grad_stop list"

fun fill_on :: "fill_spec \<Rightarrow> bool" where
  "fill_on FillOff = False"
| "fill_on FillOn = True"
| "fill_on (FillAlpha a) = (a \<noteq> 0)"

record series =
  sdata :: "raw_point list"
  scolor :: series_color
  slabel :: "string option"
  xaxis_ref :: axis_ref
  yaxis_ref :: axis_ref
  lines_show :: "bool option"
  lines_fill :: fill_spec
  lines_fillColor :: "fill_color option"
  lines_steps :: bool
  lines_lineWidth :: rat
  points_show :: bool
  points_radius :: rat
  points_lineWidth :: rat
  points_fill :: fill_spec
  points_fillColor :: "fill_color option"
  bars_show :: bool
  bars_barWidth :: rat
  bars_left :: bool
  bars_horizontal :: bool
  bars_lineWidth :: rat
  bars_fill :: fill_spec
  bars_fillColor :: "fill_color option"
  shadowSize :: rat
  hoverable :: "bool option"
  clickable :: "bool option"
  sdatapoints :: datapoints

section \<open>Choosing colours\<close>

definition auto_colored :: "series \<Rightarrow> bool" where
  "auto_colored s \<longleftrightarrow> scolor s = ColorNull"

text \<open>The numbers given as colours, and how many colours have to be produced.\<close>

fun assigned_color :: "series_color \<Rightarrow> int list" where
  "assigned_color (ColorIndex i) = [i]"
| "assigned_color ColorNull = []"
| "assigned_color (ColorText t) = []"
| "assigned_color (ColorValue c) = []"

definition needed_colors :: "series list \<Rightarrow> int" where
  "needed_colors ss = fold (\<lambda>a n. max n (a + 1)) (concat (map (\<lambda>s. assigned_color (scolor s)) ss))
     (int (length (filter auto_colored ss)))"

text \<open>
  The loop that produces colours: \<open>i\<close> runs through the theme again and again, and \<open>variation\<close>
  counts the rounds; each round is lighter or darker than the last.
\<close>

definition varied_color :: "color list \<Rightarrow> nat \<Rightarrow> nat \<Rightarrow> color" where
  "varied_color theme i variation =
     (let c = (if length theme = i then color_make 100 100 100 None else theme ! i);
          sign = (if variation mod 2 = 1 then -1 else 1 :: rat)
      in color_scale [R, G, B] (1 + sign * of_int \<lceil>of_nat variation / 2 :: rat\<rceil> * (1 / 5)) c)"

fun produce_colors :: "color list \<Rightarrow> nat \<Rightarrow> nat \<Rightarrow> nat \<Rightarrow> color list" where
  "produce_colors theme i variation 0 = []"
| "produce_colors theme i variation (Suc k) =
     varied_color theme i variation #
       (if length theme \<le> Suc i then produce_colors theme 0 (Suc variation) k
        else produce_colors theme (Suc i) variation k)"

definition lookup_color :: "color list \<Rightarrow> int \<Rightarrow> color js" where
  "lookup_color colors i = (if 0 \<le> i \<and> i < int (length colors) then ok (colors ! nat i) else raise TypeError)"

section \<open>Filling in the options of the series\<close>

definition turn_on_lines :: "series \<Rightarrow> series" where
  "turn_on_lines s =
     (if lines_show s = None \<and> \<not> points_show s \<and> \<not> bars_show s then s\<lparr>lines_show := Some True\<rparr> else s)"

text \<open>One round of the last loop, for one series: \<open>colori\<close> counts the colours handed out.\<close>

definition fill_color :: "color list \<Rightarrow> nat \<Rightarrow> series \<Rightarrow> (series \<times> nat) js" where
  "fill_color colors colori s =
     (case scolor s of
        ColorNull \<Rightarrow> js_bind (lookup_color colors (int colori)) (\<lambda>c. ok (s\<lparr>scolor := ColorValue c\<rparr>, Suc colori))
      | ColorIndex i \<Rightarrow> js_bind (lookup_color colors i) (\<lambda>c. ok (s\<lparr>scolor := ColorValue c\<rparr>, colori))
      | _ \<Rightarrow> ok (s, colori))"

fun fill_series :: "color list \<Rightarrow> nat \<Rightarrow> series list \<Rightarrow> series list js" where
  "fill_series colors colori [] = ok []"
| "fill_series colors colori (s # ss) =
     js_bind (fill_color colors colori s) (\<lambda>(s', colori').
       js_bind (fill_series colors colori' ss) (\<lambda>ss'. ok (turn_on_lines s' # ss')))"

definition fill_axes :: "axis_options \<Rightarrow> axis_options \<Rightarrow> series list \<Rightarrow> axes \<times> axes \<Rightarrow> axes \<times> axes" where
  "fill_axes xopts yopts ss axs =
     fold (\<lambda>s (xs, ys). (getOrCreateAxis XDir xopts xs (axisNumber (xaxis_ref s)),
                          getOrCreateAxis YDir yopts ys (axisNumber (yaxis_ref s)))) ss axs"

definition number_axes :: "series \<Rightarrow> series" where
  "number_axes s = s\<lparr>xaxis_ref := AxisObject (axisNumber (xaxis_ref s)), yaxis_ref := AxisObject (axisNumber (yaxis_ref s))\<rparr>"

definition fillInSeriesOptions ::
  "color list \<Rightarrow> axis_options \<Rightarrow> axis_options \<Rightarrow> series list \<Rightarrow> axes \<times> axes \<Rightarrow> (series list \<times> axes \<times> axes) js" where
  "fillInSeriesOptions theme xopts yopts ss axs =
     js_bind (fill_series (produce_colors theme 0 0 (nat (needed_colors ss))) 0 ss)
       (\<lambda>ss'. ok (map number_axes ss', fill_axes xopts yopts ss axs))"

section \<open>Colours are always found\<close>

lemma length_produce_colors [simp]: "length (produce_colors theme i variation k) = k"
  by (induction theme i variation k rule: produce_colors.induct) auto

lemma produced_colors_ok: "c \<in> set (produce_colors theme i variation k) \<Longrightarrow> color_ok c"
  by (induction theme i variation k rule: produce_colors.induct)
    (auto simp: varied_color_def color_scale_def Let_def split: if_splits)

lemma fold_max_ge: "n \<le> fold (\<lambda>a n. max n (a + 1)) xs (n :: int)"
  by (induction xs arbitrary: n) (auto intro: order_trans [OF max.cobounded1])

lemma fold_max_gt: "a \<in> set xs \<Longrightarrow> a < fold (\<lambda>a n. max n (a + 1)) xs (n :: int)"
proof (induction xs arbitrary: n)
  case (Cons x xs)
  then show ?case using fold_max_ge [of "max n (x + 1)" xs] by auto
qed simp

lemma needed_colors_auto: "int (length (filter auto_colored ss)) \<le> needed_colors ss"
  unfolding needed_colors_def by (rule fold_max_ge)

lemma needed_colors_index: "s \<in> set ss \<Longrightarrow> scolor s = ColorIndex i \<Longrightarrow> i < needed_colors ss"
  unfolding needed_colors_def by (rule fold_max_gt) force

lemma fill_series_ok:
  assumes "\<forall>s \<in> set ss. \<forall>i. scolor s = ColorIndex i \<longrightarrow> 0 \<le> i \<and> i < int (length colors)"
    "colori + length (filter auto_colored ss) \<le> length colors"
  shows "\<exists>ss'. fill_series colors colori ss = ok ss' \<and> length ss' = length ss
    \<and> (\<forall>s' \<in> set ss'. scolor s' \<noteq> ColorNull \<and> (\<forall>i. scolor s' \<noteq> ColorIndex i) \<and>
         (\<forall>c. scolor s' = ColorValue c \<longrightarrow> c \<in> set colors \<or> (\<exists>s \<in> set ss. scolor s = ColorValue c)) \<and>
         (lines_show s' = None \<longrightarrow> points_show s' \<or> bars_show s'))"
  using assms
proof (induction ss arbitrary: colori)
  case Nil
  then show ?case by simp
next
  case (Cons s ss)
  have "\<exists>s' colori'. fill_color colors colori s = ok (s', colori')
      \<and> colori' + length (filter auto_colored ss) \<le> length colors
      \<and> scolor s' \<noteq> ColorNull \<and> (\<forall>i. scolor s' \<noteq> ColorIndex i)
      \<and> (\<forall>c. scolor s' = ColorValue c \<longrightarrow> c \<in> set colors \<or> scolor s = ColorValue c)"
  proof -
    have "auto_colored s \<longleftrightarrow> scolor s = ColorNull" by (simp add: auto_colored_def)
    then show ?thesis using Cons.prems
      by (cases "scolor s") (auto simp: fill_color_def lookup_color_def)
  qed
  then obtain s' colori' where s': "fill_color colors colori s = ok (s', colori')"
    "colori' + length (filter auto_colored ss) \<le> length colors"
    "scolor s' \<noteq> ColorNull" "\<forall>i. scolor s' \<noteq> ColorIndex i"
    "\<forall>c. scolor s' = ColorValue c \<longrightarrow> c \<in> set colors \<or> scolor s = ColorValue c" by blast
  moreover from Cons.IH [OF _ s'(2)] Cons.prems(1) obtain ss' where "fill_series colors colori' ss = ok ss'"
    "length ss' = length ss" and rest: "\<forall>s' \<in> set ss'. scolor s' \<noteq> ColorNull \<and> (\<forall>i. scolor s' \<noteq> ColorIndex i) \<and>
         (\<forall>c. scolor s' = ColorValue c \<longrightarrow> c \<in> set colors \<or> (\<exists>s \<in> set ss. scolor s = ColorValue c)) \<and>
         (lines_show s' = None \<longrightarrow> points_show s' \<or> bars_show s')" by auto
  ultimately show ?case by (auto simp: turn_on_lines_def)
qed

lemma fill_axes_slot:
  "axis_slot xs k = Some a \<or> (\<exists>s \<in> set ss. axisNumber (xaxis_ref s) = k)
   \<Longrightarrow> \<exists>a. axis_slot (fst (fill_axes xo yo ss (xs, ys))) k = Some a"
  "axis_slot ys k = Some a \<or> (\<exists>s \<in> set ss. axisNumber (yaxis_ref s) = k)
   \<Longrightarrow> \<exists>a. axis_slot (snd (fill_axes xo yo ss (xs, ys))) k = Some a"
proof (induction ss arbitrary: xs ys a)
  case Nil
  { case 1 then show ?case by (simp add: fill_axes_def) next case 2 then show ?case by (simp add: fill_axes_def) }
next
  case (Cons s ss)
  { case 1
    have "\<exists>a. axis_slot (getOrCreateAxis XDir xo xs (axisNumber (xaxis_ref s))) k = Some a
      \<or> (\<exists>s \<in> set ss. axisNumber (xaxis_ref s) = k)"
      using 1 getOrCreateAxis_keeps getOrCreateAxis_exists by auto
    then obtain a' where "axis_slot (getOrCreateAxis XDir xo xs (axisNumber (xaxis_ref s))) k = Some a'
      \<or> (\<exists>s \<in> set ss. axisNumber (xaxis_ref s) = k)" by blast
    from Cons.IH(1) [OF this] show ?case by (simp add: fill_axes_def)
  next
    case 2
    have "\<exists>a. axis_slot (getOrCreateAxis YDir yo ys (axisNumber (yaxis_ref s))) k = Some a
      \<or> (\<exists>s \<in> set ss. axisNumber (yaxis_ref s) = k)"
      using 2 getOrCreateAxis_keeps getOrCreateAxis_exists by auto
    then obtain a' where "axis_slot (getOrCreateAxis YDir yo ys (axisNumber (yaxis_ref s))) k = Some a'
      \<or> (\<exists>s \<in> set ss. axisNumber (yaxis_ref s) = k)" by blast
    from Cons.IH(2) [OF this] show ?case by (simp add: fill_axes_def) }
qed

text \<open>If no series names a negative colour number, every series gets a colour, in range, and both
  axes, and is drawn in some way.\<close>

theorem every_series_gets_color_and_axes:
  assumes "list_all (\<lambda>s. (\<forall>i. scolor s = ColorIndex i \<longrightarrow> 0 \<le> i) \<and> (\<forall>c. scolor s = ColorValue c \<longrightarrow> color_ok c)) ss"
  shows "\<exists>ss' xs ys. fillInSeriesOptions theme xopts yopts ss (xs0, ys0) = ok (ss', xs, ys) \<and> length ss' = length ss
    \<and> list_all (\<lambda>s. scolor s \<noteq> ColorNull \<and> (\<forall>i. scolor s \<noteq> ColorIndex i) \<and> (\<forall>c. scolor s = ColorValue c \<longrightarrow> color_ok c)
         \<and> (lines_show s = None \<longrightarrow> points_show s \<or> bars_show s)) ss'
    \<and> list_all (\<lambda>s. axis_slot xs (axisNumber (xaxis_ref s)) \<noteq> None \<and> axis_slot ys (axisNumber (yaxis_ref s)) \<noteq> None) ss"
proof -
  let ?cs = "produce_colors theme 0 0 (nat (needed_colors ss))"
  have "0 + length (filter auto_colored ss) \<le> length ?cs" using needed_colors_auto [of ss] by simp
  moreover have "\<forall>s \<in> set ss. \<forall>i. scolor s = ColorIndex i \<longrightarrow> 0 \<le> i \<and> i < int (length ?cs)"
    using assms needed_colors_index [of _ ss] by (fastforce simp: list_all_iff)
  ultimately obtain ss' where ss': "fill_series ?cs 0 ss = ok ss'" "length ss' = length ss"
    "\<forall>s' \<in> set ss'. scolor s' \<noteq> ColorNull \<and> (\<forall>i. scolor s' \<noteq> ColorIndex i) \<and>
         (\<forall>c. scolor s' = ColorValue c \<longrightarrow> c \<in> set ?cs \<or> (\<exists>s \<in> set ss. scolor s = ColorValue c)) \<and>
         (lines_show s' = None \<longrightarrow> points_show s' \<or> bars_show s')"
    using fill_series_ok [of ss ?cs 0] by blast
  obtain xs ys where axs: "fill_axes xopts yopts ss (xs0, ys0) = (xs, ys)" by fastforce
  have f1: "fillInSeriesOptions theme xopts yopts ss (xs0, ys0) = ok (map number_axes ss', xs, ys)"
    by (simp add: fillInSeriesOptions_def ss'(1) axs)
  have f2: "list_all (\<lambda>s. axis_slot xs (axisNumber (xaxis_ref s)) \<noteq> None \<and> axis_slot ys (axisNumber (yaxis_ref s)) \<noteq> None) ss"
    unfolding list_all_iff
  proof
    fix s assume s: "s \<in> set ss"
    have "\<exists>a. axis_slot xs (axisNumber (xaxis_ref s)) = Some a"
      using fill_axes_slot(1) [of xs0 "axisNumber (xaxis_ref s)" undefined ss xopts yopts ys0] s axs by auto
    moreover have "\<exists>a. axis_slot ys (axisNumber (yaxis_ref s)) = Some a"
      using fill_axes_slot(2) [of ys0 "axisNumber (yaxis_ref s)" undefined ss xopts yopts xs0] s axs by auto
    ultimately show "axis_slot xs (axisNumber (xaxis_ref s)) \<noteq> None \<and> axis_slot ys (axisNumber (yaxis_ref s)) \<noteq> None" by simp
  qed
  have "color_ok c" if "s' \<in> set ss'" "scolor s' = ColorValue c" for s' c
  proof -
    from ss'(3) that consider "c \<in> set ?cs" | s where "s \<in> set ss" "scolor s = ColorValue c" by blast
    then show ?thesis using produced_colors_ok assms by cases (auto simp: list_all_iff)
  qed
  then have f3: "list_all (\<lambda>s. scolor s \<noteq> ColorNull \<and> (\<forall>i. scolor s \<noteq> ColorIndex i) \<and> (\<forall>c. scolor s = ColorValue c \<longrightarrow> color_ok c)
         \<and> (lines_show s = None \<longrightarrow> points_show s \<or> bars_show s)) (map number_axes ss')"
    using ss'(3) unfolding list_all_iff by (simp add: number_axes_def)
  show ?thesis by (intro exI conjI, rule f1, simp only: ss'(2) length_map, rule f3, rule f2)
qed

definition plain_axis_options :: axis_options where
  "plain_axis_options = \<lparr>show_opt = None, side_opt = BottomSide, min_opt = None, max_opt = None, autoscaleMargin = None,
     transform = None, inverseTransform = None, ticks_opt = TicksNull, tickDecimals_opt = None, tickSize_opt = None,
     minTickSize = None, reserveSpace_opt = False, tickLength_opt = None, labelWidth_opt = None, labelHeight_opt = None\<rparr>"

text \<open>The defaults of a series (\<open>options.series\<close>), around given data.\<close>

definition default_series :: "raw_point list \<Rightarrow> series" where
  "default_series d = \<lparr>sdata = d, scolor = ColorNull, slabel = None, xaxis_ref = AxisOther, yaxis_ref = AxisOther,
     lines_show = None, lines_fill = FillOff, lines_fillColor = None, lines_steps = False, lines_lineWidth = 2,
     points_show = False, points_radius = 3, points_lineWidth = 2, points_fill = FillOn,
     points_fillColor = Some (FillColorText ''#ffffff''), bars_show = False, bars_barWidth = 1, bars_left = True,
     bars_horizontal = False, bars_lineWidth = 2, bars_fill = FillOn, bars_fillColor = None, shadowSize = 3,
     hoverable = None, clickable = None, sdatapoints = \<lparr>dp_format = [], dp_points = []\<rparr>\<rparr>"

theorem every_series_gets_color_and_axes_witness:
  "\<exists>ss' xs ys. fillInSeriesOptions [] plain_axis_options plain_axis_options
      [default_series [], (default_series [])\<lparr>scolor := ColorIndex 3, yaxis_ref := AxisNumber 2\<rparr>] ([], []) = ok (ss', xs, ys)
    \<and> length ss' = 2 \<and> axis_slot ys 2 \<noteq> None"
proof -
  have "list_all (\<lambda>s. (\<forall>i. scolor s = ColorIndex i \<longrightarrow> 0 \<le> i) \<and> (\<forall>c. scolor s = ColorValue c \<longrightarrow> color_ok c))
      [default_series [], (default_series [])\<lparr>scolor := ColorIndex 3, yaxis_ref := AxisNumber 2\<rparr>]"
    by (simp add: default_series_def)
  from every_series_gets_color_and_axes [OF this, of "[]" plain_axis_options plain_axis_options "[]" "[]"]
  show ?thesis by (auto simp: default_series_def)
qed

end
