(* ===== verification/FlotData.thy ===== *)
theory FlotData
  imports FlotBase
begin

text \<open>
  \<open>processData\<close> of \<open>jquery.flot.js\<close>: the raw data are cleaned and copied, steps are inserted,
  and the range of the data is found for each axis; then \<open>setRange\<close>, which chooses the visible
  range of an axis, and the helpers that translate between data and canvas coordinates.  No
  plug-in is registered, so no hook runs and every format is the default one.
\<close>

section \<open>Cleaning and copying\<close>

text \<open>\<open>Number.MAX_VALUE\<close>\<close>

definition max_value :: rat where
  "max_value = of_int ((2 ^ 53 - 1) * 2 ^ 971)"

text \<open>The sentries plus and minus infinity of \<open>datamin\<close> and \<open>datamax\<close> are both \<open>None\<close>.\<close>

definition updateAxis :: "rat option \<Rightarrow> rat option \<Rightarrow> axis \<Rightarrow> axis" where
  "updateAxis lo hi a =
     (let a1 = (case lo of None \<Rightarrow> a
                | Some v \<Rightarrow> if (case datamin a of None \<Rightarrow> True | Some d \<Rightarrow> v < d) \<and> v \<noteq> - max_value
                            then a\<lparr>datamin := Some v\<rparr> else a)
      in case hi of None \<Rightarrow> a1
         | Some v \<Rightarrow> if (case datamax a1 of None \<Rightarrow> True | Some d \<Rightarrow> v > d) \<and> v \<noteq> max_value
                     then a1\<lparr>datamax := Some v\<rparr> else a1)"

definition default_format :: "series \<Rightarrow> coord_format list" where
  "default_format s =
     [\<lparr>fmt_x = True, fmt_y = False, fmt_required = True, fmt_default = None\<rparr>,
      \<lparr>fmt_x = False, fmt_y = True, fmt_required = True, fmt_default = None\<rparr>] @
     (if bars_show s \<or> lines_show s = Some True \<and> fill_on (lines_fill s)
      then [\<lparr>fmt_x = bars_horizontal s, fmt_y = \<not> bars_horizontal s, fmt_required = False, fmt_default = Some 0\<rparr>]
      else [])"

fun to_number :: "raw \<Rightarrow> rat option" where
  "to_number RawNull = None"
| "to_number (RawNumber v) = Some v"
| "to_number RawNaN = None"
| "to_number RawInf = Some max_value"
| "to_number RawNegInf = Some (- max_value)"

definition raw_coord :: "raw list \<Rightarrow> nat \<Rightarrow> raw" where
  "raw_coord p m = (if m < length p then p ! m else RawNull)"

definition clean_coord :: "coord_format \<Rightarrow> raw \<Rightarrow> rat option" where
  "clean_coord f v = (case to_number v of None \<Rightarrow> fmt_default f | Some x \<Rightarrow> Some x)"

definition clean_point :: "coord_format list \<Rightarrow> raw list \<Rightarrow> point" where
  "clean_point fs p = map (\<lambda>m. clean_coord (fs ! m) (raw_coord p m)) [0..<length fs]"

definition point_nullified :: "coord_format list \<Rightarrow> raw list \<Rightarrow> bool" where
  "point_nullified fs p = list_ex (\<lambda>m. fmt_required (fs ! m) \<and> to_number (raw_coord p m) = None) [0..<length fs]"

text \<open>A nullified point still counts for the range of the axes.\<close>

definition note_coords :: "coord_format list \<Rightarrow> point \<Rightarrow> nat \<Rightarrow> nat \<Rightarrow> axes \<times> axes \<Rightarrow> axes \<times> axes" where
  "note_coords fs pt xn yn axs =
     fold (\<lambda>m (xs, ys). case pt ! m of None \<Rightarrow> (xs, ys)
       | Some v \<Rightarrow> (if fmt_x (fs ! m) then update_axis_at xn (updateAxis (Some v) (Some v)) xs else xs,
                    if fmt_y (fs ! m) then update_axis_at yn (updateAxis (Some v) (Some v)) ys else ys))
       [0..<length fs] axs"

definition step_between :: "bool \<Rightarrow> point list \<Rightarrow> point \<Rightarrow> point list" where
  "step_between insertSteps pts pt =
     (if insertSteps \<and> pts \<noteq> [] \<and> last pts ! 0 \<noteq> None \<and> last pts ! 0 \<noteq> pt ! 0 \<and> last pts ! 1 \<noteq> pt ! 1
      then [pt[1 := last pts ! 1], pt] else [pt])"

definition copy_point :: "coord_format list \<Rightarrow> bool \<Rightarrow> nat \<Rightarrow> nat \<Rightarrow> raw_point \<Rightarrow> point list \<times> axes \<times> axes \<Rightarrow> point list \<times> axes \<times> axes" where
  "copy_point fs insertSteps xn yn p st =
     (case st of (pts, axs) \<Rightarrow>
      (case p of
         None \<Rightarrow> (pts @ [replicate (length fs) None], axs)
       | Some c \<Rightarrow>
           (if point_nullified fs c
            then (pts @ [replicate (length fs) None], note_coords fs (clean_point fs c) xn yn axs)
            else (pts @ step_between insertSteps pts (clean_point fs c), axs))))"

definition xno :: "series \<Rightarrow> nat" where "xno s = axisNumber (xaxis_ref s)"
definition yno :: "series \<Rightarrow> nat" where "yno s = axisNumber (yaxis_ref s)"

definition copy_series :: "series \<Rightarrow> axes \<times> axes \<Rightarrow> series \<times> axes \<times> axes" where
  "copy_series s axs =
     (let fs = default_format s;
          mark = (\<lambda>a. a\<lparr>used := True\<rparr>);
          axs1 = (update_axis_at (xno s) mark (fst axs), update_axis_at (yno s) mark (snd axs));
          (pts, axs2) = fold (copy_point fs (lines_show s = Some True \<and> lines_steps s) (xno s) (yno s)) (sdata s) ([], axs1)
      in (s\<lparr>sdatapoints := \<lparr>dp_format = fs, dp_points = pts\<rparr>\<rparr>, axs2))"

fun copy_all :: "series list \<Rightarrow> axes \<times> axes \<Rightarrow> series list \<times> axes \<times> axes" where
  "copy_all [] axs = ([], axs)"
| "copy_all (s # ss) axs =
     (let (s', axs1) = copy_series s axs; (ss', axs2) = copy_all ss axs1 in (s' # ss', axs2))"

section \<open>The range of the data\<close>

definition lower :: "rat \<Rightarrow> rat option \<Rightarrow> rat option" where
  "lower v lo = (case lo of None \<Rightarrow> Some v | Some l \<Rightarrow> if v < l then Some v else lo)"

definition upper :: "rat \<Rightarrow> rat option \<Rightarrow> rat option" where
  "upper v hi = (case hi of None \<Rightarrow> Some v | Some h \<Rightarrow> if v > h then Some v else hi)"

record bounds =
  xmin :: "rat option"
  xmax :: "rat option"
  ymin :: "rat option"
  ymax :: "rat option"

text \<open>
  The second pass reads \<open>format\<close>, the variable of the first pass: it still holds the format of
  the last series, whichever series is looked at.
\<close>

definition scan_coord :: "coord_format list \<Rightarrow> point \<Rightarrow> nat \<Rightarrow> bounds \<Rightarrow> bounds" where
  "scan_coord format pt m b =
     (case (aref format m, pt ! m) of
        (Some f, Some v) \<Rightarrow>
          (if v = max_value \<or> v = - max_value then b
           else (let b1 = (if fmt_x f then b\<lparr>xmin := lower v (xmin b), xmax := upper v (xmax b)\<rparr> else b)
                 in if fmt_y f then b1\<lparr>ymin := lower v (ymin b1), ymax := upper v (ymax b1)\<rparr> else b1))
      | _ \<Rightarrow> b)"

definition scan_point :: "coord_format list \<Rightarrow> point \<Rightarrow> bounds \<Rightarrow> bounds" where
  "scan_point format pt b = (if pt ! 0 = None then b else fold (scan_coord format pt) [0..<length pt] b)"

definition bar_left :: "series \<Rightarrow> rat" where
  "bar_left s = (if bars_left s then 0 else - bars_barWidth s / 2)"

definition bar_room :: "series \<Rightarrow> bounds \<Rightarrow> bounds" where
  "bar_room s b =
     (let delta = bar_left s; add = (\<lambda>d. map_option (\<lambda>v. v + d))
      in if \<not> bars_show s then b
         else if bars_horizontal s then b\<lparr>ymin := add delta (ymin b), ymax := add (delta + bars_barWidth s) (ymax b)\<rparr>
         else b\<lparr>xmin := add delta (xmin b), xmax := add (delta + bars_barWidth s) (xmax b)\<rparr>)"

definition series_bounds :: "coord_format list \<Rightarrow> series \<Rightarrow> bounds" where
  "series_bounds format s =
     bar_room s (fold (scan_point format) (dp_points (sdatapoints s)) \<lparr>xmin = None, xmax = None, ymin = None, ymax = None\<rparr>)"

definition range_series :: "coord_format list \<Rightarrow> series \<Rightarrow> axes \<times> axes \<Rightarrow> axes \<times> axes" where
  "range_series format s axs =
     (let b = series_bounds format s
      in (update_axis_at (xno s) (updateAxis (xmin b) (xmax b)) (fst axs),
          update_axis_at (yno s) (updateAxis (ymin b) (ymax b)) (snd axs)))"

definition reset_axis :: "axis \<Rightarrow> axis" where
  "reset_axis a = a\<lparr>datamin := None, datamax := None, used := False\<rparr>"

definition processData :: "series list \<Rightarrow> axes \<times> axes \<Rightarrow> series list \<times> axes \<times> axes" where
  "processData ss axs =
     (let (ss', axs1) = copy_all ss (map (map_option reset_axis) (fst axs), map (map_option reset_axis) (snd axs));
          format = (if ss' = [] then [] else dp_format (sdatapoints (last ss')))
      in (ss', fold (range_series format) ss' axs1))"

section \<open>The visible range of an axis\<close>

definition wanted_min :: "axis \<Rightarrow> rat" where
  "wanted_min a = (case min_opt (axis_opts a) of Some v \<Rightarrow> v | None \<Rightarrow> (case datamin a of Some v \<Rightarrow> v | None \<Rightarrow> 0))"

definition wanted_max :: "axis \<Rightarrow> rat" where
  "wanted_max a = (case max_opt (axis_opts a) of Some v \<Rightarrow> v | None \<Rightarrow> (case datamax a of Some v \<Rightarrow> v | None \<Rightarrow> 0))"

definition setRange :: "axis \<Rightarrow> axis" where
  "setRange a =
     (let opts = axis_opts a;
          lo = wanted_min a;
          hi = wanted_max a;
          delta = hi - lo;
          (lo', hi') =
            (if delta = 0 then
               (let widen = (if hi = 0 then 1 else 1 / 100)
                in (if min_opt opts = None then lo - widen else lo,
                    if max_opt opts = None \<or> min_opt opts \<noteq> None then hi + widen else hi))
             else (case autoscaleMargin opts of None \<Rightarrow> (lo, hi)
               | Some margin \<Rightarrow>
                   (if min_opt opts = None
                    then (let v = lo - delta * margin
                          in if v < 0 \<and> (case datamin a of None \<Rightarrow> False | Some d \<Rightarrow> 0 \<le> d) then 0 else v)
                    else lo,
                    if max_opt opts = None
                    then (let v = hi + delta * margin
                          in if v > 0 \<and> (case datamax a of None \<Rightarrow> False | Some d \<Rightarrow> d \<le> 0) then 0 else v)
                    else hi)))
      in a\<lparr>axis_min := lo', axis_max := hi'\<rparr>)"

section \<open>Data and canvas coordinates\<close>

definition axis_transform :: "axis \<Rightarrow> rat \<Rightarrow> rat" where
  "axis_transform a p = (case transform (axis_opts a) of None \<Rightarrow> p | Some t \<Rightarrow> t p)"

definition setTransformationHelpers :: "rat \<Rightarrow> rat \<Rightarrow> axis \<Rightarrow> axis" where
  "setTransformationHelpers plotWidth plotHeight a =
     (let lo = axis_transform a (axis_min a); hi = axis_transform a (axis_max a)
      in case direction a of
           XDir \<Rightarrow> a\<lparr>scale := plotWidth / \<bar>hi - lo\<bar>, scale_s := plotWidth / \<bar>hi - lo\<bar>, shift_m := min hi lo\<rparr>
         | YDir \<Rightarrow> a\<lparr>scale := plotHeight / \<bar>hi - lo\<bar>, scale_s := - (plotHeight / \<bar>hi - lo\<bar>), shift_m := max hi lo\<rparr>)"

definition p2c :: "axis \<Rightarrow> rat \<Rightarrow> rat" where
  "p2c a p = (axis_transform a p - shift_m a) * scale_s a"

definition c2p :: "axis \<Rightarrow> rat \<Rightarrow> rat" where
  "c2p a c = (case inverseTransform (axis_opts a) of None \<Rightarrow> shift_m a + c / scale_s a | Some it \<Rightarrow> it (shift_m a + c / scale_s a))"

section \<open>The range found covers the data\<close>
















text \<open>A format starts with an x and a y coordinate.\<close>

definition xy_format :: "coord_format list \<Rightarrow> bool" where
  "xy_format fs \<longleftrightarrow> 2 \<le> length fs \<and> fmt_x (fs ! 0) \<and> fmt_y (fs ! 1)"

lemma default_xy [simp]: "xy_format (default_format s)"
  by (auto simp: xy_format_def default_format_def)











lemma copy_series_fields:
  "fst (copy_series s axs) = s\<lparr>sdatapoints := sdatapoints (fst (copy_series s axs))\<rparr>"
  "dp_format (sdatapoints (fst (copy_series s axs))) = default_format s"
  by (simp_all add: copy_series_def Let_def split: prod.split)


lemma copy_all_map: "\<exists>f. fst (copy_all ss axs) = map2 (\<lambda>s d. s\<lparr>sdatapoints := d\<rparr>) ss f \<and> length f = length ss"
proof (induction ss arbitrary: axs)
  case (Cons s ss)
  obtain s' axs1 where s: "copy_series s axs = (s', axs1)" by (rule prod.exhaust)
  obtain ss' axs2 where ss: "copy_all ss axs1 = (ss', axs2)" by (rule prod.exhaust)
  from Cons [of axs1] obtain f where "ss' = map2 (\<lambda>s d. s\<lparr>sdatapoints := d\<rparr>) ss f" "length f = length ss"
    by (auto simp: ss)
  then show ?case using copy_series_fields(1) [of s axs]
    by (intro exI [of _ "sdatapoints s' # f"]) (simp add: s ss)
qed simp




lemma update_slot_exists:
  "axis_slot (update_axis_at n f axs) k \<noteq> None \<longleftrightarrow> axis_slot axs k \<noteq> None"
proof -
  have "axis_slot axs n = axis_slot axs k" if "k - 1 = n - 1" using that by (simp add: axis_slot_def)
  then show ?thesis by (auto simp: axis_slot_update)
qed

lemma update_slot_None [simp]: "axis_slot (update_axis_at n f axs) k = None \<longleftrightarrow> axis_slot axs k = None"
  using update_slot_exists by blast



text \<open>Copying keeps the axes in place.\<close>

definition same_slots :: "axes \<times> axes \<Rightarrow> axes \<times> axes \<Rightarrow> bool" where
  "same_slots axs axs' \<longleftrightarrow> (\<forall>k. (axis_slot (fst axs') k \<noteq> None \<longleftrightarrow> axis_slot (fst axs) k \<noteq> None)
     \<and> (axis_slot (snd axs') k \<noteq> None \<longleftrightarrow> axis_slot (snd axs) k \<noteq> None))"

lemma same_slots_refl [simp]: "same_slots a a"
  by (simp add: same_slots_def)











definition xy_series :: "(rat \<times> rat) list \<Rightarrow> series" where
  "xy_series ps = default_series (map (\<lambda>(x, y). Some [RawNumber x, RawNumber y]) ps)"

definition bar_series :: "(rat \<times> rat) list \<Rightarrow> series" where
  "bar_series ps = (xy_series ps)\<lparr>bars_show := True\<rparr>"

definition one_axis :: "dir \<Rightarrow> axes" where
  "one_axis d = [Some (new_axis d plain_axis_options 1)]"

lemmas plot_simps = processData_def copy_series_def default_format_def copy_point_def point_nullified_def raw_coord_def
  clean_point_def clean_coord_def step_between_def range_series_def series_bounds_def scan_point_def scan_coord_def
  bar_room_def bar_left_def lower_def upper_def update_axis_at_def axis_slot_def updateAxis_def xy_series_def
  bar_series_def one_axis_def new_axis_def default_series_def xno_def yno_def reset_axis_def

lemma upt_two: "[0..<2] = [0, 1 :: nat]" "[0..<3] = [0, 1, 2 :: nat]" "[0..<Suc (Suc 0)] = [0, 1]"
  "[0..<Suc (Suc (Suc 0))] = [0, 1, 2]"
  by (simp_all add: upt_rec)

lemma max_value_far: "200 < max_value" "- max_value < - 200"
  by (simp_all add: max_value_def)


text \<open>Whether the vertical range starts at the base line 0 of a bar depends on which series is
  last.\<close>

theorem bar_baseline_depends_on_last_series:
  "map_option datamin (axis_slot (snd (snd (processData [xy_series [(1, 6)], bar_series [(1, 7)]] (one_axis XDir, one_axis YDir)))) 1)
     = Some (Some 0)
   \<and> map_option datamin (axis_slot (snd (snd (processData [bar_series [(1, 7)], xy_series [(1, 6)]] (one_axis XDir, one_axis YDir)))) 1)
     = Some (Some 6)"
  using max_value_far by (simp add: plot_simps upt_two)
section \<open>Steps\<close>

text \<open>Two neighbours of a stepped line share a coordinate, unless one of them is missing.\<close>

definition axis_parallel :: "point \<Rightarrow> point \<Rightarrow> bool" where
  "axis_parallel p q \<longleftrightarrow> p ! 0 = None \<or> q ! 0 = None \<or> p ! 0 = q ! 0 \<or> p ! 1 = q ! 1"

lemma successively_snoc: "successively P (xs @ [x]) \<longleftrightarrow> successively P xs \<and> (xs = [] \<or> P (last xs) x)"
  by (auto simp: successively_append_iff)

lemma step_between_parallel:
  assumes "successively axis_parallel pts" "2 \<le> length pt"
  shows "successively axis_parallel (pts @ step_between True pts pt)"
proof (cases "pts = []")
  case True
  then show ?thesis by (simp add: step_between_def)
next
  case False
  show ?thesis
  proof (cases "last pts ! 0 \<noteq> None \<and> last pts ! 0 \<noteq> pt ! 0 \<and> last pts ! 1 \<noteq> pt ! 1")
    case True
    let ?mid = "pt[1 := last pts ! 1]"
    have "axis_parallel (last pts) ?mid" "axis_parallel ?mid pt"
      using assms(2) by (auto simp: axis_parallel_def nth_list_update)
    then have "successively axis_parallel ((pts @ [?mid]) @ [pt])"
      using assms(1) unfolding successively_snoc by simp
    then show ?thesis using True False by (simp add: step_between_def)
  next
    case nostep: False
    then have "axis_parallel (last pts) pt" by (auto simp: axis_parallel_def)
    then have "successively axis_parallel (pts @ [pt])" using assms(1) unfolding successively_snoc by simp
    moreover have "step_between True pts pt = [pt]" using nostep by (auto simp: step_between_def)
    ultimately show ?thesis by simp
  qed
qed

lemma copy_points_parallel:
  assumes "successively axis_parallel pts" "2 \<le> length fs"
  shows "successively axis_parallel (fst (fold (copy_point fs True xn yn) d (pts, axs)))"
  using assms(1)
proof (induction d arbitrary: pts axs)
  case (Cons p d)
  have "replicate (length fs) None ! 0 = (None :: rat option)" using assms(2) by (intro nth_replicate) linarith
  then have "axis_parallel p (replicate (length fs) None)" for p by (simp add: axis_parallel_def)
  then have null: "successively axis_parallel (pts @ [replicate (length fs) None])"
    using Cons.prems unfolding successively_snoc by simp
  have step: "successively axis_parallel (pts @ step_between True pts (clean_point fs c))" for c
    using Cons.prems assms(2) by (intro step_between_parallel) (simp_all add: clean_point_def)
  obtain pts' axs' where st: "copy_point fs True xn yn p (pts, axs) = (pts', axs')" by (rule prod.exhaust)
  then have "successively axis_parallel pts'"
    using null step by (auto simp: copy_point_def split: option.splits if_splits)
  then show ?case using Cons.IH by (simp add: st)
qed simp

text \<open>The points of a stepped line run parallel to the axes.\<close>

theorem steps_are_axis_parallel:
  assumes "lines_show s = Some True" "lines_steps s"
  shows "successively axis_parallel (dp_points (sdatapoints (fst (copy_series s axs))))"
proof -
  let ?mark = "\<lambda>a :: axis. a\<lparr>used := True\<rparr>"
  let ?axs = "(update_axis_at (xno s) ?mark (fst axs), update_axis_at (yno s) ?mark (snd axs))"
  have "2 \<le> length (default_format s)" using default_xy by (simp add: xy_format_def)
  then have "successively axis_parallel (fst (fold (copy_point (default_format s) True (xno s) (yno s)) (sdata s) ([], ?axs)))"
    by (intro copy_points_parallel) simp
  then show ?thesis using assms by (simp add: copy_series_def Let_def case_prod_beta)
qed

theorem steps_are_axis_parallel_witness:
  "successively axis_parallel (dp_points (sdatapoints (fst (copy_series
     ((xy_series [(0, 1), (2, 3)])\<lparr>lines_show := Some True, lines_steps := True\<rparr>) (one_axis XDir, one_axis YDir)))))"
  by (rule steps_are_axis_parallel) simp_all

section \<open>The visible range is not empty\<close>

lemma setRange_degenerate:
  "wanted_max a = wanted_min a \<Longrightarrow> axis_min (setRange a) < axis_max (setRange a)
     \<and> axis_min (setRange a) \<le> wanted_min a \<and> wanted_max a \<le> axis_max (setRange a)"
  by (simp add: setRange_def Let_def)

lemma setRange_no_margin:
  "autoscaleMargin (axis_opts a) = None \<Longrightarrow> wanted_min a \<noteq> wanted_max a \<Longrightarrow>
    axis_min (setRange a) = wanted_min a \<and> axis_max (setRange a) = wanted_max a"
  by (simp add: setRange_def Let_def)

lemma setRange_margin:
  assumes "autoscaleMargin (axis_opts a) = Some m" "0 \<le> m" "wanted_min a < wanted_max a"
  shows "axis_min (setRange a) \<le> wanted_min a \<and> wanted_max a \<le> axis_max (setRange a)"
proof -
  let ?d = "(wanted_max a - wanted_min a) * m"
  have d: "0 \<le> ?d" using assms(2,3) by simp
  have "axis_min (setRange a) = wanted_min a \<or> axis_min (setRange a) = wanted_min a - ?d
      \<or> (axis_min (setRange a) = 0 \<and> 0 \<le> wanted_min a)"
    using assms by (auto simp: setRange_def Let_def wanted_min_def split: option.splits)
  moreover have "axis_max (setRange a) = wanted_max a \<or> axis_max (setRange a) = wanted_max a + ?d
      \<or> (axis_max (setRange a) = 0 \<and> wanted_max a \<le> 0)"
    using assms by (auto simp: setRange_def Let_def wanted_max_def split: option.splits)
  ultimately show ?thesis using d by auto
qed

text \<open>If the bounds wanted for an axis - fixed by the caller or taken from the data - are in
  order, the visible range contains them and is not empty.\<close>

theorem visible_range_nonempty:
  assumes "wanted_min a \<le> wanted_max a" "\<forall>m. autoscaleMargin (axis_opts a) = Some m \<longrightarrow> 0 \<le> m"
  shows "axis_min (setRange a) < axis_max (setRange a)
    \<and> axis_min (setRange a) \<le> wanted_min a \<and> wanted_max a \<le> axis_max (setRange a)"
proof (cases "wanted_max a = wanted_min a")
  case False
  then show ?thesis
    using assms setRange_no_margin [of a] setRange_margin [of a] by (cases "autoscaleMargin (axis_opts a)") fastforce+
qed (rule setRange_degenerate)

theorem visible_range_nonempty_witness:
  "axis_min (setRange ((new_axis YDir plain_axis_options 1)\<lparr>datamin := Some 4, datamax := Some 4\<rparr>))
   < axis_max (setRange ((new_axis YDir plain_axis_options 1)\<lparr>datamin := Some 4, datamax := Some 4\<rparr>))"
  using visible_range_nonempty [of "(new_axis YDir plain_axis_options 1)\<lparr>datamin := Some 4, datamax := Some 4\<rparr>"]
  by (simp add: wanted_min_def wanted_max_def new_axis_def plain_axis_options_def)

section \<open>Translating coordinates\<close>

lemma c2p_p2c:
  assumes "scale_s a \<noteq> 0" "transform (axis_opts a) = None" "inverseTransform (axis_opts a) = None"
  shows "c2p a (p2c a p) = p" "p2c a (c2p a c) = c"
  using assms by (simp_all add: c2p_def p2c_def axis_transform_def)

text \<open>The coordinate helpers are inverse to each other - with a transformation, as far as the
  inverse supplied is one - and map the visible range onto the plot area: along x from 0 to the
  width, along y from the height down to 0.\<close>

theorem coordinates_roundtrip:
  assumes "axis_transform a (axis_min a) < axis_transform a (axis_max a)" "0 < plotWidth" "0 < plotHeight"
    "\<forall>t. transform (axis_opts a) = Some t \<longrightarrow> (\<exists>it. inverseTransform (axis_opts a) = Some it \<and> (\<forall>x. it (t x) = x))"
    "transform (axis_opts a) = None \<longrightarrow> inverseTransform (axis_opts a) = None"
  shows "c2p (setTransformationHelpers plotWidth plotHeight a) (p2c (setTransformationHelpers plotWidth plotHeight a) p) = p
    \<and> (p2c (setTransformationHelpers plotWidth plotHeight a) (axis_min a), p2c (setTransformationHelpers plotWidth plotHeight a) (axis_max a))
       = (case direction a of XDir \<Rightarrow> (0, plotWidth) | YDir \<Rightarrow> (plotHeight, 0))"
proof -
  let ?b = "setTransformationHelpers plotWidth plotHeight a"
  have s: "scale_s ?b \<noteq> 0"
    using assms(1-3) by (cases "direction a") (simp_all add: setTransformationHelpers_def Let_def)
  have t: "axis_opts ?b = axis_opts a" "axis_transform ?b = axis_transform a"
    by (cases "direction a"; simp add: setTransformationHelpers_def Let_def axis_transform_def fun_eq_iff)+
  have undo: "shift_m ?b + p2c ?b p / scale_s ?b = axis_transform a p"
    using s by (simp add: p2c_def t)
  have "c2p ?b (p2c ?b p) = p"
    using assms(4,5) undo by (auto simp: c2p_def t axis_transform_def split: option.splits)
  moreover have "(p2c ?b (axis_min a), p2c ?b (axis_max a)) = (case direction a of XDir \<Rightarrow> (0, plotWidth) | YDir \<Rightarrow> (plotHeight, 0))"
  proof -
    have p2c: "p2c ?b q = (axis_transform a q - shift_m ?b) * scale_s ?b" for q by (simp add: p2c_def t)
    show ?thesis
    proof (cases "direction a")
      case XDir
      then have "shift_m ?b = axis_transform a (axis_min a)"
        "scale_s ?b = plotWidth / (axis_transform a (axis_max a) - axis_transform a (axis_min a))"
        using assms(1) by (simp_all add: setTransformationHelpers_def Let_def)
      then show ?thesis using assms(1) XDir unfolding p2c by simp
    next
      case YDir
      then have "shift_m ?b = axis_transform a (axis_max a)"
        "scale_s ?b = - (plotHeight / (axis_transform a (axis_max a) - axis_transform a (axis_min a)))"
        using assms(1) by (simp_all add: setTransformationHelpers_def Let_def)
      then show ?thesis using assms(1) YDir unfolding p2c by (simp add: field_simps)
    qed
  qed
  ultimately show ?thesis by blast
qed

theorem coordinates_roundtrip_witness:
  "c2p (setTransformationHelpers 300 200 ((new_axis YDir plain_axis_options 1)\<lparr>axis_max := 8\<rparr>))
     (p2c (setTransformationHelpers 300 200 ((new_axis YDir plain_axis_options 1)\<lparr>axis_max := 8\<rparr>)) 3) = 3"
  using coordinates_roundtrip [of "(new_axis YDir plain_axis_options 1)\<lparr>axis_max := 8\<rparr>" 300 200 3]
  by (simp add: new_axis_def plain_axis_options_def axis_transform_def)
end
