(* ===== verification/FlotTicks.thy ===== *)
theory FlotTicks
  imports FlotData "HOL-Library.Monad_Syntax"
begin

text \<open>
  The ticks of an axis (\<open>setupTickGeneration\<close>, \<open>setTicks\<close>, \<open>snapRangeToTicks\<close> of
  \<open>jquery.flot.js\<close>): the choice of a round tick size, the generator loop, the labels; and the
  sizes and formats of time axes.  The dates themselves (\<open>Date\<close>) come in as their UTC fields.
\<close>

section \<open>Powers of ten\<close>

fun ilog10 :: "nat \<Rightarrow> nat" where
  "ilog10 n = (if n < 10 then 0 else Suc (ilog10 (n div 10)))"

declare ilog10.simps [simp del]

text \<open>\<open>Math.floor(Math.log(x) / Math.LN10)\<close>\<close>

definition floor_log10 :: "rat \<Rightarrow> int" where
  "floor_log10 x = (if 1 \<le> x then int (ilog10 (nat \<lfloor>x\<rfloor>)) else - int (Suc (ilog10 (nat (\<lceil>1 / x\<rceil> - 1)))))"

definition pow10 :: "int \<Rightarrow> rat" where
  "pow10 e = (if 0 \<le> e then 10 ^ nat e else 1 / 10 ^ nat (- e))"

lemma ilog10_bounds: "0 < n \<Longrightarrow> 10 ^ ilog10 n \<le> n \<and> n < 10 ^ Suc (ilog10 n)"
proof (induction n rule: ilog10.induct)
  case (1 n)
  show ?case
  proof (cases "n < 10")
    case True
    then show ?thesis using 1(2) by (simp add: ilog10.simps)
  next
    case False
    then have "10 ^ ilog10 (n div 10) \<le> n div 10" "n div 10 < 10 ^ Suc (ilog10 (n div 10))"
      using 1(1) by (auto simp: div_greater_zero_iff)
    then have "10 ^ Suc (ilog10 (n div 10)) \<le> n" "n < 10 ^ Suc (Suc (ilog10 (n div 10)))"
      by (simp_all add: less_eq_div_iff_mult_less_eq div_less_iff_less_mult mult.commute)
    then show ?thesis using False by (simp add: ilog10.simps [of n])
  qed
qed

lemma pow10_pos [simp]: "0 < pow10 e"
  by (simp add: pow10_def)

lemma pow10_mono: "a \<le> b \<Longrightarrow> pow10 a \<le> pow10 b"
proof -
  assume ab: "a \<le> b"
  consider "0 \<le> a" | "a < 0" "0 \<le> b" | "b < 0" by linarith
  then show ?thesis
  proof cases
    case 1
    with ab show ?thesis by (simp add: pow10_def power_increasing)
  next
    case 2
    have "1 / 10 ^ nat (- a) \<le> (1 :: rat)" "(1 :: rat) \<le> 10 ^ nat b" by (simp_all add: divide_le_eq)
    then have "1 / 10 ^ nat (- a) \<le> (10 :: rat) ^ nat b" by (rule order_trans)
    with 2 show ?thesis by (simp add: pow10_def)
  next
    case 3
    with ab have "(10 :: rat) ^ nat (- b) \<le> 10 ^ nat (- a)" by (intro power_increasing) auto
    with 3 ab show ?thesis by (simp add: pow10_def frac_le)
  qed
qed

lemma pow10_neg: "pow10 (- int (Suc k)) = 1 / 10 ^ Suc k"
  unfolding pow10_def by (simp only: minus_minus nat_int) simp

lemma ilog10_rat:
  assumes "0 < n"
  shows "(10 :: rat) ^ ilog10 n \<le> of_nat n" "of_nat n + 1 \<le> (10 :: rat) ^ Suc (ilog10 n)"
proof -
  have "10 ^ ilog10 n \<le> n" "n + 1 \<le> 10 ^ Suc (ilog10 n)" using ilog10_bounds [OF assms] by simp_all
  then have "of_nat (10 ^ ilog10 n) \<le> (of_nat n :: rat)" "of_nat (n + 1) \<le> (of_nat (10 ^ Suc (ilog10 n)) :: rat)"
    by (simp_all only: of_nat_le_iff)
  then show "(10 :: rat) ^ ilog10 n \<le> of_nat n" "of_nat n + 1 \<le> (10 :: rat) ^ Suc (ilog10 n)" by simp_all
qed

lemma floor_log10_ge_1:
  assumes "1 \<le> x"
  shows "pow10 (floor_log10 x) \<le> x \<and> x < 10 * pow10 (floor_log10 x)"
proof -
  define n where "n = nat \<lfloor>x\<rfloor>"
  have n: "0 < n" "of_nat n \<le> x" "x < of_nat n + 1" using assms by (simp_all add: n_def, linarith+)
  have "10 ^ ilog10 n \<le> x" using ilog10_rat(1) [OF n(1)] n(2) by (rule order_trans)
  moreover have "x < 10 ^ Suc (ilog10 n)" using n(3) ilog10_rat(2) [OF n(1)] by (rule less_le_trans)
  ultimately show ?thesis using assms by (simp add: floor_log10_def pow10_def n_def)
qed

lemma floor_log10_less_1:
  assumes "0 < x" "x < 1"
  shows "pow10 (floor_log10 x) \<le> x \<and> x < 10 * pow10 (floor_log10 x)"
proof -
  define n where "n = nat (\<lceil>1 / x\<rceil> - 1)"
  define k where "k = ilog10 n"
  have "1 < 1 / x" using assms by simp
  then have n: "0 < n" "of_nat n < 1 / x" "1 / x \<le> of_nat n + 1" by (simp_all add: n_def, linarith+)
  have "10 ^ k < 1 / x" using ilog10_rat(1) [OF n(1)] n(2) unfolding k_def by (rule le_less_trans)
  moreover have "1 / x \<le> 10 ^ Suc k" using n(3) ilog10_rat(2) [OF n(1)] unfolding k_def by (rule order_trans)
  ultimately have "x < 1 / 10 ^ k" "1 / 10 ^ Suc k \<le> x"
    using assms(1) by (simp_all add: pos_less_divide_eq pos_divide_le_eq mult.commute)
  moreover have "pow10 (floor_log10 x) = 1 / 10 ^ Suc k"
  proof -
    have "floor_log10 x = - int (Suc k)" using assms(2) by (simp add: floor_log10_def k_def n_def)
    then show ?thesis by (simp only: pow10_neg)
  qed
  ultimately show ?thesis by simp
qed

lemma floor_log10_bounds: "0 < x \<Longrightarrow> pow10 (floor_log10 x) \<le> x \<and> x < 10 * pow10 (floor_log10 x)"
  using floor_log10_ge_1 floor_log10_less_1 by (meson not_le)

section \<open>Numeric ticks\<close>

definition floorInBase :: "rat \<Rightarrow> rat \<Rightarrow> rat" where
  "floorInBase n base = base * of_int \<lfloor>n / base\<rfloor>"

text \<open>
  The wanted number of ticks: the option, or the estimate \<open>0.3 * Math.sqrt(...)\<close> from the size
  of the canvas, which is an argument here.
\<close>

definition noTicks :: "rat \<Rightarrow> axis_options \<Rightarrow> rat" where
  "noTicks estimate opts = (case ticks_opt opts of TicksNumber n \<Rightarrow> if 0 < n then n else estimate | _ \<Rightarrow> estimate)"

text \<open>The round size nearest to \<open>quot\<close> and the decimals needed for it.\<close>

definition round_size :: "int option \<Rightarrow> int \<Rightarrow> rat \<Rightarrow> rat \<times> int" where
  "round_size maxDec dec quot =
     (if quot < 3 / 2 then (1, dec)
      else if quot < 3 then
        (if quot > 9 / 4 \<and> (case maxDec of None \<Rightarrow> True | Some m \<Rightarrow> dec + 1 \<le> m) then (5 / 2, dec + 1) else (2, dec))
      else if quot < 15 / 2 then (5, dec) else (10, dec))"

text \<open>The decimals needed for the wanted distance \<open>delta\<close> of the ticks, and a round size near it.\<close>

definition capped_decimals :: "int option \<Rightarrow> rat \<Rightarrow> int" where
  "capped_decimals maxDec delta =
     (let dec = - floor_log10 delta
      in case maxDec of None \<Rightarrow> dec | Some m \<Rightarrow> if dec > m then m else dec)"

definition natural_size :: "int option \<Rightarrow> rat \<Rightarrow> rat \<times> int" where
  "natural_size maxDec delta =
     (let dec = capped_decimals maxDec delta;
          magn = pow10 (- dec);
          (s, dec') = round_size maxDec dec (delta / magn)
      in (s * magn, dec'))"

text \<open>The tick size and the number of decimals of its labels.\<close>

definition number_tick_size :: "axis_options \<Rightarrow> rat \<Rightarrow> rat \<times> int" where
  "number_tick_size opts delta =
     (let (natural, dec) = natural_size (tickDecimals_opt opts) delta;
          step = (case minTickSize opts of None \<Rightarrow> natural | Some m \<Rightarrow> if natural < m then m else natural)
      in (case tickSize_opt opts of None \<Rightarrow> step | Some t \<Rightarrow> if t = 0 then step else t,
          max 0 (case tickDecimals_opt opts of None \<Rightarrow> dec | Some m \<Rightarrow> m)))"

text \<open>The generator's loop; it may not end (for a tick size that is not positive).\<close>

partial_function (option) tick_loop :: "rat \<Rightarrow> rat \<Rightarrow> rat \<Rightarrow> nat \<Rightarrow> rat option \<Rightarrow> rat list option" where
  "tick_loop start step hi i prev =
     (let v = start + of_nat i * step
      in if v < hi \<and> Some v \<noteq> prev
         then Option.bind (tick_loop start step hi (Suc i) (Some v)) (\<lambda>rest. Some (v # rest)) else Some [v])"

definition number_ticks :: "axis \<Rightarrow> rat list option" where
  "number_ticks a = tick_loop (floorInBase (axis_min a) (tickSize a)) (tickSize a) (axis_max a) 0 None"

definition setupTickGeneration :: "rat \<Rightarrow> axis \<Rightarrow> axis" where
  "setupTickGeneration estimate a =
     (let delta = (axis_max a - axis_min a) / noTicks estimate (axis_opts a);
          (step, dec) = number_tick_size (axis_opts a) delta
      in a\<lparr>tickDecimals := dec, tickSize := step\<rparr>)"

section \<open>Labels\<close>

text \<open>\<open>toFixed\<close>, on the decimals it accepts.\<close>

definition pad_digits :: "nat \<Rightarrow> string \<Rightarrow> string" where
  "pad_digits n s = replicate (n - length s) (CHR ''0'') @ s"

definition fixed_nat :: "nat \<Rightarrow> nat \<Rightarrow> string" where
  "fixed_nat n decimals =
     (if decimals = 0 then show_nat n
      else show_nat (n div 10 ^ decimals) @ ''.'' @ pad_digits decimals (show_nat (n mod 10 ^ decimals)))"

definition to_fixed :: "rat \<Rightarrow> int \<Rightarrow> string js" where
  "to_fixed x decimals =
     (if decimals < 0 \<or> 20 < decimals then raise RangeError
      else ok ((if x < 0 then ''-'' else '''') @
        fixed_nat (nat \<lfloor>\<bar>x\<bar> * 10 ^ nat decimals + 1 / 2\<rfloor>) (nat decimals)))"

definition tick_item_label :: "axis \<Rightarrow> tick_item \<Rightarrow> (rat \<times> string) js" where
  "tick_item_label a t =
     (case t of
        TickValue v \<Rightarrow> js_bind (to_fixed v (tickDecimals a)) (\<lambda>l. ok (v, l))
      | TickLabelled v l \<Rightarrow> ok (v, l))"

fun label_ticks :: "axis \<Rightarrow> tick_item list \<Rightarrow> (rat \<times> string) list js" where
  "label_ticks a [] = ok []"
| "label_ticks a (t # ts) = js_bind (tick_item_label a t) (\<lambda>x. js_bind (label_ticks a ts) (\<lambda>xs. ok (x # xs)))"

text \<open>Where the ticks come from: the generator, a function or a list of the caller, or nowhere.\<close>

definition supplied_ticks :: "axis \<Rightarrow> tick_item list option" where
  "supplied_ticks a =
     (case ticks_opt (axis_opts a) of
        TicksNull \<Rightarrow> map_option (map TickValue) (number_ticks a)
      | TicksNumber n \<Rightarrow> if 0 < n then map_option (map TickValue) (number_ticks a) else Some []
      | TicksList ts \<Rightarrow> Some ts
      | TicksFun f \<Rightarrow> Some (f (axis_min a) (axis_max a)))"

text \<open>The outer option is \<open>None\<close> when the generator's loop does not end.\<close>

definition setTicks :: "axis \<Rightarrow> axis js option" where
  "setTicks a = map_option (\<lambda>ts. js_bind (label_ticks a ts) (\<lambda>l. ok (a\<lparr>axis_ticks := l\<rparr>))) (supplied_ticks a)"

definition snapRangeToTicks :: "axis \<Rightarrow> axis" where
  "snapRangeToTicks a =
     (let ticks = axis_ticks a; opts = axis_opts a
      in if (case autoscaleMargin opts of None \<Rightarrow> True | Some m \<Rightarrow> m = 0) \<or> ticks = [] then a
         else a\<lparr>axis_min := (if min_opt opts = None then min (axis_min a) (fst (hd ticks)) else axis_min a),
                axis_max := (if max_opt opts = None \<and> 1 < length ticks then max (axis_max a) (fst (last ticks)) else axis_max a)\<rparr>)"

section \<open>The ticks cover the range\<close>

lemma tick_loop_ends:
  assumes "0 < step" "prev = None \<or> prev = Some (start + (of_nat i - 1) * step)"
  shows "\<exists>n \<ge> i. tick_loop start step hi i prev = Some (map (\<lambda>j. start + of_nat j * step) [i..<Suc n])
    \<and> hi \<le> start + of_nat n * step \<and> (\<forall>j \<ge> i. j < n \<longrightarrow> start + of_nat j * step < hi)"
  using assms(2)
proof (induction "nat \<lceil>(hi - (start + of_nat i * step)) / step\<rceil>" arbitrary: i prev rule: less_induct)
  case less
  let ?v = "start + of_nat i * step"
  have new: "Some ?v \<noteq> prev" using less.prems assms(1) by auto
  show ?case
  proof (cases "?v < hi")
    case True
    let ?d = "(hi - ?v) / step"
    have d: "0 < ?d" "(hi - (start + of_nat (Suc i) * step)) / step = ?d - 1"
      using True assms(1) by (simp_all add: field_simps)
    then have "nat \<lceil>?d - 1\<rceil> < nat \<lceil>?d\<rceil>" by simp
    moreover have "Some ?v = Some (start + (of_nat (Suc i) - 1) * step)" by simp
    ultimately obtain n where n: "n \<ge> Suc i" "tick_loop start step hi (Suc i) (Some ?v) = Some (map (\<lambda>j. start + of_nat j * step) [Suc i..<Suc n])"
      "hi \<le> start + of_nat n * step" "\<forall>j \<ge> Suc i. j < n \<longrightarrow> start + of_nat j * step < hi"
      using less.hyps [of "Suc i" "Some ?v"] unfolding d(2) by blast
    have "tick_loop start step hi i prev = Some (?v # map (\<lambda>j. start + of_nat j * step) [Suc i..<Suc n])"
      using True new n(2) by (subst tick_loop.simps) simp
    moreover have "[i..<Suc n] = i # [Suc i..<Suc n]" using n(1) by (simp add: upt_conv_Cons)
    moreover have "\<forall>j \<ge> i. j < n \<longrightarrow> start + of_nat j * step < hi"
      using n(4) True by (metis Suc_leI le_neq_implies_less)
    ultimately show ?thesis using n(1,3) by (intro exI [of _ n]) (simp del: upt_Suc)
  next
    case False
    then have "tick_loop start step hi i prev = Some [?v]" by (subst tick_loop.simps) simp
    with False show ?thesis by (intro exI [of _ i]) (simp add: not_less)
  qed
qed

lemma floorInBase_bounds: "0 < b \<Longrightarrow> floorInBase n b \<le> n \<and> n < floorInBase n b + b"
proof -
  assume b: "0 < b"
  have "of_int \<lfloor>n / b\<rfloor> \<le> n / b" "n / b < of_int \<lfloor>n / b\<rfloor> + 1" by linarith+
  with b have "of_int \<lfloor>n / b\<rfloor> * b \<le> n" "n < (of_int \<lfloor>n / b\<rfloor> + 1) * b"
    by (simp_all add: le_divide_eq divide_less_eq)
  then show ?thesis by (simp add: floorInBase_def algebra_simps)
qed

text \<open>For a positive tick size the generator ends; the ticks it makes are the multiples of the size from the
  last one not after the start of the range to the first one not before its end.\<close>

theorem number_ticks_cover_range:
  assumes "0 < tickSize a" "axis_min a < axis_max a"
  shows "\<exists>ticks k n. number_ticks a = Some ticks \<and> ticks = map (\<lambda>j. tickSize a * (of_int k + of_nat j)) [0..<Suc n]
    \<and> hd ticks \<le> axis_min a \<and> axis_min a < hd ticks + tickSize a
    \<and> axis_max a \<le> last ticks \<and> last ticks < axis_max a + tickSize a"
proof -
  let ?k = "\<lfloor>axis_min a / tickSize a\<rfloor>" and ?start = "floorInBase (axis_min a) (tickSize a)"
  obtain n where n: "number_ticks a = Some (map (\<lambda>j. ?start + of_nat j * tickSize a) [0..<Suc n])"
    "axis_max a \<le> ?start + of_nat n * tickSize a" "\<forall>j < n. ?start + of_nat j * tickSize a < axis_max a"
    using tick_loop_ends [OF assms(1), of None ?start 0 "axis_max a"] by (auto simp: number_ticks_def simp del: upt_Suc)
  let ?ticks = "map (\<lambda>j. tickSize a * (of_int ?k + of_nat j)) [0..<Suc n]"
  have ticks: "map (\<lambda>j. ?start + of_nat j * tickSize a) [0..<Suc n] = ?ticks"
    by (simp add: floorInBase_def algebra_simps)
  have hd: "hd ?ticks = ?start" by (simp add: hd_map floorInBase_def del: upt_Suc)
  have lst: "last ?ticks = ?start + of_nat n * tickSize a" by (simp add: floorInBase_def algebra_simps)
  note fl = floorInBase_bounds [OF assms(1), of "axis_min a"]
  have "0 < n" using n(2) fl assms(2) by (cases n) auto
  then have "?start + (of_nat n - 1) * tickSize a < axis_max a"
    using n(3) [rule_format, of "n - 1"] by (simp add: of_nat_diff)
  then have "last ?ticks < axis_max a + tickSize a" unfolding lst by (simp add: algebra_simps)
  then show ?thesis using n(1,2) fl hd lst ticks by (intro exI [of _ ?ticks] exI [of _ ?k] exI [of _ n]) simp
qed

lemma round_size_pos: "0 < fst (round_size maxDec dec q)"
  by (simp add: round_size_def)

lemma natural_size_pos: "0 < fst (natural_size maxDec delta)"
  by (simp add: natural_size_def Let_def round_size_pos case_prod_beta)

lemma number_tick_size_pos:
  assumes "case tickSize_opt opts of None \<Rightarrow> True | Some t \<Rightarrow> 0 \<le> t"
  shows "0 < fst (number_tick_size opts delta)"
  using assms natural_size_pos [of "tickDecimals_opt opts" delta]
  by (auto simp: number_tick_size_def Let_def case_prod_beta split: option.split)

lemma round_size_near: "q < 10 \<Longrightarrow> 2 / 3 * q < fst (round_size maxDec dec q)"
  "1 \<le> q \<Longrightarrow> fst (round_size maxDec dec q) \<le> 5 / 3 * q"
  by (auto simp: round_size_def)

text \<open>Left to itself the tick size is more than two thirds of the distance asked for, so never more
  than half as many ticks again are made; without a limit on the decimals it is at most five thirds of it.\<close>

theorem tick_size_near_wanted:
  assumes "0 < delta" "tickSize_opt opts = None" "minTickSize opts = None"
  shows "2 / 3 * delta < fst (number_tick_size opts delta)
    \<and> (tickDecimals_opt opts = None \<longrightarrow> fst (number_tick_size opts delta) \<le> 5 / 3 * delta)"
proof -
  define dec where "dec = capped_decimals (tickDecimals_opt opts) delta"
  define magn where "magn = pow10 (- dec)"
  define q where "q = delta / magn"
  have magn: "0 < magn" by (simp add: magn_def)
  have stp: "fst (number_tick_size opts delta) = fst (round_size (tickDecimals_opt opts) dec q) * magn"
    using assms(2,3) by (simp add: number_tick_size_def natural_size_def Let_def dec_def magn_def q_def case_prod_beta)
  have "floor_log10 delta \<le> - dec" by (simp add: dec_def capped_decimals_def Let_def split: option.split)
  then have "pow10 (floor_log10 delta) \<le> magn" unfolding magn_def by (rule pow10_mono)
  then have q: "q < 10"
    using floor_log10_bounds [OF assms(1)] magn by (simp add: q_def divide_less_eq)
  have one: "1 \<le> q" if "tickDecimals_opt opts = None"
    using floor_log10_bounds [OF assms(1)] magn that by (simp add: q_def magn_def dec_def capped_decimals_def Let_def)
  have delta: "delta = q * magn" using magn by (simp add: q_def)
  have "2 / 3 * q * magn < fst (round_size (tickDecimals_opt opts) dec q) * magn"
    using round_size_near(1) [OF q] magn by simp
  moreover have "fst (round_size (tickDecimals_opt opts) dec q) * magn \<le> 5 / 3 * q * magn" if "tickDecimals_opt opts = None"
    using round_size_near(2) [OF one [OF that]] magn by simp
  moreover have "2 / 3 * delta = 2 / 3 * q * magn" "5 / 3 * delta = 5 / 3 * q * magn" by (simp_all add: delta)
  ultimately show ?thesis unfolding stp by metis
qed

theorem number_ticks_cover_range_witness:
  "\<exists>ticks. number_ticks ((new_axis XDir plain_axis_options 1)\<lparr>axis_min := 3, axis_max := 11, tickSize := 5 / 2\<rparr>) = Some ticks
    \<and> hd ticks \<le> 3 \<and> 11 \<le> last ticks"
  using number_ticks_cover_range [of "(new_axis XDir plain_axis_options 1)\<lparr>axis_min := 3, axis_max := 11, tickSize := 5 / 2\<rparr>"]
  by auto

theorem tick_size_near_wanted_witness:
  "2 / 3 * 7 < fst (number_tick_size plain_axis_options 7) \<and> fst (number_tick_size plain_axis_options 7) \<le> 5 / 3 * 7"
  using tick_size_near_wanted [of 7 plain_axis_options] by (simp add: plain_axis_options_def)

text \<open>Snapping only widens the range, and afterwards the range starts and ends at a tick or
  where the caller fixed it.\<close>

lemma snap_widens: "axis_min (snapRangeToTicks a) \<le> axis_min a \<and> axis_max a \<le> axis_max (snapRangeToTicks a)"
  by (simp add: snapRangeToTicks_def Let_def)

lemma snapped_to_ticks:
  assumes "autoscaleMargin (axis_opts a) = Some m" "m \<noteq> 0" "1 < length (axis_ticks a)"
    "min_opt (axis_opts a) = None" "max_opt (axis_opts a) = None"
    "fst (hd (axis_ticks a)) \<le> axis_min a" "axis_max a \<le> fst (last (axis_ticks a))"
  shows "axis_min (snapRangeToTicks a) = fst (hd (axis_ticks a)) \<and> axis_max (snapRangeToTicks a) = fst (last (axis_ticks a))"
  using assms by (auto simp: snapRangeToTicks_def Let_def)

section \<open>Time axes\<close>

datatype time_unit = Second | Minute | Hour | Day | Month | Year

fun timeUnitSize :: "time_unit \<Rightarrow> rat" where
  "timeUnitSize Second = 1000"
| "timeUnitSize Minute = 60 * 1000"
| "timeUnitSize Hour = 60 * 60 * 1000"
| "timeUnitSize Day = 24 * 60 * 60 * 1000"
| "timeUnitSize Month = 30 * 24 * 60 * 60 * 1000"
| "timeUnitSize Year = 3652425 / 10000 * 24 * 60 * 60 * 1000"

text \<open>The allowed tick sizes.\<close>

definition time_spec :: "(rat \<times> time_unit) list" where
  "time_spec = [(1, Second), (2, Second), (5, Second), (10, Second), (30, Second),
     (1, Minute), (2, Minute), (5, Minute), (10, Minute), (30, Minute),
     (1, Hour), (2, Hour), (4, Hour), (8, Hour), (12, Hour), (1, Day), (2, Day), (3, Day),
     (1 / 4, Month), (1 / 2, Month), (1, Month), (2, Month), (3, Month), (6, Month), (1, Year)]"

definition spec_ms :: "rat \<times> time_unit \<Rightarrow> rat" where
  "spec_ms s = fst s * timeUnitSize (snd s)"

text \<open>
  The smallest size: with \<open>minTickSize\<close> given, a number \<open>tickSize\<close> is taken instead (the code
  tests the type of the wrong option); \<open>Inl\<close> is a number, \<open>Inr\<close> a pair.  The result \<open>None\<close> is \<open>NaN\<close>.
\<close>

definition min_time_size :: "(rat + rat \<times> time_unit) option \<Rightarrow> (rat + rat \<times> time_unit) option \<Rightarrow> rat option" where
  "min_time_size minTick tick =
     (case minTick of None \<Rightarrow> Some 0
      | Some m \<Rightarrow> (case tick of Some (Inl n) \<Rightarrow> Some n
                   | _ \<Rightarrow> (case m of Inr s \<Rightarrow> Some (spec_ms s) | Inl n \<Rightarrow> None)))"

definition large_enough :: "rat option \<Rightarrow> rat \<times> time_unit \<Rightarrow> bool" where
  "large_enough minSize s = (case minSize of None \<Rightarrow> False | Some m \<Rightarrow> spec_ms s \<ge> m)"

text \<open>The first size that is near enough and large enough; the last one if there is none.\<close>

fun find_spec :: "(rat \<times> time_unit) list \<Rightarrow> rat \<Rightarrow> rat option \<Rightarrow> rat \<times> time_unit" where
  "find_spec (s # t # rest) delta minSize =
     (if delta < (spec_ms s + spec_ms t) / 2 \<and> large_enough minSize s then s else find_spec (t # rest) delta minSize)"
| "find_spec (s # []) delta minSize = s"
| "find_spec [] delta minSize = (1, Year)"

definition time_tick_size :: "rat \<Rightarrow> rat option \<Rightarrow> rat \<times> time_unit" where
  "time_tick_size delta minSize =
     (let (step, unit) = find_spec time_spec delta minSize
      in if unit = Year
         then (let years = delta / timeUnitSize Year; magn = pow10 (floor_log10 years); q = years / magn
               in ((if q < 3 / 2 then 1 else if q < 3 then 2 else if q < 15 / 2 then 5 else 10) * magn, Year))
         else (step, unit))"

text \<open>The format of the labels, from the size of the ticks and the span of the axis.\<close>

definition time_format :: "rat \<Rightarrow> rat \<Rightarrow> bool \<Rightarrow> string" where
  "time_format t range_ms twelveHourClock =
     (let suffix = (if twelveHourClock then '' %p'' else '''')
      in if t < timeUnitSize Minute then ''%h:%M:%S'' @ suffix
         else if t < timeUnitSize Day then
           (if range_ms < 2 * timeUnitSize Day then ''%h:%M'' @ suffix else ''%b %d %h:%M'' @ suffix)
         else if t < timeUnitSize Month then ''%b %d''
         else if t < timeUnitSize Year then (if range_ms < timeUnitSize Year then ''%b'' else ''%b %y'')
         else ''%y'')"

section \<open>Formatting dates\<close>

record utc_date =
  utc_year :: nat
  utc_month :: nat
  utc_day :: nat
  utc_hours :: nat
  utc_minutes :: nat
  utc_seconds :: nat

definition leftPad :: "string \<Rightarrow> string" where
  "leftPad n = (if length n = 1 then ''0'' @ n else n)"

definition default_months :: "string list" where
  "default_months = [''Jan'', ''Feb'', ''Mar'', ''Apr'', ''May'', ''Jun'', ''Jul'', ''Aug'', ''Sep'', ''Oct'', ''Nov'', ''Dec'']"

text \<open>\<open>fmt.search(/%p|%P/) != -1\<close>\<close>

definition twelve_hours :: "string \<Rightarrow> bool" where
  "twelve_hours fmt \<longleftrightarrow> indexOf fmt ''%p'' 0 \<noteq> -1 \<or> indexOf fmt ''%P'' 0 \<noteq> -1"

definition clock_hours :: "string \<Rightarrow> nat \<Rightarrow> nat" where
  "clock_hours fmt h =
     (if twelve_hours fmt then (if h > 12 then h - 12 else if h = 0 then 12 else h) else h)"

text \<open>The value of an escape; a character without a meaning stands for itself.\<close>

definition escape_value :: "nat \<Rightarrow> string list \<Rightarrow> utc_date \<Rightarrow> char \<Rightarrow> string" where
  "escape_value hours months d c =
     (if c = CHR ''h'' then show_nat hours
      else if c = CHR ''H'' then leftPad (show_nat hours)
      else if c = CHR ''M'' then leftPad (show_nat (utc_minutes d))
      else if c = CHR ''S'' then leftPad (show_nat (utc_seconds d))
      else if c = CHR ''d'' then show_nat (utc_day d)
      else if c = CHR ''m'' then show_nat (utc_month d + 1)
      else if c = CHR ''y'' then show_nat (utc_year d)
      else if c = CHR ''b'' then (case aref months (utc_month d) of None \<Rightarrow> ''undefined'' | Some m \<Rightarrow> m)
      else if c = CHR ''p'' then (if utc_hours d < 12 then ''am'' else ''pm'')
      else if c = CHR ''P'' then (if utc_hours d < 12 then ''AM'' else ''PM'')
      else if c = CHR ''0'' then ''''
      else [c])"

fun format_loop :: "nat \<Rightarrow> string list \<Rightarrow> utc_date \<Rightarrow> bool \<Rightarrow> bool \<Rightarrow> string \<Rightarrow> string" where
  "format_loop hours months d escape padNext [] = []"
| "format_loop hours months d escape padNext (c # cs) =
     (if escape then
        (let v = escape_value hours months d c;
             pad = padNext \<or> c = CHR ''0'';
             v' = (if v \<noteq> [] \<and> pad then leftPad v else v);
             pad' = (if v \<noteq> [] \<and> pad then False else pad)
         in v' @ format_loop hours months d pad' pad' cs)
      else if c = CHR ''%'' then format_loop hours months d True padNext cs
      else c # format_loop hours months d False padNext cs)"

definition formatDate :: "utc_date \<Rightarrow> string \<Rightarrow> string list option \<Rightarrow> string" where
  "formatDate d fmt monthNames =
     format_loop (clock_hours fmt (utc_hours d)) (case monthNames of None \<Rightarrow> default_months | Some m \<Rightarrow> m) d False False fmt"
text \<open>What is done with a character outside an escape, and with an escape.\<close>

lemma format_plain: "\<forall>c \<in> set s. c \<noteq> CHR ''%'' \<Longrightarrow> format_loop h ms d False False (s @ rest) = s @ format_loop h ms d False False rest"
  by (induction s) auto

lemma format_escape:
  "c \<noteq> CHR ''0'' \<Longrightarrow> format_loop h ms d False False (CHR ''%'' # c # rest) = escape_value h ms d c @ format_loop h ms d False False rest"
  by simp

lemma show_nat_not_empty: "show_nat n \<noteq> []"
  by (subst show_nat.simps) simp

lemma escape_value_empty: "c \<noteq> CHR ''0'' \<Longrightarrow> [] \<notin> set months \<Longrightarrow> escape_value h months d c \<noteq> []"
proof -
  assume c: "c \<noteq> CHR ''0''" and "[] \<notin> set months"
  then have "\<forall>i < length months. months ! i \<noteq> []" using nth_mem by metis
  with c show ?thesis
    by (auto simp: escape_value_def leftPad_def show_nat_not_empty aref_Some_iff split: option.split)
qed

lemma format_padded:
  assumes "c \<noteq> CHR ''0''" "[] \<notin> set months"
  shows "format_loop h months d False False (CHR ''%'' # CHR ''0'' # c # rest)
    = leftPad (escape_value h months d c) @ format_loop h months d False False rest"
proof -
  have "escape_value h months d (CHR ''0'') = []" by (simp add: escape_value_def)
  then show ?thesis using escape_value_empty [OF assms] assms(1) by (simp add: Let_def)
qed

text \<open>A format as a list of parts: plain text, an escape, a padded escape.\<close>

datatype fmt_part = Plain string | Escape char | Padded char

fun part_text :: "fmt_part \<Rightarrow> string" where
  "part_text (Plain s) = s"
| "part_text (Escape c) = [CHR ''%'', c]"
| "part_text (Padded c) = [CHR ''%'', CHR ''0'', c]"

fun part_ok :: "fmt_part \<Rightarrow> bool" where
  "part_ok (Plain s) = list_all (\<lambda>c. c \<noteq> CHR ''%'') s"
| "part_ok (Escape c) = (c \<noteq> CHR ''0'')"
| "part_ok (Padded c) = (c \<noteq> CHR ''0'')"

fun part_value :: "nat \<Rightarrow> string list \<Rightarrow> utc_date \<Rightarrow> fmt_part \<Rightarrow> string" where
  "part_value h months d (Plain s) = s"
| "part_value h months d (Escape c) = escape_value h months d c"
| "part_value h months d (Padded c) = leftPad (escape_value h months d c)"

lemma format_parts:
  assumes "list_all part_ok ps" "[] \<notin> set months"
  shows "format_loop h months d False False (concat (map part_text ps)) = concat (map (part_value h months d) ps)"
  using assms(1)
proof (induction ps)
  case (Cons p ps)
  then show ?case
  proof (cases p)
    case (Plain s)
    with Cons format_plain [of s] show ?thesis by (simp add: list_all_iff)
  next
    case (Escape c)
    with Cons show ?thesis by simp
  next
    case (Padded c)
    with Cons format_padded [OF _ assms(2), of c h d "concat (map part_text ps)"] show ?thesis
      by (simp del: format_loop.simps)
  qed
qed simp

text \<open>A format made of plain text, escapes and padded escapes is rendered part by part.\<close>

theorem formatDate_by_parts:
  assumes "list_all part_ok ps" "[] \<notin> set months"
  shows "formatDate d (concat (map part_text ps)) (Some months)
    = concat (map (part_value (clock_hours (concat (map part_text ps)) (utc_hours d)) months d) ps)"
  using format_parts [OF assms] by (simp add: formatDate_def)

theorem formatDate_by_parts_witness:
  "formatDate \<lparr>utc_year = 2011, utc_month = 3, utc_day = 7, utc_hours = 15, utc_minutes = 4, utc_seconds = 9\<rparr>
     ''%0d %b, %h:%M%p'' (Some default_months) = ''07 Apr, 3:04pm''"
proof -
  have "clock_hours ''%0d %b, %h:%M%p'' 15 = 3" by code_simp
  moreover have "leftPad (show_nat 7) = ''07''" "leftPad (show_nat 4) = ''04''" "show_nat 3 = ''3''" by code_simp+
  ultimately show ?thesis
    using formatDate_by_parts [of "[Padded CHR ''d'', Plain '' '', Escape CHR ''b'', Plain '', '', Escape CHR ''h'', Plain '':'', Escape CHR ''M'', Escape CHR ''p'']"
      default_months "\<lparr>utc_year = 2011, utc_month = 3, utc_day = 7, utc_hours = 15, utc_minutes = 4, utc_seconds = 9\<rparr>"]
    by (simp add: default_months_def escape_value_def)
qed

end
