(* ===== verification/FlotDraw.thy ===== *)
theory FlotDraw
  imports FlotData "HOL-Library.Monad_Syntax"
begin

text \<open>
  Drawing the series in \<open>jquery.flot.js\<close>: lines, filled areas, points and bars, clipped to the
  visible ranges of their axes.  A drawing function returns the list of the canvas calls it
  makes.  Colours stay symbolic: a style says how it is derived from the colour of the series.
\<close>

section \<open>Canvas calls\<close>

datatype style = StyleText string | StyleSeries series_color | StyleAlpha series_color rat
  | StyleVaried series_color "rat option" "rat option" | StyleGradient rat rat "(rat \<times> style) list"

datatype canvas_call = Save | Restore | Translate rat rat | LineJoin string | LineWidth rat | StrokeStyle style
  | FillStyle style | BeginPath | ClosePath | MoveTo rat rat | LineTo rat rat | HalfCircle rat rat rat
  | Circle rat rat rat | Fill | Stroke

section \<open>Clipping a line\<close>

text \<open>The ends of a segment; the first coordinate of each end is the one being clipped.\<close>

type_synonym segment = "(rat \<times> rat) \<times> rat \<times> rat"

definition cut_at :: "rat \<Rightarrow> segment \<Rightarrow> rat" where
  "cut_at b s = (case s of ((u1, v1), (u2, v2)) \<Rightarrow> (b - u1) / (u2 - u1) * (v2 - v1) + v1)"

definition clip_min :: "rat \<Rightarrow> segment \<Rightarrow> segment option" where
  "clip_min lo s =
     (case s of ((u1, v1), (u2, v2)) \<Rightarrow>
        if u1 \<le> u2 \<and> u1 < lo then (if u2 < lo then None else Some ((lo, cut_at lo s), (u2, v2)))
        else if u2 \<le> u1 \<and> u2 < lo then (if u1 < lo then None else Some ((u1, v1), (lo, cut_at lo s)))
        else Some s)"

definition clip_max :: "rat \<Rightarrow> segment \<Rightarrow> segment option" where
  "clip_max hi s =
     (case s of ((u1, v1), (u2, v2)) \<Rightarrow>
        if u1 \<ge> u2 \<and> u1 > hi then (if u2 > hi then None else Some ((hi, cut_at hi s), (u2, v2)))
        else if u2 \<ge> u1 \<and> u2 > hi then (if u1 > hi then None else Some ((u1, v1), (hi, cut_at hi s)))
        else Some s)"

definition flip :: "segment \<Rightarrow> segment" where
  "flip s = (prod.swap (fst s), prod.swap (snd s))"

definition clip_x :: "axis \<Rightarrow> segment \<Rightarrow> segment option" where
  "clip_x ax s = do { s \<leftarrow> clip_min (axis_min ax) s; clip_max (axis_max ax) s }"

text \<open>First along y, from below and above, then along x.\<close>

definition clip_line :: "axis \<Rightarrow> axis \<Rightarrow> segment \<Rightarrow> segment option" where
  "clip_line ax ay s = do {
     s \<leftarrow> clip_min (axis_min ay) (flip s);
     s \<leftarrow> clip_max (axis_max ay) s;
     clip_x ax (flip s) }"

section \<open>Lines\<close>

definition xy :: "point \<Rightarrow> (rat \<times> rat) option" where
  "xy pt = (case (pt ! 0, pt ! 1) of (Some x, Some y) \<Rightarrow> Some (x, y) | _ \<Rightarrow> None)"

text \<open>One round of \<open>plotLine\<close>: the calls and the end of the last line drawn.\<close>

definition line_round ::
  "rat \<Rightarrow> rat \<Rightarrow> axis \<Rightarrow> axis \<Rightarrow> (rat \<times> rat) option \<Rightarrow> point \<Rightarrow> point \<Rightarrow> canvas_call list \<times> (rat \<times> rat) option" where
  "line_round xoffset yoffset ax ay prev p1 p2 =
     (case (xy p1, xy p2) of
        (Some e1, Some e2) \<Rightarrow>
          (case clip_line ax ay (e1, e2) of
             None \<Rightarrow> ([], prev)
           | Some ((x1, y1), (x2, y2)) \<Rightarrow>
               ((if Some (x1, y1) \<noteq> prev then [MoveTo (p2c ax x1 + xoffset) (p2c ay y1 + yoffset)] else []) @
                [LineTo (p2c ax x2 + xoffset) (p2c ay y2 + yoffset)], Some (x2, y2)))
      | _ \<Rightarrow> ([], prev))"

fun line_calls :: "rat \<Rightarrow> rat \<Rightarrow> axis \<Rightarrow> axis \<Rightarrow> (rat \<times> rat) option \<Rightarrow> point list \<Rightarrow> canvas_call list" where
  "line_calls xo yo ax ay prev (p1 # p2 # ps) =
     (let (calls, prev') = line_round xo yo ax ay prev p1 p2 in calls @ line_calls xo yo ax ay prev' (p2 # ps))"
| "line_calls xo yo ax ay prev (p # []) = []"
| "line_calls xo yo ax ay prev [] = []"

definition plotLine :: "point list \<Rightarrow> rat \<Rightarrow> rat \<Rightarrow> axis \<Rightarrow> axis \<Rightarrow> canvas_call list" where
  "plotLine pts xo yo ax ay = [BeginPath] @ line_calls xo yo ax ay None pts @ [Stroke]"

section \<open>Filled areas\<close>

text \<open>
  The state of \<open>plotLineArea\<close>: the index counts points; going backwards, the third coordinate
  is read instead of the second.
\<close>

record area_state =
  area_i :: int
  area_forward :: bool
  area_open :: bool
  segmentStart :: int
  segmentEnd :: int

definition area_point :: "point list \<Rightarrow> int \<Rightarrow> bool \<Rightarrow> (rat \<times> rat) option" where
  "area_point pts i forward =
     (if 0 \<le> i \<and> i < int (length pts)
      then (case (pts ! nat i ! 0, pts ! nat i ! (if forward then 1 else 2)) of
              (Some x, Some y) \<Rightarrow> Some (x, y) | _ \<Rightarrow> None)
      else None)"

text \<open>The y values are clipped without dropping anything: what sticks out becomes a flat piece.\<close>

definition area_clip_y :: "axis \<Rightarrow> segment \<Rightarrow> segment" where
  "area_clip_y ay s =
     (let (a, b) = (axis_min ay, axis_max ay);
          s1 = (case s of ((y1, x1), (y2, x2)) \<Rightarrow>
                  if y1 \<le> y2 \<and> y1 < a \<and> y2 \<ge> a then ((a, cut_at a s), (y2, x2))
                  else if y2 \<le> y1 \<and> y2 < a \<and> y1 \<ge> a then ((y1, x1), (a, cut_at a s)) else s)
      in (case s1 of ((y1, x1), (y2, x2)) \<Rightarrow>
            if y1 \<ge> y2 \<and> y1 > b \<and> y2 \<le> b then ((b, cut_at b s1), (y2, x2))
            else if y2 \<ge> y1 \<and> y2 > b \<and> y1 \<le> b then ((y1, x1), (b, cut_at b s1)) else s1))"

definition area_piece :: "axis \<Rightarrow> axis \<Rightarrow> segment \<Rightarrow> canvas_call list" where
  "area_piece ax ay s =
     (case s of ((x1, y1), (x2, y2)) \<Rightarrow>
       (if y1 \<ge> axis_max ay \<and> y2 \<ge> axis_max ay
        then [LineTo (p2c ax x1) (p2c ay (axis_max ay)), LineTo (p2c ax x2) (p2c ay (axis_max ay))]
        else if y1 \<le> axis_min ay \<and> y2 \<le> axis_min ay
        then [LineTo (p2c ax x1) (p2c ay (axis_min ay)), LineTo (p2c ax x2) (p2c ay (axis_min ay))]
        else (case flip (area_clip_y ay (flip s)) of ((x1', y1'), (x2', y2')) \<Rightarrow>
          (if x1' \<noteq> x1 then [LineTo (p2c ax x1) (p2c ay y1')] else []) @
          [LineTo (p2c ax x1') (p2c ay y1'), LineTo (p2c ax x2') (p2c ay y2')] @
          (if x2' \<noteq> x2 then [LineTo (p2c ax x2') (p2c ay y2'), LineTo (p2c ax x2) (p2c ay y2')] else []))))"

definition area_bottom :: "axis \<Rightarrow> rat" where
  "area_bottom ay = min (max 0 (axis_min ay)) (axis_max ay)"

definition area_draw :: "axis \<Rightarrow> axis \<Rightarrow> (rat \<times> rat) option \<Rightarrow> (rat \<times> rat) option \<Rightarrow> area_state \<Rightarrow> canvas_call list \<times> area_state" where
  "area_draw ax ay p1 p2 st =
     (case (p1, p2) of
        (Some e1, Some e2) \<Rightarrow>
          (case clip_x ax (e1, e2) of
             None \<Rightarrow> ([], st)
           | Some s \<Rightarrow>
               ((if area_open st then [] else [BeginPath, MoveTo (p2c ax (fst (fst s))) (p2c ay (area_bottom ay))]) @ area_piece ax ay s,
                st\<lparr>area_open := True\<rparr>))
      | _ \<Rightarrow> ([], st))"

text \<open>One round of the loop; \<open>None\<close> is the \<open>break\<close>.\<close>

definition area_round :: "point list \<Rightarrow> axis \<Rightarrow> axis \<Rightarrow> area_state \<Rightarrow> (canvas_call list \<times> area_state) option" where
  "area_round pts ax ay st =
     (if area_forward st \<and> area_i st > int (length pts) + 1 then None
      else
        (let step = (if area_forward st then 1 else -1);
             i = area_i st + step;
             p1 = area_point pts (i - step) (area_forward st);
             p2 = area_point pts i (area_forward st);
             st' = st\<lparr>area_i := i\<rparr>
         in Some (if area_open st \<and> area_forward st \<and> p1 \<noteq> None \<and> p2 = None
                  then ([], st'\<lparr>segmentEnd := i, area_forward := False\<rparr>)
                  else if area_open st \<and> \<not> area_forward st \<and> i = segmentStart st - 1
                  then ([Fill], st'\<lparr>area_open := False, area_forward := True, area_i := segmentEnd st + 1,
                                  segmentStart := segmentEnd st + 1\<rparr>)
                  else area_draw ax ay p1 p2 st')))"

partial_function (option) area_loop :: "point list \<Rightarrow> axis \<Rightarrow> axis \<Rightarrow> area_state \<Rightarrow> canvas_call list option" where
  "area_loop pts ax ay st =
     (case area_round pts ax ay st of
        None \<Rightarrow> Some []
      | Some (calls, st') \<Rightarrow> Option.bind (area_loop pts ax ay st') (\<lambda>rest. Some (calls @ rest)))"

definition plotLineArea :: "point list \<Rightarrow> axis \<Rightarrow> axis \<Rightarrow> canvas_call list option" where
  "plotLineArea pts ax ay =
     area_loop pts ax ay \<lparr>area_i = 0, area_forward = True, area_open = False, segmentStart = 0, segmentEnd = 0\<rparr>"

section \<open>Fill styles\<close>

fun stop_style :: "series_color \<Rightarrow> grad_stop \<Rightarrow> style" where
  "stop_style dflt (StopColor t) = StyleText t"
| "stop_style dflt (StopVaried brightness opacity) = StyleVaried dflt brightness opacity"

fun getColorOrGradient :: "fill_color \<Rightarrow> rat \<Rightarrow> rat \<Rightarrow> series_color \<Rightarrow> style" where
  "getColorOrGradient (FillColorText t) ybottom ytop dflt = StyleText t"
| "getColorOrGradient (FillGradient stops) ybottom ytop dflt =
     StyleGradient ytop ybottom
       (map (\<lambda>i. (of_nat i / of_nat (length stops - 1), stop_style dflt (stops ! i))) [0..<length stops])"

definition getFillStyle :: "fill_spec \<Rightarrow> fill_color option \<Rightarrow> series_color \<Rightarrow> rat \<Rightarrow> rat \<Rightarrow> style option" where
  "getFillStyle fill fillColor sc ybottom ytop =
     (if \<not> fill_on fill then None
      else (case fillColor of
              Some spec \<Rightarrow> Some (getColorOrGradient spec ybottom ytop sc)
            | None \<Rightarrow> Some (StyleAlpha sc (clamp 0 (case fill of FillAlpha a \<Rightarrow> a | _ \<Rightarrow> 2 / 5) 1))))"

text \<open>
  \<open>drawSeriesLines\<close>; the sine and cosine of the shadow's angle are arguments.  The result is \<open>None\<close> if the area
  loop does not end.
\<close>

definition line_shadow :: "rat \<Rightarrow> rat \<Rightarrow> series \<Rightarrow> axis \<Rightarrow> axis \<Rightarrow> canvas_call list" where
  "line_shadow sine cosine s ax ay =
     (let lw = lines_lineWidth s; sw = shadowSize s; pts = dp_points (sdatapoints s)
      in if lw > 0 \<and> sw > 0
         then [LineWidth sw, StrokeStyle (StyleText ''rgba(0,0,0,0.1)'')] @
              plotLine pts (sine * (lw / 2 + sw / 2)) (cosine * (lw / 2 + sw / 2)) ax ay @
              [LineWidth (sw / 2)] @
              plotLine pts (sine * (lw / 2 + sw / 4)) (cosine * (lw / 2 + sw / 4)) ax ay
         else [])"

definition drawSeriesLines :: "rat \<Rightarrow> rat \<Rightarrow> rat \<Rightarrow> rat \<Rightarrow> rat \<Rightarrow> series \<Rightarrow> axis \<Rightarrow> axis \<Rightarrow> canvas_call list option" where
  "drawSeriesLines sine cosine left ytop plotHeight s ax ay =
     (let pts = dp_points (sdatapoints s);
          fillStyle = getFillStyle (lines_fill s) (lines_fillColor s) (scolor s) 0 plotHeight
      in do {
        area \<leftarrow> (case fillStyle of None \<Rightarrow> Some []
                 | Some f \<Rightarrow> map_option (\<lambda>calls. FillStyle f # calls) (plotLineArea pts ax ay));
        Some ([Save, Translate left ytop, LineJoin ''round''] @ line_shadow sine cosine s ax ay @
          [LineWidth (lines_lineWidth s), StrokeStyle (StyleSeries (scolor s))] @ area @
          (if lines_lineWidth s > 0 then plotLine pts 0 0 ax ay else []) @ [Restore]) })"

section \<open>Points\<close>

definition outside :: "axis \<Rightarrow> rat \<Rightarrow> bool" where
  "outside a v \<longleftrightarrow> v < axis_min a \<or> v > axis_max a"

definition plot_point :: "rat \<Rightarrow> style option \<Rightarrow> rat \<Rightarrow> bool \<Rightarrow> axis \<Rightarrow> axis \<Rightarrow> point \<Rightarrow> canvas_call list" where
  "plot_point radius fillStyle offset shadow ax ay pt =
     (case xy pt of None \<Rightarrow> []
      | Some (x, y) \<Rightarrow>
          (if outside ax x \<or> outside ay y then []
           else [BeginPath, (if shadow then HalfCircle else Circle) (p2c ax x) (p2c ay y + offset) radius, ClosePath] @
                (case fillStyle of None \<Rightarrow> [] | Some f \<Rightarrow> [FillStyle f, Fill]) @ [Stroke]))"

definition plotPoints :: "point list \<Rightarrow> rat \<Rightarrow> style option \<Rightarrow> rat \<Rightarrow> bool \<Rightarrow> axis \<Rightarrow> axis \<Rightarrow> canvas_call list" where
  "plotPoints pts radius fillStyle offset shadow ax ay =
     concat (map (plot_point radius fillStyle offset shadow ax ay) pts)"

definition drawSeriesPoints :: "rat \<Rightarrow> rat \<Rightarrow> series \<Rightarrow> axis \<Rightarrow> axis \<Rightarrow> canvas_call list" where
  "drawSeriesPoints left ytop s ax ay =
     (let lw = points_lineWidth s; sw = shadowSize s; radius = points_radius s; pts = dp_points (sdatapoints s); w = sw / 2
      in [Save, Translate left ytop] @
         (if lw > 0 \<and> sw > 0
          then [LineWidth w, StrokeStyle (StyleText ''rgba(0,0,0,0.1)'')] @ plotPoints pts radius None (w + w / 2) True ax ay @
               [StrokeStyle (StyleText ''rgba(0,0,0,0.2)'')] @ plotPoints pts radius None (w / 2) True ax ay
          else []) @
         [LineWidth lw, StrokeStyle (StyleSeries (scolor s))] @
         plotPoints pts radius (getFillStyle (points_fill s) (points_fillColor s) (scolor s) 0 0) 0 False ax ay @
         [Restore])"

section \<open>Bars\<close>

record bar =
  b_left :: rat
  b_right :: rat
  b_bottom :: rat
  b_top :: rat
  draw_left :: bool
  draw_right :: bool
  draw_top :: bool
  draw_bottom :: bool

definition bar_shape :: "rat \<Rightarrow> rat \<Rightarrow> rat \<Rightarrow> rat \<Rightarrow> rat \<Rightarrow> bool \<Rightarrow> bar" where
  "bar_shape x y b barLeft barRight horizontal =
     (if horizontal then
        (if x < b then \<lparr>b_left = x, b_right = b, b_bottom = y + barRight, b_top = y + barLeft,
                        draw_left = True, draw_right = False, draw_top = True, draw_bottom = True\<rparr>
         else \<lparr>b_left = b, b_right = x, b_bottom = y + barRight, b_top = y + barLeft,
               draw_left = False, draw_right = True, draw_top = True, draw_bottom = True\<rparr>)
      else
        (if y < b then \<lparr>b_left = x + barLeft, b_right = x + barRight, b_bottom = y, b_top = b,
                        draw_left = True, draw_right = True, draw_top = False, draw_bottom = True\<rparr>
         else \<lparr>b_left = x + barLeft, b_right = x + barRight, b_bottom = b, b_top = y,
               draw_left = True, draw_right = True, draw_top = True, draw_bottom = False\<rparr>))"

definition clip_bar :: "axis \<Rightarrow> axis \<Rightarrow> bar \<Rightarrow> bar option" where
  "clip_bar ax ay r =
     (if b_right r < axis_min ax \<or> b_left r > axis_max ax \<or> b_top r < axis_min ay \<or> b_bottom r > axis_max ay then None
      else
        (let r = (if b_left r < axis_min ax then r\<lparr>b_left := axis_min ax, draw_left := False\<rparr> else r);
             r = (if b_right r > axis_max ax then r\<lparr>b_right := axis_max ax, draw_right := False\<rparr> else r);
             r = (if b_bottom r < axis_min ay then r\<lparr>b_bottom := axis_min ay, draw_bottom := False\<rparr> else r)
         in Some (if b_top r > axis_max ay then r\<lparr>b_top := axis_max ay, draw_top := False\<rparr> else r)))"

definition edge :: "bool \<Rightarrow> rat \<Rightarrow> rat \<Rightarrow> canvas_call" where
  "edge draw x y = (if draw then LineTo x y else MoveTo x y)"

definition drawBar ::
  "rat \<Rightarrow> rat \<Rightarrow> rat \<Rightarrow> rat \<Rightarrow> rat \<Rightarrow> rat \<Rightarrow> (rat \<Rightarrow> rat \<Rightarrow> style option) option \<Rightarrow> axis \<Rightarrow> axis \<Rightarrow> bool \<Rightarrow> rat \<Rightarrow> canvas_call list" where
  "drawBar x y b barLeft barRight offset fillStyleCallback ax ay horizontal lineWidth =
     (case clip_bar ax ay (bar_shape x y b barLeft barRight horizontal) of
        None \<Rightarrow> []
      | Some r \<Rightarrow>
          (let left = p2c ax (b_left r); right = p2c ax (b_right r); ybottom = p2c ay (b_bottom r); ytop = p2c ay (b_top r)
           in (case fillStyleCallback of None \<Rightarrow> []
               | Some f \<Rightarrow> [BeginPath, MoveTo left ybottom, LineTo left ytop, LineTo right ytop, LineTo right ybottom] @
                   (case f ybottom ytop of None \<Rightarrow> [] | Some st \<Rightarrow> [FillStyle st]) @ [Fill]) @
              (if lineWidth > 0 \<and> (draw_left r \<or> draw_right r \<or> draw_top r \<or> draw_bottom r)
               then [BeginPath, MoveTo left (ybottom + offset), edge (draw_left r) left (ytop + offset),
                     edge (draw_top r) right (ytop + offset), edge (draw_right r) right (ybottom + offset),
                     edge (draw_bottom r) left (ybottom + offset), Stroke]
               else [])))"

definition plotBars ::
  "point list \<Rightarrow> rat \<Rightarrow> rat \<Rightarrow> rat \<Rightarrow> (rat \<Rightarrow> rat \<Rightarrow> style option) option \<Rightarrow> series \<Rightarrow> axis \<Rightarrow> axis \<Rightarrow> canvas_call list" where
  "plotBars pts barLeft barRight offset fillStyleCallback s ax ay =
     concat (map (\<lambda>pt. case (xy pt, pt ! 2) of
         (Some (x, y), Some b) \<Rightarrow> drawBar x y b barLeft barRight offset fillStyleCallback ax ay (bars_horizontal s) (bars_lineWidth s)
       | _ \<Rightarrow> []) pts)"

definition drawSeriesBars :: "rat \<Rightarrow> rat \<Rightarrow> series \<Rightarrow> axis \<Rightarrow> axis \<Rightarrow> canvas_call list" where
  "drawSeriesBars left ytop s ax ay =
     [Save, Translate left ytop, LineWidth (bars_lineWidth s), StrokeStyle (StyleSeries (scolor s))] @
     plotBars (dp_points (sdatapoints s)) (bar_left s) (bar_left s + bars_barWidth s) 0
       (if fill_on (bars_fill s) then Some (\<lambda>ybottom ytop. getFillStyle (bars_fill s) (bars_fillColor s) (scolor s) ybottom ytop) else None)
       s ax ay @ [Restore]"

definition drawSeries :: "rat \<Rightarrow> rat \<Rightarrow> rat \<Rightarrow> rat \<Rightarrow> rat \<Rightarrow> series \<Rightarrow> axis \<Rightarrow> axis \<Rightarrow> canvas_call list option" where
  "drawSeries sine cosine left ytop plotHeight s ax ay = do {
     ls \<leftarrow> (if lines_show s = Some True then drawSeriesLines sine cosine left ytop plotHeight s ax ay else Some []);
     Some (ls @ (if bars_show s then drawSeriesBars left ytop s ax ay else []) @
           (if points_show s then drawSeriesPoints left ytop s ax ay else [])) }"

section \<open>Clipping keeps exactly the visible part\<close>

definition on_segment :: "segment \<Rightarrow> rat \<times> rat \<Rightarrow> bool" where
  "on_segment s p = (case s of ((u1, v1), (u2, v2)) \<Rightarrow>
     \<exists>t. 0 \<le> t \<and> t \<le> 1 \<and> fst p = u1 + t * (u2 - u1) \<and> snd p = v1 + t * (v2 - v1))"

definition part_of :: "segment option \<Rightarrow> rat \<times> rat \<Rightarrow> bool" where
  "part_of s p = (case s of None \<Rightarrow> False | Some s \<Rightarrow> on_segment s p)"

definition swap_ends :: "segment \<Rightarrow> segment" where
  "swap_ends s = (snd s, fst s)"

lemma on_swap_ends: "on_segment (swap_ends s) p \<longleftrightarrow> on_segment s p"
proof -
  have "on_segment s p \<Longrightarrow> on_segment (swap_ends s) p" for s
  proof -
    assume "on_segment s p"
    then obtain u1 v1 u2 v2 t where s: "s = ((u1, v1), (u2, v2))" "0 \<le> t" "t \<le> 1"
      "fst p = u1 + t * (u2 - u1)" "snd p = v1 + t * (v2 - v1)"
      by (cases s) (auto simp: on_segment_def)
    show ?thesis unfolding s(1) on_segment_def swap_ends_def
      by (simp, rule exI [of _ "1 - t"]) (use s in \<open>simp add: algebra_simps\<close>)
  qed
  from this [of s] this [of "swap_ends s"] show ?thesis by (auto simp: swap_ends_def)
qed

lemma on_flip: "on_segment (flip s) (prod.swap p) \<longleftrightarrow> on_segment s p"
  by (cases s) (auto simp: on_segment_def flip_def)

text \<open>The part of a rising segment from a value \<open>b\<close> between its ends on.\<close>

lemma rising_cut:
  assumes "u1 < b" "b \<le> u2"
  shows "on_segment ((b, cut_at b ((u1, v1), (u2, v2))), (u2, v2)) p \<longleftrightarrow> on_segment ((u1, v1), (u2, v2)) p \<and> b \<le> fst p"
proof -
  define d where "d = u2 - u1"
  define e where "e = v2 - v1"
  define c where "c = (b - u1) / d"
  have d: "0 < d" using assms by (simp add: d_def)
  have c: "0 < c" "c \<le> 1" "b = u1 + c * d"
    using assms d by (simp_all add: c_def divide_le_eq) (simp add: d_def)
  have cut: "cut_at b ((u1, v1), (u2, v2)) = v1 + c * e" by (simp add: cut_at_def c_def d_def e_def)
  have u2: "u2 = u1 + d" and v2: "v2 = v1 + e" by (simp_all add: d_def e_def)
  have left: "on_segment ((b, cut_at b ((u1, v1), (u2, v2))), (u2, v2)) p
      \<longleftrightarrow> (\<exists>t. 0 \<le> t \<and> t \<le> 1 \<and> fst p = u1 + (c + t * (1 - c)) * d \<and> snd p = v1 + (c + t * (1 - c)) * e)"
    unfolding cut by (simp add: on_segment_def c(3) u2 v2 algebra_simps)
  have right: "on_segment ((u1, v1), (u2, v2)) p \<longleftrightarrow> (\<exists>t. 0 \<le> t \<and> t \<le> 1 \<and> fst p = u1 + t * d \<and> snd p = v1 + t * e)"
    by (simp add: on_segment_def u2 v2)
  show ?thesis
  proof
    assume "on_segment ((b, cut_at b ((u1, v1), (u2, v2))), (u2, v2)) p"
    then obtain t where t: "0 \<le> t" "t \<le> 1" "fst p = u1 + (c + t * (1 - c)) * d" "snd p = v1 + (c + t * (1 - c)) * e"
      unfolding left by blast
    have "t * (1 - c) \<le> 1 * (1 - c)" "0 \<le> t * (1 - c)" 
      using t(1,2) c(2) mult_right_mono [of t 1 "1 - c"] by simp_all
    then have "c \<le> c + t * (1 - c)" "c + t * (1 - c) \<le> 1" by simp_all
    moreover from this(1) have "b \<le> fst p" using d unfolding t(3) c(3) by simp
    ultimately show "on_segment ((u1, v1), (u2, v2)) p \<and> b \<le> fst p"
      unfolding right using t(3,4) c(1) by (intro conjI exI [of _ "c + t * (1 - c)"]) simp_all
  next
    assume p: "on_segment ((u1, v1), (u2, v2)) p \<and> b \<le> fst p"
    then obtain t where t: "0 \<le> t" "t \<le> 1" "fst p = u1 + t * d" "snd p = v1 + t * e"
      unfolding right by blast
    have ct: "c \<le> t" using p d unfolding t(3) c(3) by simp
    define s where "s = (if c = 1 then 0 else (t - c) / (1 - c))"
    have s: "0 \<le> s" "s \<le> 1" "t = c + s * (1 - c)"
      using ct c(2) t(2) by (auto simp: s_def divide_le_eq)
    then show "on_segment ((b, cut_at b ((u1, v1), (u2, v2))), (u2, v2)) p"
      unfolding left using t(3,4) by (intro exI [of _ s]) simp
  qed
qed

lemma cut_at_swap: "u1 \<noteq> u2 \<Longrightarrow> cut_at b ((u2, v2), (u1, v1)) = cut_at b ((u1, v1), (u2, v2))"
proof -
  assume "u1 \<noteq> u2"
  then have d: "u2 - u1 \<noteq> 0" "u1 - u2 \<noteq> 0" by simp_all
  define r where "r = (b - u1) / (u2 - u1)"
  have "(b - u2) / (u1 - u2) = 1 - r" unfolding r_def using d by (simp add: field_simps)
  then show ?thesis unfolding cut_at_def prod.case by (simp add: r_def [symmetric] ring_distribs)
qed

lemma falling_cut:
  assumes "u2 < b" "b \<le> u1"
  shows "on_segment ((u1, v1), (b, cut_at b ((u1, v1), (u2, v2)))) p \<longleftrightarrow> on_segment ((u1, v1), (u2, v2)) p \<and> b \<le> fst p"
  using rising_cut [OF assms, of v2 v1 p] on_swap_ends [of "((u1, v1), (b, cut_at b ((u1, v1), (u2, v2))))" p]
    on_swap_ends [of "((u1, v1), (u2, v2))" p] cut_at_swap [of u1 u2 b v2 v1] assms
  by (simp add: swap_ends_def)

lemma on_segment_le: "on_segment ((u1, v1), (u2, v2)) p \<Longrightarrow> min u1 u2 \<le> fst p \<and> fst p \<le> max u1 u2"
proof -
  assume "on_segment ((u1, v1), (u2, v2)) p"
  then obtain t where t: "0 \<le> t" "t \<le> 1" "fst p = u1 + t * (u2 - u1)" by (auto simp: on_segment_def)
  show ?thesis
  proof (cases "u1 \<le> u2")
    case True
    then have "t * (u2 - u1) \<le> 1 * (u2 - u1)" "0 \<le> t * (u2 - u1)"
      using t mult_right_mono [of t 1 "u2 - u1"] by simp_all
    then show ?thesis using True t(3) by simp
  next
    case False
    then have "t * (u1 - u2) \<le> 1 * (u1 - u2)" "0 \<le> t * (u1 - u2)"
      using t mult_right_mono [of t 1 "u1 - u2"] by simp_all
    then show ?thesis using False t(3) by (simp add: algebra_simps)
  qed
qed

lemma part_of_clip_min: "part_of (clip_min lo s) p \<longleftrightarrow> on_segment s p \<and> lo \<le> fst p"
proof -
  obtain u1 v1 u2 v2 where s: "s = ((u1, v1), (u2, v2))" by (cases s) auto
  consider "u1 < lo" "u2 < lo" | "u1 < lo" "lo \<le> u2" | "lo \<le> u1" "u2 < lo" | "lo \<le> u1" "lo \<le> u2" by linarith
  then show ?thesis
  proof cases
    case 1
    then show ?thesis using on_segment_le [of u1 v1 u2 v2 p] by (auto simp: s clip_min_def part_of_def)
  next
    case 2
    then show ?thesis using rising_cut [of u1 lo u2 v1 v2 p] by (auto simp: s clip_min_def part_of_def)
  next
    case 3
    then show ?thesis using falling_cut [of u2 lo u1 v1 v2 p] by (auto simp: s clip_min_def part_of_def)
  next
    case 4
    then show ?thesis using on_segment_le [of u1 v1 u2 v2 p] by (auto simp: s clip_min_def part_of_def)
  qed
qed

text \<open>Clipping from above is clipping from below with the first coordinates negated.\<close>

definition negate :: "segment \<Rightarrow> segment" where
  "negate s = (case s of ((u1, v1), (u2, v2)) \<Rightarrow> ((- u1, v1), (- u2, v2)))"

lemma on_negate: "on_segment (negate s) p \<longleftrightarrow> on_segment s (- fst p, snd p)"
proof -
  obtain u1 v1 u2 v2 where s: "s = ((u1, v1), (u2, v2))" by (cases s) auto
  have "fst p = - u1 + t * (- u2 - - u1) \<longleftrightarrow> - fst p = u1 + t * (u2 - u1)" for t
    by (auto simp: algebra_simps)
  then show ?thesis by (simp add: s negate_def on_segment_def)
qed

lemma cut_negate: "cut_at (- b) (negate s) = cut_at b s"
proof -
  obtain u1 v1 u2 v2 where s: "s = ((u1, v1), (u2, v2))" by (cases s) auto
  have "(- b - - u1) / (- u2 - - u1) = (b - u1) / (u2 - u1)"
    by (metis minus_diff_eq minus_diff_minus minus_divide_divide)
  then show ?thesis unfolding s negate_def cut_at_def prod.case by (simp only:)
qed

lemma clip_max_negate: "clip_max hi s = map_option negate (clip_min (- hi) (negate s))"
proof -
  obtain u1 v1 u2 v2 where s: "s = ((u1, v1), (u2, v2))" by (cases s) auto
  have cut: "cut_at (- hi) ((- u1, v1), - u2, v2) = cut_at hi ((u1, v1), u2, v2)"
    using cut_negate [of hi s] by (simp add: s negate_def)
  show ?thesis by (simp add: s clip_max_def clip_min_def negate_def cut)
qed

lemma part_of_clip_max: "part_of (clip_max hi s) p \<longleftrightarrow> on_segment s p \<and> fst p \<le> hi"
proof -
  have "part_of (clip_max hi s) p \<longleftrightarrow> part_of (clip_min (- hi) (negate s)) (- fst p, snd p)"
    unfolding clip_max_negate by (cases "clip_min (- hi) (negate s)") (simp_all add: part_of_def on_negate)
  also have "\<dots> \<longleftrightarrow> on_segment (negate s) (- fst p, snd p) \<and> fst p \<le> hi" by (simp add: part_of_clip_min)
  also have "\<dots> \<longleftrightarrow> on_segment s p \<and> fst p \<le> hi" by (simp add: on_negate)
  finally show ?thesis .
qed

lemma part_of_bind:
  assumes "\<And>s. part_of (f s) p \<longleftrightarrow> on_segment s q \<and> Q" "part_of s q \<longleftrightarrow> P"
  shows "part_of (Option.bind s f) p \<longleftrightarrow> P \<and> Q"
  using assms by (cases s) (auto simp: part_of_def)

lemma part_of_clip_x: "part_of (clip_x ax s) p \<longleftrightarrow> on_segment s p \<and> axis_min ax \<le> fst p \<and> fst p \<le> axis_max ax"
  unfolding clip_x_def using part_of_bind [OF part_of_clip_max part_of_clip_min] by auto

text \<open>C1: the piece of a line that is drawn is exactly its part inside the visible ranges of both
  axes; nothing is drawn exactly if there is no such part.\<close>

theorem clip_line_exact:
  "part_of (clip_line ax ay s) p \<longleftrightarrow>
     on_segment s p \<and> \<not> outside ax (fst p) \<and> \<not> outside ay (snd p)"
proof -
  have 1: "part_of (clip_x ax (flip s)) p \<longleftrightarrow> on_segment s (prod.swap p) \<and> axis_min ax \<le> fst p \<and> fst p \<le> axis_max ax" for s
    using on_flip [of "flip s" p] by (simp add: part_of_clip_x flip_def on_flip [of s "prod.swap p", unfolded flip_def])
  have 2: "part_of (Option.bind (clip_max (axis_max ay) s) (\<lambda>s. clip_x ax (flip s))) p
      \<longleftrightarrow> (on_segment s (prod.swap p) \<and> snd p \<le> axis_max ay) \<and> axis_min ax \<le> fst p \<and> fst p \<le> axis_max ax" for s
    using part_of_bind [OF 1 part_of_clip_max [of "axis_max ay" s "prod.swap p"]] by simp
  have 3: "part_of (clip_line ax ay s) p \<longleftrightarrow> (on_segment (flip s) (prod.swap p) \<and> axis_min ay \<le> snd p)
      \<and> snd p \<le> axis_max ay \<and> axis_min ax \<le> fst p \<and> fst p \<le> axis_max ax"
    unfolding clip_line_def
    by (rule part_of_bind [OF _ part_of_clip_min [of "axis_min ay" "flip s" "prod.swap p", simplified]])
      (auto simp: 2)
  show ?thesis unfolding 3 on_flip by (auto simp: outside_def)
qed

section \<open>Bars\<close>

definition in_bar :: "bar \<Rightarrow> rat \<times> rat \<Rightarrow> bool" where
  "in_bar r p \<longleftrightarrow> b_left r \<le> fst p \<and> fst p \<le> b_right r \<and> b_bottom r \<le> snd p \<and> snd p \<le> b_top r"

text \<open>What is drawn of a vertical bar is exactly its part inside the visible ranges.\<close>

theorem vertical_bar_clipped_exactly:
  "(case clip_bar ax ay (bar_shape x y b barLeft barRight False) of None \<Rightarrow> False | Some r \<Rightarrow> in_bar r p)
   \<longleftrightarrow> in_bar (bar_shape x y b barLeft barRight False) p \<and> \<not> outside ax (fst p) \<and> \<not> outside ay (snd p)"
  by (cases "y < b") (auto simp: clip_bar_def bar_shape_def in_bar_def outside_def Let_def)

text \<open>A horizontal bar is not clipped along y: as soon as it sticks out of the visible range it is
  not drawn at all.\<close>

theorem horizontal_bar_dropped:
  assumes "y + barLeft < axis_min ay \<or> axis_max ay < y + barRight"
  shows "drawBar x y b barLeft barRight offset fillStyleCallback ax ay True lineWidth = []"
  using assms by (auto simp: drawBar_def clip_bar_def bar_shape_def)

text \<open>The witness is a bar around the value 1 on an axis that starts at 1: half of it would be visible.\<close>

theorem horizontal_bar_dropped_witness:
  "drawBar 3 1 0 (- 1 / 2) (1 / 2) 0 None ((new_axis XDir plain_axis_options 1)\<lparr>axis_max := 5\<rparr>)
     ((new_axis YDir plain_axis_options 1)\<lparr>axis_min := 1, axis_max := 5\<rparr>) True 2 = []"
  by (rule horizontal_bar_dropped) simp

section \<open>Areas\<close>

definition area_ok :: "point list \<Rightarrow> area_state \<Rightarrow> bool" where
  "area_ok pts st \<longleftrightarrow> 0 \<le> segmentStart st \<and> segmentStart st \<le> area_i st \<and>
     (if area_forward st
      then area_i st \<le> int (length pts) + 2 \<and> (area_open st \<longrightarrow> area_point pts (area_i st) True \<noteq> None)
      else area_i st \<le> segmentEnd st \<and> segmentEnd st \<le> int (length pts) \<and> area_open st)"

definition area_measure :: "point list \<Rightarrow> area_state \<Rightarrow> nat" where
  "area_measure pts st =
     (let n = int (length pts)
      in if area_forward st then nat ((n + 4 - area_i st) * (n + 10))
         else nat ((n + 4 - segmentEnd st) * (n + 10) + (area_i st - segmentStart st + 2)))"

lemma area_point_range: "area_point pts i f \<noteq> None \<Longrightarrow> 0 \<le> i \<and> i < int (length pts)"
  by (auto simp: area_point_def split: if_splits)

lemma area_piece_counts: "count_list (area_piece ax ay s) BeginPath = 0" "count_list (area_piece ax ay s) Fill = 0"
  by (auto simp: area_piece_def split: prod.split)

definition opens :: "area_state \<Rightarrow> nat" where
  "opens st = (if area_open st then 1 else 0)"

lemma area_draw_effect:
  assumes "area_draw ax ay p1 p2 st = (calls, st')"
  shows "(st' = st \<or> (st' = st\<lparr>area_open := True\<rparr> \<and> p2 \<noteq> None))
    \<and> count_list calls BeginPath + opens st = opens st' + count_list calls Fill"
  using assms
  by (auto simp: area_draw_def opens_def area_piece_counts split: option.splits if_splits)

lemma measure_less: "a < b \<Longrightarrow> 0 < b \<Longrightarrow> nat a < nat (b :: int)"
  by simp

lemma area_round_step:
  assumes "area_ok pts st" "area_round pts ax ay st = Some (calls, st')"
  shows "area_ok pts st' \<and> area_measure pts st' < area_measure pts st
    \<and> count_list calls BeginPath + opens st = opens st' + count_list calls Fill"
proof (cases "area_forward st")
  case fwd: True
  let ?n = "int (length pts)" and ?i = "area_i st + 1"
  let ?p1 = "area_point pts (area_i st) True" and ?p2 = "area_point pts ?i True"
  have i: "area_i st \<le> ?n + 1" using assms(2) fwd by (auto simp: area_round_def split: if_splits)
  have pos: "0 < (?n + 4 - area_i st) * (?n + 10)" using i by simp
  show ?thesis
  proof (cases "area_open st \<and> ?p1 \<noteq> None \<and> ?p2 = None")
    case True
    then have st': "calls = []" "st' = st\<lparr>area_i := ?i, segmentEnd := ?i, area_forward := False\<rparr>"
      using assms(2) fwd i by (auto simp: area_round_def Let_def)
    have r: "0 \<le> area_i st" "area_i st < ?n" using area_point_range [of pts "area_i st" True] True by auto
    have "(?n + 4 - ?i) * (?n + 10) + (?i - segmentStart st + 2) < (?n + 4 - area_i st) * (?n + 10)"
      using assms(1) r by (simp add: area_ok_def fwd algebra_simps)
    then show ?thesis using assms(1) r fwd True pos
      by (simp add: st' area_ok_def area_measure_def Let_def opens_def measure_less)
  next
    case False
    define s where "s = st\<lparr>area_i := ?i\<rparr>"
    have d: "area_draw ax ay ?p1 ?p2 s = (calls, st')"
      using assms(2) fwd i False by (auto simp: area_round_def Let_def s_def)
    have "(?n + 4 - ?i) * (?n + 10) < (?n + 4 - area_i st) * (?n + 10)" by (simp add: algebra_simps)
    then have m: "area_measure pts s < area_measure pts st"
      using pos by (simp add: area_measure_def Let_def s_def fwd measure_less)
    from area_draw_effect [OF d] have eff: "st' = s \<or> st' = s\<lparr>area_open := True\<rparr> \<and> ?p2 \<noteq> None"
      "count_list calls BeginPath + opens s = opens st' + count_list calls Fill" by blast+
    have "area_ok pts st'"
      using eff(1) assms(1) fwd i False by (auto simp: area_ok_def s_def)
    moreover have "area_measure pts st' = area_measure pts s" using eff(1) by (auto simp: area_measure_def Let_def)
    moreover have "opens s = opens st" by (simp add: opens_def s_def)
    ultimately show ?thesis using m eff(2) by simp
  qed
next
  case bwd: False
  let ?n = "int (length pts)" and ?i = "area_i st - 1"
  have inv: "0 \<le> segmentStart st" "segmentStart st \<le> area_i st" "area_i st \<le> segmentEnd st" "segmentEnd st \<le> ?n" "area_open st"
    using assms(1) bwd by (simp_all add: area_ok_def)
  have "0 < (?n + 4 - segmentEnd st) * (?n + 10)" using inv(4) by simp
  then have pos2: "0 < (?n + 4 - segmentEnd st) * (?n + 10) + (area_i st - segmentStart st + 2)" using inv(2) by linarith
  show ?thesis
  proof (cases "?i = segmentStart st - 1")
    case True
    then have st': "calls = [Fill]" "st' = st\<lparr>area_open := False, area_forward := True, area_i := segmentEnd st + 1, segmentStart := segmentEnd st + 1\<rparr>"
      using assms(2) bwd inv(5) by (auto simp: area_round_def Let_def)
    have "(?n + 4 - (segmentEnd st + 1)) * (?n + 10) < (?n + 4 - segmentEnd st) * (?n + 10) + (area_i st - segmentStart st + 2)"
      using inv by (simp add: algebra_simps)
    then show ?thesis using bwd inv pos2
      by (simp add: st' area_ok_def area_measure_def Let_def opens_def measure_less)
  next
    case False
    define s where "s = st\<lparr>area_i := ?i\<rparr>"
    have d: "area_draw ax ay (area_point pts (area_i st) False) (area_point pts ?i False) s = (calls, st')"
      using assms(2) bwd False by (auto simp: area_round_def Let_def s_def)
    from area_draw_effect [OF d] have eff: "st' = s \<or> st' = s\<lparr>area_open := True\<rparr>"
      "count_list calls BeginPath + opens s = opens st' + count_list calls Fill" by blast+
    have "area_ok pts s" "area_measure pts s < area_measure pts st" "opens s = opens st"
      using inv False bwd pos2 by (auto simp: area_ok_def area_measure_def Let_def s_def opens_def)
    moreover have "st' = s" using eff(1) inv(5) by (auto simp: s_def)
    ultimately show ?thesis using eff(2) by simp
  qed
qed

lemma plotLineArea_runs:
  "\<exists>calls. plotLineArea pts ax ay = Some calls \<and> count_list calls BeginPath = count_list calls Fill"
proof -
  have "area_ok pts st \<Longrightarrow> \<exists>calls. area_loop pts ax ay st = Some calls
      \<and> count_list calls BeginPath + opens st = count_list calls Fill" for st
  proof (induction "area_measure pts st" arbitrary: st rule: less_induct)
    case less
    show ?case
    proof (cases "area_round pts ax ay st")
      case None
      then have "area_forward st \<and> area_i st > int (length pts) + 1" by (auto simp: area_round_def Let_def split: if_splits)
      then have "\<not> area_open st" using less.prems area_point_range [of pts "area_i st" True] by (auto simp: area_ok_def)
      then show ?thesis using None by (subst area_loop.simps) (simp add: opens_def)
    next
      case (Some r)
      obtain calls st' where r: "r = (calls, st')" by (rule prod.exhaust)
      note st = area_round_step [OF less.prems Some [unfolded r]]
      then obtain rest where "area_loop pts ax ay st' = Some rest" "count_list rest BeginPath + opens st' = count_list rest Fill"
        using less.hyps by blast
      then show ?thesis using Some r st by (subst area_loop.simps) simp
    qed
  qed
  from this [of "\<lparr>area_i = 0, area_forward = True, area_open = False, segmentStart = 0, segmentEnd = 0\<rparr>"]
  show ?thesis by (simp add: plotLineArea_def area_ok_def opens_def)
qed

text \<open>C17: \<open>plotLineArea\<close> always ends, and fills every path it has begun.\<close>

theorem area_loop_ends_filled:
  "\<exists>calls. plotLineArea pts ax ay = Some calls \<and> count_list calls BeginPath = count_list calls Fill"
  by (rule plotLineArea_runs)

lemma drawSeries_total: "drawSeries sine cosine left ytop plotHeight s ax ay \<noteq> None"
  using plotLineArea_runs [of "dp_points (sdatapoints s)" ax ay]
  by (auto simp: drawSeries_def drawSeriesLines_def Let_def split: option.split)
end
