(* ===== verification/FlotGrid.thy ===== *)
theory FlotGrid
  imports FlotTicks FlotDraw
begin

text \<open>
  The frame of a plot in \<open>jquery.flot.js\<close>: the boxes of the axes around the plot area, the
  conversion of positions between the canvas and the axes, markings, the ticks and the border of
  the grid, the places of the tick labels, and the rows of the legend.  Measuring texts is the
  page's business: the sizes of labels are arguments.
\<close>

section \<open>Options and state of the frame\<close>

record grid_options =
  grid_show :: bool
  grid_axisMargin :: rat
  grid_labelMargin :: rat
  grid_minBorderMargin :: "rat option"
  grid_borderWidth :: rat
  grid_borderColor :: string
  grid_markingsColor :: string
  grid_markingsLineWidth :: rat

record offsets =
  off_left :: rat
  off_right :: rat
  off_top :: rat
  off_bottom :: rat

record frame =
  xaxes :: axes
  yaxes :: axes
  off :: offsets
  plotWidth :: rat
  plotHeight :: rat

section \<open>Positions on the canvas and on the axes\<close>

text \<open>The names \<open>x1\<close>, \<open>y2\<close>, ... of the axes, and the short names \<open>x\<close>, \<open>y\<close> of the first.\<close>

datatype coord_key = Numbered dir nat | Short dir

type_synonym coords = "coord_key \<Rightarrow> rat option"

definition axis_coords :: "axes \<Rightarrow> rat \<Rightarrow> coords \<Rightarrow> coords" where
  "axis_coords axs p res =
     fold (\<lambda>slot res. case slot of None \<Rightarrow> res
       | Some a \<Rightarrow> if used a then res(Numbered (direction a) (axis_n a) \<mapsto> c2p a p) else res) axs res"

definition canvasToAxisCoords :: "axes \<Rightarrow> axes \<Rightarrow> rat \<times> rat \<Rightarrow> coords" where
  "canvasToAxisCoords xs ys pos =
     (let res = axis_coords ys (snd pos) (axis_coords xs (fst pos) Map.empty);
          res' = (case res (Numbered XDir 1) of None \<Rightarrow> res | Some v \<Rightarrow> res(Short XDir \<mapsto> v))
      in case res' (Numbered YDir 1) of None \<Rightarrow> res' | Some v \<Rightarrow> res'(Short YDir \<mapsto> v))"

fun first_coord :: "axes \<Rightarrow> coords \<Rightarrow> rat option" where
  "first_coord [] pos = None"
| "first_coord (None # axs) pos = first_coord axs pos"
| "first_coord (Some a # axs) pos =
     (if used a then
        (let key = Numbered (direction a) (axis_n a);
             key' = (if pos key = None \<and> axis_n a = 1 then Short (direction a) else key)
         in case pos key' of Some v \<Rightarrow> Some (p2c a v) | None \<Rightarrow> first_coord axs pos)
      else first_coord axs pos)"

definition axisToCanvasCoords :: "axes \<Rightarrow> axes \<Rightarrow> coords \<Rightarrow> rat option \<times> rat option" where
  "axisToCanvasCoords xs ys pos = (first_coord xs pos, first_coord ys pos)"

section \<open>Sizes of the labels\<close>

text \<open>The widths and heights the page measures for the labels of an axis.\<close>

definition has_labels :: "axis \<Rightarrow> bool" where
  "has_labels a \<longleftrightarrow> list_ex (\<lambda>t. snd t \<noteq> []) (axis_ticks a)"

definition measureTickLabels :: "rat \<Rightarrow> (axis \<Rightarrow> rat) \<Rightarrow> (axis \<Rightarrow> rat) \<Rightarrow> axis \<Rightarrow> axis" where
  "measureTickLabels canvasWidth measured_width measured_height a =
     (let w = labelWidth_opt (axis_opts a); h = labelHeight_opt (axis_opts a);
          w' = (case w of Some x \<Rightarrow> Some x
             | None \<Rightarrow> if direction a = XDir then Some (of_int \<lfloor>canvasWidth / (if axis_ticks a \<noteq> [] then of_nat (length (axis_ticks a)) else 1)\<rfloor>)
                 else if has_labels a then Some (measured_width a) else None);
          h' = (case h of Some x \<Rightarrow> Some x | None \<Rightarrow> if has_labels a then Some (measured_height a) else None)
      in a\<lparr>labelWidth := (case w' of Some x \<Rightarrow> x | None \<Rightarrow> 0), labelHeight := (case h' of Some x \<Rightarrow> x | None \<Rightarrow> 0)\<rparr>)"

section \<open>The boxes of the axes\<close>

definition axis_list :: "axes \<Rightarrow> axis list" where
  "axis_list axs = map the (filter (\<lambda>a. a \<noteq> None) axs)"

text \<open>Whether an axis is the last of those on its side, and the first of its direction.\<close>

definition outermost :: "axis \<Rightarrow> axes \<Rightarrow> bool" where
  "outermost a axs =
     (case rev (filter (\<lambda>b. side_opt (axis_opts b) = side_opt (axis_opts a) \<and> reserveSpace b) (axis_list axs)) of
        [] \<Rightarrow> True | b # _ \<Rightarrow> axis_n b = axis_n a)"

definition is_innermost :: "axis \<Rightarrow> axes \<Rightarrow> bool" where
  "is_innermost a axs = (case filter reserveSpace (axis_list axs) of [] \<Rightarrow> False | b # _ \<Rightarrow> axis_n b = axis_n a)"

definition tick_length_of :: "axis \<Rightarrow> axes \<Rightarrow> tick_length" where
  "tick_length_of a axs =
     (let t = (case tickLength_opt (axis_opts a) of None \<Rightarrow> FullLength | Some t \<Rightarrow> t)
      in if \<not> is_innermost a axs \<and> t = FullLength then PxLength 5 else t)"

definition allocateAxisBoxFirstPhase :: "grid_options \<Rightarrow> rat \<Rightarrow> rat \<Rightarrow> axes \<Rightarrow> axis \<Rightarrow> offsets \<Rightarrow> axis \<times> offsets" where
  "allocateAxisBoxFirstPhase g canvasWidth canvasHeight axs a ofs =
     (let pos = side_opt (axis_opts a);
          margin = (if outermost a axs then 0 else grid_axisMargin g);
          t = tick_length_of a axs;
          padding = grid_labelMargin g + (case t of PxLength v \<Rightarrow> v | FullLength \<Rightarrow> 0);
          lh = labelHeight a + padding;
          lw = labelWidth a + padding;
          b = axis_box a;
          (b', o') =
            (if direction a = XDir then
               (if pos = BottomSide
                then (b\<lparr>box_top := canvasHeight - (off_bottom ofs + (lh + margin)), box_height := lh\<rparr>, ofs\<lparr>off_bottom := off_bottom ofs + (lh + margin)\<rparr>)
                else (b\<lparr>box_top := off_top ofs + margin, box_height := lh\<rparr>, ofs\<lparr>off_top := off_top ofs + (lh + margin)\<rparr>))
             else
               (if pos = LeftSide
                then (b\<lparr>box_left := off_left ofs + margin, box_width := lw\<rparr>, ofs\<lparr>off_left := off_left ofs + (lw + margin)\<rparr>)
                else (b\<lparr>box_left := canvasWidth - (off_right ofs + (lw + margin)), box_width := lw\<rparr>, ofs\<lparr>off_right := off_right ofs + (lw + margin)\<rparr>)))
      in (a\<lparr>axis_side := pos, tickLength := t, axis_box := b'\<lparr>box_padding := padding\<rparr>, innermost := is_innermost a axs\<rparr>, o'))"

definition allocateAxisBoxSecondPhase :: "offsets \<Rightarrow> rat \<Rightarrow> rat \<Rightarrow> axis \<Rightarrow> axis" where
  "allocateAxisBoxSecondPhase ofs pw ph a =
     (if direction a = XDir then a\<lparr>axis_box := (axis_box a)\<lparr>box_left := off_left ofs, box_width := pw\<rparr>\<rparr>
      else a\<lparr>axis_box := (axis_box a)\<lparr>box_top := off_top ofs, box_height := ph\<rparr>\<rparr>)"

text \<open>The axes that reserve space, from the last of a list to the first.\<close>

fun allocate_boxes :: "grid_options \<Rightarrow> rat \<Rightarrow> rat \<Rightarrow> axes \<Rightarrow> axis list \<Rightarrow> offsets \<Rightarrow> axis list \<times> offsets" where
  "allocate_boxes g cw ch axs [] ofs = ([], ofs)"
| "allocate_boxes g cw ch axs (a # as) ofs =
     (case allocate_boxes g cw ch axs as ofs of (as', o') \<Rightarrow>
        (case allocateAxisBoxFirstPhase g cw ch axs a o' of (a', o'') \<Rightarrow> (a' # as', o'')))"

definition min_margin :: "grid_options \<Rightarrow> (rat \<times> rat) list \<Rightarrow> rat" where
  "min_margin g points = (case grid_minBorderMargin g of Some m \<Rightarrow> m
     | None \<Rightarrow> fold (\<lambda>(radius, lineWidth) m. max m (radius + lineWidth / 2)) points 0)"

definition widen :: "grid_options \<Rightarrow> rat \<Rightarrow> offsets \<Rightarrow> offsets" where
  "widen g m ofs = (let f = (\<lambda>v. max m (v + grid_borderWidth g))
     in \<lparr>off_left = f (off_left ofs), off_right = f (off_right ofs), off_top = f (off_top ofs), off_bottom = f (off_bottom ofs)\<rparr>)"

definition show_axis :: "axis \<Rightarrow> axis" where
  "show_axis a =
     (let s = (case show_opt (axis_opts a) of None \<Rightarrow> used a | Some b \<Rightarrow> b)
      in setRange (a\<lparr>axis_show := s, reserveSpace := s \<or> reserveSpace_opt (axis_opts a)\<rparr>))"

text \<open>Changed axes go back to their places.\<close>

definition put_axes :: "axis list \<Rightarrow> axes \<Rightarrow> axes" where
  "put_axes as axs = fold (\<lambda>a. update_axis_at (axis_n a) (\<lambda>_. a)) as axs"

definition map_axes :: "(axis \<Rightarrow> axis) \<Rightarrow> axes \<Rightarrow> axes" where
  "map_axes f = map (map_option f)"

text \<open>
  \<open>setupGrid\<close> without the labels and the legend, which it leaves to others.  Making the ticks of an
  axis may fail (\<open>with_ticks\<close>); \<open>points\<close> are the radius and line width of the points of the series.
\<close>

definition setupGrid :: "grid_options \<Rightarrow> rat \<Rightarrow> rat \<Rightarrow> (rat \<times> rat) list \<Rightarrow> (axis \<Rightarrow> axis) \<Rightarrow> (axis \<Rightarrow> axis) \<Rightarrow> axes \<Rightarrow> axes \<Rightarrow> frame" where
  "setupGrid g cw ch points with_ticks measured xs ys =
     (let xs1 = map_axes show_axis xs; ys1 = map_axes show_axis ys;
          ticked = (\<lambda>a. if reserveSpace a then measured (snapRangeToTicks (with_ticks a)) else a);
          xs2 = map_axes ticked xs1; ys2 = map_axes ticked ys1;
          o0 = \<lparr>off_left = 0, off_right = 0, off_top = 0, off_bottom = 0\<rparr>;
          (bxs_y, o1) = allocate_boxes g cw ch ys2 (filter reserveSpace (axis_list ys2)) o0;
          (bxs_x, o2) = allocate_boxes g cw ch xs2 (filter reserveSpace (axis_list xs2)) o1;
          o3 = widen g (min_margin g points) o2;
          ofs = (if grid_show g then o3 else o0);
          pw = cw - off_left ofs - off_right ofs;
          ph = ch - off_bottom ofs - off_top ofs;
          second = (\<lambda>a. if reserveSpace a then allocateAxisBoxSecondPhase ofs pw ph a else a);
          finish = (\<lambda>boxed axs. map_axes (\<lambda>a. second (setTransformationHelpers pw ph a)) (put_axes boxed axs))
      in if grid_show g
         then \<lparr>xaxes = finish bxs_x xs2, yaxes = finish bxs_y ys2, off = ofs, plotWidth = pw, plotHeight = ph\<rparr>
         else \<lparr>xaxes = map_axes (setTransformationHelpers pw ph) xs1, yaxes = map_axes (setTransformationHelpers pw ph) ys1,
               off = ofs, plotWidth = pw, plotHeight = ph\<rparr>)"

section \<open>Markings\<close>

text \<open>A range of a marking: \<open>from\<close> and \<open>to\<close>, each may be missing; the keys it may stand under.\<close>

type_synonym mark_range = "rat option \<times> rat option"

record marking =
  numbered_range :: "dir \<Rightarrow> nat \<Rightarrow> mark_range option"
  short_range :: "dir \<Rightarrow> mark_range option"
  old_range :: "dir \<Rightarrow> mark_range"
  mark_color :: "string option"
  mark_lineWidth :: "rat option"

fun find_range :: "marking \<Rightarrow> dir \<Rightarrow> axis list \<Rightarrow> (mark_range \<times> axis) option" where
  "find_range m coord [] = None"
| "find_range m coord (a # as) =
     (if direction a = coord then
        (let r = (case numbered_range m coord (axis_n a) of Some r \<Rightarrow> Some r
             | None \<Rightarrow> if axis_n a = 1 then short_range m coord else None)
         in case r of Some r \<Rightarrow> Some (r, a) | None \<Rightarrow> find_range m coord as)
      else find_range m coord as)"

definition reversed_range :: "mark_range \<Rightarrow> mark_range" where
  "reversed_range r = (case r of (Some f, Some t) \<Rightarrow> if f > t then (Some t, Some f) else r | _ \<Rightarrow> r)"

definition extractRange :: "marking \<Rightarrow> axes \<Rightarrow> axes \<Rightarrow> dir \<Rightarrow> mark_range \<times> axis option" where
  "extractRange m xs ys coord =
     (case find_range m coord (allAxes xs ys) of
        Some (r, a) \<Rightarrow> (reversed_range r, Some a)
      | None \<Rightarrow> (reversed_range (old_range m coord), axis_slot (if coord = XDir then xs else ys) 1))"

datatype grid_call = Canvas canvas_call | FillRect rat rat rat rat | StrokeRect rat rat rat rat

text \<open>The part of a range that an axis shows; \<open>None\<close> when it shows nothing of it.\<close>

definition fill_range :: "mark_range \<Rightarrow> axis \<Rightarrow> rat \<times> rat" where
  "fill_range r a =
     ((case fst r of None \<Rightarrow> axis_min a | Some f \<Rightarrow> f), (case snd r of None \<Rightarrow> axis_max a | Some t \<Rightarrow> t))"

definition clip_range :: "rat \<times> rat \<Rightarrow> axis \<Rightarrow> (rat \<times> rat) option" where
  "clip_range r a =
     (if snd r < axis_min a \<or> fst r > axis_max a then None
      else Some (max (fst r) (axis_min a), min (snd r) (axis_max a)))"

definition draw_marking :: "grid_options \<Rightarrow> axes \<Rightarrow> axes \<Rightarrow> marking \<Rightarrow> grid_call list js" where
  "draw_marking g xs ys m =
     (case (extractRange m xs ys XDir, extractRange m xs ys YDir) of
        ((xr, Some xa), (yr, Some ya)) \<Rightarrow>
          (case (clip_range (fill_range xr xa) xa, clip_range (fill_range yr ya) ya) of
             (Some (x1, x2), Some (y1, y2)) \<Rightarrow>
               (if x1 = x2 \<and> y1 = y2 then ok []
                else let cx1 = p2c xa x1; cx2 = p2c xa x2; cy1 = p2c ya y1; cy2 = p2c ya y2;
                         color = StyleText (case mark_color m of None \<Rightarrow> grid_markingsColor g | Some c \<Rightarrow> c);
                         width = (case mark_lineWidth m of Some w \<Rightarrow> if w \<noteq> 0 then w else grid_markingsLineWidth g
                           | None \<Rightarrow> grid_markingsLineWidth g)
                     in if cx1 = cx2 \<or> cy1 = cy2
                        then ok (map Canvas [BeginPath, StrokeStyle color, LineWidth width, MoveTo cx1 cy1, LineTo cx2 cy2, Stroke])
                        else ok [Canvas (FillStyle color), FillRect cx1 cy2 (cx2 - cx1) (cy1 - cy2)])
           | _ \<Rightarrow> ok [])
      | _ \<Rightarrow> raise TypeError)"

fun draw_markings :: "grid_options \<Rightarrow> axes \<Rightarrow> axes \<Rightarrow> marking list \<Rightarrow> grid_call list js" where
  "draw_markings g xs ys [] = ok []"
| "draw_markings g xs ys (m # ms) =
     js_bind (draw_marking g xs ys m) (\<lambda>c. js_bind (draw_markings g xs ys ms) (\<lambda>cs. ok (c @ cs)))"

section \<open>Ticks and border\<close>

definition half_pixel :: "rat \<Rightarrow> rat" where
  "half_pixel x = of_int \<lfloor>x\<rfloor> + 1 / 2"

text \<open>The edge of an axis, where its tick bar runs and its ticks start.\<close>

definition axis_edge :: "offsets \<Rightarrow> rat \<Rightarrow> rat \<Rightarrow> axis \<Rightarrow> rat \<times> rat" where
  "axis_edge ofs pw ph a =
     (if direction a = XDir
      then (0, if tickLength a = FullLength then (if axis_side a = TopSide then 0 else ph)
               else box_top (axis_box a) - off_top ofs + (if axis_side a = TopSide then box_height (axis_box a) else 0))
      else (if tickLength a = FullLength then (if axis_side a = LeftSide then 0 else pw)
            else box_left (axis_box a) - off_left ofs + (if axis_side a = LeftSide then box_width (axis_box a) else 0), 0))"

definition bar_edge :: "axis \<Rightarrow> rat \<times> rat \<Rightarrow> rat \<times> rat" where
  "bar_edge a e = (if innermost a then e else (half_pixel (fst e), half_pixel (snd e)))"

definition tick_bar :: "rat \<Rightarrow> rat \<Rightarrow> axis \<Rightarrow> rat \<times> rat \<Rightarrow> grid_call list" where
  "tick_bar pw ph a e =
     (if innermost a then []
      else case bar_edge a e of (x, y) \<Rightarrow>
        map Canvas [BeginPath, MoveTo x y, LineTo (x + (if direction a = XDir then pw else 0)) (y + (if direction a = XDir then 0 else ph)), Stroke])"

definition tick_shown :: "rat \<Rightarrow> axis \<Rightarrow> rat \<Rightarrow> bool" where
  "tick_shown bw a v \<longleftrightarrow>
     \<not> (v < axis_min a \<or> v > axis_max a \<or> (tickLength a = FullLength \<and> bw > 0 \<and> (v = axis_min a \<or> v = axis_max a)))"

definition tick_size_px :: "rat \<Rightarrow> axis \<Rightarrow> rat" where
  "tick_size_px full a = (case tickLength a of FullLength \<Rightarrow> - full | PxLength t \<Rightarrow> t)"

definition tick_line :: "rat \<Rightarrow> rat \<Rightarrow> axis \<Rightarrow> rat \<times> rat \<Rightarrow> rat \<Rightarrow> grid_call list" where
  "tick_line pw ph a e v =
     (if direction a = XDir then
        (let x = half_pixel (p2c a v); y = snd e;
             yoff = (if axis_side a = TopSide then - tick_size_px ph a else tick_size_px ph a)
         in map Canvas [MoveTo x y, LineTo x (y + yoff)])
      else
        (let y = half_pixel (p2c a v); x = fst e;
             xoff = (if axis_side a = LeftSide then - tick_size_px pw a else tick_size_px pw a)
         in map Canvas [MoveTo x y, LineTo (x + xoff) y]))"

definition draw_axis :: "(axis \<Rightarrow> style) \<Rightarrow> rat \<Rightarrow> offsets \<Rightarrow> rat \<Rightarrow> rat \<Rightarrow> axis \<Rightarrow> grid_call list" where
  "draw_axis tick_style bw ofs pw ph a =
     (if \<not> axis_show a \<or> axis_ticks a = [] then []
      else (let e = axis_edge ofs pw ph a
            in map Canvas [StrokeStyle (tick_style a), LineWidth 1] @ tick_bar pw ph a e @ [Canvas BeginPath]
               @ concat (map (tick_line pw ph a (bar_edge a e)) (filter (tick_shown bw a) (map fst (axis_ticks a))))
               @ [Canvas Stroke]))"

definition draw_border :: "grid_options \<Rightarrow> rat \<Rightarrow> rat \<Rightarrow> grid_call list" where
  "draw_border g pw ph =
     (let bw = grid_borderWidth g
      in if bw \<noteq> 0 then [Canvas (LineWidth bw), Canvas (StrokeStyle (StyleText (grid_borderColor g))), StrokeRect (- bw / 2) (- bw / 2) (pw + bw) (ph + bw)]
         else [])"

definition drawGrid :: "grid_options \<Rightarrow> (axis \<Rightarrow> style) \<Rightarrow> marking list \<Rightarrow> frame \<Rightarrow> grid_call list js" where
  "drawGrid g tick_style markings f =
     js_bind (draw_markings g (xaxes f) (yaxes f) markings) (\<lambda>marks.
       ok (map Canvas [Save, Translate (off_left (off f)) (off_top (off f))] @ marks
         @ concat (map (draw_axis tick_style (grid_borderWidth g) (off f) (plotWidth f) (plotHeight f)) (allAxes (xaxes f) (yaxes f)))
         @ draw_border g (plotWidth f) (plotHeight f) @ [Canvas Restore]))"

section \<open>Labels and legend\<close>

datatype text_align = AlignCenter | AlignLeft | AlignRight

text \<open>Where a label goes: distances from edges of the canvas, its width, how the text is set.\<close>

record label_place =
  place_left :: "rat option"
  place_right :: "rat option"
  place_top :: "rat option"
  place_bottom :: "rat option"
  place_width :: rat
  place_align :: text_align
  place_text :: string

definition js_round :: "rat \<Rightarrow> rat" where
  "js_round x = of_int \<lfloor>x + 1 / 2\<rfloor>"

definition place_label :: "rat \<Rightarrow> rat \<Rightarrow> offsets \<Rightarrow> axis \<Rightarrow> rat \<times> string \<Rightarrow> label_place" where
  "place_label cw ch ofs a t =
     (let b = axis_box a;
          none = \<lparr>place_left = None, place_right = None, place_top = None, place_bottom = None, place_width = labelWidth a,
                  place_align = AlignCenter, place_text = snd t\<rparr>
      in if direction a = XDir then
           (let p = none\<lparr>place_left := Some (js_round (off_left ofs + p2c a (fst t) - labelWidth a / 2))\<rparr>
            in if axis_side a = BottomSide then p\<lparr>place_top := Some (box_top b + box_padding b)\<rparr>
               else p\<lparr>place_bottom := Some (ch - (box_top b + box_height b - box_padding b))\<rparr>)
         else
           (let p = none\<lparr>place_top := Some (js_round (off_top ofs + p2c a (fst t) - labelHeight a / 2))\<rparr>
            in if axis_side a = LeftSide then p\<lparr>place_right := Some (cw - (box_left b + box_width b - box_padding b)), place_align := AlignRight\<rparr>
               else p\<lparr>place_left := Some (box_left b + box_padding b), place_align := AlignLeft\<rparr>))"

definition insertAxisLabels :: "rat \<Rightarrow> rat \<Rightarrow> frame \<Rightarrow> (dir \<times> nat \<times> label_place list) list" where
  "insertAxisLabels cw ch f =
     map (\<lambda>a. (direction a, axis_n a, map (place_label cw ch (off f) a)
         (filter (\<lambda>t. snd t \<noteq> [] \<and> axis_min a \<le> fst t \<and> fst t \<le> axis_max a) (axis_ticks a))))
       (filter axis_show (allAxes (xaxes f) (yaxes f)))"

text \<open>The fragments of the legend's table: \<open>i\<close> counts all series, labelled or not.\<close>

datatype fragment = RowStart | RowEnd | LegendCell nat string

fun legend_loop :: "nat \<Rightarrow> (nat \<Rightarrow> string \<Rightarrow> string) option \<Rightarrow> nat \<Rightarrow> string list \<Rightarrow> bool \<Rightarrow> fragment list" where
  "legend_loop noColumns lf i [] rowStarted = (if rowStarted then [RowEnd] else [])"
| "legend_loop noColumns lf i (label # labels) rowStarted =
     (if label = [] then legend_loop noColumns lf (Suc i) labels rowStarted
      else let text = (case lf of None \<Rightarrow> label | Some f \<Rightarrow> f i label)
           in if noColumns \<noteq> 0 \<and> i mod noColumns = 0
              then (if rowStarted then [RowEnd] else []) @ RowStart # LegendCell i text # legend_loop noColumns lf (Suc i) labels True
              else LegendCell i text # legend_loop noColumns lf (Suc i) labels rowStarted)"

definition legend_fragments :: "nat \<Rightarrow> (nat \<Rightarrow> string \<Rightarrow> string) option \<Rightarrow> string list \<Rightarrow> fragment list" where
  "legend_fragments noColumns lf labels = legend_loop noColumns lf 0 labels False"

text \<open>Where the legend goes, from the two letters of its position.\<close>

definition legend_place :: "string \<Rightarrow> rat \<times> rat \<Rightarrow> offsets \<Rightarrow> (side \<times> rat) list" where
  "legend_place p m ofs =
     (if char_at p 0 = ''n'' then [(TopSide, snd m + off_top ofs)]
      else if char_at p 0 = ''s'' then [(BottomSide, snd m + off_bottom ofs)] else []) @
     (if char_at p 1 = ''e'' then [(RightSide, fst m + off_right ofs)]
      else if char_at p 1 = ''w'' then [(LeftSide, fst m + off_left ofs)] else [])"
section \<open>The boxes are stacked\<close>













definition sample_grid :: grid_options where
  "sample_grid = \<lparr>grid_show = True, grid_axisMargin = 8, grid_labelMargin = 5, grid_minBorderMargin = None,
     grid_borderWidth = 2, grid_borderColor = [], grid_markingsColor = [], grid_markingsLineWidth = 2\<rparr>"




section \<open>The rows of the legend\<close>

text \<open>Cells stand in rows, and every row is closed.\<close>

fun in_rows :: "bool \<Rightarrow> fragment list \<Rightarrow> bool" where
  "in_rows inside [] = (\<not> inside)"
| "in_rows inside (RowStart # fs) = (\<not> inside \<and> in_rows True fs)"
| "in_rows inside (RowEnd # fs) = (inside \<and> in_rows False fs)"
| "in_rows inside (LegendCell i t # fs) = (inside \<and> in_rows True fs)"

lemma legend_loop_started: "in_rows True (legend_loop n lf i labels True)"
  by (induction n lf i labels True rule: legend_loop.induct) (simp_all add: Let_def)

lemma legend_loop_first:
  "in_rows False (legend_loop n lf i (replicate k [] @ labels) False) = in_rows False (legend_loop n lf (i + k) labels False)"
  by (induction k arbitrary: i) simp_all

lemma legend_loop_all_empty: "\<forall>l \<in> set labels. l = [] \<Longrightarrow> legend_loop n lf i labels False = []"
  by (induction labels arbitrary: i) auto

text \<open>
  The cells of the legend stand in closed rows exactly if no series has a label or the first
  series with one stands at a multiple of the number of columns: the loop opens rows by the place of
  a series among all series, labelled or not.
\<close>

theorem legend_rows_wellformed:
  "in_rows False (legend_fragments noColumns lf labels) \<longleftrightarrow>
     list_all (\<lambda>l. l = []) labels \<or> (noColumns \<noteq> 0 \<and> length (takeWhile (\<lambda>l. l = []) labels) mod noColumns = 0)"
proof (cases "dropWhile (\<lambda>l. l = []) labels")
  case Nil
  then have "\<forall>l \<in> set labels. l = []" by (simp add: dropWhile_eq_Nil_conv)
  then show ?thesis by (simp add: legend_fragments_def legend_loop_all_empty list_all_iff)
next
  case (Cons l ls)
  define k where "k = length (takeWhile (\<lambda>l. l = []) labels)"
  have "takeWhile (\<lambda>l. l = []) labels = replicate k []"
    unfolding k_def by (rule replicate_eqI) (auto dest: set_takeWhileD)
  then have s: "labels = replicate k [] @ l # ls" using Cons by (metis takeWhile_dropWhile_id)
  have l: "l \<noteq> []" using Cons by (simp add: dropWhile_eq_Cons_conv)
  have "in_rows False (legend_fragments noColumns lf labels) = in_rows False (legend_loop noColumns lf k (l # ls) False)"
    unfolding legend_fragments_def s using legend_loop_first [of noColumns lf 0 k "l # ls"] by simp
  also have "\<dots> \<longleftrightarrow> noColumns \<noteq> 0 \<and> k mod noColumns = 0"
    using l legend_loop_started by (simp add: Let_def)
  also have "\<dots> \<longleftrightarrow> list_all (\<lambda>l. l = []) labels \<or> (noColumns \<noteq> 0 \<and> k mod noColumns = 0)"
    using l by (simp add: s)
  finally show ?thesis by (simp add: k_def)
qed

section \<open>Positions there and back\<close>

lemma axis_coords_untouched:
  "\<not> (\<exists>a. Some a \<in> set axs \<and> used a \<and> key = Numbered (direction a) (axis_n a)) \<Longrightarrow> axis_coords axs p res key = res key"
proof (induction axs arbitrary: res)
  case (Cons slot axs)
  show ?case
  proof (cases slot)
    case None
    then show ?thesis using Cons by (simp add: axis_coords_def)
  next
    case (Some a)
    let ?res = "if used a then res(Numbered (direction a) (axis_n a) \<mapsto> c2p a p) else res"
    have "axis_coords (slot # axs) p res key = axis_coords axs p ?res key" by (simp add: axis_coords_def Some)
    also have "\<dots> = ?res key" by (rule Cons.IH) (use Cons.prems in auto)
    also have "\<dots> = res key" using Cons.prems Some by auto
    finally show ?thesis .
  qed
qed (simp add: axis_coords_def)

lemma axis_coords_hit:
  assumes "Some a \<in> set axs" "used a" "\<And>b. Some b \<in> set axs \<Longrightarrow> axis_n b = axis_n a \<Longrightarrow> b = a"
    "\<And>b. Some b \<in> set axs \<Longrightarrow> direction b = direction a"
  shows "axis_coords axs p res (Numbered (direction a) (axis_n a)) = Some (c2p a p)"
  using assms
proof (induction axs arbitrary: res)
  case (Cons slot axs)
  show ?case
  proof (cases "Some a \<in> set axs")
    case True
    have "axis_coords (slot # axs) p res = axis_coords axs p (case slot of None \<Rightarrow> res
        | Some b \<Rightarrow> if used b then res(Numbered (direction b) (axis_n b) \<mapsto> c2p b p) else res)" by (simp add: axis_coords_def)
    moreover have "axis_coords axs p res' (Numbered (direction a) (axis_n a)) = Some (c2p a p)" for res'
    proof (rule Cons.IH [OF True assms(2)])
      fix b assume b: "Some b \<in> set axs"
      have "Some b \<in> set (slot # axs)" using b by simp
      then show "direction b = direction a" by (rule Cons.prems(4))
      assume "axis_n b = axis_n a"
      with \<open>Some b \<in> set (slot # axs)\<close> show "b = a" by (rule Cons.prems(3))
    qed
    ultimately show ?thesis by simp
  next
    case False
    then have s: "slot = Some a" using Cons.prems(1) by auto
    have "axis_coords (slot # axs) p res (Numbered (direction a) (axis_n a))
      = axis_coords axs p (res(Numbered (direction a) (axis_n a) \<mapsto> c2p a p)) (Numbered (direction a) (axis_n a))"
      using assms(2) by (simp add: axis_coords_def s)
    also have "\<dots> = (res(Numbered (direction a) (axis_n a) \<mapsto> c2p a p)) (Numbered (direction a) (axis_n a))"
    proof (rule axis_coords_untouched, rule notI, elim exE conjE)
      fix b assume b: "Some b \<in> set axs" "Numbered (direction a) (axis_n a) = Numbered (direction b) (axis_n b)"
      have "b = a" by (rule Cons.prems(3)) (use b in simp_all)
      then show False using b(1) False by simp
    qed
    finally show ?thesis by simp
  qed
next
  case Nil
  show ?case using Nil.prems(1) by simp
qed
text \<open>The first axis that is used.\<close>

fun first_used :: "axes \<Rightarrow> axis option" where
  "first_used [] = None"
| "first_used (slot # axs) = (case slot of Some a \<Rightarrow> if used a then Some a else first_used axs | None \<Rightarrow> first_used axs)"

lemma first_used_in: "first_used axs = Some a \<Longrightarrow> Some a \<in> set axs \<and> used a"
  by (induction axs) (auto split: option.splits if_splits)

lemma first_coord_used:
  "first_used axs = Some a \<Longrightarrow> pos (Numbered (direction a) (axis_n a)) = Some v \<Longrightarrow> first_coord axs pos = Some (p2c a v)"
  by (induction axs pos rule: first_coord.induct) (auto simp: Let_def split: if_splits)

text \<open>A list of axes of one direction, each with a number of its own, that measure along the canvas.\<close>

definition measuring :: "dir \<Rightarrow> axes \<Rightarrow> bool" where
  "measuring d axs \<longleftrightarrow> distinct (map axis_n (axis_list axs)) \<and>
     list_all (\<lambda>a. direction a = d \<and> scale_s a \<noteq> 0 \<and> transform (axis_opts a) = None \<and> inverseTransform (axis_opts a) = None) (axis_list axs)"

lemma axis_list_set: "a \<in> set (axis_list axs) \<longleftrightarrow> Some a \<in> set axs"
  by (force simp: axis_list_def)

lemma measuring_unique:
  "measuring d axs \<Longrightarrow> Some a \<in> set axs \<Longrightarrow> Some b \<in> set axs \<Longrightarrow> axis_n b = axis_n a \<Longrightarrow> b = a"
  using inj_onD [of axis_n "set (axis_list axs)" b a] by (simp add: measuring_def distinct_map axis_list_set)

lemma measuring_axis:
  "measuring d axs \<Longrightarrow> Some a \<in> set axs \<Longrightarrow>
     direction a = d \<and> scale_s a \<noteq> 0 \<and> transform (axis_opts a) = None \<and> inverseTransform (axis_opts a) = None"
  by (simp add: measuring_def list_all_iff axis_list_set)

lemma measuring_coords:
  assumes "measuring d axs" "Some a \<in> set axs" "used a"
  shows "axis_coords axs p res (Numbered d (axis_n a)) = Some (c2p a p)"
proof -
  have "axis_coords axs p res (Numbered (direction a) (axis_n a)) = Some (c2p a p)"
    by (rule axis_coords_hit [OF assms(2,3) measuring_unique [OF assms(1,2)]])
      (use measuring_axis [OF assms(1)] assms(2) in simp_all)
  then show ?thesis using measuring_axis [OF assms(1,2)] by simp
qed

text \<open>
  C38: A position on the canvas survives the way to the axes and back: with at least one used axis in
  each direction, on axes without transformations, \<open>axisToCanvasCoords\<close> finds from the coordinates
  that \<open>canvasToAxisCoords\<close> gives the position they were taken from.
\<close>

theorem canvas_coords_roundtrip:
  assumes "measuring XDir xs" "measuring YDir ys" "first_used xs \<noteq> None" "first_used ys \<noteq> None"
  shows "axisToCanvasCoords xs ys (canvasToAxisCoords xs ys (l, t)) = (Some l, Some t)"
proof -
  obtain a b where ab: "first_used xs = Some a" "first_used ys = Some b" using assms(3,4) by auto
  note a = first_used_in [OF ab(1)] and b = first_used_in [OF ab(2)]
  let ?x = "axis_coords xs l Map.empty"
  let ?res = "axis_coords ys t ?x"
  let ?pos = "canvasToAxisCoords xs ys (l, t)"
  have d: "direction a = XDir" "direction b = YDir"
    using measuring_axis [OF assms(1)] measuring_axis [OF assms(2)] a b by blast+
  have n: "?pos (Numbered d n) = ?res (Numbered d n)" for d n
    by (simp add: canvasToAxisCoords_def Let_def split: option.split)
  have "?res (Numbered XDir (axis_n a)) = ?x (Numbered XDir (axis_n a))"
    by (rule axis_coords_untouched) (use measuring_axis [OF assms(2)] in auto)
  then have "?pos (Numbered XDir (axis_n a)) = Some (c2p a l)"
    unfolding n using measuring_coords [OF assms(1)] a by simp
  moreover have "?pos (Numbered YDir (axis_n b)) = Some (c2p b t)"
    unfolding n using measuring_coords [OF assms(2)] b by simp
  ultimately have "first_coord xs ?pos = Some (p2c a (c2p a l))" "first_coord ys ?pos = Some (p2c b (c2p b t))"
    using first_coord_used [OF ab(1)] first_coord_used [OF ab(2)] d by simp_all
  moreover have "p2c a (c2p a l) = l" "p2c b (c2p b t) = t"
    using measuring_axis [OF assms(1)] measuring_axis [OF assms(2)] a b by (blast intro: c2p_p2c(2))+
  ultimately show ?thesis by (simp add: axisToCanvasCoords_def)
qed

definition scaled_axis :: "dir \<Rightarrow> nat \<Rightarrow> axis" where
  "scaled_axis d n = (new_axis d plain_axis_options n)\<lparr>used := n = 2, scale_s := 2\<rparr>"

theorem canvas_coords_roundtrip_witness:
  "axisToCanvasCoords [Some (scaled_axis XDir 1), Some (scaled_axis XDir 2)] [None, Some (scaled_axis YDir 2)]
     (canvasToAxisCoords [Some (scaled_axis XDir 1), Some (scaled_axis XDir 2)] [None, Some (scaled_axis YDir 2)] (30, 40)) = (Some 30, Some 40)"
  by (rule canvas_coords_roundtrip)
    (simp_all add: measuring_def axis_list_def scaled_axis_def new_axis_def plain_axis_options_def)
section \<open>Markings stay inside the plot area\<close>

text \<open>An axis that shows its range on the plot area, without a transformation.\<close>

definition fitted :: "rat \<Rightarrow> rat \<Rightarrow> axis \<Rightarrow> bool" where
  "fitted pw ph a \<longleftrightarrow> axis_min a < axis_max a \<and> transform (axis_opts a) = None \<and>
     scale_s a = (if direction a = XDir then pw else - ph) / (axis_max a - axis_min a) \<and>
     shift_m a = (if direction a = XDir then axis_min a else axis_max a)"

lemma fitted_helpers:
  "axis_min a < axis_max a \<Longrightarrow> transform (axis_opts a) = None \<Longrightarrow> fitted pw ph (setTransformationHelpers pw ph a)"
  by (cases "direction a") (simp_all add: fitted_def setTransformationHelpers_def axis_transform_def Let_def)

lemma fitted_x:
  assumes "fitted pw ph a" "direction a = XDir" "0 \<le> pw" "axis_min a \<le> u" "u \<le> v" "v \<le> axis_max a"
  shows "0 \<le> p2c a u \<and> p2c a u \<le> p2c a v \<and> p2c a v \<le> pw"
proof -
  define d where "d = axis_max a - axis_min a"
  have d: "0 < d" using assms(1) by (simp add: d_def fitted_def)
  have p: "p2c a w = (w - axis_min a) * pw / d" for w
    using assms(1,2) by (simp add: p2c_def axis_transform_def fitted_def d_def)
  have "(v - axis_min a) * pw \<le> d * pw" using assms(3,6) by (intro mult_right_mono) (simp_all add: d_def)
  then have "p2c a v \<le> pw" using d by (simp add: p pos_divide_le_eq mult.commute)
  moreover have "p2c a u \<le> p2c a v" unfolding p using d assms(3,5) by (intro divide_right_mono mult_right_mono) simp_all
  moreover have "0 \<le> p2c a u" unfolding p using d assms(3,4) by simp
  ultimately show ?thesis by blast
qed

lemma fitted_y:
  assumes "fitted pw ph a" "direction a = YDir" "0 \<le> ph" "axis_min a \<le> u" "u \<le> v" "v \<le> axis_max a"
  shows "0 \<le> p2c a v \<and> p2c a v \<le> p2c a u \<and> p2c a u \<le> ph"
proof -
  define d where "d = axis_max a - axis_min a"
  have d: "0 < d" using assms(1) by (simp add: d_def fitted_def)
  have p: "p2c a w = (axis_max a - w) * ph / d" for w
  proof -
    have "p2c a w = (w - axis_max a) * (- ph / d)"
      using assms(1,2) by (simp add: p2c_def axis_transform_def fitted_def d_def)
    also have "\<dots> = (axis_max a - w) * ph / d" by (simp add: algebra_simps diff_divide_distrib)
    finally show ?thesis .
  qed
  have "(axis_max a - u) * ph \<le> d * ph" using assms(3,4) by (intro mult_right_mono) (simp_all add: d_def)
  then have "p2c a u \<le> ph" using d by (simp add: p pos_divide_le_eq mult.commute)
  moreover have "p2c a v \<le> p2c a u" unfolding p using d assms(3,5) by (intro divide_right_mono mult_right_mono) simp_all
  moreover have "0 \<le> p2c a v" unfolding p using d assms(3,6) by simp
  ultimately show ?thesis by blast
qed

lemma reversed_ordered: "reversed_range r = (Some f, Some t) \<Longrightarrow> f \<le> t"
  by (auto simp: reversed_range_def split: prod.splits option.splits if_splits)

lemma clip_range_inside:
  assumes "clip_range (fill_range (reversed_range r) a) a = Some (u, v)" "axis_min a < axis_max a"
  shows "axis_min a \<le> u \<and> u \<le> v \<and> v \<le> axis_max a"
proof -
  obtain f t where ft: "reversed_range r = (f, t)" by (rule prod.exhaust)
  have "\<And>x y. f = Some x \<Longrightarrow> t = Some y \<Longrightarrow> x \<le> y" using reversed_ordered ft by blast
  then show ?thesis using assms ft
    by (cases f; cases t) (auto simp: clip_range_def fill_range_def split: if_splits)
qed

text \<open>Every filled rectangle lies in the plot area.\<close>

fun in_plot :: "rat \<Rightarrow> rat \<Rightarrow> grid_call \<Rightarrow> bool" where
  "in_plot pw ph (FillRect x y w h) = (0 \<le> x \<and> 0 \<le> w \<and> x + w \<le> pw \<and> 0 \<le> y \<and> 0 \<le> h \<and> y + h \<le> ph)"
| "in_plot pw ph (Canvas (MoveTo x y)) = (0 \<le> x \<and> x \<le> pw \<and> 0 \<le> y \<and> y \<le> ph)"
| "in_plot pw ph (Canvas (LineTo x y)) = (0 \<le> x \<and> x \<le> pw \<and> 0 \<le> y \<and> y \<le> ph)"
| "in_plot pw ph c = True"

lemma extractRange_reversed: "\<exists>r. fst (extractRange m xs ys d) = reversed_range r"
proof (cases "find_range m d (allAxes xs ys)")
  case None
  then have "fst (extractRange m xs ys d) = reversed_range (old_range m d)" by (simp add: extractRange_def)
  then show ?thesis by (rule exI)
next
  case (Some p)
  then have "fst (extractRange m xs ys d) = reversed_range (fst p)"
    by (cases p) (simp add: extractRange_def)
  then show ?thesis by (rule exI)
qed

lemma find_range_in: "find_range m d as = Some (r, a) \<Longrightarrow> a \<in> set as \<and> direction a = d"
  by (induction m d as rule: find_range.induct) (auto simp: Let_def split: if_splits option.splits)

lemma extractRange_axis:
  assumes "extractRange m xs ys d = (r, Some a)" "list_all (\<lambda>a. direction a = XDir) (axis_list xs)" "list_all (\<lambda>a. direction a = YDir) (axis_list ys)"
  shows "a \<in> set (axis_list xs @ axis_list ys) \<and> direction a = d"
proof (cases "find_range m d (allAxes xs ys)")
  case None
  then have s: "axis_slot (if d = XDir then xs else ys) 1 = Some a" using assms(1) by (simp add: extractRange_def)
  then have "Some a \<in> set (if d = XDir then xs else ys)"
    by (auto simp: axis_slot_def aref_Some_iff split: option.splits) (metis length_greater_0_conv nth_mem)+
  then have i: "a \<in> set (axis_list (if d = XDir then xs else ys))" by (simp add: axis_list_set)
  then have "direction a = d" using assms(2,3) by (cases d) (auto simp: list_all_iff split: if_splits)
  then show ?thesis using i by (auto split: if_splits)
next
  case (Some p)
  obtain q b where p: "p = (q, b)" by (rule prod.exhaust)
  then have "b = a" using assms(1) Some by (simp add: extractRange_def)
  then show ?thesis using find_range_in [of m d "allAxes xs ys" q a] Some p
    by (simp add: allAxes_def axis_list_def)
qed

text \<open>
  C24: Markings are clipped to the plot area: on axes fitted to it, whatever ranges a marking names or
  leaves out, in whatever order, everything \<open>drawGrid\<close> draws for it lies in the plot area.
\<close>

theorem markings_inside_plot:
  assumes "draw_marking g xs ys m = ok cs" "list_all (fitted pw ph) (axis_list xs @ axis_list ys)"
    "list_all (\<lambda>a. direction a = XDir) (axis_list xs)" "list_all (\<lambda>a. direction a = YDir) (axis_list ys)" "0 \<le> pw" "0 \<le> ph"
  shows "list_all (in_plot pw ph) cs"
proof -
  obtain xr xo where x: "extractRange m xs ys XDir = (xr, xo)" by (rule prod.exhaust)
  obtain yr yo where y: "extractRange m xs ys YDir = (yr, yo)" by (rule prod.exhaust)
  obtain xa ya where o: "xo = Some xa" "yo = Some ya"
    using assms(1) x y by (cases xo; cases yo) (auto simp: draw_marking_def)
  have fx: "fitted pw ph xa" "direction xa = XDir" and fy: "fitted pw ph ya" "direction ya = YDir"
    using extractRange_axis [OF x [unfolded o] assms(3,4)] extractRange_axis [OF y [unfolded o] assms(3,4)] assms(2)
    by (simp_all add: list_all_iff)
  obtain xr0 yr0 where r: "xr = reversed_range xr0" "yr = reversed_range yr0"
    using extractRange_reversed [of m xs ys XDir] extractRange_reversed [of m xs ys YDir] x y by auto
  show ?thesis
  proof (cases "clip_range (fill_range xr xa) xa")
    case None
    then show ?thesis using assms(1) x y o by (simp add: draw_marking_def)
  next
    case (Some p)
    obtain x1 x2 where p: "p = (x1, x2)" by (rule prod.exhaust)
    show ?thesis
    proof (cases "clip_range (fill_range yr ya) ya")
      case None
      then show ?thesis using assms(1) x y o Some p by (simp add: draw_marking_def)
    next
      case (Some q)
      obtain y1 y2 where q: "q = (y1, y2)" by (rule prod.exhaust)
      have cx: "clip_range (fill_range xr xa) xa = Some (x1, x2)" using \<open>clip_range (fill_range xr xa) xa = Some p\<close> p by simp
      have cy: "clip_range (fill_range yr ya) ya = Some (y1, y2)" using Some q by simp
      have "axis_min xa < axis_max xa" "axis_min ya < axis_max ya" using fx(1) fy(1) by (simp_all add: fitted_def)
      then have ix: "axis_min xa \<le> x1 \<and> x1 \<le> x2 \<and> x2 \<le> axis_max xa" and iy: "axis_min ya \<le> y1 \<and> y1 \<le> y2 \<and> y2 \<le> axis_max ya"
        using clip_range_inside cx cy unfolding r by blast+
      have bx: "0 \<le> p2c xa x1 \<and> p2c xa x1 \<le> p2c xa x2 \<and> p2c xa x2 \<le> pw" using fitted_x [OF fx assms(5)] ix by blast
      have bY: "0 \<le> p2c ya y2 \<and> p2c ya y2 \<le> p2c ya y1 \<and> p2c ya y1 \<le> ph" using fitted_y [OF fy assms(6)] iy by blast
      show ?thesis using assms(1) x y o cx cy bx bY by (auto simp: draw_marking_def Let_def split: if_splits)
    qed
  qed
qed
definition plot_axis :: "dir \<Rightarrow> axis" where
  "plot_axis d = setTransformationHelpers 300 200 ((new_axis d plain_axis_options 1)\<lparr>axis_max := 10\<rparr>)"

definition band :: marking where
  "band = \<lparr>numbered_range = (\<lambda>d n. None), short_range = (\<lambda>d. if d = XDir then Some (Some 8, Some 5) else None),
     old_range = (\<lambda>d. (None, None)), mark_color = None, mark_lineWidth = None\<rparr>"

theorem markings_inside_plot_witness:
  "\<exists>cs. draw_marking sample_grid [Some (plot_axis XDir)] [Some (plot_axis YDir)] band = ok cs \<and> cs \<noteq> [] \<and>
     list_all (in_plot 300 200) cs"
proof -
  have f: "fitted 300 200 (plot_axis d)" for d
    unfolding plot_axis_def by (rule fitted_helpers) (simp_all add: new_axis_def plain_axis_options_def)
  have d: "direction (plot_axis d) = d" "axis_n (plot_axis d) = 1" "axis_min (plot_axis d) = 0" "axis_max (plot_axis d) = 10" for d
    by (cases d; simp add: plot_axis_def setTransformationHelpers_def new_axis_def Let_def axis_transform_def plain_axis_options_def)+
  have "\<exists>cs. draw_marking sample_grid [Some (plot_axis XDir)] [Some (plot_axis YDir)] band = ok cs \<and> cs \<noteq> []"
    by (auto simp: draw_marking_def extractRange_def allAxes_def d band_def reversed_range_def fill_range_def clip_range_def
        axis_slot_def Let_def)
  then obtain cs where cs: "draw_marking sample_grid [Some (plot_axis XDir)] [Some (plot_axis YDir)] band = ok cs" "cs \<noteq> []" by blast
  have "list_all (in_plot 300 200) cs"
    by (rule markings_inside_plot [OF cs(1)]) (simp_all add: axis_list_def f d)
  with cs show ?thesis by blast
qed
end
