(* ===== verification/Page.thy ===== *)
theory Page
  imports JsString Complex_Main
begin

text \<open>
  The page an application handler sees and the commands it issues.  The document is the
  list of its elements in document order; a handler reads it and answers the sequence of
  calls it makes on the browser and on the jQuery objects, or the error that stopped it.
  A call with a callback carries the calls the callback makes.
\<close>

section \<open>The document\<close>

record element =
  tag :: string
  val :: "string option"
  scroll_top :: int
  visible :: bool

record page =
  elements :: "(string \<times> element) list"
  win_height :: rat
  win_width :: rat
  has_selection_range :: bool

definition get_element :: "page \<Rightarrow> string \<Rightarrow> element option" where
  "get_element p i = map_of (elements p) i"

definition first_by_tag :: "page \<Rightarrow> string \<Rightarrow> string option" where
  "first_by_tag p t = map_option fst (List.find (\<lambda>(i, e). tag e = t) (elements p))"

text \<open>\<open>$("#id").val()\<close>: \<open>undefined\<close> when there is no such element or it has no value.\<close>

definition jq_val :: "page \<Rightarrow> string \<Rightarrow> string option" where
  "jq_val p i = Option.bind (get_element p i) val"

definition jq_visible :: "page \<Rightarrow> string \<Rightarrow> bool" where
  "jq_visible p i = (case get_element p i of None \<Rightarrow> False | Some e \<Rightarrow> visible e)"

section \<open>The commands\<close>

datatype cmd =
    SetSelectionRange string int int
  | FocusOn string
  | SetValue string string
  | SetScrollTop string int
  | SetRows string rat
  | SetCols string rat
  | SetHeight string rat
  | SetHtml string string
  | SetInnerHTML string string
  | FadeOut string string "cmd list"
  | FadeIn string string
  | SlideUp string string "cmd list"
  | SlideDown string string
  | ShowSliding string string
  | SetTimeout "cmd list" nat
  | AjaxPost string "(string \<times> string option) list"

end
