(* ===== verification/Editor.thy ===== *)
theory Editor
  imports Page
begin

text \<open>
  The line-numbered editor of the web interface (\<open>linedtextarea.js\<close>): scrolling the two
  text areas together, filling the one with the line numbers, and selecting the line an
  error report names.  \<open>countlines\<close> is the loop that turns a line number into a character
  range; the lemmas show which range it selects and when it raises instead.
\<close>

section \<open>Keeping the two text areas together\<close>

definition sync :: "page \<Rightarrow> cmd list js" where
  "sync p = (case (get_element p ''lines'', get_element p ''editor_textarea'') of
       (Some _, Some source) \<Rightarrow> ok [SetScrollTop ''lines'' (scroll_top source)]
     | _ \<Rightarrow> raise TypeError)"

section \<open>The line numbers\<close>

definition crlf :: string where
  "crlf = [CHR 0x0D, CHR 0x0A]"

function populate_loop :: "nat \<Rightarrow> nat \<Rightarrow> string \<Rightarrow> string" where
  "populate_loop i bound str =
     (if i < bound then populate_loop (Suc i) bound (str @ show_nat i @ crlf) else str)"
  by pat_completeness auto
termination
  by (relation "measure (\<lambda>(i, bound, str). bound - i)") auto

declare populate_loop.simps [simp del]

definition populate :: "page \<Rightarrow> cmd list js" where
  "populate p = (case get_element p ''lines'' of
       None \<Rightarrow> raise TypeError
     | Some _ \<Rightarrow> ok [SetValue ''lines'' (populate_loop 1 99999 [])])"

lemma populate_loop_eq: "populate_loop i bound str = str @ concat (map (\<lambda>k. show_nat k @ crlf) [i..<bound])"
proof (induction i bound str rule: populate_loop.induct)
  case (1 i bound str)
  show ?case
  proof (cases "i < bound")
    case True
    with 1 show ?thesis by (simp add: populate_loop.simps [of i] upt_conv_Cons)
  next
    case False
    then show ?thesis by (simp add: populate_loop.simps [of i])
  qed
qed

section \<open>From a line number to a selection\<close>

definition newline :: char where
  "newline = CHR 0x0A"

text \<open>
  The loop of \<open>countlines\<close>.  A read past the end of \<open>split\<close> gives \<open>undefined\<close>, and its
  \<open>length\<close> raises.
\<close>

function countlines_loop :: "string list \<Rightarrow> nat \<Rightarrow> nat \<Rightarrow> nat \<Rightarrow> nat \<Rightarrow> (nat \<times> nat) js" where
  "countlines_loop split i bound start len =
     (if i < bound then
        (case aref split i of
           None \<Rightarrow> raise TypeError
         | Some w \<Rightarrow>
             (case aref split (i + 1) of
                None \<Rightarrow> raise TypeError
              | Some w' \<Rightarrow> countlines_loop split (i + 1) bound (start + length w + 1) (length w')))
      else ok (start, len))"
  by pat_completeness auto
termination
  by (relation "measure (\<lambda>(split, i, bound, start, len). bound - i)") auto

declare countlines_loop.simps [simp del]

text \<open>
  The line argument is the result of \<open>data.match(/\d+/)\<close>: \<open>None\<close> for \<open>null\<close>, which the
  comparisons read as 0.
\<close>

definition line_value :: "string option \<Rightarrow> nat" where
  "line_value line = (case line of None \<Rightarrow> 0 | Some ds \<Rightarrow> read_digits 0 ds)"

definition countlines_range :: "string \<Rightarrow> string option \<Rightarrow> (nat \<times> nat) js" where
  "countlines_range text line =
     (let split = split_on newline (rtrim text); n = line_value line
      in if n = 1 then
           (case aref split 0 of None \<Rightarrow> raise TypeError | Some w \<Rightarrow> ok (0, length w))
         else countlines_loop split 0 (n - 1) 0 0)"

definition showWhereInTextarea :: "page \<Rightarrow> string \<Rightarrow> nat \<Rightarrow> nat \<Rightarrow> cmd list js" where
  "showWhereInTextarea p area start len =
     (case get_element p area of
        None \<Rightarrow> raise TypeError
      | Some _ \<Rightarrow>
          (if has_selection_range p then
             ok [SetSelectionRange area (int start) (int start + int len),
                 SetSelectionRange area (int start) (int start + int len),
                 FocusOn area]
           else ok []))"

definition countlines :: "page \<Rightarrow> string \<Rightarrow> string option \<Rightarrow> cmd list js" where
  "countlines p area line =
     (case get_element p area of
        None \<Rightarrow> raise TypeError
      | Some e \<Rightarrow>
          (case val e of
             None \<Rightarrow> raise TypeError
           | Some text \<Rightarrow>
               js_bind (countlines_range text line) (\<lambda>(start, len). showWhereInTextarea p area start len)))"

subsection \<open>The loop computes the offset of a line\<close>

definition line_start :: "string list \<Rightarrow> nat \<Rightarrow> nat" where
  "line_start ws k = sum_list (map (\<lambda>w. length w + 1) (take k ws))"

lemma line_start_Suc: "k < length ws \<Longrightarrow> line_start ws (Suc k) = line_start ws k + length (ws ! k) + 1"
  by (simp add: line_start_def take_Suc_conv_app_nth)

lemma countlines_loop_ok:
  assumes "i \<le> bound" "bound < length ws"
  shows "countlines_loop ws i bound (line_start ws i) len =
         ok (line_start ws bound, if i < bound then length (ws ! bound) else len)"
  using assms
proof (induction "bound - i" arbitrary: i len)
  case 0
  then show ?case by (simp add: countlines_loop.simps [of ws i])
next
  case (Suc d)
  then have i: "i < bound" by simp
  have "countlines_loop ws i bound (line_start ws i) len =
        countlines_loop ws (Suc i) bound (line_start ws (Suc i)) (length (ws ! Suc i))"
    using i Suc.prems by (simp add: countlines_loop.simps [of ws i] line_start_Suc)
  also have "\<dots> = ok (line_start ws bound, if Suc i < bound then length (ws ! bound) else length (ws ! Suc i))"
    using Suc i by simp
  also have "\<dots> = ok (line_start ws bound, length (ws ! bound))"
    using i by (metis Suc_lessI)
  finally show ?case using i by simp
qed

lemma countlines_loop_past_end:
  assumes "length ws \<le> bound" "i < bound"
  shows "countlines_loop ws i bound start len = raise TypeError"
  using assms
proof (induction "bound - i" arbitrary: i start len)
  case 0
  then show ?case by simp
next
  case (Suc d)
  show ?case
  proof (cases "Suc i < length ws")
    case True
    with Suc show ?thesis by (simp add: countlines_loop.simps [of ws i])
  next
    case False
    with Suc.prems show ?thesis
      by (simp add: countlines_loop.simps [of ws i] aref_def split: option.splits)
  qed
qed

lemma countlines_range_ok:
  assumes "ws = split_on newline (rtrim text)" "1 \<le> n" "n \<le> length ws" "line_value line = n"
  shows "countlines_range text line = ok (line_start ws (n - 1), length (ws ! (n - 1)))"
proof (cases "n = 1")
  case True
  with assms show ?thesis by (simp add: countlines_range_def line_start_def)
next
  case False
  have "countlines_loop ws 0 (n - 1) (line_start ws 0) 0 = ok (line_start ws (n - 1), length (ws ! (n - 1)))"
    using assms False by (subst countlines_loop_ok) auto
  with False assms show ?thesis by (simp add: countlines_range_def line_start_def)
qed

text \<open>The computed range really is the text of the line.\<close>

lemma join_drop_line:
  "k < length ws \<Longrightarrow>
     \<exists>pre post. join_with [c] ws = pre @ ws ! k @ post \<and> length pre = line_start ws k
       \<and> (k = 0 \<longrightarrow> pre = []) \<and> (0 < k \<longrightarrow> pre \<noteq> [] \<and> last pre = c)"
proof (induction "[c]" ws arbitrary: k rule: join_with.induct)
  case 1
  then show ?case by simp
next
  case (2 w)
  then show ?case by (simp add: line_start_def)
next
  case (3 w v ws)
  show ?case
  proof (cases k)
    case 0
    have "join_with [c] (w # v # ws) = [] @ w @ (c # join_with [c] (v # ws))" by simp
    with 0 show ?thesis by (metis length_0_conv line_start_def list.map(1) nth_Cons_0 sum_list.Nil take_0 less_irrefl)
  next
    case (Suc j)
    with 3 obtain pre post where jp:
      "join_with [c] (v # ws) = pre @ (v # ws) ! j @ post" "length pre = line_start (v # ws) j"
      "0 < j \<longrightarrow> pre \<noteq> [] \<and> last pre = c" "j = 0 \<longrightarrow> pre = []"
      by (metis Suc_less_eq length_Cons)
    have "join_with [c] (w # v # ws) = (w @ [c] @ pre) @ (w # v # ws) ! k @ post"
      using jp(1) Suc by simp
    moreover have "length (w @ [c] @ pre) = line_start (w # v # ws) k"
      using jp(2) Suc by (simp add: line_start_def)
    moreover have "last (w @ [c] @ pre) = c"
      using jp(3,4) by (cases "j = 0") auto
    ultimately show ?thesis using Suc by blast
  qed
qed

lemma line_cut:
  assumes "ws = split_on newline (rtrim text)" "k < length ws"
  shows "take (length (ws ! k)) (drop (line_start ws k) text) = ws ! k"
    "0 < k \<Longrightarrow> text ! (line_start ws k - 1) = newline"
    "line_start ws k + length (ws ! k) \<le> length text"
proof -
  obtain w where w: "text = rtrim text @ w" using rtrim_prefix by blast
  have "join_with [newline] ws = rtrim text" using assms(1) by (simp add: join_split)
  with join_drop_line [OF assms(2), of newline] w obtain pre post where
    t: "text = pre @ ws ! k @ post @ w" and l: "length pre = line_start ws k"
    and last: "0 < k \<longrightarrow> pre \<noteq> [] \<and> last pre = newline"
    by (metis append_assoc)
  show "take (length (ws ! k)) (drop (line_start ws k) text) = ws ! k"
    by (subst t) (simp add: l [symmetric])
  show "line_start ws k + length (ws ! k) \<le> length text"
    by (subst t) (simp add: l [symmetric])
  assume "0 < k"
  with last have "pre \<noteq> []" "last pre = newline" by auto
  then show "text ! (line_start ws k - 1) = newline"
    by (subst t) (simp add: l [symmetric] nth_append last_conv_nth)
qed

section \<open>Properties\<close>

text \<open>
  C27: selecting line \<open>n\<close> of the editor, for a line that exists in the text without its
  trailing white space, issues the selection twice and then the focus, and the selected
  range of the untrimmed value is exactly that line: it starts behind the newline that
  ends the line before and holds the line's text.
\<close>

theorem countlines_selects_line:
  assumes "get_element p area = Some e" "val e = Some text" "has_selection_range p"
    and "ws = split_on newline (rtrim text)" "line_value line = n" "1 \<le> n" "n \<le> length ws"
  shows "\<exists>s l. countlines p area line =
      ok [SetSelectionRange area (int s) (int s + int l), SetSelectionRange area (int s) (int s + int l), FocusOn area]
    \<and> take l (drop s text) = ws ! (n - 1) \<and> l = length (ws ! (n - 1)) \<and> s + l \<le> length text
    \<and> (n = 1 \<longrightarrow> s = 0) \<and> (1 < n \<longrightarrow> text ! (s - 1) = newline)"
proof -
  have k: "n - 1 < length ws" using assms(6,7) by simp
  have "countlines p area line = showWhereInTextarea p area (line_start ws (n - 1)) (length (ws ! (n - 1)))"
    using assms(1,2) countlines_range_ok [OF assms(4,6,7,5)] by (simp add: countlines_def)
  moreover have "n = 1 \<longrightarrow> line_start ws (n - 1) = 0" by (simp add: line_start_def)
  ultimately show ?thesis
    using assms(1,3,6) line_cut [OF assms(4) k] by (force simp: showWhereInTextarea_def)
qed

definition sample_text :: string where
  "sample_text = ''ab'' @ [newline] @ ''cde'' @ [newline]"

definition sample_area :: element where
  "sample_area = \<lparr>tag = ''textarea'', val = Some sample_text, scroll_top = 4, visible = True\<rparr>"

definition sample_page :: page where
  "sample_page = \<lparr>elements = [(''lines'', sample_area), (''editor_textarea'', sample_area)],
     win_height = 600, win_width = 800, has_selection_range = True\<rparr>"

lemma sample_lookup: "get_element sample_page ''editor_textarea'' = Some sample_area"
  by (simp add: sample_page_def get_element_def)

lemma sample_facts: "val sample_area = Some sample_text" "has_selection_range sample_page"
  by (simp_all add: sample_area_def sample_page_def)

lemma sample_lines: "[''ab'', ''cde''] = split_on newline (rtrim sample_text)"
  by (simp add: sample_text_def newline_def rtrim_def is_space_def)

theorem countlines_selects_line_witness:
  "\<exists>s l. countlines sample_page ''editor_textarea'' (Some ''2'') =
      ok [SetSelectionRange ''editor_textarea'' (int s) (int s + int l),
          SetSelectionRange ''editor_textarea'' (int s) (int s + int l), FocusOn ''editor_textarea'']
    \<and> take l (drop s sample_text) = ''cde''"
proof -
  have n: "line_value (Some ''2'') = 2" "1 \<le> (2::nat)" "2 \<le> length [''ab'', ''cde'']"
    by (simp_all add: line_value_def digit_val_def)
  show ?thesis
    using countlines_selects_line [OF sample_lookup sample_facts sample_lines n]
    by (auto simp: numeral_3_eq_3)
qed

text \<open>
  C30: a line number beyond the last line of the trimmed text raises a \<open>TypeError\<close>, so
  nothing is selected; with no number in the report (or the number 0) the loop does not
  run and the empty range at the start of the text is selected.
\<close>

theorem countlines_out_of_range:
  assumes "get_element p area = Some e" "val e = Some text" "has_selection_range p"
    and "\<not> (1 \<le> line_value line \<and> line_value line \<le> length (split_on newline (rtrim text)))"
  shows "countlines p area line =
    (if line_value line = 0
     then ok [SetSelectionRange area 0 0, SetSelectionRange area 0 0, FocusOn area]
     else raise TypeError)"
proof (cases "line_value line = 0")
  case True
  with assms(1-3) show ?thesis
    by (simp add: countlines_def countlines_range_def countlines_loop.simps showWhereInTextarea_def)
next
  case False
  let ?ws = "split_on newline (rtrim text)"
  have "0 < length ?ws" using split_on_not_Nil by blast
  with False assms(4) have "length ?ws \<le> line_value line - 1" "1 < line_value line" by linarith+
  then have "countlines_range text line = raise TypeError"
    by (simp add: countlines_range_def Let_def countlines_loop_past_end)
  with False assms(1,2) show ?thesis by (simp add: countlines_def)
qed

theorem countlines_out_of_range_witness:
  "countlines sample_page ''editor_textarea'' (Some ''3'') = raise TypeError"
proof -
  have n: "line_value (Some ''3'') = 3" by (simp add: line_value_def digit_val_def)
  have "\<not> (1 \<le> line_value (Some ''3'') \<and> line_value (Some ''3'') \<le> length (split_on newline (rtrim sample_text)))"
    by (simp add: n flip: sample_lines)
  from countlines_out_of_range [OF sample_lookup sample_facts this] n show ?thesis by simp
qed

text \<open>
  The numbers area is filled with the decimal numerals 1 to 99998, one per line, each
  ended by a carriage return and a line feed: dropping the carriage returns and splitting
  at the line feeds gives the numerals in order and an empty last line.
\<close>

theorem populate_numbers_lines:
  assumes "get_element p ''lines'' = Some e"
  shows "\<exists>text. populate p = ok [SetValue ''lines'' text]
    \<and> split_on newline (filter (\<lambda>c. c \<noteq> CHR 0x0D) text) = map show_nat [1..<99999] @ [[]]"
proof -
  let ?text = "populate_loop 1 99999 []"
  have digits: "c \<noteq> CHR 0x0D" "c \<noteq> newline" if "c \<in> set (show_nat n)" for c n
    using show_nat_digits [of n] that by (auto simp: is_digit_def newline_def)
  have *: "split_on newline (filter (\<lambda>c. c \<noteq> CHR 0x0D) (concat (map (\<lambda>k. show_nat k @ crlf) ns))) = map show_nat ns @ [[]]" for ns
  proof (induction ns)
    case Nil
    then show ?case by simp
  next
    case (Cons n ns)
    have "filter (\<lambda>c. c \<noteq> CHR 0x0D) (show_nat n) = show_nat n"
      using digits by (simp add: filter_id_conv)
    moreover have "newline \<notin> set (show_nat n)" using digits by blast
    moreover have "newline \<noteq> CHR 0x0D" by (simp add: newline_def)
    ultimately show ?case
      using Cons by (simp add: crlf_def split_on_append_sep flip: newline_def)
  qed
  have "split_on newline (filter (\<lambda>c. c \<noteq> CHR 0x0D) ?text) = map show_nat [1..<99999] @ [[]]"
    unfolding populate_loop_eq append_Nil by (rule *)
  with assms show ?thesis by (simp add: populate_def)
qed

theorem populate_numbers_lines_witness:
  "\<exists>text. populate sample_page = ok [SetValue ''lines'' text]
    \<and> split_on newline (filter (\<lambda>c. c \<noteq> CHR 0x0D) text) = map show_nat [1..<99999] @ [[]]"
proof -
  have "get_element sample_page ''lines'' = Some sample_area"
    by (simp add: sample_page_def get_element_def)
  from populate_numbers_lines [OF this] show ?thesis .
qed

end
