(* ===== verification/App.thy ===== *)
theory App
  imports Editor
begin

text \<open>
  The handlers of \<open>application.js\<close>: the requests they post, what their success callbacks do
  with the answer, and the layout of the editor on a resize.  A handler answers the calls
  it issued and the error that stopped it, if one did: what was issued before an error
  stays done.
\<close>

type_synonym run = "cmd list \<times> js_error option"

definition finish :: "cmd list \<Rightarrow> run" where
  "finish cs = (cs, None)"

definition and_then :: "cmd list \<Rightarrow> cmd list js \<Rightarrow> run" where
  "and_then cs m = (case m of Inl e \<Rightarrow> (cs, Some e) | Inr ds \<Rightarrow> (cs @ ds, None))"

section \<open>Requests and their callbacks\<close>

definition slide_tab_text :: "string \<Rightarrow> run" where
  "slide_tab_text tab_name =
     finish [SlideUp ''#tab_text'' ''slow'' [SetHtml ''#tab_text'' tab_name, SlideDown ''#tab_text'' []]]"

definition update_file_list :: "page \<Rightarrow> run" where
  "update_file_list p = finish [AjaxPost ''/users/get_files_list/'' [(''library'', jq_val p ''library_select'')]]"

definition update_file_list_success :: "string \<Rightarrow> run" where
  "update_file_list_success data = finish [SetHtml ''#files_list'' data]"

definition simulation :: "page \<Rightarrow> run" where
  "simulation p = finish [AjaxPost ''/abnf_files/simulation/'' [(''lines'', jq_val p ''simulation'')]]"

definition simulation_success :: "page \<Rightarrow> string \<Rightarrow> run" where
  "simulation_success p data = finish
     (SetHtml ''#console-text'' data #
      (if \<not> jq_visible p ''console'' then [ShowSliding ''#console'' ''down''] else []))"

definition fade_swap :: "string \<Rightarrow> string \<Rightarrow> cmd" where
  "fade_swap sel data = FadeOut sel ''fast'' [SetHtml sel data, FadeIn sel ''fast'']"

definition update_libraries_list :: run where
  "update_libraries_list = finish [AjaxPost ''/users/get_libraries_list/'' []]"

definition update_libraries_list_success :: "string \<Rightarrow> run" where
  "update_libraries_list_success data = finish [fade_swap ''#library_select_div'' data]"

definition validate_abnf :: "page \<Rightarrow> run" where
  "validate_abnf p = finish [AjaxPost ''/abnf_files/validate/'' [(''content'', jq_val p ''editor_textarea'')]]"

text \<open>
  The callback first selects the line the report names, then swaps the report in; an error
  of \<open>countlines\<close> leaves the callback before the swap.
\<close>

definition validate_abnf_success :: "page \<Rightarrow> string \<Rightarrow> run" where
  "validate_abnf_success p data =
     (case countlines p ''editor_textarea'' (first_number data) of
        Inl e \<Rightarrow> ([], Some e)
      | Inr cs \<Rightarrow> finish (cs @ [fade_swap ''#validator_report'' data]))"

definition export_abnf :: "page \<Rightarrow> string \<Rightarrow> run" where
  "export_abnf p file_name = finish [AjaxPost ''/abnf_files/export/''
     [(''content'', jq_val p ''editor_textarea''), (''file_name'', Some file_name)]]"

definition notify :: run where
  "notify = finish [AjaxPost ''/abnf_files/notify/'' []]"

definition notify_success :: "string \<Rightarrow> run" where
  "notify_success data = finish
     [SetHtml ''#flash_messages'' data, SlideDown ''#flash_messages'' ''slow'',
      SetTimeout [SlideUp ''#flash_messages'' ''slow'' []] 3000]"

section \<open>Layout\<close>

definition resize :: "page \<Rightarrow> run" where
  "resize p = finish [SetHeight ''#corpo'' (win_height p - 181)]"

definition setRowNumber :: "page \<Rightarrow> run" where
  "setRowNumber p =
     (case first_by_tag p ''textarea'' of
        None \<Rightarrow> finish []
      | Some tarea \<Rightarrow>
          (let height = win_height p - 280;
               width = win_width p / 100 * 74;
               cols = width / (78 / 10);
               rows = height / (152 / 10)
           in (case get_element p ''editor_textarea'' of
                 None \<Rightarrow> ([SetRows tarea (rows + 1)], Some TypeError)
               | Some _ \<Rightarrow>
                   and_then [SetRows tarea (rows + 1), SetRows ''editor_textarea'' rows, SetCols tarea cols]
                     (populate p))))"

definition loading :: run where
  "loading = finish [SetHtml ''#wsdl_file'' ''<img src='images/loading.gif'>'']"

text \<open>\<open>loading.js\<close> defines the same name with an argument, and replaces the one above where both are loaded.\<close>

definition loading_into :: "page \<Rightarrow> string \<Rightarrow> run" where
  "loading_into p oggetto =
     (case get_element p oggetto of
        None \<Rightarrow> ([], Some TypeError)
      | Some _ \<Rightarrow> finish [SetInnerHTML oggetto
          ''<div id=\"display_ajax\"><p>Please wait while I load your information.</p><p><img src=\"/images/ajax-loader.gif\" /></p></div>''])"

text \<open>A jQuery object has no method \<open>class\<close>, so the first list item stops the loop.\<close>

definition set_active_class :: "page \<Rightarrow> run" where
  "set_active_class p = (if first_by_tag p ''li'' = None then finish [] else ([], Some TypeError))"

section \<open>Properties\<close>

text \<open>
  C34: after a validation the report replaces the old one exactly when the first number of
  the report is at most the number of lines of the editor text without its trailing white
  space; otherwise the callback dies with a \<open>TypeError\<close> before it issues anything.
\<close>

theorem validate_report_shown_iff:
  assumes "get_element p ''editor_textarea'' = Some e" "val e = Some text" "has_selection_range p"
  shows "if line_value (first_number data) \<le> length (split_on newline (rtrim text))
     then \<exists>cs. validate_abnf_success p data = (cs @ [fade_swap ''#validator_report'' data], None)
     else validate_abnf_success p data = ([], Some TypeError)"
proof -
  let ?n = "line_value (first_number data)" and ?ws = "split_on newline (rtrim text)"
  consider "1 \<le> ?n" "?n \<le> length ?ws" | "?n = 0" | "length ?ws < ?n" by linarith
  then show ?thesis
  proof cases
    case 1
    from countlines_range_ok [OF refl this refl] assms show ?thesis
      using 1 by (simp add: validate_abnf_success_def countlines_def showWhereInTextarea_def finish_def)
  next
    case 2
    with assms show ?thesis
      by (simp add: validate_abnf_success_def countlines_def countlines_range_def
          countlines_loop.simps showWhereInTextarea_def finish_def)
  next
    case 3
    have "0 < length ?ws" using split_on_not_Nil by blast
    with 3 have "length ?ws \<le> ?n - 1" "1 < ?n" by linarith+
    then have "countlines_range text (first_number data) = raise TypeError"
      by (simp add: countlines_range_def Let_def countlines_loop_past_end)
    with assms 3 show ?thesis by (simp add: validate_abnf_success_def countlines_def)
  qed
qed

theorem validate_report_shown_iff_witness:
  "validate_abnf_success sample_page ''Error on line 7'' = ([], Some TypeError)
   \<and> (\<exists>cs. validate_abnf_success sample_page ''line 2'' = (cs @ [fade_swap ''#validator_report'' ''line 2''], None))"
proof -
  have "line_value (first_number ''Error on line 7'') = 7" "line_value (first_number ''line 2'') = 2"
    by (simp_all add: line_value_def first_number_def is_digit_def digit_val_def)
  then show ?thesis
    using validate_report_shown_iff [OF sample_lookup sample_facts, of "''Error on line 7''"]
      validate_report_shown_iff [OF sample_lookup sample_facts, of "''line 2''"]
    by (simp flip: sample_lines)
qed

text \<open>
  On a resize of a page whose first text area is the numbers area, the numbers area
  gets exactly one row more than the editor, and the numbers are filled in again; the
  handler does nothing on a page without a text area.
\<close>

theorem setRowNumber_rows:
  assumes "first_by_tag p ''textarea'' = Some ''lines''" "get_element p ''editor_textarea'' \<noteq> None"
    and "get_element p ''lines'' \<noteq> None"
  shows "\<exists>rows cols text. setRowNumber p =
     ([SetRows ''lines'' (rows + 1), SetRows ''editor_textarea'' rows, SetCols ''lines'' cols, SetValue ''lines'' text], None)
     \<and> rows = (win_height p - 280) * 5 / 76 \<and> cols = win_width p * 37 / 390"
proof -
  obtain e where "get_element p ''lines'' = Some e" using assms(3) by auto
  with assms have "setRowNumber p = ([SetRows ''lines'' ((win_height p - 280) * 5 / 76 + 1),
      SetRows ''editor_textarea'' ((win_height p - 280) * 5 / 76), SetCols ''lines'' (win_width p * 37 / 390),
      SetValue ''lines'' (populate_loop 1 99999 [])], None)"
    by (auto simp: setRowNumber_def and_then_def populate_def Let_def field_simps)
  then show ?thesis by blast
qed

theorem setRowNumber_rows_witness:
  "\<exists>rows cols text. setRowNumber sample_page =
     ([SetRows ''lines'' (rows + 1), SetRows ''editor_textarea'' rows, SetCols ''lines'' cols, SetValue ''lines'' text], None)
     \<and> rows = 400 / 19"
proof -
  have "first_by_tag sample_page ''textarea'' = Some ''lines''" "get_element sample_page ''editor_textarea'' \<noteq> None"
    "get_element sample_page ''lines'' \<noteq> None"
    by (simp_all add: first_by_tag_def sample_page_def sample_area_def get_element_def)
  from setRowNumber_rows [OF this] show ?thesis by (auto simp: sample_page_def)
qed

end
