(* ===== verification/JqQueue.thy ===== *)
theory JqQueue
  imports Prelude
begin

text \<open>
  The function queues of \<open>jquery.js\<close>: \<open>jQuery.queue\<close>, \<open>jQuery.dequeue\<close> and the methods over
  them.  The store holds the arrays the code shares between the data slot of an element
  and its local variables, so that a queue that is replaced while a function runs is a
  different array from the one \<open>dequeue\<close> still holds.  What a queued function does is an
  argument of \<open>dequeue\<close>.  The locale \<open>fx_queue\<close> states what a client of the effects queue
  relies on, and is interpreted on the model.
\<close>

section \<open>The store\<close>

datatype 'f entry = InProgress | Fn 'f

record 'f qstore =
  arrays :: "'f entry list list"
  slot :: "nat option"
  called :: "'f list"

definition new_qstore :: "'f qstore" where
  "new_qstore = \<lparr>arrays = [], slot = None, called = []\<rparr>"

text \<open>A fresh array; the result is its reference.\<close>

definition alloc :: "'f entry list \<Rightarrow> 'f qstore \<Rightarrow> nat \<times> 'f qstore" where
  "alloc xs st = (length (arrays st), st\<lparr>arrays := arrays st @ [xs]\<rparr>)"

definition set_array :: "nat \<Rightarrow> 'f entry list \<Rightarrow> 'f qstore \<Rightarrow> 'f qstore" where
  "set_array r xs st = st\<lparr>arrays := (arrays st)[r := xs]\<rparr>"

definition contents :: "nat \<Rightarrow> 'f qstore \<Rightarrow> 'f entry list" where
  "contents r st = (case aref (arrays st) r of None \<Rightarrow> [] | Some xs \<Rightarrow> xs)"

section \<open>jQuery.queue and jQuery.dequeue\<close>

text \<open>The look-up \<open>queue(elem, type)\<close>: an empty array of its own when there is no queue.\<close>

definition queue_lookup :: "'f qstore \<Rightarrow> nat \<times> 'f qstore" where
  "queue_lookup st = (case slot st of Some r \<Rightarrow> (r, st) | None \<Rightarrow> alloc [] st)"

text \<open>\<open>queue(elem, type, fn)\<close> pushes, \<open>queue(elem, type, array)\<close> replaces.\<close>

definition queue_push :: "'f \<Rightarrow> 'f qstore \<Rightarrow> nat \<times> 'f qstore" where
  "queue_push f st =
     (case slot st of
        None \<Rightarrow> (let (r, st') = alloc [Fn f] st in (r, st'\<lparr>slot := Some r\<rparr>))
      | Some r \<Rightarrow> (r, set_array r (contents r st @ [Fn f]) st))"

definition queue_replace :: "'f list \<Rightarrow> 'f qstore \<Rightarrow> nat \<times> 'f qstore" where
  "queue_replace fs st = (let (r, st') = alloc (map Fn fs) st in (r, st'\<lparr>slot := Some r\<rparr>))"

text \<open>\<open>queue.shift()\<close>: the first entry and the rest, \<open>None\<close> for \<open>undefined\<close>.\<close>

fun shift :: "'f entry list \<Rightarrow> 'f entry option \<times> 'f entry list" where
  "shift [] = (None, [])"
| "shift (x # xs) = (Some x, xs)"

text \<open>The entry to run: a sentinel in front is dropped, and the next entry taken instead.\<close>

definition next_entry :: "'f entry list \<Rightarrow> 'f entry option \<times> 'f entry list" where
  "next_entry xs =
     (let (fn, ys) = shift xs in if fn = Some InProgress then shift ys else (fn, ys))"

definition dequeue :: "bool \<Rightarrow> ('f \<Rightarrow> 'f qstore \<Rightarrow> 'f qstore) \<Rightarrow> 'f qstore \<Rightarrow> 'f qstore" where
  "dequeue fx call st =
     (let (r, st0) = queue_lookup st;
          (fn, rest) = next_entry (contents r st0);
          st1 = (case fn of
                   Some (Fn f) \<Rightarrow> call f (set_array r (if fx then InProgress # rest else rest) st0)
                 | Some InProgress \<Rightarrow> set_array r (if fx then InProgress # rest else rest) st0
                 | None \<Rightarrow> set_array r rest st0)
      in if contents r st1 = [] then st1\<lparr>slot := None\<rparr> else st1)"

section \<open>The methods of a jQuery object, for one element\<close>

definition fn_queue :: "bool \<Rightarrow> ('f \<Rightarrow> 'f qstore \<Rightarrow> 'f qstore) \<Rightarrow> 'f \<Rightarrow> 'f qstore \<Rightarrow> 'f qstore" where
  "fn_queue fx call f st =
     (let (r, st') = queue_push f st
      in if fx \<and> aref (contents r st') 0 \<noteq> Some InProgress then dequeue fx call st' else st')"

definition clearQueue :: "bool \<Rightarrow> ('f \<Rightarrow> 'f qstore \<Rightarrow> 'f qstore) \<Rightarrow> 'f qstore \<Rightarrow> 'f qstore" where
  "clearQueue fx call st =
     (let (r, st') = queue_replace [] st
      in if fx \<and> aref (contents r st') 0 \<noteq> Some InProgress then dequeue fx call st' else st')"

section \<open>The interface of the effects queue\<close>

text \<open>
  What a client relies on: a queued function is behind everything queued before it; the
  first function of the queue is the one running; when it calls its \<open>next\<close>, it leaves the
  queue and the function behind it is called.
\<close>

locale fx_queue =
  fixes fresh :: "'q"
    and enq :: "'f \<Rightarrow> 'q \<Rightarrow> 'q"
    and fin :: "'q \<Rightarrow> 'q"
    and items :: "'q \<Rightarrow> 'f list"
    and log :: "'q \<Rightarrow> 'f list"
    and inv :: "'q \<Rightarrow> bool"
  assumes inv_fresh: "inv fresh"
    and inv_enq: "inv q \<Longrightarrow> inv (enq f q)"
    and inv_fin: "inv q \<Longrightarrow> inv (fin q)"
    and items_fresh: "items fresh = []"
    and items_enq: "inv q \<Longrightarrow> items (enq f q) = items q @ [f]"
    and items_fin: "inv q \<Longrightarrow> items (fin q) = tl (items q)"
    and log_fresh: "log fresh = []"
    and log_enq: "inv q \<Longrightarrow> log (enq f q) = log q @ (if items q = [] then [f] else [])"
    and log_fin: "inv q \<Longrightarrow> log (fin q) = log q @ take 1 (tl (items q))"
begin

text \<open>
  The functions are called in the order of queueing: what was called is what was queued
  without what still waits behind the running function.
\<close>

definition history :: "'q \<Rightarrow> 'f list" where
  "history q = log q @ tl (items q)"

lemma history_fresh: "history fresh = []"
  by (simp add: history_def items_fresh log_fresh)

lemma history_enq: "inv q \<Longrightarrow> history (enq f q) = history q @ [f]"
  by (cases "items q") (auto simp: history_def items_enq log_enq)

lemma history_fin: "inv q \<Longrightarrow> history (fin q) = history q"
proof -
  assume "inv q"
  moreover have "take 1 xs @ tl xs = xs" for xs :: "'f list" by (cases xs) auto
  ultimately show ?thesis by (simp add: history_def items_fin log_fin)
qed

text \<open>A session of the queue: \<open>Some f\<close> queues \<open>f\<close>, \<open>None\<close> is the running function's call of \<open>next\<close>.\<close>

fun session :: "'f option list \<Rightarrow> 'q \<Rightarrow> 'q" where
  "session [] q = q"
| "session (Some f # es) q = session es (enq f q)"
| "session (None # es) q = session es (fin q)"

lemma inv_session: "inv q \<Longrightarrow> inv (session es q)"
  by (induction es q rule: session.induct) (auto simp: inv_enq inv_fin)

lemma history_session:
  "inv q \<Longrightarrow> history (session es q) = history q @ List.map_filter id es"
  by (induction es q rule: session.induct)
    (auto simp: history_enq history_fin inv_enq inv_fin List.map_filter_simps)

lemma fifo: "log (session es fresh) @ tl (items (session es fresh)) = List.map_filter id es"
  using history_session [OF inv_fresh, of es] by (simp add: history_def items_fresh log_fresh)

end

section \<open>The model provides the interface\<close>

text \<open>A function that only starts an asynchronous job: it is recorded and returns.\<close>

definition start_async :: "'f \<Rightarrow> 'f qstore \<Rightarrow> 'f qstore" where
  "start_async f st = st\<lparr>called := called st @ [f]\<rparr>"

definition fx_enq :: "'f \<Rightarrow> 'f qstore \<Rightarrow> 'f qstore" where
  "fx_enq = fn_queue True start_async"

definition fx_next :: "'f qstore \<Rightarrow> 'f qstore" where
  "fx_next = dequeue True start_async"

fun fns :: "'f entry list \<Rightarrow> 'f list" where
  "fns [] = []"
| "fns (InProgress # xs) = fns xs"
| "fns (Fn f # xs) = f # fns xs"

definition fx_items :: "'f qstore \<Rightarrow> 'f list" where
  "fx_items st = (case slot st of None \<Rightarrow> [] | Some r \<Rightarrow> last (called st) # fns (tl (contents r st)))"

text \<open>
  A queue in the slot begins with the sentinel, holds functions behind it, and the last
  function called is the one running.
\<close>

definition fx_inv :: "'f qstore \<Rightarrow> bool" where
  "fx_inv st = (case slot st of None \<Rightarrow> True
     | Some r \<Rightarrow> r < length (arrays st) \<and> called st \<noteq> []
         \<and> (\<exists>fs. arrays st ! r = InProgress # map Fn fs))"

lemma fns_map [simp]: "fns (map Fn fs) = fs"
  by (induction fs) auto

lemma fns_append [simp]: "fns (xs @ ys) = fns xs @ fns ys"
  by (induction xs rule: fns.induct) auto

lemmas store_defs = alloc_def set_array_def contents_def queue_lookup_def queue_push_def
  next_entry_def dequeue_def fn_queue_def start_async_def fx_enq_def fx_next_def Let_def

lemma fx_enq_idle:
  "slot st = None \<Longrightarrow> fx_enq f st = \<lparr>arrays = arrays st @ [[InProgress]], slot = Some (length (arrays st)),
     called = called st @ [f]\<rparr>"
  by (simp add: store_defs aref_def)

lemma fx_enq_busy:
  assumes "slot st = Some r" "r < length (arrays st)" "arrays st ! r = InProgress # map Fn fs"
  shows "fx_enq f st = st\<lparr>arrays := (arrays st)[r := InProgress # map Fn (fs @ [f])]\<rparr>"
  using assms by (simp add: store_defs aref_def)

lemma fx_next_idle: "slot st = None \<Longrightarrow> fx_next st = st\<lparr>arrays := arrays st @ [[]]\<rparr>"
  by (simp add: store_defs aref_def)

lemma fx_next_busy:
  assumes "slot st = Some r" "r < length (arrays st)" "arrays st ! r = InProgress # map Fn fs"
  shows "fx_next st = (case fs of
      [] \<Rightarrow> st\<lparr>arrays := (arrays st)[r := []], slot := None\<rparr>
    | g # gs \<Rightarrow> st\<lparr>arrays := (arrays st)[r := InProgress # map Fn gs], called := called st @ [g]\<rparr>)"
  using assms by (cases fs) (simp_all add: store_defs aref_def)

lemma fx_inv_cases:
  assumes "fx_inv st"
  obtains "slot st = None" "fx_items st = []"
  | r fs where "slot st = Some r" "r < length (arrays st)" "arrays st ! r = InProgress # map Fn fs"
      "called st \<noteq> []" "fx_items st = last (called st) # fs"
  using assms by (auto simp: fx_inv_def fx_items_def contents_def aref_def split: option.splits)

interpretation fx: fx_queue new_qstore fx_enq fx_next fx_items called fx_inv
proof unfold_locales
  show "fx_inv new_qstore" "fx_items new_qstore = []" "called new_qstore = []"
    by (simp_all add: new_qstore_def fx_inv_def fx_items_def)
next
  fix q :: "'a qstore" and f
  assume "fx_inv q"
  then show "fx_inv (fx_enq f q)" "fx_items (fx_enq f q) = fx_items q @ [f]"
    "called (fx_enq f q) = called q @ (if fx_items q = [] then [f] else [])"
    by (atomize (full), cases rule: fx_inv_cases)
      (auto simp: fx_enq_idle fx_enq_busy fx_inv_def fx_items_def contents_def aref_def
        simp del: map_append intro!: exI [of _ "_ @ _"])
next
  fix q :: "'a qstore"
  assume "fx_inv q"
  then show "fx_inv (fx_next q)" "fx_items (fx_next q) = tl (fx_items q)"
    "called (fx_next q) = called q @ take 1 (tl (fx_items q))"
    by (atomize (full), cases rule: fx_inv_cases)
      (auto simp: fx_next_idle fx_next_busy fx_inv_def fx_items_def contents_def aref_def
        split: list.splits)
qed

section \<open>Properties\<close>

text \<open>A session of the effects queue over the model's own operations.\<close>

fun fx_session :: "'f option list \<Rightarrow> 'f qstore \<Rightarrow> 'f qstore" where
  "fx_session [] st = st"
| "fx_session (Some f # es) st = fx_session es (fx_enq f st)"
| "fx_session (None # es) st = fx_session es (fx_next st)"

lemma fx_session_eq: "fx_session es st = fx.session es st"
  by (induction es st rule: fx_session.induct) auto

lemma fx_inv_session: "fx_inv (fx_session es new_qstore)"
  unfolding fx_session_eq by (rule fx.inv_session [OF fx.inv_fresh])


text \<open>
  While a function runs, queueing another one calls nothing, and the running function's
  \<open>next\<close> calls exactly the one in front of the waiting ones, or removes the queue when none
  waits.
\<close>

theorem fx_one_at_a_time:
  assumes "fx_inv st" "fx_items st = g # gs"
  shows "called (fx_enq f st) = called st \<and> fx_items (fx_enq f st) = g # gs @ [f]
    \<and> (case gs of [] \<Rightarrow> slot (fx_next st) = None \<and> called (fx_next st) = called st
        | h # _ \<Rightarrow> fx_items (fx_next st) = gs \<and> called (fx_next st) = called st @ [h])"
proof -
  have "called (fx_enq f st) = called st \<and> fx_items (fx_enq f st) = g # gs @ [f]"
    using assms fx.log_enq [of st f] fx.items_enq [of st f] by simp
  moreover have "slot (fx_next st) = None" if "gs = []"
    using assms(1) by (cases rule: fx_inv_cases) (use assms(2) that in \<open>auto simp: fx_next_busy\<close>)
  ultimately show ?thesis
    using assms fx.items_fin [of st] fx.log_fin [of st] by (auto split: list.split)
qed

theorem fx_one_at_a_time_witness:
  "called (fx_next (fx_enq (2::nat) (fx_enq 1 new_qstore))) = [1, 2]"
proof -
  let ?st = "fx_enq (2::nat) (fx_enq 1 new_qstore)"
  have "fx_inv ?st" by (intro fx.inv_enq fx.inv_fresh)
  moreover have "fx_items ?st = [1, 2]"
    by (simp add: fx.items_enq fx.inv_enq fx.inv_fresh fx.items_fresh)
  moreover have "called ?st = [1]"
    by (simp add: fx.log_enq fx.inv_enq fx.inv_fresh fx.items_fresh fx.log_fresh fx.items_enq)
  ultimately show ?thesis using fx_one_at_a_time [of ?st 1 "[2]" 3] by simp
qed

text \<open>
  \<open>clearQueue\<close> on the effects queue also removes the sentinel of the function that is
  still running: it leaves no queue, and the next function queued is called at once, beside
  the running one.
\<close>

theorem clearQueue_loses_sentinel:
  assumes "fx_inv st" "fx_items st = g # gs"
  shows "slot (clearQueue True start_async st) = None
    \<and> called (fx_enq f (clearQueue True start_async st)) = called st @ [f]"
proof -
  have "slot (clearQueue True start_async st) = None" "called (clearQueue True start_async st) = called st"
    by (simp_all add: clearQueue_def queue_replace_def store_defs aref_def)
  then show ?thesis by (simp add: fx_enq_idle)
qed

theorem clearQueue_loses_sentinel_witness:
  "called (fx_enq (2::nat) (clearQueue True start_async (fx_enq 1 new_qstore))) = [1, 2]"
proof -
  have "fx_inv (fx_enq (1::nat) new_qstore)" "fx_items (fx_enq (1::nat) new_qstore) = [1]"
    "called (fx_enq (1::nat) new_qstore) = [1]"
    by (simp_all add: fx.items_enq fx.inv_enq fx.inv_fresh fx.items_fresh fx.log_enq fx.log_fresh)
  from clearQueue_loses_sentinel [OF this(1,2), of 2] this(3) show ?thesis by simp
qed

text \<open>
  A function of a queue other than the effects queue that calls its \<open>next\<close> and then queues
  another function: the outer \<open>dequeue\<close> still holds the array that \<open>next\<close> emptied and
  removed, finds it empty, and removes the queue made in between.
\<close>

definition next_then_queue :: "nat \<Rightarrow> nat qstore \<Rightarrow> nat qstore" where
  "next_then_queue f st = fn_queue False start_async (Suc f) (dequeue False start_async (start_async f st))"

text \<open>
  The queue of a type other than \<open>fx\<close> with one function loses the function queued by that
  function after its \<open>next\<close>: it is neither called nor left in the queue.
\<close>

theorem reentrant_queue_lost:
  assumes "slot st = Some r" "r < length (arrays st)" "arrays st ! r = [Fn f]"
  shows "slot (dequeue False next_then_queue st) = None
    \<and> called (dequeue False next_then_queue st) = called st @ [f]"
  using assms by (simp add: next_then_queue_def store_defs aref_def nth_append)

theorem reentrant_queue_lost_witness:
  "called (dequeue False next_then_queue (snd (queue_push 7 new_qstore))) = [7]"
proof -
  have "slot (snd (queue_push 7 new_qstore)) = Some 0" "0 < length (arrays (snd (queue_push 7 new_qstore)))"
    "arrays (snd (queue_push 7 new_qstore)) ! 0 = [Fn 7]" "called (snd (queue_push 7 new_qstore)) = []"
    by (simp_all add: queue_push_def new_qstore_def alloc_def)
  from reentrant_queue_lost [OF this(1-3)] this(4) show ?thesis by simp
qed

end
