(* ===== verification/Accordion.thy ===== *)
theory Accordion
  imports JqQueue
begin

text \<open>
  The administration menu (\<open>my_accordion\<close> of \<open>application.js\<close>): a flag that ignores clicks
  while the menu moves, and animations queued on the panes through the effects queue of
  \<open>JqQueue\<close>.  An animation of a pane is running while it heads the pane's queue, and ends at
  a moment the browser chooses: the step \<open>Finish\<close>.
\<close>

section \<open>State and steps\<close>

text \<open>\<open>Show\<close> is the animation whose callback resets the flag.\<close>

datatype anim = Hide | Show

record pane =
  pane_visible :: bool
  pane_queue :: "anim qstore"

record accordion =
  link_disabled :: bool
  panes :: "(string \<times> pane) list"

definition enq_anim :: "anim \<Rightarrow> pane \<Rightarrow> pane" where
  "enq_anim a p = p\<lparr>pane_queue := fx_enq a (pane_queue p)\<rparr>"

text \<open>\<open>$(".accordion").hide("slow")\<close> and \<open>$("#id").show("slow", ...)\<close>.\<close>

definition hide_all :: "(string \<times> pane) list \<Rightarrow> (string \<times> pane) list" where
  "hide_all ps = map (\<lambda>(i, p). (i, enq_anim Hide p)) ps"

definition show_one :: "string \<Rightarrow> (string \<times> pane) list \<Rightarrow> (string \<times> pane) list" where
  "show_one d ps = map (\<lambda>(i, p). (i, if i = d then enq_anim Show p else p)) ps"

text \<open>The loop over the panes: queueing an animation does not change what is visible.\<close>

fun hide_loop :: "string \<Rightarrow> (string \<times> bool) list \<Rightarrow> (string \<times> pane) list \<Rightarrow> (string \<times> pane) list" where
  "hide_loop d [] ps = ps"
| "hide_loop d ((i, v) # ivs) ps = hide_loop d ivs (if i \<noteq> d \<and> v then hide_all ps else ps)"

definition my_accordion :: "string \<Rightarrow> accordion \<Rightarrow> accordion" where
  "my_accordion div_id s =
     (if \<not> link_disabled s then
        \<lparr>link_disabled = True,
         panes = show_one div_id
           (hide_loop div_id (map (\<lambda>(i, p). (i, pane_visible p)) (panes s)) (panes s))\<rparr>
      else s)"

text \<open>The running animation of a pane ends: its effect on the pane, its callback, and \<open>next\<close>.\<close>

fun apply_anim :: "anim \<Rightarrow> bool \<Rightarrow> bool" where
  "apply_anim Hide v = False"
| "apply_anim Show v = True"

definition finish_anim :: "string \<Rightarrow> accordion \<Rightarrow> accordion" where
  "finish_anim d s =
     (case map_of (panes s) d of
        None \<Rightarrow> s
      | Some p \<Rightarrow>
          (case fx_items (pane_queue p) of
             [] \<Rightarrow> s
           | a # _ \<Rightarrow> \<lparr>link_disabled = (if a = Show then False else link_disabled s),
                panes = map (\<lambda>(i, q). (i, if i = d then \<lparr>pane_visible = apply_anim a (pane_visible q),
                                            pane_queue = fx_next (pane_queue q)\<rparr> else q)) (panes s)\<rparr>))"

definition start_menu :: "(string \<times> bool) list \<Rightarrow> accordion" where
  "start_menu ivs = \<lparr>link_disabled = False,
     panes = map (\<lambda>(i, v). (i, \<lparr>pane_visible = v, pane_queue = new_qstore\<rparr>)) ivs\<rparr>"

datatype event = Click string | Finish string

fun accordion_step :: "event \<Rightarrow> accordion \<Rightarrow> accordion" where
  "accordion_step (Click d) s = my_accordion d s"
| "accordion_step (Finish d) s = finish_anim d s"

inductive reach :: "(string \<times> bool) list \<Rightarrow> accordion \<Rightarrow> bool" for ivs where
  init: "reach ivs (start_menu ivs)"
| click: "reach ivs s \<Longrightarrow> d \<in> fst ` set ivs \<Longrightarrow> reach ivs (accordion_step (Click d) s)"
| finish: "reach ivs s \<Longrightarrow> reach ivs (accordion_step (Finish d) s)"

section \<open>Invariants\<close>

definition items_of :: "pane \<Rightarrow> anim list" where
  "items_of p = fx_items (pane_queue p)"

definition menu_ok :: "string list \<Rightarrow> accordion \<Rightarrow> bool" where
  "menu_ok ids s \<longleftrightarrow> map fst (panes s) = ids \<and> (\<forall>(i, p) \<in> set (panes s). fx_inv (pane_queue p))"

definition pending_shows :: "accordion \<Rightarrow> nat" where
  "pending_shows s = sum_list (map (\<lambda>(i, p). count_list (items_of p) Show) (panes s))"

text \<open>What a pane will be once every animation queued on it has ended.\<close>

definition settles :: "pane \<Rightarrow> bool" where
  "settles p = fold apply_anim (items_of p) (pane_visible p)"

lemma items_enq [simp]: "fx_inv (pane_queue p) \<Longrightarrow> items_of (enq_anim a p) = items_of p @ [a]"
  by (simp add: items_of_def enq_anim_def fx.items_enq)

lemma inv_enq_anim [simp]: "fx_inv (pane_queue p) \<Longrightarrow> fx_inv (pane_queue (enq_anim a p))"
  by (simp add: enq_anim_def fx.inv_enq)

lemma visible_enq [simp]: "pane_visible (enq_anim a p) = pane_visible p"
  by (simp add: enq_anim_def)

lemma settles_enq: "fx_inv (pane_queue p) \<Longrightarrow> settles (enq_anim a p) = apply_anim a (settles p)"
  by (simp add: settles_def)

text \<open>The loop either leaves the panes alone or queues a number of \<open>Hide\<close>s on all of them.\<close>

lemma hide_loop_eq:
  "hide_loop d ivs ps = (hide_all ^^ length (filter (\<lambda>(i, v). i \<noteq> d \<and> v) ivs)) ps"
  by (induction d ivs ps rule: hide_loop.induct) (auto simp: funpow_swap1)

definition hides :: "nat \<Rightarrow> pane \<Rightarrow> pane" where
  "hides n = enq_anim Hide ^^ n"

lemma hide_all_funpow: "(hide_all ^^ n) ps = map (\<lambda>(i, p). (i, hides n p)) ps"
  by (induction n) (auto simp: hide_all_def hides_def)

lemma hides_facts:
  assumes "fx_inv (pane_queue p)"
  shows "fx_inv (pane_queue (hides n p))" "items_of (hides n p) = items_of p @ replicate n Hide"
    "pane_visible (hides n p) = pane_visible p"
  using assms by (induction n) (auto simp: hides_def replicate_append_same)

lemma settles_hides: "fx_inv (pane_queue p) \<Longrightarrow> settles (hides n p) = (n = 0 \<and> settles p)"
proof -
  assume a: "fx_inv (pane_queue p)"
  have "fold apply_anim (replicate n Hide) v = (n = 0 \<and> v)" for v by (induction n arbitrary: v) auto
  with hides_facts [OF a] show ?thesis by (simp add: settles_def)
qed

definition others_visible :: "string \<Rightarrow> accordion \<Rightarrow> nat" where
  "others_visible d s = length (filter (\<lambda>(i, p). i \<noteq> d \<and> pane_visible p) (panes s))"

lemma my_accordion_panes:
  assumes "\<not> link_disabled s"
  shows "my_accordion d s = \<lparr>link_disabled = True, panes = map (\<lambda>(i, p). (i,
      if i = d then enq_anim Show (hides (others_visible d s) p) else hides (others_visible d s) p)) (panes s)\<rparr>"
proof -
  have "length (filter (\<lambda>(i, v). i \<noteq> d \<and> v) (map (\<lambda>(i, p). (i, pane_visible p)) ps)) =
        length (filter (\<lambda>(i, p). i \<noteq> d \<and> pane_visible p) ps)" for ps :: "(string \<times> pane) list"
    by (induction ps) auto
  with assms show ?thesis
    by (auto simp: my_accordion_def hide_loop_eq hide_all_funpow others_visible_def show_one_def)
qed

lemma menu_ok_click:
  assumes "menu_ok ids s" shows "menu_ok ids (my_accordion d s)"
proof (cases "link_disabled s")
  case True
  with assms show ?thesis by (simp add: my_accordion_def)
next
  case False
  with assms show ?thesis
    by (auto simp: my_accordion_panes menu_ok_def hides_facts case_prod_beta comp_def)
qed

lemma menu_ok_finish: "menu_ok ids s \<Longrightarrow> menu_ok ids (finish_anim d s)"
  by (auto simp: finish_anim_def menu_ok_def fx.inv_fin case_prod_beta comp_def split: option.splits list.splits)

lemma menu_ok_reach: "reach ivs s \<Longrightarrow> menu_ok (map fst ivs) s"
proof (induction rule: reach.induct)
  case init
  show ?case by (auto simp: menu_ok_def start_menu_def fx.inv_fresh case_prod_beta comp_def)
next
qed (auto simp: menu_ok_click menu_ok_finish)

subsection \<open>The flag is set while exactly one show animation is pending\<close>

lemma count_append_show: "count_list (xs @ ys) a = count_list xs a + count_list ys a"
  by (induction xs) auto

lemma count_replicate_hide [simp]: "count_list (replicate n Hide) Show = 0"
  by (induction n) auto

lemma sum_assoc_update:
  "distinct (map fst ps) \<Longrightarrow> map_of ps d = Some p \<Longrightarrow>
     sum_list (map (\<lambda>(i, q). if i = d then c else f q) ps) + f p = sum_list (map (\<lambda>(i, q). f q) ps) + (c :: nat)"
proof (induction ps)
  case Nil
  then show ?case by simp
next
  case (Cons x ps)
  have none: "d \<notin> fst ` set qs \<Longrightarrow> sum_list (map (\<lambda>(i, q). if i = d then c else f q) qs) =
      sum_list (map (\<lambda>(i, q). f q) qs)" for qs
    by (induction qs) auto
  from Cons none [of ps] show ?case by (cases x) (auto split: if_splits)
qed

lemma menu_lookup:
  assumes "menu_ok ids s" "distinct ids" "(d, p) \<in> set (panes s)"
  shows "map_of (panes s) d = Some p"
  using assms by (auto simp: menu_ok_def intro: map_of_is_SomeI)

lemma menu_inv: "menu_ok ids s \<Longrightarrow> (i, q) \<in> set (panes s) \<Longrightarrow> fx_inv (pane_queue q)"
  by (auto simp: menu_ok_def)

lemma pending_of_panes:
  assumes "menu_ok ids s" "distinct ids" "map_of (panes s) d = Some p"
    and "\<And>i q. (i, q) \<in> set (panes s) \<Longrightarrow>
      count_list (items_of (g i q)) Show = (if i = d then c else count_list (items_of q) Show)"
    and "panes t = map (\<lambda>(i, q). (i, g i q)) (panes s)"
  shows "pending_shows t + count_list (items_of p) Show = pending_shows s + c"
proof -
  let ?f = "\<lambda>q. count_list (items_of q) Show"
  have "pending_shows t = sum_list (map (\<lambda>(i, q). if i = d then c else ?f q) (panes s))"
    unfolding pending_shows_def assms(5) map_map comp_def using assms(4)
    by (intro arg_cong [of _ _ sum_list] map_cong) auto
  moreover have "distinct (map fst (panes s))" using assms(1,2) by (simp add: menu_ok_def)
  ultimately show ?thesis
    using sum_assoc_update [of "panes s" d p c ?f] assms(3) by (simp add: pending_shows_def)
qed

lemma pending_click:
  assumes "menu_ok ids s" "distinct ids" "d \<in> set ids" "\<not> link_disabled s"
  shows "pending_shows (my_accordion d s) = Suc (pending_shows s)"
proof -
  from assms(1,3) obtain p where "(d, p) \<in> set (panes s)" by (auto simp: menu_ok_def)
  with assms have p: "map_of (panes s) d = Some p" by (intro menu_lookup)
  have q: "q = p" if "(d, q) \<in> set (panes s)" for q
    using menu_lookup [OF assms(1,2) that] p by simp
  have "pending_shows (my_accordion d s) + count_list (items_of p) Show =
        pending_shows s + Suc (count_list (items_of p) Show)"
    by (rule pending_of_panes [OF assms(1,2) p,
          where g = "\<lambda>i q. if i = d then enq_anim Show (hides (others_visible d s) q) else hides (others_visible d s) q"])
      (auto simp: my_accordion_panes [OF assms(4)] hides_facts menu_inv [OF assms(1)] count_append_show dest: q)
  then show ?thesis by simp
qed

lemma pending_finish:
  assumes "menu_ok ids s" "distinct ids" "map_of (panes s) d = Some p" "items_of p = a # as"
  shows "pending_shows s = pending_shows (finish_anim d s) + (if a = Show then 1 else 0)"
proof -
  let ?g = "\<lambda>i q. if i = d then \<lparr>pane_visible = apply_anim a (pane_visible q), pane_queue = fx_next (pane_queue q)\<rparr> else q"
  have q: "q = p" if "(d, q) \<in> set (panes s)" for q
    using menu_lookup [OF assms(1,2) that] assms(3) by simp
  have tl: "fx_items (fx_next (pane_queue p)) = as"
    using assms(4) menu_inv [OF assms(1) map_of_SomeD [OF assms(3)]] by (simp add: items_of_def fx.items_fin)
  have "pending_shows (finish_anim d s) + count_list (items_of p) Show = pending_shows s + count_list as Show"
    by (rule pending_of_panes [OF assms(1-3), where g = ?g])
      (use assms(3,4) tl in \<open>auto simp: finish_anim_def items_of_def dest: q\<close>)
  with assms(4) show ?thesis by (auto split: if_splits)
qed

lemma finish_idle:
  "map_of (panes s) d = None \<or> (\<exists>p. map_of (panes s) d = Some p \<and> items_of p = []) \<Longrightarrow> finish_anim d s = s"
  by (auto simp: finish_anim_def items_of_def)

lemma finish_disabled:
  "map_of (panes s) d = Some p \<Longrightarrow> items_of p = a # as \<Longrightarrow>
     link_disabled (finish_anim d s) = (a \<noteq> Show \<and> link_disabled s)"
  by (simp add: finish_anim_def items_of_def)

lemma finish_cases:
  obtains "finish_anim d s = s"
  | p a as where "map_of (panes s) d = Some p" "items_of p = a # as"
  by (metis finish_idle list.exhaust option.exhaust)

lemma flag_reach:
  assumes "reach ivs s" "distinct (map fst ivs)"
  shows "pending_shows s = (if link_disabled s then 1 else 0)"
  using assms(1)
proof (induction rule: reach.induct)
  case init
  have "pending_shows (start_menu ivs) = sum_list (map (\<lambda>_. 0) ivs)"
    unfolding pending_shows_def start_menu_def
    by (auto simp: items_of_def fx.items_fresh case_prod_beta comp_def)
  then show ?case by (simp add: start_menu_def)
next
  case (click s d)
  show ?case
  proof (cases "link_disabled s")
    case True
    with click show ?thesis by (simp add: my_accordion_def)
  next
    case False
    with pending_click [OF menu_ok_reach [OF click.hyps(1)] assms(2), of d] click show ?thesis
      by (simp add: my_accordion_def)
  qed
next
  case (finish s d)
  show ?case
  proof (rule finish_cases [of d s])
    assume "finish_anim d s = s"
    with finish show ?thesis by simp
  next
    fix p a as
    assume p: "map_of (panes s) d = Some p" "items_of p = a # as"
    from pending_finish [OF menu_ok_reach [OF finish.hyps] assms(2) p] finish_disabled [OF p] finish.IH
    show ?thesis by (auto split: if_splits)
  qed
qed

subsection \<open>What the menu settles to\<close>

lemma settles_finish:
  assumes "menu_ok ids s" "distinct ids"
  shows "map (\<lambda>(i, p). (i, settles p)) (panes (finish_anim d s)) = map (\<lambda>(i, p). (i, settles p)) (panes s)"
proof (rule finish_cases [of d s])
  assume "finish_anim d s = s"
  then show ?thesis by simp
next
  fix p a as
  assume p: "map_of (panes s) d = Some p" "items_of p = a # as"
  have "settles \<lparr>pane_visible = apply_anim a (pane_visible q), pane_queue = fx_next (pane_queue q)\<rparr> = settles q"
    if "(d, q) \<in> set (panes s)" for q
  proof -
    have "q = p" using menu_lookup [OF assms that] p(1) by simp
    with p(2) menu_inv [OF assms(1) that] show ?thesis
      by (simp add: settles_def items_of_def fx.items_fin)
  qed
  with p show ?thesis by (auto simp: finish_anim_def items_of_def split: if_splits)
qed

lemma settles_hidden:
  assumes "\<not> pane_visible p" "count_list (items_of p) Show = 0"
  shows "\<not> settles p"
proof -
  have "\<not> fold apply_anim as v" if "\<not> v" "count_list as Show = 0" for v as
    using that
  proof (induction as arbitrary: v)
    case Nil
    then show ?case by simp
  next
    case (Cons a as)
    then show ?case by (cases a) auto
  qed
  with assms show ?thesis by (simp add: settles_def)
qed

lemma settles_click:
  assumes "menu_ok ids s" "\<not> link_disabled s" "pending_shows s = 0"
  shows "map (\<lambda>(i, p). (i, settles p)) (panes (my_accordion d s)) = map (\<lambda>(i, p). (i, i = d)) (panes s)"
proof -
  have "\<not> settles (hides (others_visible d s) q)" if "(i, q) \<in> set (panes s)" "i \<noteq> d" for i q
  proof (cases "pane_visible q")
    case True
    with that have "(i, q) \<in> set (filter (\<lambda>(i, p). i \<noteq> d \<and> pane_visible p) (panes s))" by simp
    then have "0 < others_visible d s" unfolding others_visible_def by (metis length_pos_if_in_set)
    with settles_hides [OF menu_inv [OF assms(1) that(1)]] show ?thesis by simp
  next
    case False
    have "\<forall>(i, p) \<in> set (panes s). count_list (items_of p) Show = 0"
      using assms(3) by (auto simp: pending_shows_def sum_list_eq_0_iff)
    with that(1) have "count_list (items_of q) Show = 0" by blast
    with False settles_hidden settles_hides [OF menu_inv [OF assms(1) that(1)]] show ?thesis by blast
  qed
  then show ?thesis
    using menu_inv [OF assms(1)]
    by (auto simp: my_accordion_panes [OF assms(2)] settles_enq hides_facts split: if_splits)
qed

lemma settles_finishes:
  "menu_ok ids s \<Longrightarrow> distinct ids \<Longrightarrow>
     map (\<lambda>(i, p). (i, settles p)) (panes (fold finish_anim ds s)) = map (\<lambda>(i, p). (i, settles p)) (panes s)"
  by (induction ds arbitrary: s) (simp_all add: menu_ok_finish settles_finish)

section \<open>Properties\<close>

text \<open>
  In every state the menu reaches by clicks on its own panes and by animations that end,
  the flag is set exactly while a show animation is pending, and at most one is: a click
  while the menu moves changes nothing, and the flag cannot stay set for ever once the
  animations end.
\<close>

theorem accordion_flag_guards:
  assumes "reach ivs s" "distinct (map fst ivs)"
  shows "pending_shows s = (if link_disabled s then 1 else 0)
    \<and> (link_disabled s \<longrightarrow> accordion_step (Click d) s = s)
    \<and> ((\<forall>(i, p) \<in> set (panes s). items_of p = []) \<longrightarrow> \<not> link_disabled s)"
proof -
  have flag: "pending_shows s = (if link_disabled s then 1 else 0)" by (rule flag_reach [OF assms])
  have "\<not> link_disabled s" if "\<forall>(i, p) \<in> set (panes s). items_of p = []"
  proof -
    have "pending_shows s = sum_list (map (\<lambda>_. 0) (panes s))"
      unfolding pending_shows_def using that by (intro arg_cong [of _ _ sum_list] map_cong) auto
    then have "pending_shows s = 0" by simp
    with flag show ?thesis by (auto split: if_splits)
  qed
  with flag show ?thesis by (simp add: my_accordion_def)
qed

definition two_panes :: "(string \<times> bool) list" where
  "two_panes = [(''install'', True), (''users_list'', False)]"

lemma two_panes_distinct: "distinct (map fst two_panes)"
  by (simp add: two_panes_def)

theorem accordion_flag_guards_witness:
  "pending_shows (accordion_step (Click ''users_list'') (start_menu two_panes)) = 1"
proof -
  let ?s = "accordion_step (Click ''users_list'') (start_menu two_panes)"
  have "reach two_panes ?s" by (intro reach.click reach.init) (simp add: two_panes_def)
  moreover have "link_disabled ?s" by (simp add: my_accordion_def start_menu_def)
  ultimately show ?thesis using accordion_flag_guards [of two_panes ?s "''install''"] two_panes_distinct by simp
qed

text \<open>
  C12: an accepted click on a pane decides what the menu settles to: from any reachable
  state with the flag clear, however the animations it starts are interleaved with those
  still running, once no animation is pending exactly the clicked pane is visible.
\<close>

theorem accordion_settles_on_clicked_pane:
  assumes "reach ivs s" "distinct (map fst ivs)" "\<not> link_disabled s" "d \<in> fst ` set ivs"
    and "t = fold finish_anim ds (accordion_step (Click d) s)"
    and "\<forall>(i, p) \<in> set (panes t). items_of p = []"
  shows "\<forall>(i, p) \<in> set (panes t). pane_visible p \<longleftrightarrow> i = d"
proof -
  have ok: "menu_ok (map fst ivs) s" by (rule menu_ok_reach [OF assms(1)])
  have "pending_shows s = 0" using flag_reach [OF assms(1,2)] assms(3) by simp
  then have "map (\<lambda>(i, p). (i, settles p)) (panes t) = map (\<lambda>(i, p). (i, i = d)) (panes s)"
    using settles_click [OF ok assms(3)] settles_finishes [OF menu_ok_click [OF ok] assms(2)]
    by (simp add: assms(5))
  moreover have "map (\<lambda>(i, p). (i, settles p)) (panes t) = map (\<lambda>(i, p). (i, pane_visible p)) (panes t)"
    using assms(6) by (auto simp: settles_def)
  ultimately have eq: "map (\<lambda>(i, p). (i, pane_visible p)) (panes t) = map (\<lambda>(i, p). (i, i = d)) (panes s)"
    by simp
  show ?thesis
  proof (clarify)
    fix i p
    assume "(i, p) \<in> set (panes t)"
    then have "(i, pane_visible p) \<in> set (map (\<lambda>(i, p). (i, i = d)) (panes s))"
      by (force simp flip: eq)
    then show "pane_visible p \<longleftrightarrow> i = d" by auto
  qed
qed

lemmas menu_eval = my_accordion_def finish_anim_def start_menu_def two_panes_def show_one_def hide_all_def
  enq_anim_def store_defs aref_def new_qstore_def fx_items_def items_of_def

theorem accordion_settles_on_clicked_pane_witness:
  "list_all (\<lambda>(i, p). pane_visible p \<longleftrightarrow> i = ''users_list'')
     (panes (fold finish_anim [''install'', ''users_list'', ''users_list'']
       (accordion_step (Click ''users_list'') (start_menu two_panes))))"
  unfolding list_all_iff
  by (rule accordion_settles_on_clicked_pane [OF reach.init two_panes_distinct _ _ refl])
    (simp_all add: menu_eval)

text \<open>
  A click on the name of a pane that is not on the page hides the visible panes and sets
  the flag, and no later event ever clears it: the menu ignores every further click.
\<close>

theorem accordion_unknown_pane_sticks:
  assumes "reach ivs s" "distinct (map fst ivs)" "\<not> link_disabled s" "d \<notin> fst ` set ivs"
  shows "link_disabled (fold accordion_step es (my_accordion d s))"
proof -
  have stuck: "link_disabled (fold accordion_step es u)"
    if "menu_ok (map fst ivs) u" "pending_shows u = 0" "link_disabled u" for es u
    using that
  proof (induction es arbitrary: u)
    case Nil
    then show ?case by simp
  next
    case (Cons e es)
    show ?case
    proof (cases e)
      case (Click c)
      with Cons show ?thesis by (simp add: my_accordion_def)
    next
      case (Finish c)
      show ?thesis
      proof (rule finish_cases [of c u])
        assume "finish_anim c u = u"
        with Cons Finish show ?thesis by simp
      next
        fix p a as
        assume p: "map_of (panes u) c = Some p" "items_of p = a # as"
        from pending_finish [OF Cons.prems(1) assms(2) p] Cons.prems(2)
        have "a \<noteq> Show" "pending_shows (finish_anim c u) = 0" by (auto split: if_splits)
        with finish_disabled [OF p] Cons Finish menu_ok_finish show ?thesis by simp
      qed
    qed
  qed
  have ok: "menu_ok (map fst ivs) s" by (rule menu_ok_reach [OF assms(1)])
  have notin: "(d, q) \<notin> set (panes s)" for q
  proof
    assume "(d, q) \<in> set (panes s)"
    then have "d \<in> set (map fst (panes s))" by force
    with ok assms(4) show False by (simp add: menu_ok_def)
  qed
  have "count_list (items_of (if i = d then enq_anim Show (hides n q) else hides n q)) Show =
        count_list (items_of q) Show" if "(i, q) \<in> set (panes s)" for i q n
    using that notin [of q] hides_facts(2) [OF menu_inv [OF ok that]] by (auto simp: count_append_show)
  then have "map (\<lambda>(i, p). count_list (items_of p) Show) (panes (my_accordion d s)) =
        map (\<lambda>(i, p). count_list (items_of p) Show) (panes s)"
    unfolding my_accordion_panes [OF assms(3)] by auto
  then have "pending_shows (my_accordion d s) = pending_shows s" by (simp add: pending_shows_def)
  then have "pending_shows (my_accordion d s) = 0" using flag_reach [OF assms(1,2)] assms(3) by simp
  then show ?thesis using stuck [OF menu_ok_click [OF ok]] assms(3) by (simp add: my_accordion_def)
qed

theorem accordion_unknown_pane_sticks_witness:
  "link_disabled (fold accordion_step [Finish ''install'', Click ''install''] (my_accordion ''new_user'' (start_menu two_panes)))"
  by (rule accordion_unknown_pane_sticks [OF reach.init two_panes_distinct])
    (simp_all add: start_menu_def two_panes_def)

end
