(* ===== verification/AcTokens.thy ===== *)
theory AcTokens
  imports JsString
begin

text \<open>
  The text algorithms of the autocompleter (\<open>controls.js\<close>): which part of the text box is
  the token being edited, what a chosen entry replaces, and the local selector that matches
  the token against an array of choices.
\<close>

section \<open>The edited token\<close>

text \<open>\<open>getFirstDifferencePos\<close>\<close>

function first_diff_loop :: "string \<Rightarrow> string \<Rightarrow> nat \<Rightarrow> nat \<Rightarrow> nat" where
  "first_diff_loop newS oldS index boundary =
     (if index < boundary then
        (if aref newS index \<noteq> aref oldS index then index
         else first_diff_loop newS oldS (Suc index) boundary)
      else boundary)"
  by pat_completeness auto
termination
  by (relation "measure (\<lambda>(newS, oldS, index, boundary). boundary - index)") auto

declare first_diff_loop.simps [simp del]

definition getFirstDifferencePos :: "string \<Rightarrow> string \<Rightarrow> nat" where
  "getFirstDifferencePos newS oldS = first_diff_loop newS oldS 0 (min (length newS) (length oldS))"

text \<open>One round of the loop over the delimiters; \<open>at\<close> is \<open>diff + offset\<close>.\<close>

definition token_round :: "string \<Rightarrow> int \<Rightarrow> string \<Rightarrow> int \<times> int \<Rightarrow> int \<times> int" where
  "token_round v at tok = (\<lambda>(prevTokenPos, nextTokenPos).
     (let tp = lastIndexOf v tok (at - 1);
          prev' = (if tp > prevTokenPos then tp else prevTokenPos);
          tp' = indexOf v tok at;
          next' = (if tp' \<noteq> -1 \<and> tp' < nextTokenPos then tp' else nextTokenPos)
      in (prev', next')))"

definition token_scan :: "string list \<Rightarrow> string \<Rightarrow> int \<Rightarrow> int \<times> int" where
  "token_scan toks v at =
     (let (prev, nxt) = fold (token_round v at) toks (-1, int (length v)) in (prev + 1, nxt))"

definition edit_pos :: "string \<Rightarrow> string \<Rightarrow> int" where
  "edit_pos v old =
     (let diff = getFirstDifferencePos v old; offset = (if diff = length old then 1 else 0)
      in int diff + offset)"

text \<open>The bounds, and whether they are cached in \<open>tokenBounds\<close>.\<close>

definition token_bounds :: "string list \<Rightarrow> string \<Rightarrow> string \<Rightarrow> (int \<times> int) option \<Rightarrow> (int \<times> int) \<times> (int \<times> int) option" where
  "token_bounds toks v old cached =
     (case cached of
        Some b \<Rightarrow> (b, cached)
      | None \<Rightarrow>
          (if trim v = [] then ((-1, 0), None)
           else (let b = token_scan toks v (edit_pos v old) in (b, Some b))))"

definition token_text :: "string \<Rightarrow> int \<times> int \<Rightarrow> string" where
  "token_text v b = trim (substring v (fst b) (snd b))"

text \<open>What the text box holds after an entry with the text \<open>w\<close> is chosen.\<close>

definition replace_token :: "string \<Rightarrow> int \<times> int \<Rightarrow> string \<Rightarrow> string" where
  "replace_token v b w =
     (if fst b \<noteq> -1 then
        (let newValue = substr v 0 (fst b);
             whitespace = takeWhile is_space (substr_from v (fst b))
         in newValue @ whitespace @ w @ substr_from v (snd b))
      else w)"

subsection \<open>First difference\<close>

lemma first_diff_loop_spec:
  assumes "index \<le> boundary" "boundary \<le> length newS" "boundary \<le> length oldS"
    "take index newS = take index oldS"
  shows "let d = first_diff_loop newS oldS index boundary in
    d \<le> boundary \<and> take d newS = take d oldS \<and> (d < boundary \<longrightarrow> newS ! d \<noteq> oldS ! d)"
  using assms
proof (induction "boundary - index" arbitrary: index)
  case 0
  then show ?case by (simp add: first_diff_loop.simps [of newS oldS index])
next
  case (Suc n)
  then have i: "index < boundary" by simp
  show ?case
  proof (cases "newS ! index = oldS ! index")
    case True
    with Suc.prems i have "take (Suc index) newS = take (Suc index) oldS"
      by (simp add: take_Suc_conv_app_nth)
    moreover have "n = boundary - Suc index" using Suc.hyps(2) by simp
    ultimately have "let d = first_diff_loop newS oldS (Suc index) boundary in
      d \<le> boundary \<and> take d newS = take d oldS \<and> (d < boundary \<longrightarrow> newS ! d \<noteq> oldS ! d)"
      using Suc i by simp
    with True i Suc.prems show ?thesis by (simp add: first_diff_loop.simps [of newS oldS index])
  next
    case False
    with i Suc.prems show ?thesis by (simp add: first_diff_loop.simps [of newS oldS index] Let_def)
  qed
qed

lemma first_diff_spec:
  "let d = getFirstDifferencePos newS oldS in d \<le> min (length newS) (length oldS)
     \<and> take d newS = take d oldS \<and> (d < min (length newS) (length oldS) \<longrightarrow> newS ! d \<noteq> oldS ! d)"
  unfolding getFirstDifferencePos_def by (rule first_diff_loop_spec) auto

lemma edit_pos_range: "0 \<le> edit_pos v old \<and> edit_pos v old \<le> int (length v) + 1"
  using first_diff_spec [of v old] by (auto simp: edit_pos_def Let_def)

subsection \<open>Delimiters of one character\<close>

lemma sub_at_single: "sub_at [c] s i \<longleftrightarrow> i < length s \<and> s ! i = c"
  by (auto simp: sub_at_def take_Suc_conv_app_nth Suc_le_eq hd_drop_conv_nth take_Suc)


lemma index_single:
  assumes "0 \<le> at" "r = indexOf v [c] at"
  shows "(r = -1 \<longrightarrow> (\<forall>j. at \<le> int j \<longrightarrow> j < length v \<longrightarrow> v ! j \<noteq> c))
    \<and> (r \<noteq> -1 \<longrightarrow> at \<le> r \<and> r < int (length v) \<and> v ! nat r = c
        \<and> (\<forall>j. at \<le> int j \<longrightarrow> int j < r \<longrightarrow> v ! j \<noteq> c))"
proof (cases "r = -1")
  case True
  then have "\<forall>i. min (nat at) (length v) \<le> i \<longrightarrow> i \<le> length v \<longrightarrow> \<not> sub_at [c] v i"
    using assms(2) indexOf_miss by metis
  with True assms(1) show ?thesis by (force simp: sub_at_single nat_le_iff)
next
  case False
  with indexOf_range [of v "[c]" at] assms(2) have "0 \<le> r" by linarith
  then obtain i where i: "r = int i" by (metis nonneg_int_cases)
  with assms(2) have "indexOf v [c] at = int i" by simp
  from indexOf_hit [OF this assms(1)] i assms(1) show ?thesis
    by (auto simp: sub_at_single)
qed







section \<open>Properties of the bounds\<close>



text \<open>
  An edit at the very start: \<open>lastIndexOf\<close> with the position -1 still looks at position 0,
  so a delimiter there is found on both sides.
\<close>

lemma scan_at_start:
  assumes "v \<noteq> []" "(p = -1 \<and> 0 < n) \<or> (p, n) = (0, 0)"
  shows "fold (token_round v 0) (map (\<lambda>d. [d]) ds) (p, n) = (if hd v \<in> set ds \<or> (p, n) = (0, 0) then (0, 0)
     else fold (token_round v 0) (map (\<lambda>d. [d]) ds) (p, n))
    \<and> (hd v \<notin> set ds \<longrightarrow> fst (fold (token_round v 0) (map (\<lambda>d. [d]) ds) (p, n)) = p)"
  using assms(2)
proof (induction ds arbitrary: p n)
  case Nil
  then show ?case by auto
next
  case (Cons d ds)
  have hd: "v ! 0 = hd v" using assms(1) by (simp add: hd_conv_nth)
  have l: "lastIndexOf v [d] (0 - 1) = (if hd v = d then 0 else -1)"
    using assms(1) hd by (simp add: lastIndexOf_def last_index_from_def sub_at_single)
  have i: "hd v = d \<Longrightarrow> indexOf v [d] 0 = 0"
    using assms(1) hd by (simp add: indexOf_def index_from_def sub_at_single upt_conv_Cons)
  have i': "hd v \<noteq> d \<Longrightarrow> indexOf v [d] 0 = -1 \<or> 0 < indexOf v [d] 0"
    using index_single [of 0 "indexOf v [d] 0" v d] hd by (cases "indexOf v [d] 0 = 0") auto
  show ?case
  proof (cases "hd v = d")
    case True
    then have "token_round v 0 [d] (p, n) = (0, 0)"
      using Cons.prems l i by (auto simp: token_round_def)
    with True Cons.IH [of 0 0] show ?thesis by auto
  next
    case False
    obtain n' where "token_round v 0 [d] (p, n) = (p, n')" "(p = -1 \<and> 0 < n') \<or> (p, n') = (0, 0)"
      "(p, n) = (0, 0) \<longrightarrow> n' = 0" "(p, n) \<noteq> (0, 0) \<longrightarrow> (p, n') \<noteq> (0, 0)"
      using Cons.prems False l i' by (auto simp: token_round_def Let_def)
    with False Cons.IH [of p n'] show ?thesis by auto
  qed
qed

text \<open>
  When the text is changed at its first character and now begins with a delimiter, the
  bounds come out inverted, (1, 0): the token read is the delimiter itself, and choosing an
  entry inserts it behind the first character and then repeats the whole text.
\<close>

theorem token_bounds_inverted_at_start:
  assumes "trim v \<noteq> []" "edit_pos v old = 0" "hd v \<in> set ds"
  shows "fst (token_bounds (map (\<lambda>d. [d]) ds) v old None) = (1, 0)
    \<and> replace_token v (1, 0) w = take 1 v @ takeWhile is_space (tl v) @ w @ v"
proof -
  have v: "v \<noteq> []" using assms(1) by (auto simp: trim_def ltrim_def rtrim_def)
  from v have n: "(-1 = (-1::int) \<and> 0 < int (length v)) \<or> (-1, int (length v)) = (0, 0)" by simp
  have "fold (token_round v 0) (map (\<lambda>d. [d]) ds) (-1, int (length v)) = (0, 0)"
    using scan_at_start [OF v n, of ds] assms(3) by simp
  then have "token_scan (map (\<lambda>d. [d]) ds) v 0 = (1, 0)" by (simp add: token_scan_def)
  with assms show ?thesis
    by (simp add: token_bounds_def replace_token_def substr_def substr_from_def drop_Suc Let_def)
qed

theorem token_bounds_inverted_at_start_witness:
  "fst (token_bounds (map (\<lambda>d. [d]) '','') '',b'' ''a'' None) = (1, 0) \<and> replace_token '',b'' (1, 0) ''x'' = '',x,b''"
proof -
  have "trim '',b'' \<noteq> []" "edit_pos '',b'' ''a'' = 0" "hd '',b'' \<in> set '',''"
    by (simp_all add: trim_Nil_iff is_space_def edit_pos_def getFirstDifferencePos_def first_diff_loop.simps)
  from token_bounds_inverted_at_start [OF this, of "''x''"] show ?thesis by (simp add: is_space_def)
qed

section \<open>The local selector\<close>

record selector_options =
  choices :: nat
  partial_search :: bool
  partial_chars :: nat
  ignore_case :: bool
  full_search :: bool

text \<open>\<open>setOptions\<close> before the caller's options are merged in.\<close>

definition local_defaults :: selector_options where
  "local_defaults = \<lparr>choices = 10, partial_search = True, partial_chars = 2, ignore_case = True, full_search = False\<rparr>"

definition find_entry :: "selector_options \<Rightarrow> string \<Rightarrow> string \<Rightarrow> int \<Rightarrow> int" where
  "find_entry opt entry elem from =
     (if ignore_case opt then indexOf (to_lower elem) (to_lower entry) from else indexOf elem entry from)"

definition mark_beginning :: "string \<Rightarrow> string \<Rightarrow> string" where
  "mark_beginning entry elem =
     ''<li><strong>'' @ substr elem 0 (int (length entry)) @ ''</strong>'' @ substr_from elem (int (length entry)) @ ''</li>''"

definition mark_inside :: "string \<Rightarrow> string \<Rightarrow> int \<Rightarrow> string" where
  "mark_inside entry elem foundPos =
     ''<li>'' @ substr elem 0 foundPos @ ''<strong>'' @ substr elem foundPos (int (length entry)) @ ''</strong>''
       @ substr_from elem (foundPos + int (length entry)) @ ''</li>''"

datatype hit = NoHit | Beginning string | Inside string

text \<open>
  The inner loop over the places where the entry occurs.  It may not end, so it carries
  fuel: \<open>None\<close> when the fuel runs out.
\<close>

fun match_loop :: "nat \<Rightarrow> selector_options \<Rightarrow> string \<Rightarrow> string \<Rightarrow> int \<Rightarrow> hit option" where
  "match_loop 0 opt entry elem foundPos = None"
| "match_loop (Suc fuel) opt entry elem foundPos =
     (if foundPos \<noteq> -1 then
        (if foundPos = 0 \<and> length elem \<noteq> length entry then Some (Beginning (mark_beginning entry elem))
         else if partial_chars opt \<le> length entry \<and> partial_search opt \<and> foundPos \<noteq> -1
              \<and> (full_search opt \<or> list_ex is_space (substr elem (foundPos - 1) 1))
              then Some (Inside (mark_inside entry elem foundPos))
         else match_loop fuel opt entry elem (find_entry opt entry elem (foundPos + 1)))
      else Some NoHit)"

text \<open>The outer loop stops when enough beginnings are found; \<open>partial\<close> keeps the inside matches.\<close>

fun selector_loop :: "selector_options \<Rightarrow> string \<Rightarrow> string list \<Rightarrow> string list \<Rightarrow> string list \<Rightarrow> (string list \<times> string list) option" where
  "selector_loop opt entry [] ret partial = Some (ret, partial)"
| "selector_loop opt entry (elem # arr) ret partial =
     (if length ret < choices opt then
        (case match_loop (length elem + 2) opt entry elem (find_entry opt entry elem 0) of
           None \<Rightarrow> None
         | Some NoHit \<Rightarrow> selector_loop opt entry arr ret partial
         | Some (Beginning s) \<Rightarrow> selector_loop opt entry arr (ret @ [s]) partial
         | Some (Inside s) \<Rightarrow> selector_loop opt entry arr ret (partial @ [s]))
      else Some (ret, partial))"

definition selector_items :: "selector_options \<Rightarrow> string \<Rightarrow> string list \<Rightarrow> string list option" where
  "selector_items opt entry arr =
     (case selector_loop opt entry arr [] [] of
        None \<Rightarrow> None
      | Some (ret, partial) \<Rightarrow>
          Some (if partial \<noteq> [] then ret @ slice partial 0 (int (choices opt) - int (length ret)) else ret))"

definition selector :: "selector_options \<Rightarrow> string \<Rightarrow> string list \<Rightarrow> string option" where
  "selector opt entry arr =
     map_option (\<lambda>items. ''<ul>'' @ concat items @ ''</ul>'') (selector_items opt entry arr)"

text \<open>What an item shows: the array element, with a part as long as the entry marked.\<close>

definition item_of :: "selector_options \<Rightarrow> string \<Rightarrow> string \<Rightarrow> string \<Rightarrow> bool" where
  "item_of opt entry elem item \<longleftrightarrow> (\<exists>a b c. elem = a @ b @ c
     \<and> (if ignore_case opt then to_lower b = to_lower entry else b = entry)
     \<and> item = ''<li>'' @ a @ ''<strong>'' @ b @ ''</strong>'' @ c @ ''</li>'')"

lemma find_entry_cut:
  assumes "find_entry opt entry elem frm = int i" "0 \<le> frm"
  shows "i + length entry \<le> length elem" "min (nat frm) (length elem) \<le> i"
    "if ignore_case opt then to_lower (take (length entry) (drop i elem)) = to_lower entry
     else take (length entry) (drop i elem) = entry"
  using assms indexOf_hit [of "to_lower elem" "to_lower entry" frm i] indexOf_hit [of elem entry frm i]
  by (auto simp: find_entry_def sub_at_def to_lower_def drop_map take_map split: if_splits)

lemma find_entry_range: "-1 \<le> find_entry opt entry elem frm \<and> find_entry opt entry elem frm \<le> int (length elem)"
  using indexOf_range [of elem entry frm] indexOf_range [of "to_lower elem" "to_lower entry" frm]
  by (auto simp: find_entry_def)

text \<open>Each round looks behind the last place, so with a non-empty entry the loop ends.\<close>

lemma match_loop_total:
  assumes "entry \<noteq> []" "-1 \<le> pos" "pos + int (length entry) \<le> int (length elem) \<or> pos = -1"
    "nat (int (length elem) - pos) < fuel \<or> pos = -1 \<and> 0 < fuel"
  shows "match_loop fuel opt entry elem pos \<noteq> None"
  using assms
proof (induction fuel arbitrary: pos)
  case 0
  then show ?case by auto
next
  case (Suc fuel)
  show ?case
  proof (cases "pos = -1")
    case True
    then show ?thesis by simp
  next
    case False
    let ?next = "find_entry opt entry elem (pos + 1)"
    have len: "0 < length entry" using Suc.prems(1) by simp
    from False Suc.prems len have lt: "pos < int (length elem)" by linarith
    have "match_loop fuel opt entry elem ?next \<noteq> None"
    proof (cases "?next = -1")
      case True
      have "0 < fuel" using Suc.prems False lt by linarith
      with True show ?thesis by (cases fuel) auto
    next
      case n: False
      with find_entry_range [of opt entry elem "pos + 1"] have "0 \<le> ?next" by linarith
      then obtain i where i: "?next = int i" by (metis nonneg_int_cases)
      have "0 \<le> pos + 1" using Suc.prems(2) by simp
      from find_entry_cut [OF i this] i lt Suc.prems False
      have "pos < ?next" "?next + int (length entry) \<le> int (length elem)" by auto
      with Suc.prems False show ?thesis by (intro Suc.IH) auto
    qed
    then show ?thesis by auto
  qed
qed

lemma match_loop_item:
  assumes "match_loop fuel opt entry elem pos = Some h" "find_entry opt entry elem frm = pos" "0 \<le> frm"
    and "h = Beginning s \<or> h = Inside s"
  shows "item_of opt entry elem s"
  using assms
proof (induction fuel arbitrary: pos frm)
  case 0
  then show ?case by simp
next
  case (Suc fuel)
  show ?case
  proof (cases "pos = -1")
    case True
    with Suc.prems show ?thesis by auto
  next
    case False
    with find_entry_range [of opt entry elem frm] Suc.prems(2) have p: "0 \<le> pos" by linarith
    then obtain i where i: "pos = int i" by (metis nonneg_int_cases)
    note cut = find_entry_cut [OF Suc.prems(2) [unfolded i] Suc.prems(3)]
    have parts: "elem = take i elem @ take (length entry) (drop i elem) @ drop (i + length entry) elem"
      by (metis append_take_drop_id add.commute drop_drop)
    have inside: "item_of opt entry elem (mark_inside entry elem pos)"
      unfolding item_of_def
      by (intro exI conjI, rule parts, rule cut(3))
        (simp add: mark_inside_def substr_def substr_from_def i nat_add_distrib)
    have beg: "mark_beginning entry elem = mark_inside entry elem pos" if "pos = 0"
      using that by (simp add: mark_inside_def mark_beginning_def substr_def substr_from_def)
    show ?thesis
      using Suc.prems(1,4) inside beg Suc.IH [OF _ refl, of "pos + 1"] False p
      by (auto split: if_splits)
  qed
qed

lemma selector_loop_facts:
  assumes "entry \<noteq> []" "length ret \<le> choices opt"
    and "\<forall>s \<in> set (ret @ partial). \<exists>e \<in> set all. item_of opt entry e s" "set arr \<subseteq> set all"
  shows "\<exists>ret' partial'. selector_loop opt entry arr ret partial = Some (ret', partial') \<and> length ret' \<le> choices opt
    \<and> (\<forall>s \<in> set (ret' @ partial'). \<exists>e \<in> set all. item_of opt entry e s)"
  using assms
proof (induction arr arbitrary: ret partial)
  case Nil
  then show ?case by simp
next
  case (Cons elem arr)
  show ?case
  proof (cases "length ret < choices opt")
    case False
    with Cons.prems show ?thesis by simp
  next
    case True
    let ?pos = "find_entry opt entry elem 0"
    have "-1 \<le> ?pos" "?pos = -1 \<or> ?pos + int (length entry) \<le> int (length elem)"
      using find_entry_range [of opt entry elem 0] find_entry_cut(1) [of opt entry elem 0 "nat ?pos"]
      by (simp, cases "?pos = -1") auto
    then have "match_loop (length elem + 2) opt entry elem ?pos \<noteq> None"
      using Cons.prems(1) by (intro match_loop_total) auto
    then obtain h where h: "match_loop (length elem + 2) opt entry elem ?pos = Some h" by blast
    have it: "item_of opt entry elem s" if "h = Beginning s \<or> h = Inside s" for s
      using match_loop_item [OF h refl _ that] by simp
    have el: "elem \<in> set all" "set arr \<subseteq> set all" using Cons.prems(4) by auto
    show ?thesis
    proof (cases h)
      case NoHit
      with Cons h True el show ?thesis by simp
    next
      case (Beginning s)
      have "\<forall>s \<in> set ((ret @ [s]) @ partial). \<exists>e \<in> set all. item_of opt entry e s"
        using Cons.prems(3) it Beginning el by auto
      from Cons.IH [OF Cons.prems(1) _ this el(2)] True h Beginning show ?thesis by simp
    next
      case (Inside s)
      have "\<forall>s \<in> set (ret @ partial @ [s]). \<exists>e \<in> set all. item_of opt entry e s"
        using Cons.prems(3) it Inside el by auto
      from Cons.IH [OF Cons.prems(1,2) this el(2)] True h Inside show ?thesis by simp
    qed
  qed
qed

text \<open>
  C7: for a non-empty token the local selector returns, offers at most \<open>choices\<close> items, and
  every item is an element of the array with a part marked that equals the token (up to
  case when case is ignored).
\<close>

theorem selector_sound:
  assumes "entry \<noteq> []"
  shows "\<exists>items. selector opt entry arr = Some (''<ul>'' @ concat items @ ''</ul>'')
    \<and> length items \<le> choices opt \<and> (\<forall>s. s \<in> set items \<longrightarrow> (\<exists>e. e \<in> set arr \<and> item_of opt entry e s))"
proof -
  obtain ret partial where r: "selector_loop opt entry arr [] [] = Some (ret, partial)" "length ret \<le> choices opt"
    "\<forall>s \<in> set (ret @ partial). \<exists>e \<in> set arr. item_of opt entry e s"
    using selector_loop_facts [OF assms, of "[]" opt "[]" arr arr] by auto
  let ?items = "if partial \<noteq> [] then ret @ slice partial 0 (int (choices opt) - int (length ret)) else ret"
  have "set (slice partial 0 (int (choices opt) - int (length ret))) \<subseteq> set partial"
    by (auto simp: slice_def Let_def dest: in_set_takeD in_set_dropD)
  moreover have "length ?items \<le> choices opt" using r(2) by (auto simp: slice_def Let_def)
  ultimately show ?thesis
    using r by (intro exI [of _ ?items]) (auto simp: selector_def selector_items_def)
qed

theorem selector_sound_witness:
  "\<exists>items. selector local_defaults ''a'' [''Abba'', ''b''] = Some (''<ul>'' @ concat items @ ''</ul>'') \<and> length items \<le> 10"
proof -
  have "''a'' \<noteq> []" by simp
  from selector_sound [OF this, of local_defaults "[''Abba'', ''b'']"] show ?thesis
    by (auto simp: local_defaults_def)
qed

text \<open>
  With an empty token, an empty element of the array and the default options the inner
  loop never ends: no amount of fuel is enough.
\<close>

theorem selector_empty_token_diverges:
  "match_loop fuel local_defaults [] [] (find_entry local_defaults [] [] 0) = None"
proof -
  have "find_entry local_defaults [] [] k = 0" for k
    by (simp add: find_entry_def local_defaults_def indexOf_def index_from_def to_lower_def sub_at_def)
  then show ?thesis by (induction fuel) (simp_all add: local_defaults_def)
qed

end
