(* ===== verification/Autocompleter.thy ===== *)
theory Autocompleter
  imports AcTokens
begin

text \<open>
  The autocompleter of \<open>controls.js\<close> as a state machine: key presses, the observer timer, the
  arrival of choices, hovering, clicking and losing the focus.  What a handler does to the
  page is a sequence of commands in the state.  \<open>getUpdatedChoices\<close>, which the two
  subclasses define, is an argument of the handlers that call it; the locale
  \<open>choice_source\<close> states what they rely on and is interpreted on both subclasses.
\<close>

section \<open>State\<close>

datatype ac_cmd =
    CallOnShow | CallOnHide | ShowIndicator | HideIndicator | InsertIframe | FixLater | HideIframe
  | MarkEntry nat bool | ScrollTo nat bool | StopEvent | ClearTimer | StartTimer | StartHideTimer
  | FocusBox | CustomUpdate nat | AfterUpdate nat | Request string

text \<open>
  An entry of the list: its text without the parts of class \<open>informal\<close>, and the texts of the
  nodes of the class the option \<open>select\<close> names.
\<close>

record entry =
  plain_text :: string
  select_texts :: "string list"

record ac_options =
  tokens :: "string list"
  min_chars :: nat
  indicator :: bool
  auto_select :: bool
  custom_update :: bool
  use_select :: bool
  after_update :: bool
  ie :: bool
  webkit :: bool
  absolute :: bool

record ac =
  box :: string
  old_value :: string
  hasFocus :: bool
  changed :: bool
  active :: bool
  index :: int
  entryCount :: nat
  tokenBounds :: "(int \<times> int) option"
  observer :: bool
  displayed :: bool
  iefix :: bool
  entries :: "entry list"
  issued :: "ac_cmd list"

text \<open>\<open>baseInitialize\<close>\<close>

definition with_newline :: "string list \<Rightarrow> string list" where
  "with_newline toks = (if [CHR 0x0A] \<in> set toks then toks else toks @ [[CHR 0x0A]])"

definition base_init :: "string \<Rightarrow> ac" where
  "base_init v = \<lparr>box = v, old_value = v, hasFocus = False, changed = False, active = False, index = 0,
     entryCount = 0, tokenBounds = None, observer = False, displayed = False, iefix = False, entries = [],
     issued = []\<rparr>"

definition issue :: "ac_cmd list \<Rightarrow> ac \<Rightarrow> ac" where
  "issue cs s = s\<lparr>issued := issued s @ cs\<rparr>"

section \<open>Showing and hiding the list\<close>

definition stopIndicator :: "ac_options \<Rightarrow> ac \<Rightarrow> ac" where
  "stopIndicator opt s = (if indicator opt then issue [HideIndicator] s else s)"

definition startIndicator :: "ac_options \<Rightarrow> ac \<Rightarrow> ac" where
  "startIndicator opt s = (if indicator opt then issue [ShowIndicator] s else s)"

text \<open>\<open>onShow\<close> and \<open>onHide\<close> are taken to show and hide the list, as their defaults do.\<close>

definition show_list :: "ac_options \<Rightarrow> ac \<Rightarrow> ac" where
  "show_list opt s =
     (let s1 = (if \<not> displayed s then issue [CallOnShow] (s\<lparr>displayed := True\<rparr>) else s);
          s2 = (if \<not> iefix s1 \<and> ie opt \<and> absolute opt then issue [InsertIframe] (s1\<lparr>iefix := True\<rparr>) else s1)
      in if iefix s2 then issue [FixLater] s2 else s2)"

definition hide_list :: "ac_options \<Rightarrow> ac \<Rightarrow> ac" where
  "hide_list opt s =
     (let s0 = stopIndicator opt s;
          s1 = (if displayed s0 then issue [CallOnHide] (s0\<lparr>displayed := False\<rparr>) else s0)
      in if iefix s1 then issue [HideIframe] s1 else s1)"

section \<open>The selected entry\<close>

text \<open>\<open>getEntry\<close>; using the result of a read outside the list raises.\<close>

definition getEntry :: "ac \<Rightarrow> int \<Rightarrow> entry option" where
  "getEntry s i = (if 0 \<le> i then aref (entries s) (nat i) else None)"

definition render :: "ac_options \<Rightarrow> ac \<Rightarrow> ac" where
  "render opt s =
     (if 0 < entryCount s then
        (let s1 = issue (map (\<lambda>i. MarkEntry i (index s = int i)) [0..<entryCount s]) s
         in if hasFocus s1 then (show_list opt s1)\<lparr>active := True\<rparr> else s1)
      else hide_list opt (s\<lparr>active := False\<rparr>))"

definition markPrevious :: "ac \<Rightarrow> ac js" where
  "markPrevious s =
     (let s' = s\<lparr>index := (if 0 < index s then index s - 1 else int (entryCount s) - 1)\<rparr>
      in case getEntry s' (index s') of
           None \<Rightarrow> raise TypeError
         | Some _ \<Rightarrow> ok (issue [ScrollTo (nat (index s')) True] s'))"

definition markNext :: "ac \<Rightarrow> ac js" where
  "markNext s =
     (let s' = s\<lparr>index := (if index s < int (entryCount s) - 1 then index s + 1 else 0)\<rparr>
      in case getEntry s' (index s') of
           None \<Rightarrow> raise TypeError
         | Some _ \<Rightarrow> ok (issue [ScrollTo (nat (index s')) False] s'))"

definition getTokenBounds :: "ac_options \<Rightarrow> ac \<Rightarrow> (int \<times> int) \<times> ac" where
  "getTokenBounds opt s =
     (let (b, cache) = token_bounds (tokens opt) (box s) (old_value s) (tokenBounds s)
      in (b, s\<lparr>tokenBounds := cache\<rparr>))"

definition getToken :: "ac_options \<Rightarrow> ac \<Rightarrow> string \<times> ac" where
  "getToken opt s = (let (b, s') = getTokenBounds opt s in (token_text (box s') b, s'))"

text \<open>The text an entry stands for.\<close>

definition entry_value :: "ac_options \<Rightarrow> entry \<Rightarrow> string" where
  "entry_value opt e =
     (if use_select opt then (case select_texts e of [] \<Rightarrow> [] | t # _ \<Rightarrow> t) else plain_text e)"

definition updateElement :: "ac_options \<Rightarrow> nat \<Rightarrow> entry \<Rightarrow> ac \<Rightarrow> ac" where
  "updateElement opt i e s =
     (if custom_update opt then issue [CustomUpdate i] s
      else
        (let (b, s1) = getTokenBounds opt s;
             s2 = s1\<lparr>box := replace_token (box s1) b (entry_value opt e)\<rparr>;
             s3 = issue [FocusBox] (s2\<lparr>old_value := box s2\<rparr>)
         in if after_update opt then issue [AfterUpdate i] s3 else s3))"

definition selectEntry :: "ac_options \<Rightarrow> ac \<Rightarrow> ac js" where
  "selectEntry opt s =
     (let s' = s\<lparr>active := False\<rparr>
      in case getEntry s' (index s') of
           None \<Rightarrow> raise TypeError
         | Some e \<Rightarrow> ok (updateElement opt (nat (index s')) e s'))"

section \<open>Handlers\<close>

definition key_tab :: nat where "key_tab = 9"
definition key_return :: nat where "key_return = 13"
definition key_esc :: nat where "key_esc = 27"
definition key_left :: nat where "key_left = 37"
definition key_up :: nat where "key_up = 38"
definition key_right :: nat where "key_right = 39"
definition key_down :: nat where "key_down = 40"

definition close_list :: "ac_options \<Rightarrow> ac \<Rightarrow> ac" where
  "close_list opt s = issue [StopEvent] ((hide_list opt s)\<lparr>active := False\<rparr>)"

text \<open>The end of the key handler: the observer timer is started again.\<close>

definition note_change :: "ac \<Rightarrow> ac" where
  "note_change s =
     (let s1 = s\<lparr>changed := True, hasFocus := True\<rparr>;
          s2 = (if observer s1 then issue [ClearTimer] s1 else s1)
      in issue [StartTimer] (s2\<lparr>observer := True\<rparr>))"

definition onKeyPress :: "ac_options \<Rightarrow> nat \<Rightarrow> ac \<Rightarrow> ac js" where
  "onKeyPress opt key s =
     (if active s then
        (if key = key_tab \<or> key = key_return then
           js_bind (selectEntry opt s) (\<lambda>s1. ok (close_list opt (issue [StopEvent] s1)))
         else if key = key_esc then ok (close_list opt s)
         else if key = key_left \<or> key = key_right then ok s
         else if key = key_up then js_bind (markPrevious s) (\<lambda>s1. ok (issue [StopEvent] (render opt s1)))
         else if key = key_down then js_bind (markNext s) (\<lambda>s1. ok (issue [StopEvent] (render opt s1)))
         else ok (note_change s))
      else if key = key_tab \<or> key = key_return \<or> (webkit opt \<and> key = 0) then ok s
      else ok (note_change s))"

definition onHover :: "ac_options \<Rightarrow> nat \<Rightarrow> ac \<Rightarrow> ac" where
  "onHover opt i s =
     issue [StopEvent] (if index s \<noteq> int i then render opt (s\<lparr>index := int i\<rparr>) else s)"

definition onClick :: "ac_options \<Rightarrow> nat \<Rightarrow> ac \<Rightarrow> ac js" where
  "onClick opt i s = js_bind (selectEntry opt (s\<lparr>index := int i\<rparr>)) (\<lambda>s1. ok (hide_list opt s1))"

definition onBlur :: "ac \<Rightarrow> ac" where
  "onBlur s = (issue [StartHideTimer] s)\<lparr>hasFocus := False, active := False\<rparr>"

text \<open>
  \<open>updateChoices\<close>: \<open>parse\<close> is the browser's reading of the markup, \<open>None\<close> when it holds no
  element (then \<open>cleanWhitespace\<close> raises), else the entries of the list.
\<close>

definition updateChoices :: "ac_options \<Rightarrow> (string \<Rightarrow> entry list option) \<Rightarrow> string \<Rightarrow> ac \<Rightarrow> ac js" where
  "updateChoices opt parse html s =
     (if \<not> changed s \<and> hasFocus s then
        (case parse html of
           None \<Rightarrow> raise TypeError
         | Some es \<Rightarrow>
             (let s1 = (stopIndicator opt (s\<lparr>entries := es, entryCount := length es\<rparr>))\<lparr>index := 0\<rparr>
              in if entryCount s1 = 1 \<and> auto_select opt
                 then js_bind (selectEntry opt s1) (\<lambda>s2. ok (hide_list opt s2))
                 else ok (render opt s1)))
      else ok s)"

definition activate :: "(ac \<Rightarrow> ac js) \<Rightarrow> ac \<Rightarrow> ac js" where
  "activate getUpdatedChoices s = getUpdatedChoices (s\<lparr>changed := False, hasFocus := True\<rparr>)"

definition onObserverEvent :: "ac_options \<Rightarrow> (ac \<Rightarrow> ac js) \<Rightarrow> ac \<Rightarrow> ac js" where
  "onObserverEvent opt getUpdatedChoices s =
     (let (tok, s1) = getToken opt (s\<lparr>changed := False, tokenBounds := None\<rparr>)
      in js_bind
           (if min_chars opt \<le> length tok then getUpdatedChoices s1
            else ok (hide_list opt (s1\<lparr>active := False\<rparr>)))
           (\<lambda>s2. ok (s2\<lparr>old_value := box s2\<rparr>)))"

section \<open>The two sources of choices\<close>




definition ajax_onComplete :: "ac_options \<Rightarrow> (string \<Rightarrow> entry list option) \<Rightarrow> string \<Rightarrow> ac \<Rightarrow> ac js" where
  "ajax_onComplete opt parse response s = updateChoices opt parse response s"


section \<open>The invariant\<close>

text \<open>
  The count is the length of the list, and while the list is active an entry of it is
  selected.
\<close>

definition ac_inv :: "ac \<Rightarrow> bool" where
  "ac_inv s \<longleftrightarrow> entryCount s = length (entries s)
     \<and> (active s \<longrightarrow> 0 \<le> index s \<and> index s < int (entryCount s))"

lemmas ac_frame_defs = issue_def stopIndicator_def startIndicator_def show_list_def hide_list_def Let_def

lemma issue_frame [simp]:
  "box (issue cs s) = box s" "old_value (issue cs s) = old_value s" "hasFocus (issue cs s) = hasFocus s"
  "changed (issue cs s) = changed s" "active (issue cs s) = active s" "index (issue cs s) = index s"
  "entryCount (issue cs s) = entryCount s" "entries (issue cs s) = entries s"
  "tokenBounds (issue cs s) = tokenBounds s" "displayed (issue cs s) = displayed s" "observer (issue cs s) = observer s"
  by (simp_all add: issue_def)

lemma show_frame [simp]:
  "box (show_list opt s) = box s" "hasFocus (show_list opt s) = hasFocus s"
  "changed (show_list opt s) = changed s" "active (show_list opt s) = active s" "index (show_list opt s) = index s"
  "entryCount (show_list opt s) = entryCount s" "entries (show_list opt s) = entries s"
  "displayed (show_list opt s)"
  by (simp_all add: ac_frame_defs)

lemma hide_frame [simp]:
  "box (hide_list opt s) = box s" "hasFocus (hide_list opt s) = hasFocus s"
  "changed (hide_list opt s) = changed s" "active (hide_list opt s) = active s" "index (hide_list opt s) = index s"
  "entryCount (hide_list opt s) = entryCount s" "entries (hide_list opt s) = entries s"
  "\<not> displayed (hide_list opt s)"
  by (simp_all add: ac_frame_defs)

lemma indicator_frame [simp]:
  "box (stopIndicator opt s) = box s" "hasFocus (stopIndicator opt s) = hasFocus s"
  "changed (stopIndicator opt s) = changed s" "active (stopIndicator opt s) = active s"
  "index (stopIndicator opt s) = index s"
  "entryCount (stopIndicator opt s) = entryCount s" "entries (stopIndicator opt s) = entries s"
  "entryCount (startIndicator opt s) = entryCount s" "entries (startIndicator opt s) = entries s"
  "active (startIndicator opt s) = active s" "index (startIndicator opt s) = index s"
  "changed (startIndicator opt s) = changed s"
  by (simp_all add: stopIndicator_def startIndicator_def)

lemma render_frame [simp]:
  "box (render opt s) = box s" "entries (render opt s) = entries s" "entryCount (render opt s) = entryCount s"
  "index (render opt s) = index s" "changed (render opt s) = changed s"
  by (simp_all add: render_def Let_def)

lemma render_active:
  "active (render opt s) \<longleftrightarrow> 0 < entryCount s \<and> (hasFocus s \<or> active s)"
  by (simp add: render_def Let_def)

lemma bounds_frame:
  assumes "getTokenBounds opt s = (b, s')"
  shows "s' = s\<lparr>tokenBounds := snd (token_bounds (tokens opt) (box s) (old_value s) (tokenBounds s))\<rparr>"
    "b = fst (token_bounds (tokens opt) (box s) (old_value s) (tokenBounds s))"
  using assms by (auto simp: getTokenBounds_def split: prod.splits)


lemma updateElement_frame [simp]:
  "entries (updateElement opt i e s) = entries s" "entryCount (updateElement opt i e s) = entryCount s"
  "active (updateElement opt i e s) = active s" "index (updateElement opt i e s) = index s"
  "changed (updateElement opt i e s) = changed s"
  by (simp_all add: updateElement_def getTokenBounds_def Let_def split: prod.splits)

lemma getEntry_in: "0 \<le> i \<Longrightarrow> i < int (length (entries s)) \<Longrightarrow> getEntry s i = Some (entries s ! nat i)"
  by (simp add: getEntry_def)

lemma getEntry_frame: "entries s' = entries s \<Longrightarrow> getEntry s' = getEntry s"
  by (simp add: getEntry_def fun_eq_iff)


lemma mark_ok:
  assumes "entryCount s = length (entries s)" "0 \<le> index s" "index s < int (entryCount s)"
  shows "markNext s = ok (issue [ScrollTo (nat ((index s + 1) mod int (entryCount s))) False]
      (s\<lparr>index := (index s + 1) mod int (entryCount s)\<rparr>))"
    "markPrevious s = ok (issue [ScrollTo (nat ((index s - 1) mod int (entryCount s))) True]
      (s\<lparr>index := (index s - 1) mod int (entryCount s)\<rparr>))"
proof -
  let ?n = "int (entryCount s)"
  have up: "(if index s < ?n - 1 then index s + 1 else 0) = (index s + 1) mod ?n"
  proof (cases "index s < ?n - 1")
    case True
    with assms(2) show ?thesis by simp
  next
    case False
    with assms(3) have "index s + 1 = ?n" by linarith
    with False show ?thesis by simp
  qed
  have down: "(if 0 < index s then index s - 1 else ?n - 1) = (index s - 1) mod ?n"
  proof (cases "0 < index s")
    case True
    with assms(3) show ?thesis by simp
  next
    case False
    with assms(2) have "index s = 0" by simp
    moreover have "(-1) mod ?n = ?n - 1" using assms(2,3) by (subst zmod_minus1) auto
    ultimately show ?thesis by simp
  qed
  have n: "0 < ?n" using assms(2,3) by linarith
  show "markNext s = ok (issue [ScrollTo (nat ((index s + 1) mod ?n)) False] (s\<lparr>index := (index s + 1) mod ?n\<rparr>))"
    unfolding markNext_def up Let_def using assms(1) n by (simp add: getEntry_def nat_less_iff)
  show "markPrevious s = ok (issue [ScrollTo (nat ((index s - 1) mod ?n)) True] (s\<lparr>index := (index s - 1) mod ?n\<rparr>))"
    unfolding markPrevious_def down Let_def using assms(1) n by (simp add: getEntry_def nat_less_iff)
qed






lemma note_change_inv [inv_intros]: "ac_inv s \<Longrightarrow> ac_inv (note_change s)"
  by (auto simp: ac_inv_def note_change_def Let_def)



section \<open>Runs\<close>

text \<open>
  \<open>Type\<close> is the browser changing the text, \<open>Timer\<close> the observer timer, \<open>Late_hide\<close> the timer
  that losing the focus starts, \<open>Response\<close> the answer to a request.
\<close>

datatype ac_event = Key nat | Type string | Timer | Hover nat | Pick nat | Blur | Late_hide | Activate | Response string

fun ac_step :: "ac_options \<Rightarrow> (ac \<Rightarrow> ac js) \<Rightarrow> (string \<Rightarrow> entry list option) \<Rightarrow> ac_event \<Rightarrow> ac \<Rightarrow> ac js" where
  "ac_step opt get parse (Key k) s = onKeyPress opt k s"
| "ac_step opt get parse (Type v) s = ok (s\<lparr>box := v\<rparr>)"
| "ac_step opt get parse Timer s = onObserverEvent opt get s"
| "ac_step opt get parse (Hover i) s = (if i < entryCount s then ok (onHover opt i s) else ok s)"
| "ac_step opt get parse (Pick i) s = (if i < entryCount s then onClick opt i s else ok s)"
| "ac_step opt get parse Blur s = ok (onBlur s)"
| "ac_step opt get parse Late_hide s = ok (hide_list opt s)"
| "ac_step opt get parse Activate s = activate get s"
| "ac_step opt get parse (Response html) s = updateChoices opt parse html s"

inductive ac_run :: "ac_options \<Rightarrow> (ac \<Rightarrow> ac js) \<Rightarrow> (string \<Rightarrow> entry list option) \<Rightarrow> ac \<Rightarrow> ac_event list \<Rightarrow> ac \<Rightarrow> bool"
  for opt get parse where
  stop: "ac_run opt get parse s [] s"
| go: "ac_step opt get parse e s = ok t \<Longrightarrow> ac_run opt get parse t es u \<Longrightarrow> ac_run opt get parse s (e # es) u"

inductive_cases ac_run_cases: "ac_run opt get parse s (e # es) u"




section \<open>Properties\<close>


definition sample_options :: ac_options where
  "sample_options = \<lparr>tokens = ['','', [CHR 0x0A]], min_chars = 1, indicator = False, auto_select = False,
     custom_update = False, use_select = False, after_update = False, ie = False, webkit = False, absolute = True\<rparr>"


definition two_entries :: "string \<Rightarrow> entry list option" where
  "two_entries html = Some [\<lparr>plain_text = ''cat'', select_texts = []\<rparr>, \<lparr>plain_text = ''cow'', select_texts = []\<rparr>]"



text \<open>
  On a list with a selected entry, the down key moves to the next entry and the up key
  to the previous one, around the ends; up undoes down.
\<close>

theorem arrow_keys_cycle:
  assumes "ac_inv s" "active s" "hasFocus s"
  shows "\<exists>t u. onKeyPress opt key_down s = ok t \<and> index t = (index s + 1) mod int (length (entries s))
    \<and> onKeyPress opt key_up t = ok u \<and> index u = index s \<and> entries u = entries s \<and> active u"
proof -
  let ?n = "int (entryCount s)"
  have i: "entryCount s = length (entries s)" "0 \<le> index s" "index s < ?n"
    using assms(1,2) by (auto simp: ac_inv_def)
  then have n: "0 < ?n" by linarith
  define t where "t = issue [StopEvent] (render opt (issue [ScrollTo (nat ((index s + 1) mod ?n)) False]
      (s\<lparr>index := (index s + 1) mod ?n\<rparr>)))"
  have t: "onKeyPress opt key_down s = ok t"
    using assms(2) mark_ok(1) [OF i]
    by (simp add: onKeyPress_def t_def key_down_def key_tab_def key_return_def key_esc_def key_left_def
        key_right_def key_up_def)
  have ti: "index t = (index s + 1) mod ?n" "entryCount t = entryCount s" "entries t = entries s" "active t"
    using n assms(2) by (simp_all add: t_def render_active)
  have tn: "entryCount t = length (entries t)" "0 \<le> index t" "index t < int (entryCount t)"
    using i n ti by simp_all
  define u where "u = issue [StopEvent] (render opt (issue [ScrollTo (nat ((index t - 1) mod ?n)) True]
      (t\<lparr>index := (index t - 1) mod ?n\<rparr>)))"
  have u: "onKeyPress opt key_up t = ok u"
    using ti(2,4) mark_ok(2) [OF tn]
    by (simp add: onKeyPress_def u_def key_up_def key_tab_def key_return_def key_esc_def key_left_def key_right_def)
  have "index u = (index t - 1) mod ?n" by (simp add: u_def)
  also have "\<dots> = index s mod ?n" by (simp add: ti(1) mod_diff_left_eq)
  also have "\<dots> = index s" using i by simp
  finally have "index u = index s" .
  moreover have "entries u = entries s" "active u" using ti n by (simp_all add: u_def render_active)
  ultimately show ?thesis using t u ti(1) i(1) by auto
qed

theorem arrow_keys_cycle_witness:
  "\<exists>s t u. onKeyPress sample_options key_down s = ok t \<and> index t = 1 \<and> onKeyPress sample_options key_up t = ok u \<and> index u = 0"
proof -
  define s where "s = (base_init ''c'')\<lparr>entries := the (two_entries []), entryCount := 2, active := True, hasFocus := True\<rparr>"
  have "ac_inv s" "active s" "hasFocus s" by (simp_all add: ac_inv_def s_def base_init_def two_entries_def)
  from arrow_keys_cycle [OF this, of sample_options] show ?thesis
    by (auto simp: s_def two_entries_def base_init_def)
qed



text \<open>
  After a key press that changes the text, no answer that arrives, and no further typing,
  hovering or loss of focus, changes the offered entries until the observer timer fires or
  the box is activated.
\<close>

theorem stale_choices_dropped:
  assumes "ac_run opt get parse (note_change s) es t"
    and "\<forall>e \<in> set es. \<exists>v i. e \<in> {Type v, Response v, Hover i, Blur, Late_hide}"
  shows "entries t = entries s \<and> changed t"
proof -
  have "entries t = entries s \<and> changed t" if "ac_run opt get parse s0 es t" "changed s0" "entries s0 = entries s" for s0
    using that assms(2)
  proof (induction rule: ac_run.induct)
    case (stop s0)
    then show ?case by simp
  next
    case (go e s0 t0 es u)
    from go.prems(3) obtain v i where "e \<in> {Type v, Response v, Hover i, Blur, Late_hide}" by auto
    then have "changed t0 \<and> entries t0 = entries s"
      using go.hyps(1) go.prems(1,2) by (auto simp: updateChoices_def onHover_def onBlur_def split: if_splits)
    with go show ?case by simp
  qed
  then show ?thesis using assms(1) by (simp add: note_change_def Let_def)
qed

theorem stale_choices_dropped_witness:
  "\<exists>t. ac_run sample_options ok two_entries (note_change (base_init ''c'')) [Response ''x'', Type ''ca''] t \<and> entries t = []"
proof -
  let ?s = "note_change (base_init ''c'')" and ?es = "[Response ''x'', Type ''ca'']"
  have ch: "changed ?s" by (simp add: note_change_def Let_def)
  have "ac_step sample_options ok two_entries (Response ''x'') ?s = ok ?s"
    using ch by (simp add: updateChoices_def)
  moreover have "ac_step sample_options ok two_entries (Type ''ca'') ?s = ok (?s\<lparr>box := ''ca''\<rparr>)" by simp
  ultimately have "ac_run sample_options ok two_entries ?s ?es (?s\<lparr>box := ''ca''\<rparr>)"
    by (blast intro: ac_run.intros)
  moreover have "\<forall>e \<in> set ?es. \<exists>v i. e \<in> {Type v, Response v, Hover i, Blur, Late_hide}" by auto
  ultimately show ?thesis
    using stale_choices_dropped [of sample_options ok two_entries "base_init ''c''" ?es "?s\<lparr>box := ''ca''\<rparr>"]
    by (auto simp: base_init_def)
qed



end
