(* ===== verification/EffectQueue.thy ===== *)
theory EffectQueue
  imports Prelude Complex_Main
begin

text \<open>
  The core of \<open>effects.js\<close>: effects as timed objects (\<open>Effect.Base\<close>) and the scoped queues
  that start them and drive them by a timer (\<open>Effect.ScopedQueue\<close>, \<open>Effect.Queues\<close>).
  Effects are referred to by their place in a store, because a queue and the page share
  them.  Times are exact rationals in milliseconds.  The callbacks of the options are
  recorded by name; what they do is not modelled.
\<close>

section \<open>Effects and queues\<close>

datatype estate = Idle | Running | Finished

datatype qpos = QParallel | QFront | QWithLast | QEnd

text \<open>The option \<open>queue\<close>: a string, or an object with position, scope and limit (0 for none).\<close>

datatype queue_arg = QString qpos | QObject qpos string nat

datatype notice = BeforeStart | BeforeSetup | Setup | AfterSetup | BeforeUpdate | Update rat | AfterUpdate
  | BeforeFinish | Finish | AfterFinish

record effect_options =
  duration :: rat
  fps :: rat
  sync :: bool
  from_pos :: rat
  to_pos :: rat
  delay :: rat
  queue :: queue_arg
  transition :: "rat \<Rightarrow> rat"
  setup_cancels :: bool

record effect =
  options :: effect_options
  currentFrame :: int
  state :: estate
  startOn :: rat
  finishOn :: rat
  fromToDelta :: rat
  totalTime :: rat
  totalFrames :: rat
  position :: "rat option"
  notices :: "notice list"

record squeue =
  members :: "nat list"
  interval :: bool

record world =
  objs :: "effect list"
  queues :: "string \<rightharpoonup> squeue"

definition empty_world :: world where
  "empty_world = \<lparr>objs = [], queues = Map.empty\<rparr>"

definition new_squeue :: squeue where
  "new_squeue = \<lparr>members = [], interval = False\<rparr>"

text \<open>\<open>Effect.Queues.get\<close>: a queue that does not exist yet is made empty.\<close>

definition get_queue :: "world \<Rightarrow> string \<Rightarrow> squeue" where
  "get_queue w name = (case queues w name of None \<Rightarrow> new_squeue | Some q \<Rightarrow> q)"

definition put_queue :: "string \<Rightarrow> squeue \<Rightarrow> world \<Rightarrow> world" where
  "put_queue name q w = w\<lparr>queues := (queues w)(name \<mapsto> q)\<rparr>"

definition update_obj :: "nat \<Rightarrow> (effect \<Rightarrow> effect) \<Rightarrow> world \<Rightarrow> world" where
  "update_obj i f w = (if i < length (objs w) then w\<lparr>objs := (objs w)[i := f (objs w ! i)]\<rparr> else w)"

fun queue_position :: "queue_arg \<Rightarrow> qpos" where
  "queue_position (QString p) = p"
| "queue_position (QObject p scope limit) = p"

fun queue_scope :: "queue_arg \<Rightarrow> string" where
  "queue_scope (QString p) = ''global''"
| "queue_scope (QObject p scope limit) = scope"

fun queue_limit :: "queue_arg \<Rightarrow> nat" where
  "queue_limit (QString p) = 0"
| "queue_limit (QObject p scope limit) = limit"

definition DefaultOptions :: "(rat \<Rightarrow> rat) \<Rightarrow> effect_options" where
  "DefaultOptions sinoidal = \<lparr>duration = 1, fps = 100, sync = False, from_pos = 0, to_pos = 1, delay = 0,
     queue = QString QParallel, transition = sinoidal, setup_cancels = False\<rparr>"

section \<open>Adding to a queue\<close>

text \<open>\<open>pluck(...).max() || timestamp\<close>\<close>

fun js_max :: "rat list \<Rightarrow> rat option" where
  "js_max [] = None"
| "js_max (x # xs) = Some (fold (\<lambda>v r. if r \<le> v then v else r) xs x)"

definition max_or :: "rat list \<Rightarrow> rat \<Rightarrow> rat" where
  "max_or xs timestamp = (case js_max xs of None \<Rightarrow> timestamp | Some m \<Rightarrow> if m = 0 then timestamp else m)"

definition shift_idle :: "rat \<Rightarrow> effect \<Rightarrow> effect" where
  "shift_idle d e = (if state e = Idle then e\<lparr>startOn := startOn e + d, finishOn := finishOn e + d\<rparr> else e)"

definition add_timestamp :: "rat \<Rightarrow> qpos \<Rightarrow> squeue \<Rightarrow> world \<Rightarrow> rat" where
  "add_timestamp now p q w =
     (case p of
        QWithLast \<Rightarrow> max_or (map (\<lambda>i. startOn (objs w ! i)) (members q)) now
      | QEnd \<Rightarrow> max_or (map (\<lambda>i. finishOn (objs w ! i)) (members q)) now
      | _ \<Rightarrow> now)"

definition add_effect :: "rat \<Rightarrow> nat \<Rightarrow> world \<Rightarrow> world" where
  "add_effect now i w =
     (let e = objs w ! i; arg = queue (options e); name = queue_scope arg; q = get_queue w name;
          w1 = (if queue_position arg = QFront
                then fold (\<lambda>j. update_obj j (shift_idle (finishOn e))) (members q) w else w);
          timestamp = add_timestamp now (queue_position arg) q w1;
          w2 = update_obj i (\<lambda>e. e\<lparr>startOn := startOn e + timestamp, finishOn := finishOn e + timestamp\<rparr>) w1;
          q' = (if queue_limit arg = 0 \<or> length (members q) < queue_limit arg
                then q\<lparr>members := members q @ [i]\<rparr> else q)
      in put_queue name (q'\<lparr>interval := True\<rparr>) w2)"

definition remove_effect :: "nat \<Rightarrow> string \<Rightarrow> world \<Rightarrow> world" where
  "remove_effect i name w =
     (let q = get_queue w name; ms = filter (\<lambda>j. j \<noteq> i) (members q)
      in put_queue name (if ms = [] then \<lparr>members = ms, interval = False\<rparr> else q\<lparr>members := ms\<rparr>) w)"

section \<open>The life of an effect\<close>

definition log_note :: "notice list \<Rightarrow> nat \<Rightarrow> world \<Rightarrow> world" where
  "log_note ns i = update_obj i (\<lambda>e. e\<lparr>notices := notices e @ ns\<rparr>)"

definition make_effect :: "effect_options \<Rightarrow> effect" where
  "make_effect opts =
     (let start = delay opts * 1000; fin = start + duration opts * 1000
      in \<lparr>options = opts, currentFrame = 0, state = Idle, startOn = start, finishOn = fin,
          fromToDelta = to_pos opts - from_pos opts, totalTime = fin - start,
          totalFrames = fps opts * duration opts, position = None, notices = []\<rparr>)"

text \<open>\<open>start\<close>, for a new effect object: its place in the store is the next free one.\<close>

definition start_effect :: "rat \<Rightarrow> effect_options \<Rightarrow> world \<Rightarrow> world" where
  "start_effect now opts w =
     (let i = length (objs w);
          w1 = log_note [BeforeStart] i (w\<lparr>objs := objs w @ [make_effect opts]\<rparr>)
      in if \<not> sync opts then add_effect now i w1 else w1)"

definition set_state :: "estate \<Rightarrow> nat \<Rightarrow> world \<Rightarrow> world" where
  "set_state st i = update_obj i (\<lambda>e. e\<lparr>state := st\<rparr>)"

definition cancel :: "nat \<Rightarrow> world \<Rightarrow> world" where
  "cancel i w =
     (let opts = options (objs w ! i);
          w1 = (if \<not> sync opts then remove_effect i (queue_scope (queue opts)) w else w)
      in set_state Finished i w1)"

text \<open>\<open>render\<close>: the set-up on the first call, then the update, unless the set-up cancelled.\<close>

definition setup_effect :: "nat \<Rightarrow> world \<Rightarrow> world" where
  "setup_effect i w =
     (let w1 = log_note [BeforeSetup, Setup] i (set_state Running i w);
          w2 = (if setup_cancels (options (objs w ! i)) then cancel i w1 else w1)
      in log_note [AfterSetup] i w2)"

definition update_effect :: "rat \<Rightarrow> nat \<Rightarrow> world \<Rightarrow> world" where
  "update_effect pos i w =
     (let e = objs w ! i; p = transition (options e) pos * fromToDelta e + from_pos (options e)
      in log_note [BeforeUpdate, Update p, AfterUpdate] i (update_obj i (\<lambda>e. e\<lparr>position := Some p\<rparr>) w))"

definition effect_render :: "rat \<Rightarrow> nat \<Rightarrow> world \<Rightarrow> world" where
  "effect_render pos i w =
     (let w1 = (if state (objs w ! i) = Idle then setup_effect i w else w)
      in if state (objs w1 ! i) = Running then update_effect pos i w1 else w1)"

text \<open>\<open>Math.round\<close>\<close>

definition js_round :: "rat \<Rightarrow> int" where
  "js_round x = \<lfloor>x + 1 / 2\<rfloor>"

definition effect_loop :: "rat \<Rightarrow> nat \<Rightarrow> world \<Rightarrow> world" where
  "effect_loop timePos i w =
     (let e = objs w ! i
      in if startOn e \<le> timePos then
           (if finishOn e \<le> timePos then
              log_note [BeforeFinish, Finish, AfterFinish] i (cancel i (effect_render 1 i w))
            else
              (let pos = (timePos - startOn e) / totalTime e; frame = js_round (pos * totalFrames e)
               in if currentFrame e < frame
                  then update_obj i (\<lambda>e. e\<lparr>currentFrame := frame\<rparr>) (effect_render pos i w)
                  else w))
         else w)"

text \<open>
  The queue's timer: the number of rounds is fixed before the first, while a round reads the
  queue as it is then.
\<close>

definition queue_round :: "rat \<Rightarrow> string \<Rightarrow> nat \<Rightarrow> world \<Rightarrow> world" where
  "queue_round timePos name k w =
     (case aref (members (get_queue w name)) k of None \<Rightarrow> w | Some i \<Rightarrow> effect_loop timePos i w)"

definition queue_loop :: "rat \<Rightarrow> string \<Rightarrow> world \<Rightarrow> world" where
  "queue_loop timePos name w =
     fold (queue_round timePos name) [0..<length (members (get_queue w name))] w"

section \<open>What an operation leaves alone\<close>

lemma get_put [simp]: "get_queue (put_queue n q w) m = (if m = n then q else get_queue w m)"
  by (simp add: get_queue_def put_queue_def)

lemma objs_put [simp]: "objs (put_queue n q w) = objs w"
  by (simp add: put_queue_def)

lemma get_update [simp]: "get_queue (update_obj i f w) = get_queue w"
  by (simp add: get_queue_def update_obj_def fun_eq_iff)

lemma length_update [simp]: "length (objs (update_obj i f w)) = length (objs w)"
  by (simp add: update_obj_def)

lemma nth_update: "j < length (objs w) \<Longrightarrow> objs (update_obj i f w) ! j = (if j = i then f (objs w ! j) else objs w ! j)"
  by (auto simp: update_obj_def)

lemma get_new_obj [simp]: "get_queue (w\<lparr>objs := xs\<rparr>) = get_queue w"
  by (simp add: get_queue_def fun_eq_iff)

text \<open>The schedule of an effect: its times and options, which only \<open>add\<close> changes.\<close>

definition schedule :: "effect \<Rightarrow> rat \<times> rat \<times> rat \<times> rat \<times> effect_options" where
  "schedule e = (startOn e, finishOn e, fromToDelta e, totalTime e, options e)"

definition same_schedules :: "world \<Rightarrow> world \<Rightarrow> bool" where
  "same_schedules w w' \<longleftrightarrow> map schedule (objs w') = map schedule (objs w)"

lemma same_schedules_refl [intro, simp]: "same_schedules w w"
  by (simp add: same_schedules_def)

lemma same_schedules_trans [trans]: "same_schedules a b \<Longrightarrow> same_schedules b c \<Longrightarrow> same_schedules a c"
  by (simp add: same_schedules_def)

lemma same_schedules_length: "same_schedules w w' \<Longrightarrow> length (objs w') = length (objs w)"
  by (metis length_map same_schedules_def)

lemma same_schedules_nth:
  assumes "same_schedules w w'" "i < length (objs w)"
  shows "startOn (objs w' ! i) = startOn (objs w ! i)" "finishOn (objs w' ! i) = finishOn (objs w ! i)"
    "options (objs w' ! i) = options (objs w ! i)" "fromToDelta (objs w' ! i) = fromToDelta (objs w ! i)"
proof -
  have "map schedule (objs w') ! i = map schedule (objs w) ! i"
    using assms(1) by (simp add: same_schedules_def)
  then have "schedule (objs w' ! i) = schedule (objs w ! i)"
    using assms(2) same_schedules_length [OF assms(1)] by simp
  then show "startOn (objs w' ! i) = startOn (objs w ! i)" "finishOn (objs w' ! i) = finishOn (objs w ! i)"
    "options (objs w' ! i) = options (objs w ! i)" "fromToDelta (objs w' ! i) = fromToDelta (objs w ! i)"
    by (simp_all add: schedule_def)
qed

lemma update_same: "(\<And>e. schedule (f e) = schedule e) \<Longrightarrow> same_schedules w (update_obj i f w)"
  by (simp add: same_schedules_def update_obj_def map_update list_update_same_conv)

lemma put_same [simp]: "same_schedules w (put_queue n q w')= same_schedules w w'"
  by (simp add: same_schedules_def)

lemma log_same: "same_schedules w (log_note ns i w)"
  unfolding log_note_def by (rule update_same) (simp add: schedule_def)

lemma set_state_same: "same_schedules w (set_state st i w)"
  unfolding set_state_def by (rule update_same) (simp add: schedule_def)

lemma cancel_same: "same_schedules w (cancel i w)"
  unfolding cancel_def Let_def remove_effect_def
  by (rule same_schedules_trans [OF _ set_state_same]) simp

lemma setup_same: "same_schedules w (setup_effect i w)"
  unfolding setup_effect_def Let_def
  by (rule same_schedules_trans [OF _ log_same])
    (simp add: same_schedules_trans [OF same_schedules_trans [OF set_state_same log_same] cancel_same]
      same_schedules_trans [OF set_state_same log_same])

lemma update_effect_same: "same_schedules w (update_effect pos i w)"
  unfolding update_effect_def Let_def
  by (rule same_schedules_trans [OF update_same log_same]) (simp add: schedule_def)

lemma render_same: "same_schedules w (effect_render pos i w)"
  unfolding effect_render_def Let_def using setup_same update_effect_same same_schedules_trans by fastforce

lemma effect_loop_same: "same_schedules w (effect_loop t i w)"
proof -
  have a: "same_schedules w (log_note ns i (cancel i (effect_render 1 i w)))" for ns
    by (rule same_schedules_trans [OF same_schedules_trans [OF render_same cancel_same] log_same])
  have b: "same_schedules w (update_obj i (\<lambda>e. e\<lparr>currentFrame := k\<rparr>) (effect_render pos i w))" for k pos
    by (rule same_schedules_trans [OF render_same update_same]) (simp add: schedule_def)
  show ?thesis unfolding effect_loop_def Let_def using a b by auto
qed

text \<open>A tick only takes members out of queues.\<close>

definition fewer :: "world \<Rightarrow> world \<Rightarrow> bool" where
  "fewer w w' \<longleftrightarrow> (\<forall>n. \<exists>P. members (get_queue w' n) = filter P (members (get_queue w n)))"

lemma fewer_refl [intro, simp]: "fewer w w"
  unfolding fewer_def by (intro allI exI [of _ "\<lambda>_. True"]) simp

lemma fewer_trans [trans]: "fewer a b \<Longrightarrow> fewer b c \<Longrightarrow> fewer a c"
  unfolding fewer_def by (metis filter_filter)

lemma log_queue [simp]: "get_queue (log_note ns i w) = get_queue w"
  by (simp add: log_note_def)

lemma state_queue [simp]: "get_queue (set_state st i w) = get_queue w"
  by (simp add: set_state_def)

lemma update_effect_queue [simp]: "get_queue (update_effect pos i w) = get_queue w"
  by (simp add: update_effect_def Let_def)

lemma remove_members: "members (get_queue (remove_effect i n w) m) =
   (if m = n then filter (\<lambda>j. j \<noteq> i) (members (get_queue w n)) else members (get_queue w m))"
  by (simp add: remove_effect_def Let_def)

lemma cancel_members: "members (get_queue (cancel i w) m) =
   (if \<not> sync (options (objs w ! i)) \<and> m = queue_scope (queue (options (objs w ! i)))
    then filter (\<lambda>j. j \<noteq> i) (members (get_queue w m)) else members (get_queue w m))"
  by (simp add: cancel_def Let_def remove_members)

lemma cancel_fewer: "fewer w (cancel i w)"
proof -
  have "\<exists>P. (if b then filter Q xs else xs) = filter P xs" for b Q and xs :: "nat list"
    by (intro exI [of _ "\<lambda>x. b \<longrightarrow> Q x"]) auto
  then show ?thesis unfolding fewer_def cancel_members by blast
qed

lemma fewer_queue_eq: "get_queue w' = get_queue w \<Longrightarrow> fewer w w'"
  unfolding fewer_def by (intro allI exI [of _ "\<lambda>_. True"]) simp

lemma setup_fewer: "fewer w (setup_effect i w)"
proof -
  have "fewer w (log_note [BeforeSetup, Setup] i (set_state Running i w))" by (rule fewer_queue_eq) simp
  from fewer_trans [OF this cancel_fewer] this show ?thesis
    unfolding setup_effect_def Let_def by (auto simp: fewer_def)
qed

lemma render_fewer: "fewer w (effect_render pos i w)"
proof -
  have "fewer w (update_effect pos i w)" for w by (rule fewer_queue_eq) simp
  then show ?thesis unfolding effect_render_def Let_def using setup_fewer fewer_trans by fastforce
qed

lemma effect_loop_fewer: "fewer w (effect_loop t i w)"
proof -
  have "fewer w (log_note ns i (cancel i (effect_render 1 i w)))" for ns
    using fewer_trans [OF render_fewer cancel_fewer] by (auto simp: fewer_def)
  moreover have "fewer w (update_obj i f (effect_render pos i w))" for f pos
    using render_fewer [of w pos i] by (auto simp: fewer_def)
  ultimately show ?thesis unfolding effect_loop_def Let_def by auto
qed

lemma queue_rounds_fewer_same: "fewer w (fold (queue_round t n) ks w) \<and> same_schedules w (fold (queue_round t n) ks w)"
proof (induction ks arbitrary: w)
  case Nil
  then show ?case by simp
next
  case (Cons k ks)
  have "fewer w (queue_round t n k w) \<and> same_schedules w (queue_round t n k w)"
    by (auto simp: queue_round_def effect_loop_fewer effect_loop_same split: option.split)
  with Cons [of "queue_round t n k w"] show ?case
    using fewer_trans same_schedules_trans by (auto intro: fewer_trans same_schedules_trans)
qed

lemma queue_loop_fewer: "fewer w (queue_loop t n w)"
  and queue_loop_same: "same_schedules w (queue_loop t n w)"
  using queue_rounds_fewer_same by (simp_all add: queue_loop_def)

section \<open>A tick on members that are due to finish\<close>

definition expired :: "rat \<Rightarrow> string \<Rightarrow> world \<Rightarrow> nat \<Rightarrow> bool" where
  "expired t n w i \<longleftrightarrow> i < length (objs w) \<and> startOn (objs w ! i) \<le> t \<and> finishOn (objs w ! i) \<le> t
     \<and> \<not> sync (options (objs w ! i)) \<and> queue_scope (queue (options (objs w ! i))) = n"

lemma expired_same: "same_schedules w w' \<Longrightarrow> expired t n w' i = expired t n w i"
  using same_schedules_nth [of w w' i] same_schedules_length [of w w']
  by (cases "i < length (objs w)") (simp_all add: expired_def)

lemma setup_members:
  "members (get_queue (setup_effect i w) m) = members (get_queue w m)
   \<or> members (get_queue (setup_effect i w) m) = filter (\<lambda>j. j \<noteq> i) (members (get_queue w m))"
  by (simp add: setup_effect_def Let_def cancel_members)

lemma render_members:
  "members (get_queue (effect_render pos i w) m) = members (get_queue w m)
   \<or> members (get_queue (effect_render pos i w) m) = filter (\<lambda>j. j \<noteq> i) (members (get_queue w m))"
  using setup_members [of i w m] by (simp add: effect_render_def Let_def)

lemma expired_loop_members:
  assumes "expired t n w i"
  shows "members (get_queue (effect_loop t i w) n) = filter (\<lambda>j. j \<noteq> i) (members (get_queue w n))"
proof -
  have opts: "options (objs (effect_render 1 i w) ! i) = options (objs w ! i)"
    using assms by (simp add: expired_def same_schedules_nth [OF render_same])
  have "members (get_queue (effect_loop t i w) n) = filter (\<lambda>j. j \<noteq> i) (members (get_queue (effect_render 1 i w) n))"
    using assms by (simp add: effect_loop_def expired_def cancel_members opts)
  then show ?thesis using render_members [of 1 i w n] by auto
qed

fun every_second :: "'a list \<Rightarrow> 'a list" where
  "every_second (x # y # zs) = y # every_second zs"
| "every_second [] = []"
| "every_second (x # []) = []"

lemma length_every_second: "length (every_second xs) = length xs div 2"
  by (induction xs rule: every_second.induct) auto

lemma set_every_second: "set (every_second xs) \<subseteq> set xs"
  by (induction xs rule: every_second.induct) auto

lemma distinct_every_second: "distinct xs \<Longrightarrow> distinct (every_second xs)"
  using set_every_second by (induction xs rule: every_second.induct) fastforce+

lemma rounds_expired:
  assumes "members (get_queue w n) = pre @ ms" "length pre = k" "distinct (pre @ ms)" "\<forall>i \<in> set ms. expired t n w i"
  shows "members (get_queue (fold (queue_round t n) [k..<k + length ms] w) n) = pre @ every_second ms"
  using assms
proof (induction ms arbitrary: w pre k rule: every_second.induct)
  case (1 x y zs)
  have r: "queue_round t n k w = effect_loop t x w"
    using 1(2,3) by (simp add: queue_round_def nth_append)
  let ?w = "effect_loop t x w"
  have "filter (\<lambda>j. j \<noteq> x) pre = pre" "filter (\<lambda>j. j \<noteq> x) zs = zs"
    using 1(4) by (auto simp: filter_id_conv)
  then have "members (get_queue ?w n) = (pre @ [y]) @ zs"
    using expired_loop_members [of t n w x] 1(2,4,5) by simp
  moreover have "\<forall>i \<in> set zs. expired t n ?w i"
    using 1(5) expired_same [OF effect_loop_same] by simp
  ultimately have ih: "members (get_queue (fold (queue_round t n) [Suc k..<Suc k + length zs] ?w) n) = (pre @ [y]) @ every_second zs"
    using 1(3,4) by (intro "1.IH") auto
  have "[k..<k + length (x # y # zs)] = k # [Suc k..<Suc k + length zs] @ [Suc k + length zs]"
  proof -
    have "[k..<k + length (x # y # zs)] = k # [Suc k..<Suc (Suc k + length zs)]"
      by (subst upt_conv_Cons) simp_all
    then show ?thesis by simp
  qed
  moreover have "length zs div 2 \<le> length zs" by simp
  then have "queue_round t n (Suc k + length zs) w' = w'"
    if "members (get_queue w' n) = (pre @ [y]) @ every_second zs" for w'
    using that 1(3) by (simp add: queue_round_def aref_def length_every_second)
  ultimately show ?case using ih r by simp
next
  case 2
  then show ?case by simp
next
  case (3 x)
  have r: "queue_round t n k w = effect_loop t x w"
    using 3(1,2) by (simp add: queue_round_def nth_append)
  then show ?case using expired_loop_members [of t n w x] 3 by (auto simp: filter_id_conv)
qed

lemma tick_expired:
  assumes "distinct (members (get_queue w n))" "\<forall>i \<in> set (members (get_queue w n)). expired t n w i"
  shows "members (get_queue (queue_loop t n w) n) = every_second (members (get_queue w n))"
  using rounds_expired [of w n "[]" "members (get_queue w n)" 0 t] assms by (simp add: queue_loop_def)

section \<open>The timer runs exactly while the queue has members\<close>

definition timer_ok :: "world \<Rightarrow> bool" where
  "timer_ok w \<longleftrightarrow> (\<forall>n. interval (get_queue w n) \<longleftrightarrow> members (get_queue w n) \<noteq> [])"

lemma timer_leaves [simp]:
  "timer_ok (update_obj i f w) = timer_ok w" "timer_ok (log_note ns i w) = timer_ok w"
  "timer_ok (set_state st i w) = timer_ok w" "timer_ok (update_effect pos i w) = timer_ok w"
  "timer_ok (w\<lparr>objs := xs\<rparr>) = timer_ok w"
  by (simp_all add: timer_ok_def log_note_def set_state_def update_effect_def Let_def)

lemma timer_remove: "timer_ok w \<Longrightarrow> timer_ok (remove_effect i n w)"
  unfolding timer_ok_def
proof (intro allI)
  fix m
  assume all: "\<forall>n. interval (get_queue w n) \<longleftrightarrow> members (get_queue w n) \<noteq> []"
  then have m: "interval (get_queue w m) \<longleftrightarrow> members (get_queue w m) \<noteq> []" by blast
  show "interval (get_queue (remove_effect i n w) m) \<longleftrightarrow> members (get_queue (remove_effect i n w) m) \<noteq> []"
  proof (cases "filter (\<lambda>j. j \<noteq> i) (members (get_queue w n)) = []")
    case True
    with m show ?thesis by (simp only: remove_effect_def Let_def get_put if_True) simp
  next
    case False
    then have "members (get_queue w n) \<noteq> []" by auto
    then have "interval (get_queue w n)" using all by blast
    with False m show ?thesis by (simp only: remove_effect_def Let_def get_put if_False) simp
  qed
qed

lemma timer_cancel: "timer_ok w \<Longrightarrow> timer_ok (cancel i w)"
  by (simp add: cancel_def Let_def timer_remove)

lemma timer_setup: "timer_ok w \<Longrightarrow> timer_ok (setup_effect i w)"
  by (simp add: setup_effect_def Let_def timer_cancel)

lemma timer_render: "timer_ok w \<Longrightarrow> timer_ok (effect_render pos i w)"
  by (simp add: effect_render_def Let_def timer_setup)

lemma timer_effect_loop: "timer_ok w \<Longrightarrow> timer_ok (effect_loop t i w)"
  by (simp add: effect_loop_def Let_def timer_cancel timer_render)

lemma timer_queue_loop: "timer_ok w \<Longrightarrow> timer_ok (queue_loop t n w)"
proof -
  have "timer_ok w \<Longrightarrow> timer_ok (fold (queue_round t n) ks w)" for ks
    by (induction ks arbitrary: w) (auto simp: queue_round_def timer_effect_loop split: option.split)
  then show "timer_ok w \<Longrightarrow> timer_ok (queue_loop t n w)" by (simp add: queue_loop_def)
qed

lemma fold_update_queue [simp]: "get_queue (fold (\<lambda>j. update_obj j f) js w) = get_queue w"
  by (induction js arbitrary: w) auto

lemma timer_add: "timer_ok w \<Longrightarrow> timer_ok (add_effect now i w)"
  unfolding timer_ok_def
proof (intro allI)
  fix m
  let ?n = "queue_scope (queue (options (objs w ! i)))"
  assume all: "\<forall>n. interval (get_queue w n) \<longleftrightarrow> members (get_queue w n) \<noteq> []"
  then have m: "interval (get_queue w m) \<longleftrightarrow> members (get_queue w m) \<noteq> []" by blast
  show "interval (get_queue (add_effect now i w) m) \<longleftrightarrow> members (get_queue (add_effect now i w) m) \<noteq> []"
  proof (cases "m = ?n")
    case True
    then show ?thesis by (auto simp: add_effect_def Let_def)
  next
    case False
    with m show ?thesis by (simp add: add_effect_def Let_def)
  qed
qed

lemma timer_start: "timer_ok w \<Longrightarrow> timer_ok (start_effect now opts w)"
  by (simp add: start_effect_def Let_def timer_add)

section \<open>Runs\<close>

datatype fx_event = Submit rat effect_options | Tick rat string

fun fx_step :: "fx_event \<Rightarrow> world \<Rightarrow> world" where
  "fx_step (Submit now opts) w = start_effect now opts w"
| "fx_step (Tick t n) w = queue_loop t n w"

definition fx_run :: "fx_event list \<Rightarrow> world" where
  "fx_run es = fold fx_step es empty_world"

lemma timer_empty: "timer_ok empty_world"
  by (simp add: timer_ok_def empty_world_def get_queue_def new_squeue_def)

lemma timer_run: "timer_ok (fx_run es)"
proof -
  have "timer_ok w \<Longrightarrow> timer_ok (fold fx_step es w)" for w
  proof (induction es arbitrary: w)
    case (Cons e es)
    then show ?case by (cases e) (auto simp: timer_start timer_queue_loop)
  qed simp
  then show ?thesis using timer_empty by (simp add: fx_run_def)
qed

subsection \<open>Effects queued at the end\<close>

definition at_end :: "fx_event \<Rightarrow> bool" where
  "at_end e = (case e of
     Submit now opts \<Rightarrow> 0 \<le> now \<and> 0 \<le> delay opts \<and> 0 \<le> duration opts \<and> \<not> sync opts \<and> queue_position (queue opts) = QEnd
   | Tick t n \<Rightarrow> True)"

lemma js_max_ge: "js_max xs = Some m \<Longrightarrow> x \<in> set xs \<Longrightarrow> x \<le> m"
proof -
  have keep: "a \<le> fold (\<lambda>v r. if r \<le> v then v else r) ys a" for a :: rat and ys
    by (induction ys arbitrary: a) (auto intro: order_trans)
  have "y \<in> set ys \<Longrightarrow> y \<le> fold (\<lambda>v r. if r \<le> v then v else r) ys a" for a y :: rat and ys
  proof (induction ys arbitrary: a)
    case (Cons z zs)
    then show ?case using keep [of "if a \<le> z then z else a" zs] by (auto split: if_splits)
  qed simp
  then show "js_max xs = Some m \<Longrightarrow> x \<in> set xs \<Longrightarrow> x \<le> m" using keep by (cases xs) auto
qed

lemma max_or_ge:
  assumes "\<forall>x \<in> set xs. 0 \<le> x" "0 \<le> now"
  shows "\<forall>x \<in> set xs. x \<le> max_or xs now" "0 \<le> max_or xs now"
proof -
  have *: "m \<in> set xs" if "js_max xs = Some m" for m
  proof -
    have "fold (\<lambda>v r. if r \<le> v then v else r) ys a \<in> insert a (set ys)" for a :: rat and ys
    proof (induction ys arbitrary: a)
      case (Cons y ys)
      from Cons [of "if a \<le> y then y else a"] show ?case by (auto split: if_splits)
    qed simp
    with that show ?thesis by (cases xs) auto
  qed
  show "\<forall>x \<in> set xs. x \<le> max_or xs now"
  proof
    fix x assume x: "x \<in> set xs"
    then obtain m where m: "js_max xs = Some m" by (cases xs) auto
    with x js_max_ge have "x \<le> m" by blast
    then show "x \<le> max_or xs now" using m assms(2) by (auto simp: max_or_def)
  qed
  show "0 \<le> max_or xs now" using assms * by (auto simp: max_or_def split: option.split)
qed

definition in_sequence :: "world \<Rightarrow> nat list \<Rightarrow> bool" where
  "in_sequence w ms \<longleftrightarrow> sorted_wrt (\<lambda>a b. finishOn (objs w ! a) \<le> startOn (objs w ! b)) ms
     \<and> (\<forall>i \<in> set ms. i < length (objs w) \<and> 0 \<le> startOn (objs w ! i) \<and> startOn (objs w ! i) \<le> finishOn (objs w ! i))"

definition sequenced :: "world \<Rightarrow> bool" where
  "sequenced w \<longleftrightarrow> (\<forall>n. in_sequence w (members (get_queue w n)))"

lemma in_sequence_filter: "in_sequence w ms \<Longrightarrow> in_sequence w (filter P ms)"
  by (auto simp: in_sequence_def intro: sorted_wrt_filter)

lemma in_sequence_agree:
  assumes "in_sequence w ms" "length (objs w) \<le> length (objs w')"
    "\<And>i. i < length (objs w) \<Longrightarrow> startOn (objs w' ! i) = startOn (objs w ! i) \<and> finishOn (objs w' ! i) = finishOn (objs w ! i)"
  shows "in_sequence w' ms"
proof -
  have "sorted_wrt (\<lambda>a b. finishOn (objs w' ! a) \<le> startOn (objs w' ! b)) ms"
    by (rule sorted_wrt_mono_rel [of ms "\<lambda>a b. finishOn (objs w ! a) \<le> startOn (objs w ! b)"])
      (use assms in \<open>auto simp: in_sequence_def\<close>)
  moreover have "i < length (objs w') \<and> 0 \<le> startOn (objs w' ! i) \<and> startOn (objs w' ! i) \<le> finishOn (objs w' ! i)"
    if "i \<in> set ms" for i
  proof -
    from that assms(1) have "i < length (objs w) \<and> 0 \<le> startOn (objs w ! i) \<and> startOn (objs w ! i) \<le> finishOn (objs w ! i)"
      by (simp add: in_sequence_def)
    with assms(2) assms(3) [of i] show ?thesis by simp
  qed
  ultimately show ?thesis by (simp add: in_sequence_def)
qed

lemma sequenced_tick: "sequenced w \<Longrightarrow> sequenced (queue_loop t n w)"
  unfolding sequenced_def
proof (intro allI)
  fix m
  assume seq: "\<forall>n. in_sequence w (members (get_queue w n))"
  note same = queue_loop_same [of w t n]
  obtain P where P: "members (get_queue (queue_loop t n w) m) = filter P (members (get_queue w m))"
    using queue_loop_fewer unfolding fewer_def by blast
  have "in_sequence w (filter P (members (get_queue w m)))" using seq in_sequence_filter by blast
  then show "in_sequence (queue_loop t n w) (members (get_queue (queue_loop t n w) m))"
    unfolding P by (rule in_sequence_agree)
      (simp_all add: same_schedules_length [OF same] same_schedules_nth [OF same])
qed

text \<open>What \<open>start\<close> does with an effect queued at the end.\<close>

definition end_time :: "rat \<Rightarrow> effect_options \<Rightarrow> world \<Rightarrow> rat" where
  "end_time now opts w = max_or (map (\<lambda>j. finishOn (objs w ! j)) (members (get_queue w (queue_scope (queue opts))))) now"

lemma log_new: "log_note ns (length (objs w)) (w\<lparr>objs := objs w @ [e]\<rparr>) = w\<lparr>objs := objs w @ [e\<lparr>notices := notices e @ ns\<rparr>]\<rparr>"
  by (simp add: log_note_def update_obj_def)

lemma add_end_objs:
  assumes "queue_position (queue (options e)) = QEnd"
    "\<forall>j \<in> set (members (get_queue w (queue_scope (queue (options e))))). j < length (objs w)"
  shows "objs (add_effect now (length (objs w)) (w\<lparr>objs := objs w @ [e]\<rparr>))
       = objs w @ [e\<lparr>startOn := startOn e + end_time now (options e) w, finishOn := finishOn e + end_time now (options e) w\<rparr>]"
proof -
  have m: "map (\<lambda>j. finishOn ((objs w @ [e]) ! j)) (members (get_queue w (queue_scope (queue (options e)))))
    = map (\<lambda>j. finishOn (objs w ! j)) (members (get_queue w (queue_scope (queue (options e)))))"
    using assms(2) by (intro map_cong) (auto simp: nth_append)
  show ?thesis
    by (simp add: add_effect_def Let_def assms(1) add_timestamp_def update_obj_def m end_time_def)
qed

lemma add_end_members:
  assumes "queue_position (queue (options e)) = QEnd"
  shows "members (get_queue (add_effect now (length (objs w)) (w\<lparr>objs := objs w @ [e]\<rparr>)) m) = members (get_queue w m)
   \<or> m = queue_scope (queue (options e)) \<and> members (get_queue (add_effect now (length (objs w)) (w\<lparr>objs := objs w @ [e]\<rparr>)) m)
       = members (get_queue w m) @ [length (objs w)]"
  by (simp add: add_effect_def Let_def assms)

lemma sequenced_submit:
  assumes seq: "sequenced w" and a: "at_end (Submit now opts)"
  shows "sequenced (start_effect now opts w)"
  unfolding sequenced_def
proof (intro allI)
  fix m
  let ?n = "queue_scope (queue opts)" and ?i = "length (objs w)" and ?w = "start_effect now opts w"
  let ?ms = "members (get_queue w ?n)" and ?ts = "end_time now opts w"
  let ?e = "(make_effect opts)\<lparr>notices := [BeforeStart]\<rparr>"
  have opts: "options ?e = opts" "startOn ?e = delay opts * 1000" "finishOn ?e = delay opts * 1000 + duration opts * 1000"
    by (simp_all add: make_effect_def Let_def)
  have pos: "\<not> sync opts" "queue_position (queue opts) = QEnd" "0 \<le> now" "0 \<le> delay opts" "0 \<le> duration opts"
    using a by (simp_all add: at_end_def)
  have w: "?w = add_effect now ?i (w\<lparr>objs := objs w @ [?e]\<rparr>)"
    using pos(1) by (simp add: start_effect_def Let_def log_new make_effect_def)
  have ms: "\<forall>j \<in> set ?ms. j < ?i \<and> 0 \<le> finishOn (objs w ! j)"
    using seq by (auto simp: sequenced_def in_sequence_def intro: order_trans)
  have objs: "objs ?w = objs w @ [?e\<lparr>startOn := startOn ?e + ?ts, finishOn := finishOn ?e + ?ts\<rparr>]"
    using add_end_objs [of ?e w now] ms pos(2) unfolding w opts(1) by blast
  have ts: "\<forall>j \<in> set ?ms. finishOn (objs w ! j) \<le> ?ts" "0 \<le> ?ts"
    using max_or_ge [of "map (\<lambda>j. finishOn (objs w ! j)) ?ms" now] ms pos(3) by (simp_all add: end_time_def)
  have keep: "in_sequence ?w (members (get_queue w m))"
    by (rule in_sequence_agree [of w]) (use seq in \<open>simp_all add: sequenced_def objs nth_append\<close>)
  have new: "objs ?w ! ?i = ?e\<lparr>startOn := startOn ?e + ?ts, finishOn := finishOn ?e + ?ts\<rparr>" by (simp add: objs)
  have "in_sequence ?w (?ms @ [?i])" if "m = ?n"
  proof -
    have "finishOn (objs ?w ! j) \<le> startOn (objs ?w ! ?i)" if "j \<in> set ?ms" for j
    proof -
      from ts(1) that have "finishOn (objs w ! j) \<le> ?ts" by blast
      moreover have "objs ?w ! j = objs w ! j" using ms that by (simp add: objs nth_append)
      ultimately show ?thesis using pos(4) by (simp add: new opts)
    qed
    then show ?thesis
      using keep \<open>m = ?n\<close> ts(2) pos by (simp add: in_sequence_def sorted_wrt_append new opts) (simp add: objs)
  qed
  then show "in_sequence ?w (members (get_queue ?w m))"
    using keep add_end_members [of ?e now w m] pos(2) unfolding w opts(1) by auto
qed

lemma sequenced_run:
  assumes "list_all at_end es" shows "sequenced (fx_run es)"
proof -
  have "sequenced w \<Longrightarrow> list_all at_end es \<Longrightarrow> sequenced (fold fx_step es w)" for w
  proof (induction es arbitrary: w)
    case (Cons e es)
    then show ?case by (cases e) (auto simp: sequenced_tick intro!: sequenced_submit)
  qed simp
  moreover have "sequenced empty_world"
    by (simp add: sequenced_def in_sequence_def empty_world_def get_queue_def new_squeue_def)
  ultimately show ?thesis using assms by (simp add: fx_run_def)
qed

text \<open>C4: effects queued at the end of a queue never run at the same time.\<close>

theorem queued_effects_never_overlap:
  assumes "list_all at_end es" "a \<in> set (members (get_queue (fx_run es) n))"
    "b \<in> set (members (get_queue (fx_run es) n))" "a \<noteq> b"
    "startOn (objs (fx_run es) ! a) \<le> t" "t < finishOn (objs (fx_run es) ! a)"
  shows "\<not> (startOn (objs (fx_run es) ! b) \<le> t \<and> t < finishOn (objs (fx_run es) ! b))"
proof -
  let ?w = "fx_run es" let ?ms = "members (get_queue ?w n)"
  have "sorted_wrt (\<lambda>a b. finishOn (objs ?w ! a) \<le> startOn (objs ?w ! b)) ?ms"
    using sequenced_run [OF assms(1)] by (simp add: sequenced_def in_sequence_def)
  moreover obtain i j where ij: "i < length ?ms" "?ms ! i = a" "j < length ?ms" "?ms ! j = b"
    using assms(2,3) by (auto simp: in_set_conv_nth)
  ultimately have "finishOn (objs ?w ! a) \<le> startOn (objs ?w ! b) \<or> finishOn (objs ?w ! b) \<le> startOn (objs ?w ! a)"
    using assms(4) by (metis nat_neq_iff sorted_wrt_iff_nth_less)
  then show ?thesis using assms(5,6) by auto
qed

definition linear :: "rat \<Rightarrow> rat" where "linear pos = pos"

definition end_opts :: "rat \<Rightarrow> effect_options" where
  "end_opts d = (DefaultOptions linear)\<lparr>duration := d, queue := QString QEnd\<rparr>"

theorem queued_effects_never_overlap_witness:
  "\<not> (startOn (objs (fx_run [Submit 100 (end_opts 1), Submit 200 (end_opts 2)]) ! 1) \<le> 500
     \<and> 500 < finishOn (objs (fx_run [Submit 100 (end_opts 1), Submit 200 (end_opts 2)]) ! 1))"
  by (rule queued_effects_never_overlap [where a = 0 and n = "''global''"])
    (simp_all add: at_end_def end_opts_def DefaultOptions_def fx_run_def start_effect_def add_effect_def Let_def
      empty_world_def new_squeue_def get_queue_def put_queue_def log_note_def update_obj_def make_effect_def
      add_timestamp_def max_or_def)

text \<open>C35: whatever is submitted and whenever the timers fire, the timer of a queue is set
  exactly while the queue has members.\<close>

theorem timer_runs_iff_members:
  "interval (get_queue (fx_run es) n) \<longleftrightarrow> members (get_queue (fx_run es) n) \<noteq> []"
  using timer_run [of es] by (simp add: timer_ok_def)

subsection \<open>What is in a queue\<close>

text \<open>A queue holds each effect once, and only effects whose options name it.\<close>

definition housed :: "world \<Rightarrow> bool" where
  "housed w \<longleftrightarrow> (\<forall>n. distinct (members (get_queue w n)) \<and> (\<forall>i \<in> set (members (get_queue w n)).
     i < length (objs w) \<and> \<not> sync (options (objs w ! i)) \<and> queue_scope (queue (options (objs w ! i))) = n))"

lemma shift_idle_options [simp]: "options (shift_idle d e) = options e"
  by (simp add: shift_idle_def)

lemma update_options: "(\<And>e. options (f e) = options e) \<Longrightarrow> map options (objs (update_obj i f w)) = map options (objs w)"
  by (simp add: update_obj_def map_update list_update_same_conv)

lemma fold_shift_objs:
  "length (objs (fold (\<lambda>j. update_obj j (shift_idle d)) js w)) = length (objs w)"
  "map options (objs (fold (\<lambda>j. update_obj j (shift_idle d)) js w)) = map options (objs w)"
  by (induction js arbitrary: w) (auto simp: update_obj_def map_update list_update_same_conv)

lemma add_options: "map options (objs (add_effect now i w)) = map options (objs w)"
  by (simp add: add_effect_def Let_def update_options fold_shift_objs)

lemma add_members:
  "members (get_queue (add_effect now i w) m) = members (get_queue w m)
   \<or> m = queue_scope (queue (options (objs w ! i))) \<and> members (get_queue (add_effect now i w) m) = members (get_queue w m) @ [i]"
  by (simp add: add_effect_def Let_def)

lemma housed_step:
  assumes "housed w" shows "housed (fx_step e w)"
proof (cases e)
  case (Tick t n)
  note same = queue_loop_same [of w t n]
  have "distinct (members (get_queue (queue_loop t n w) m)) \<and> set (members (get_queue (queue_loop t n w) m)) \<subseteq> set (members (get_queue w m))" for m
  proof -
    obtain P where "members (get_queue (queue_loop t n w) m) = filter P (members (get_queue w m))"
      using queue_loop_fewer unfolding fewer_def by blast
    then show ?thesis using assms by (auto simp: housed_def)
  qed
  then show ?thesis
    using assms same_schedules_length [OF same] same_schedules_nth(3) [OF same]
    unfolding housed_def Tick fx_step.simps by (metis subset_code(1))
next
  case (Submit now opts)
  let ?i = "length (objs w)"
  define w1 where "w1 = w\<lparr>objs := objs w @ [(make_effect opts)\<lparr>notices := [BeforeStart]\<rparr>]\<rparr>"
  have i: "options (objs w1 ! ?i) = opts" by (simp add: w1_def make_effect_def Let_def)
  have w: "fx_step e w = (if sync opts then w1 else add_effect now ?i w1)"
    by (simp add: Submit start_effect_def Let_def log_new w1_def make_effect_def)
  have old: "distinct (members (get_queue w m)) \<and> (\<forall>j \<in> set (members (get_queue w m)).
     j < ?i \<and> \<not> sync (options (objs w1 ! j)) \<and> queue_scope (queue (options (objs w1 ! j))) = m)" for m
    using assms by (auto simp: housed_def w1_def nth_append)
  have h1: "housed w1" using old by (fastforce simp: housed_def w1_def)
  have len: "length (objs (add_effect now ?i w1)) = Suc ?i"
    using map_eq_imp_length_eq [OF add_options [of now ?i w1]] by (simp add: w1_def)
  have nth: "options (objs (add_effect now ?i w1) ! j) = options (objs w1 ! j)" if "j < Suc ?i" for j
  proof -
    have "map options (objs (add_effect now ?i w1)) ! j = map options (objs w1) ! j" by (simp only: add_options)
    moreover have "j < length (objs w1)" "j < length (objs (add_effect now ?i w1))" using that len by (simp_all add: w1_def)
    ultimately show ?thesis by (simp only: nth_map)
  qed
  have "housed (add_effect now ?i w1)" if "\<not> sync opts"
    unfolding housed_def
  proof (intro allI)
    fix m
    have g: "members (get_queue w1 m) = members (get_queue w m)" by (simp add: w1_def)
    let ?v = "add_effect now ?i w1"
    let ?P = "\<lambda>j. j < length (objs ?v) \<and> \<not> sync (options (objs ?v ! j)) \<and> queue_scope (queue (options (objs ?v ! j))) = m"
    have d: "distinct (members (get_queue w m))" and fresh: "?i \<notin> set (members (get_queue w m))"
      using old [of m] by auto
    have P: "?P j" if "j \<in> set (members (get_queue w m))" for j
    proof -
      from old [of m] that have "j < ?i \<and> \<not> sync (options (objs w1 ! j)) \<and> queue_scope (queue (options (objs w1 ! j))) = m"
        by blast
      then show ?thesis using nth [of j] len by simp
    qed
    from add_members [of now ?i w1 m]
    show "distinct (members (get_queue ?v m)) \<and> (\<forall>j \<in> set (members (get_queue ?v m)). ?P j)"
    proof
      assume "members (get_queue ?v m) = members (get_queue w1 m)"
      then show ?thesis using d P by (simp add: g)
    next
      assume m: "m = queue_scope (queue (options (objs w1 ! ?i))) \<and> members (get_queue ?v m) = members (get_queue w1 m) @ [?i]"
      then have "?P ?i" using nth [of ?i] len i that by simp
      then show ?thesis using m d P fresh by (auto simp: g)
    qed
  qed
  with h1 w show ?thesis by simp
qed

lemma housed_run: "housed (fx_run es)"
proof -
  have "housed w \<Longrightarrow> housed (fold fx_step es w)" for w
    by (induction es arbitrary: w) (auto simp: housed_step)
  moreover have "housed empty_world" by (simp add: housed_def empty_world_def get_queue_def new_squeue_def)
  ultimately show ?thesis by (simp add: fx_run_def)
qed
text \<open>C31: a tick of a queue all of whose members are due finishes every other one of them, since
  the removals shift the array under the loop; the ones it skips stay for the next tick.\<close>

theorem tick_skips_every_second:
  assumes "list_all (\<lambda>i. startOn (objs (fx_run es) ! i) \<le> t \<and> finishOn (objs (fx_run es) ! i) \<le> t)
      (members (get_queue (fx_run es) n))"
  shows "members (get_queue (queue_loop t n (fx_run es)) n) = every_second (members (get_queue (fx_run es) n))"
  by (rule tick_expired) (use assms housed_run [of es] in \<open>auto simp: housed_def expired_def list_all_iff\<close>)

definition par_opts :: effect_options where
  "par_opts = (DefaultOptions linear)\<lparr>queue := QObject QParallel ''menu'' 0\<rparr>"

lemmas fx_simps = fx_run_def start_effect_def add_effect_def Let_def empty_world_def new_squeue_def
  get_queue_def put_queue_def log_note_def update_obj_def make_effect_def add_timestamp_def max_or_def
  DefaultOptions_def

theorem tick_skips_every_second_witness:
  "members (get_queue (queue_loop 2000 ''menu'' (fx_run [Submit 0 par_opts, Submit 10 par_opts, Submit 20 par_opts])) ''menu'')
   = every_second (members (get_queue (fx_run [Submit 0 par_opts, Submit 10 par_opts, Submit 20 par_opts]) ''menu''))"
  by (rule tick_skips_every_second) (simp add: fx_simps par_opts_def)

text \<open>Ticks that keep coming empty the queue: halving the members each time is enough.\<close>

lemma expired_later: "expired t n w i \<Longrightarrow> t \<le> t' \<Longrightarrow> expired t' n w i"
  by (auto simp: expired_def)

theorem ticks_empty_queue:
  assumes "length (members (get_queue w n)) < 2 ^ length ts" "distinct (members (get_queue w n))"
    "\<forall>i \<in> set (members (get_queue w n)). expired t n w i" "\<forall>t' \<in> set ts. t \<le> t'"
  shows "members (get_queue (fold (\<lambda>t. queue_loop t n) ts w) n) = []"
  using assms
proof (induction ts arbitrary: w)
  case (Cons t' ts)
  let ?w = "queue_loop t' n w" let ?ms = "members (get_queue w n)"
  have ms: "members (get_queue ?w n) = every_second ?ms"
    using Cons.prems by (intro tick_expired) (auto intro: expired_later)
  have "members (get_queue (fold (\<lambda>t. queue_loop t n) ts ?w) n) = []"
  proof (rule Cons.IH)
    show "length (members (get_queue ?w n)) < 2 ^ length ts"
      using Cons.prems(1) by (simp add: ms length_every_second)
    show "distinct (members (get_queue ?w n))" using Cons.prems(2) by (simp add: ms distinct_every_second)
    show "\<forall>i \<in> set (members (get_queue ?w n)). expired t n ?w i"
      using Cons.prems(3) set_every_second [of ?ms] expired_same [OF queue_loop_same] by (auto simp: ms)
  qed (use Cons.prems in simp)
  then show ?case by simp
qed simp

section \<open>How an effect ends\<close>


lemma cancel_length [simp]: "length (objs (cancel i w)) = length (objs w)"
  using same_schedules_length [OF cancel_same] .




text \<open>An effect put at the front: the idle members move behind its end.\<close>

theorem front_goes_first:
  assumes "i < length (objs w)" "queue_position (queue (options (objs w ! i))) = QFront"
    "j \<in> set (members (get_queue w (queue_scope (queue (options (objs w ! i))))))" "j < length (objs w)" "j \<noteq> i"
    "distinct (members (get_queue w (queue_scope (queue (options (objs w ! i))))))"
    "state (objs w ! j) = Idle" "now \<le> startOn (objs w ! j)"
    "i \<notin> set (members (get_queue w (queue_scope (queue (options (objs w ! i))))))"
  shows "finishOn (objs (add_effect now i w) ! i) \<le> startOn (objs (add_effect now i w) ! j)"
proof -
  let ?ms = "members (get_queue w (queue_scope (queue (options (objs w ! i)))))"
  let ?f = "shift_idle (finishOn (objs w ! i))"
  have nth: "objs (fold (\<lambda>j. update_obj j ?f) js v) ! k = (if k \<in> set js then ?f (objs v ! k) else objs v ! k)"
    if "k < length (objs v)" "distinct js" for js k and v :: world
    using that by (induction js arbitrary: v) (auto simp: nth_update)
  have "objs (add_effect now i w) ! j = ?f (objs w ! j)"
    using assms by (simp add: add_effect_def Let_def nth_update nth fold_shift_objs)
  moreover have "finishOn (objs (add_effect now i w) ! i) = finishOn (objs w ! i) + now"
    using assms by (simp add: add_effect_def Let_def nth_update nth fold_shift_objs add_timestamp_def)
  ultimately show ?thesis using assms(7,8) by (simp add: shift_idle_def)
qed
end
