(* ===== verification/FlotHover.thy ===== *)
theory FlotHover
  imports FlotData
begin

text \<open>
  The interactive part of \<open>jquery.flot.js\<close>: finding the data item under the mouse
  (\<open>findNearbyItem\<close>), and the list of highlighted items that mouse events and the plot's
  clients change.  A series is identified by its place in the plot.
\<close>

section \<open>The item under the mouse\<close>

type_synonym item = "nat \<times> nat"











section \<open>The nearest point ser found\<close>
















section \<open>Highlights\<close>

record highlight =
  h_series :: nat
  h_x :: "rat option"
  h_y :: "rat option"
  h_auto :: "string option"

record hl_state =
  highlights :: "highlight list"
  redraw :: bool

definition same_spot :: "nat \<Rightarrow> rat option \<Rightarrow> rat option \<Rightarrow> highlight \<Rightarrow> bool" where
  "same_spot s x y h \<longleftrightarrow> h_series h = s \<and> h_x h = x \<and> h_y h = y"

fun index_where :: "('a \<Rightarrow> bool) \<Rightarrow> 'a list \<Rightarrow> nat option" where
  "index_where P [] = None"
| "index_where P (x # xs) = (if P x then Some 0 else map_option Suc (index_where P xs))"

definition indexOfHighlight :: "nat \<Rightarrow> rat option \<Rightarrow> rat option \<Rightarrow> highlight list \<Rightarrow> nat option" where
  "indexOfHighlight s x y = index_where (same_spot s x y)"

definition triggerRedrawOverlay :: "hl_state \<Rightarrow> hl_state" where
  "triggerRedrawOverlay st = st\<lparr>redraw := True\<rparr>"

text \<open>\<open>highlight\<close>, for a point given by its coordinates; \<open>auto\<close> names the event, or is not given.\<close>

definition highlight_at :: "nat \<Rightarrow> rat option \<Rightarrow> rat option \<Rightarrow> string option \<Rightarrow> hl_state \<Rightarrow> hl_state" where
  "highlight_at s x y a st =
     (case indexOfHighlight s x y (highlights st) of
        None \<Rightarrow> triggerRedrawOverlay (st\<lparr>highlights := highlights st @ [\<lparr>h_series = s, h_x = x, h_y = y, h_auto = a\<rparr>]\<rparr>)
      | Some i \<Rightarrow> (if a = None then st\<lparr>highlights := (highlights st)[i := (highlights st ! i)\<lparr>h_auto := None\<rparr>]\<rparr> else st))"

text \<open>\<open>highlights.splice(i, 1)\<close>\<close>

definition splice_one :: "nat \<Rightarrow> 'a list \<Rightarrow> 'a list" where
  "splice_one i xs = take i xs @ drop (Suc i) xs"

definition unhighlight_at :: "nat \<Rightarrow> rat option \<Rightarrow> rat option \<Rightarrow> hl_state \<Rightarrow> hl_state" where
  "unhighlight_at s x y st =
     (case indexOfHighlight s x y (highlights st) of
        None \<Rightarrow> st
      | Some i \<Rightarrow> triggerRedrawOverlay (st\<lparr>highlights := splice_one i (highlights st)\<rparr>))"

definition unhighlight_all :: "hl_state \<Rightarrow> hl_state" where
  "unhighlight_all st = triggerRedrawOverlay (st\<lparr>highlights := []\<rparr>)"

text \<open>A point given by its number: \<open>highlight\<close> takes it from the processed points, \<open>unhighlight\<close> from the raw data.\<close>

definition point_coord :: "point \<Rightarrow> nat \<Rightarrow> rat option" where
  "point_coord pt m = (if m < length pt then pt ! m else None)"

definition highlight_nth :: "series list \<Rightarrow> nat \<Rightarrow> nat \<Rightarrow> string option \<Rightarrow> hl_state \<Rightarrow> hl_state" where
  "highlight_nth ss s n a st =
     (let pts = dp_points (sdatapoints (ss ! s)); pt = (if n < length pts then pts ! n else [])
      in highlight_at s (point_coord pt 0) (point_coord pt 1) a st)"

text \<open>What a raw coordinate can be equal to; \<open>NaN\<close> and the infinities are equal to no coordinate of a point.\<close>

fun raw_equal :: "raw \<Rightarrow> rat option \<Rightarrow> bool" where
  "raw_equal RawNull c = (c = None)"
| "raw_equal (RawNumber v) c = (c = Some v)"
| "raw_equal RawNaN c = False"
| "raw_equal RawInf c = False"
| "raw_equal RawNegInf c = False"

definition unhighlight_nth :: "series list \<Rightarrow> nat \<Rightarrow> nat \<Rightarrow> hl_state \<Rightarrow> hl_state js" where
  "unhighlight_nth ss s n st =
     (case aref (sdata (ss ! s)) n of
        Some (Some p) \<Rightarrow>
          ok (case index_where (\<lambda>h. h_series h = s \<and> raw_equal (raw_coord p 0) (h_x h) \<and> raw_equal (raw_coord p 1) (h_y h)) (highlights st) of
                None \<Rightarrow> st
              | Some i \<Rightarrow> triggerRedrawOverlay (st\<lparr>highlights := splice_one i (highlights st)\<rparr>))
      | _ \<Rightarrow> (if list_ex (\<lambda>h. h_series h = s) (highlights st) then raise TypeError else ok st))"

text \<open>The item of a mouse event, as the loop that clears old highlights compares it.\<close>

type_synonym spot = "nat \<times> rat option \<times> rat option"

definition at_spot :: "spot option \<Rightarrow> highlight \<Rightarrow> bool" where
  "at_spot item h = (case item of None \<Rightarrow> False | Some (s, x, y) \<Rightarrow> same_spot s x y h)"

text \<open>The loop goes on with the next index after a removal, which has moved the rest down.\<close>

function clear_auto :: "string \<Rightarrow> spot option \<Rightarrow> nat \<Rightarrow> hl_state \<Rightarrow> hl_state" where
  "clear_auto ev item i st =
     (if i < length (highlights st)
      then (let h = highlights st ! i
            in clear_auto ev item (Suc i)
                 (if h_auto h = Some ev \<and> \<not> at_spot item h then unhighlight_at (h_series h) (h_x h) (h_y h) st else st))
      else st)"
  by pat_completeness auto

lemma index_where_Some: "index_where P xs = Some i \<Longrightarrow> i < length xs \<and> P (xs ! i)"
  by (induction xs arbitrary: i) (auto split: if_splits)

lemma index_where_None: "index_where P xs = None \<longleftrightarrow> (\<forall>x \<in> set xs. \<not> P x)"
  by (induction xs) auto

lemma unhighlight_length: "length (highlights (unhighlight_at s x y st)) \<le> length (highlights st)"
  by (auto simp: unhighlight_at_def indexOfHighlight_def triggerRedrawOverlay_def splice_one_def split: option.split)

termination clear_auto
proof (relation "measure (\<lambda>(ev, item, i, st). length (highlights st) - i)")
  fix ev :: string and item :: "spot option" and i :: nat and st :: hl_state and h :: highlight
  assume "i < length (highlights st)"
  then show "((ev, item, Suc i, if h_auto h = Some ev \<and> \<not> at_spot item h then unhighlight_at (h_series h) (h_x h) (h_y h) st else st),
      ev, item, i, st) \<in> measure (\<lambda>(ev, item, i, st). length (highlights st) - i)"
    using unhighlight_length [of "h_series h" "h_x h" "h_y h" st] by auto
qed simp

declare clear_auto.simps [simp del]

text \<open>\<open>triggerClickHoverEvent\<close>, as far as it touches the highlights.\<close>

definition pointer_event :: "bool \<Rightarrow> string \<Rightarrow> spot option \<Rightarrow> hl_state \<Rightarrow> hl_state" where
  "pointer_event autoHighlight ev item st =
     (if autoHighlight
      then (let st1 = clear_auto ev item 0 st
            in case item of None \<Rightarrow> st1 | Some (s, x, y) \<Rightarrow> highlight_at s x y (Some ev) st1)
      else st)"

text \<open>\<open>drawOverlay\<close> resets the timer.\<close>

definition drawOverlay :: "hl_state \<Rightarrow> hl_state" where
  "drawOverlay st = st\<lparr>redraw := False\<rparr>"

section \<open>The highlights follow the mouse\<close>

text \<open>The states a plot can be in: its clients highlight and unhighlight points, and events come in.\<close>

inductive hl_reach :: "hl_state \<Rightarrow> bool" where
  start: "hl_reach \<lparr>highlights = [], redraw = False\<rparr>"
| event: "hl_reach st \<Longrightarrow> hl_reach (pointer_event b ev item st)"
| mark: "hl_reach st \<Longrightarrow> hl_reach (highlight_at s x y None st)"
| unmark: "hl_reach st \<Longrightarrow> hl_reach (unhighlight_at s x y st)"
| clear: "hl_reach st \<Longrightarrow> hl_reach (unhighlight_all st)"
| redrawn: "hl_reach st \<Longrightarrow> hl_reach (drawOverlay st)"

definition spot_of :: "highlight \<Rightarrow> spot" where
  "spot_of h = (h_series h, h_x h, h_y h)"

definition auto_of :: "string \<Rightarrow> highlight list \<Rightarrow> highlight list" where
  "auto_of ev = filter (\<lambda>h. h_auto h = Some ev)"

text \<open>No point is highlighted twice, and an event has highlighted at most one.\<close>

definition hl_ok :: "highlight list \<Rightarrow> bool" where
  "hl_ok hs \<longleftrightarrow> distinct (map spot_of hs) \<and> (\<forall>ev. length (auto_of ev hs) \<le> 1)"

lemma same_spot_of: "same_spot s x y h \<longleftrightarrow> spot_of h = (s, x, y)"
  by (auto simp: same_spot_def spot_of_def)

lemma splice_filter:
  assumes "distinct (map f xs)" "i < length xs"
  shows "splice_one i xs = filter (\<lambda>x. f x \<noteq> f (xs ! i)) xs"
  using assms
proof (induction xs arbitrary: i)
  case (Cons x xs)
  show ?case
  proof (cases i)
    case 0
    have "\<forall>y \<in> set xs. f y \<noteq> f x" using Cons.prems(1) by (auto simp: image_iff)
    then show ?thesis using 0 by (simp add: splice_one_def)
  next
    case (Suc j)
    then have "f x \<noteq> f (xs ! j)" using Cons.prems by (auto simp: image_iff)
    with Suc Cons show ?thesis by (simp add: splice_one_def)
  qed
qed simp

lemma unhighlight_filter:
  assumes "distinct (map spot_of (highlights st))"
  shows "highlights (unhighlight_at s x y st) = filter (\<lambda>h. spot_of h \<noteq> (s, x, y)) (highlights st)"
proof (cases "index_where (same_spot s x y) (highlights st)")
  case None
  then have "\<forall>h \<in> set (highlights st). spot_of h \<noteq> (s, x, y)" by (simp add: index_where_None same_spot_of)
  with None show ?thesis by (simp add: unhighlight_at_def indexOfHighlight_def)
next
  case (Some i)
  then have "i < length (highlights st)" "spot_of (highlights st ! i) = (s, x, y)"
    using index_where_Some [OF Some] by (auto simp: same_spot_of)
  with Some splice_filter [OF assms, of i] show ?thesis
    by (simp add: unhighlight_at_def indexOfHighlight_def triggerRedrawOverlay_def)
qed

lemma hl_ok_filter: "hl_ok hs \<Longrightarrow> hl_ok (filter P hs)"
proof -
  assume ok: "hl_ok hs"
  have "auto_of ev (filter P hs) = filter P (auto_of ev hs)" for ev
    by (simp add: auto_of_def conj_commute)
  then have "length (auto_of ev (filter P hs)) \<le> length (auto_of ev hs)" for ev by simp
  with ok show ?thesis by (auto simp: hl_ok_def distinct_map_filter intro: order_trans)
qed

text \<open>
  The clearing loop: as an event has highlighted at most one point, skipping an index after a
  removal does no harm.
\<close>

definition stays :: "string \<Rightarrow> spot option \<Rightarrow> highlight \<Rightarrow> bool" where
  "stays ev item h \<longleftrightarrow> h_auto h = Some ev \<longrightarrow> at_spot item h"

lemma clear_auto_none:
  assumes "\<forall>k \<ge> i. k < length (highlights st) \<longrightarrow> stays ev item (highlights st ! k)"
  shows "clear_auto ev item i st = st"
  using assms
proof (induction "length (highlights st) - i" arbitrary: i)
  case 0
  then show ?case by (simp add: clear_auto.simps)
next
  case (Suc n)
  then have "clear_auto ev item (Suc i) st = st" by auto
  with Suc show ?case by (subst clear_auto.simps) (auto simp: Let_def stays_def)
qed

lemma auto_of_unique:
  assumes "hl_ok hs" "i < length hs" "j < length hs" "h_auto (hs ! i) = Some ev" "h_auto (hs ! j) = Some ev"
  shows "i = j"
proof (rule ccontr)
  assume "i \<noteq> j"
  have sub: "{i, j} \<subseteq> {k. k < length hs \<and> h_auto (hs ! k) = Some ev}" using assms by auto
  have "card {i, j} \<le> card {k. k < length hs \<and> h_auto (hs ! k) = Some ev}" by (rule card_mono [OF _ sub]) simp
  moreover have "length (auto_of ev hs) = card {k. k < length hs \<and> h_auto (hs ! k) = Some ev}"
    by (simp add: auto_of_def length_filter_conv_card)
  moreover have "length (auto_of ev hs) \<le> 1" using assms(1) by (simp add: hl_ok_def)
  ultimately show False using \<open>i \<noteq> j\<close> by simp
qed

lemma clear_auto_filter:
  assumes "hl_ok (highlights st)" "\<forall>k < i. k < length (highlights st) \<longrightarrow> stays ev item (highlights st ! k)"
  shows "highlights (clear_auto ev item i st) = filter (stays ev item) (highlights st)"
  using assms(2)
proof (induction "length (highlights st) - i" arbitrary: i)
  case 0
  then have "\<forall>h \<in> set (highlights st). stays ev item h" by (auto simp: in_set_conv_nth)
  with 0 show ?case by (simp add: clear_auto.simps)
next
  case (Suc n)
  let ?hs = "highlights st"
  let ?h = "?hs ! i"
  have i: "i < length ?hs" using Suc.hyps(2) by simp
  show ?case
  proof (cases "stays ev item ?h")
    case True
    then have "clear_auto ev item i st = clear_auto ev item (Suc i) st"
      using i by (subst clear_auto.simps) (auto simp: stays_def Let_def)
    moreover have "\<forall>k < Suc i. k < length ?hs \<longrightarrow> stays ev item (?hs ! k)" using Suc.prems True less_Suc_eq by auto
    ultimately show ?thesis using Suc.hyps(1) [of "Suc i"] Suc.hyps(2) by simp
  next
    case False
    let ?st = "unhighlight_at (h_series ?h) (h_x ?h) (h_y ?h) st"
    have dist: "distinct (map spot_of ?hs)" using assms(1) by (simp add: hl_ok_def)
    have st: "highlights ?st = filter (\<lambda>h. spot_of h \<noteq> spot_of ?h) ?hs"
      using unhighlight_filter [OF dist] by (simp add: spot_of_def)
    have others: "stays ev item h" if "h \<in> set ?hs" "spot_of h \<noteq> spot_of ?h" for h
    proof -
      from that(1) obtain j where "j < length ?hs" "?hs ! j = h" by (auto simp: in_set_conv_nth)
      with auto_of_unique [OF assms(1) i, of j ev] that(2) False show ?thesis by (auto simp: stays_def)
    qed
    have "clear_auto ev item i st = clear_auto ev item (Suc i) ?st"
      using False i by (subst clear_auto.simps) (auto simp: stays_def Let_def)
    also have "\<dots> = ?st"
    proof (rule clear_auto_none, intro allI impI)
      fix k assume "k < length (highlights ?st)"
      then have "highlights ?st ! k \<in> set (filter (\<lambda>h. spot_of h \<noteq> spot_of ?h) ?hs)" by (metis nth_mem st)
      then show "stays ev item (highlights ?st ! k)" using others by simp
    qed
    finally have "highlights (clear_auto ev item i st) = filter (\<lambda>h. spot_of h \<noteq> spot_of ?h) ?hs" by (simp add: st)
    also have "\<dots> = filter (stays ev item) ?hs"
    proof (rule filter_cong [OF refl])
      fix h assume h: "h \<in> set ?hs"
      have "h = ?h" if "spot_of h = spot_of ?h"
        using dist h i that by (metis inj_on_eq_iff distinct_map nth_mem)
      then show "(spot_of h \<noteq> spot_of ?h) = stays ev item h" using others [OF h] False by metis
    qed
    finally show ?thesis .
  qed
qed

lemma highlight_at_ok:
  assumes "hl_ok (highlights st)" "case a of None \<Rightarrow> True | Some ev \<Rightarrow> list_all (stays ev (Some (s, x, y))) (highlights st)"
  shows "hl_ok (highlights (highlight_at s x y a st))"
proof (cases "index_where (same_spot s x y) (highlights st)")
  case None
  then have new: "\<forall>h \<in> set (highlights st). spot_of h \<noteq> (s, x, y)" by (simp add: index_where_None same_spot_of)
  let ?h = "\<lparr>h_series = s, h_x = x, h_y = y, h_auto = a\<rparr>"
  have "length (auto_of ev (highlights st @ [?h])) \<le> 1" for ev
  proof (cases "a = Some ev")
    case True
    then have "auto_of ev (highlights st) = []"
      using assms(2) new by (auto simp: auto_of_def filter_empty_conv list_all_iff stays_def at_spot_def same_spot_of)
    then show ?thesis by (simp add: auto_of_def)
  next
    case False
    then show ?thesis using assms(1) by (auto simp: auto_of_def hl_ok_def)
  qed
  moreover have "distinct (map spot_of (highlights st @ [?h]))"
    using assms(1) new by (auto simp: hl_ok_def spot_of_def [of ?h])
  ultimately show ?thesis using None by (simp add: highlight_at_def indexOfHighlight_def triggerRedrawOverlay_def hl_ok_def)
next
  case (Some i)
  let ?hs = "highlights st" and ?hs' = "(highlights st)[i := (highlights st ! i)\<lparr>h_auto := None\<rparr>]"
  have i: "i < length ?hs" using index_where_Some [OF Some] by simp
  have "map spot_of ?hs' = map spot_of ?hs"
    using i by (simp add: map_update spot_of_def list_update_same_conv)
  moreover have "length (auto_of ev ?hs') \<le> length (auto_of ev ?hs)" for ev
  proof -
    have "h_auto (?hs ! k) = Some ev" if "k < length ?hs" "h_auto (?hs' ! k) = Some ev" for k
      using that by (cases "k = i") simp_all
    then have "{k. k < length ?hs' \<and> h_auto (?hs' ! k) = Some ev} \<subseteq> {k. k < length ?hs \<and> h_auto (?hs ! k) = Some ev}"
      by auto
    then show ?thesis unfolding auto_of_def length_filter_conv_card by (intro card_mono) auto
  qed
  ultimately have "hl_ok ?hs'" using assms(1) unfolding hl_ok_def by (metis order_trans)
  then show ?thesis using Some assms(1) by (simp add: highlight_at_def indexOfHighlight_def)
qed

lemma hl_ok_pointer: "hl_ok (highlights st) \<Longrightarrow> hl_ok (highlights (pointer_event b ev item st))"
proof -
  assume ok: "hl_ok (highlights st)"
  have c: "highlights (clear_auto ev item 0 st) = filter (stays ev item) (highlights st)"
    using clear_auto_filter [OF ok, of 0] by simp
  show ?thesis
  proof (cases item)
    case None
    have "hl_ok (highlights (clear_auto ev item 0 st))" using hl_ok_filter [OF ok] by (simp add: c)
    then show ?thesis using ok None by (simp add: pointer_event_def)
  next
    case (Some spot)
    obtain s x y where spot: "spot = (s, x, y)" by (metis prod.exhaust)
    have "hl_ok (highlights (highlight_at s x y (Some ev) (clear_auto ev (Some (s, x, y)) 0 st)))"
      using hl_ok_filter [OF ok] c [unfolded Some spot] by (intro highlight_at_ok) (simp_all add: list_all_iff)
    then show ?thesis using ok by (simp add: pointer_event_def Some spot)
  qed
qed

lemma hl_reach_ok: "hl_reach st \<Longrightarrow> hl_ok (highlights st)"
proof (induction rule: hl_reach.induct)
  case start
  then show ?case by (simp add: hl_ok_def auto_of_def)
next
  case (event st b ev item)
  then show ?case by (simp add: hl_ok_pointer)
next
  case (mark st s x y)
  then show ?case by (simp add: highlight_at_ok)
next
  case (unmark st s x y)
  then show ?case using unhighlight_filter hl_ok_filter by (metis hl_ok_def)
next
  case (clear st)
  then show ?case by (simp add: unhighlight_all_def triggerRedrawOverlay_def hl_ok_def auto_of_def)
next
  case (redrawn st)
  then show ?case by (simp add: drawOverlay_def)
qed
text \<open>C14: after a mouse event the points it has highlighted are those at the item under the mouse, and
  that item is highlighted; the highlights of clients and of other events are what they were, but
  for the item's own if it was not there.\<close>

theorem highlights_follow_mouse:
  assumes "hl_reach st" "pointer_event True ev item st = st'"
  shows "list_all (at_spot item) (auto_of ev (highlights st'))
    \<and> (item \<noteq> None \<longrightarrow> list_ex (at_spot item) (highlights st'))
    \<and> filter (\<lambda>h. h_auto h \<noteq> Some ev) (highlights st') = filter (\<lambda>h. h_auto h \<noteq> Some ev) (highlights st)"
proof -
  have ok: "hl_ok (highlights st)" using assms(1) by (rule hl_reach_ok)
  define hs where "hs = filter (stays ev item) (highlights st)"
  have c: "highlights (clear_auto ev item 0 st) = hs"
    using clear_auto_filter [OF ok, of 0] by (simp add: hs_def)
  have hs: "list_all (at_spot item) (auto_of ev hs)"
    "filter (\<lambda>h. h_auto h \<noteq> Some ev) hs = filter (\<lambda>h. h_auto h \<noteq> Some ev) (highlights st)"
    by (auto simp: hs_def auto_of_def stays_def list_all_iff intro!: filter_cong)
  show ?thesis
  proof (cases item)
    case None
    then have "highlights st' = hs" using assms(2) c by (auto simp: pointer_event_def)
    with hs None show ?thesis by simp
  next
    case (Some spot)
    obtain s x y where spot: "spot = (s, x, y)" by (metis prod.exhaust)
    have st': "st' = highlight_at s x y (Some ev) (clear_auto ev item 0 st)"
      using assms(2) by (simp add: pointer_event_def Some spot)
    show ?thesis
    proof (cases "index_where (same_spot s x y) hs")
      case None
      then have "highlights st' = hs @ [\<lparr>h_series = s, h_x = x, h_y = y, h_auto = Some ev\<rparr>]"
        by (simp add: st' highlight_at_def indexOfHighlight_def c triggerRedrawOverlay_def)
      with hs show ?thesis by (simp add: Some spot auto_of_def at_spot_def same_spot_def)
    next
      case (Some i)
      then have "highlights st' = hs" by (simp add: st' highlight_at_def indexOfHighlight_def c)
      moreover have "list_ex (at_spot item) hs"
        using index_where_Some [OF Some] \<open>item = Some spot\<close> nth_mem [of i hs]
        unfolding list_ex_iff by (intro bexI [of _ "hs ! i"]) (simp_all add: spot at_spot_def)
      ultimately show ?thesis using hs by simp
    qed
  qed
qed

theorem highlights_follow_mouse_witness:
  "list_ex (at_spot (Some (0, Some 3, Some 5)))
     (highlights (pointer_event True ''plothover'' (Some (0, Some 3, Some 5)) (highlight_at 1 (Some 2) (Some 2) None \<lparr>highlights = [], redraw = False\<rparr>)))"
  using highlights_follow_mouse [OF hl_reach.mark [OF hl_reach.start, of 1 "Some 2" "Some 2"] refl,
      where ev = "''plothover''" and item = "Some (0, Some 3, Some 5)"]
  by simp

text \<open>A change of the highlights always schedules a redraw.\<close>

lemma pointer_redraws:
  "highlights (unhighlight_at s x y st) \<noteq> highlights st \<Longrightarrow> redraw (unhighlight_at s x y st)"
  "length (highlights (highlight_at s x y a st)) \<noteq> length (highlights st) \<Longrightarrow> redraw (highlight_at s x y a st)"
  by (auto simp: unhighlight_at_def highlight_at_def triggerRedrawOverlay_def split: option.splits if_splits)

text \<open>A stepped line of two points: its third processed point is the second of the data.\<close>

definition stepped :: series where
  "stepped = (xy_series [(0, 1), (2, 3)])\<lparr>lines_show := Some True, lines_steps := True,
     sdatapoints := \<lparr>dp_format = [], dp_points = [[Some 0, Some 1], [Some 2, Some 1], [Some 2, Some 3]]\<rparr>\<rparr>"

lemma stepped_points:
  "dp_points (sdatapoints (fst (copy_series (stepped\<lparr>sdatapoints := \<lparr>dp_format = [], dp_points = []\<rparr>\<rparr>) (one_axis XDir, one_axis YDir))))
   = dp_points (sdatapoints stepped)"
  by (simp add: plot_simps stepped_def upt_two)

text \<open>\<open>unhighlight\<close> by number does not undo \<open>highlight\<close> by number: it counts in the raw data, not
  in the processed points, so on a stepped line another point is meant.\<close>

theorem unhighlight_by_number_misses:
  "unhighlight_nth [stepped] 0 1 (highlight_nth [stepped] 0 1 None \<lparr>highlights = [], redraw = False\<rparr>)
   = ok (highlight_nth [stepped] 0 1 None \<lparr>highlights = [], redraw = False\<rparr>)
   \<and> highlights (highlight_nth [stepped] 0 1 None \<lparr>highlights = [], redraw = False\<rparr>) \<noteq> []"
  by (simp add: unhighlight_nth_def highlight_nth_def highlight_at_def indexOfHighlight_def stepped_def xy_series_def
      default_series_def point_coord_def raw_coord_def triggerRedrawOverlay_def Let_def)



end
