(* ===== verification/Spec2Isabelle.thy ===== *)
theory Spec2Isabelle
  imports Deferred Ajax InPlaceEditor Forms Classes Json Templates JqCore JqData Sortable Canvas Enumerable ProtoText FlotGrid App Accordion Autocompleter EffectQueue FlotTicks FlotDraw FlotHover
begin

text \<open>
  The scripts of the web front end of the anomaly injector, in
  \<open>src/tools/webui/abnf_validator/public/javascripts\<close>: the application's own page handlers and line
  editor, and the libraries they are built on, as far as these hold logic of their own rather than
  work on the live page.

  The parts and how they interact.  \<open>application.js\<close> reacts to the results of Ajax calls, moves panes
  and fills the line-numbered editor of \<open>linedtextarea.js\<close>; panes fade through the function queues
  and effects of jQuery, and the administration page keeps a flag while they do.  The completion
  fields of \<open>controls.js\<close> send Ajax requests (\<open>prototype.js\<close>), and the lists they show are worked on
  by its collections; Scriptaculous (\<open>effects.js\<close>) times visual effects in named queues.  The output
  analyzer draws its charts with \<open>jquery.flot.js\<close>.

  The theories.
  \<^item> \<open>Prelude\<close>: errors as values and list lemmas; \<open>JsString\<close>: the strings of the language;
    \<open>JsValue\<close>: its values with truth, the two equalities and the order.
  \<^item> \<open>Page\<close>, \<open>App\<close>, \<open>Editor\<close>: the handlers of \<open>application.js\<close>, \<open>loading.js\<close> and \<open>linedtextarea.js\<close> as
    lists of commands to the page; that \<open>countlines\<close> selects the text of a line, raises an error
    past the last line, and that the report of a validation is shown exactly when it should be.
  \<^item> \<open>JqQueue\<close>: \<open>queue\<close>, \<open>dequeue\<close> and \<open>clearQueue\<close> of \<open>jquery.js\<close> over shared arrays; first in, first
    out.  \<open>Accordion\<close>: the fading panes of the administration page, the flag that guards them, and
    that the pages settle on the pane clicked last.
  \<^item> \<open>Deferred\<close>: \<open>_Deferred\<close>, \<open>Deferred\<close> and \<open>when\<close> of \<open>jquery.js\<close>, with callbacks that act on the
    object while they run; a deferred object is settled once and refines its contract, and \<open>when\<close>
    refines the join of its arguments.  The calls of a client run with the fuel \<open>weight\<close>, the number
    of callbacks that can still be called, which \<open>fire_enough\<close> shows to suffice.
  \<^item> \<open>AcTokens\<close>, \<open>Autocompleter\<close>: the completion fields of \<open>controls.js\<close>: token bounds, the local
    search, and the key, focus, timer and answer events as a state machine; no sequence of events
    makes a handler raise an error.
  \<^item> \<open>EffectQueue\<close>: the scoped queues and the clock of \<open>effects.js\<close>; queued effects do not overlap, the
    timer runs exactly while there are effects, and an effect ends at its last position.
  \<^item> \<open>Enumerable\<close>: the collection methods, arrays and ranges of \<open>prototype.js\<close> with iterators that may
    throw; they are the list functions they stand for.  The locale \<open>enumerable\<close> says what makes a
    type a collection; arrays and ranges interpret it.
  \<^item> \<open>ProtoText\<close>: the string methods of \<open>prototype.js\<close>: global replacement (a partial function, since
    a pattern that matches nothing makes it loop), inspected strings that read back, HTML escapes.
  \<^item> \<open>QueryString\<close>, \<open>Ajax\<close>: hashes, query strings and their round trip; what a request sends, and its
    state machine under all orders of transport events with callbacks that throw; the counter of
    active requests, the completion of a request, the back-off of the periodical updater.
  \<^item> \<open>FlotBase\<close>, \<open>FlotData\<close>, \<open>FlotTicks\<close>, \<open>FlotGrid\<close>, \<open>FlotDraw\<close>, \<open>FlotHover\<close>: \<open>jquery.flot.js\<close> over exact
    rationals: colours, axes and series; the ranges of the data and the coordinates; the sizes,
    places and labels of ticks; the layout of the frame, the grid and the legend; lines, areas,
    points and bars as lists of canvas calls, with clipping shown exact; the item under the mouse
    and the highlights.

  How the model reads.  A record holds the state of a component, a handler is a function from state
  to state, a raised exception is \<open>Inl\<close> of an error, and a loop whose end is a claim is a partial
  function into \<open>option\<close> or a function with fuel.  Numbers are rationals or integers where the
  code computes with them: rounding errors, \<open>NaN\<close> and the infinities appear only where a constructor
  stands for them.  A character is a code unit up to 255.  Measured sizes, times, answers of the
  server and callbacks of clients are arguments or events.

  Not modelled: the document itself (elements, selectors, styles, event binding), HTML texts built by
  the libraries, JSON evaluation, dates, drag and drop, the in-place editor, the kinds of effects,
  the canvas emulation, the minified scripts, and everything outside the scripts: the Rails
  application and the C++ injector.  Next in the plan: the array and class-name utilities of
  \<open>jquery.js\<close>, class creation in \<open>prototype.js\<close>, the in-place editor, sortable lists, and the
  combination of effects.
\<close>

end
